(* ===== verification/VR_Prelude.thy ===== *)
theory VR_Prelude
  imports Complex_Main "HOL-Library.Monad_Syntax" "HOL-Library.Signed_Division"
begin

text \<open>
  What every component shares: the C++ view of arrays and division, and the automation.

  \<^item> A value of type \<open>'a option\<close> is the outcome of a C++ computation: \<open>None\<close> stands for
    undefined behaviour (an index outside its array, a read of an uninitialised variable, a
    division by zero), \<open>Some\<close> for the value computed.
  \<^item> An \<open>int*\<close> with its allocation is a list; \<open>aget\<close> and \<open>aset\<close> are \<open>a[i]\<close> as a value and
    as a target, with the bounds of the allocation.
  \<^item> \<open>push_cells\<close> is the idiom \<open>a[cnt++] = x; a[cnt++] = y; \<dots>\<close> on an array of a fixed capacity.
  \<^item> C division truncates towards zero: \<open>sdiv\<close> and \<open>smod\<close> of the library, which agree with
    \<open>div\<close> and \<open>mod\<close> on non-negative operands.
\<close>

named_theorems ub_simps \<open>evaluation of the bounds-checked array primitives\<close>

section \<open>Arrays\<close>

definition aget :: "'a list \<Rightarrow> int \<Rightarrow> 'a option" where
  "aget xs i = (if 0 \<le> i \<and> i < int (length xs) then Some (xs ! nat i) else None)"

definition aset :: "'a list \<Rightarrow> int \<Rightarrow> 'a \<Rightarrow> 'a list option" where
  "aset xs i v = (if 0 \<le> i \<and> i < int (length xs) then Some (xs[nat i := v]) else None)"

lemma aget_in [ub_simps]: "0 \<le> i \<Longrightarrow> i < int (length xs) \<Longrightarrow> aget xs i = Some (xs ! nat i)"
  by (simp add: aget_def)

lemma aset_in [ub_simps]: "0 \<le> i \<Longrightarrow> i < int (length xs) \<Longrightarrow> aset xs i v = Some (xs[nat i := v])"
  by (simp add: aset_def)

lemma aget_Some_iff: "aget xs i = Some v \<longleftrightarrow> 0 \<le> i \<and> i < int (length xs) \<and> v = xs ! nat i"
  by (auto simp: aget_def)

lemma aset_Some_iff: "aset xs i v = Some ys \<longleftrightarrow> 0 \<le> i \<and> i < int (length xs) \<and> ys = xs[nat i := v]"
  by (auto simp: aset_def)

lemma aget_None_iff: "aget xs i = None \<longleftrightarrow> i < 0 \<or> int (length xs) \<le> i"
  by (auto simp: aget_def)

lemma aset_length: "aset xs i v = Some ys \<Longrightarrow> length ys = length xs"
  by (auto simp: aset_Some_iff)

lemma aget_aset: "aset xs i v = Some ys \<Longrightarrow> aget ys j = (if i = j then Some v else aget xs j)"
  by (auto simp: aset_Some_iff aget_def nth_list_update)

text \<open>\<open>a[cnt++] = x\<close> for every \<open>x\<close> of a list, on an array allocated with \<open>cap\<close> cells.\<close>

fun push_cells :: "nat \<Rightarrow> 'a list \<Rightarrow> 'a list \<Rightarrow> 'a list option" where
  "push_cells cap [] xs = Some xs"
| "push_cells cap (y # ys) xs =
     (if length xs < cap then push_cells cap ys (xs @ [y]) else None)"

lemma push_cells_eq:
  "push_cells cap ys xs =
     (if ys = [] \<or> length xs + length ys \<le> cap then Some (xs @ ys) else None)"
  by (induction ys arbitrary: xs) auto

lemma push_cells_Some [ub_simps]:
  "length xs + length ys \<le> cap \<Longrightarrow> push_cells cap ys xs = Some (xs @ ys)"
  by (simp add: push_cells_eq)

section \<open>Loops\<close>

text \<open>
  A \<open>for\<close> loop whose trip is known when it starts: the body runs on the state for every value
  of the list, and undefined behaviour of one pass is undefined behaviour of the loop.
\<close>

fun for_each :: "('x \<Rightarrow> 's \<Rightarrow> 's option) \<Rightarrow> 'x list \<Rightarrow> 's \<Rightarrow> 's option" where
  "for_each body [] s = Some s"
| "for_each body (x # xs) s = (case body x s of None \<Rightarrow> None | Some s' \<Rightarrow> for_each body xs s')"

lemma for_each_append:
  "for_each body (xs @ ys) s =
     (case for_each body xs s of None \<Rightarrow> None | Some s' \<Rightarrow> for_each body ys s')"
  by (induction xs arbitrary: s) (auto split: option.splits)

lemma for_each_total:
  assumes "I s" "\<And>x s. x \<in> set xs \<Longrightarrow> I s \<Longrightarrow> \<exists>s'. body x s = Some s' \<and> I s'"
  shows "\<exists>s'. for_each body xs s = Some s' \<and> I s'"
  using assms
proof (induction xs arbitrary: s)
  case (Cons x xs)
  from Cons.prems obtain s' where "body x s = Some s'" "I s'" by fastforce
  with Cons show ?case by simp
qed simp

text \<open>The loop rule with the values already done, in order, as the ghost of the invariant.\<close>

lemma for_each_rule:
  assumes "I [] s"
    and step: "\<And>done x rest s. xs = done @ x # rest \<Longrightarrow> I done s \<Longrightarrow>
                 \<exists>s'. body x s = Some s' \<and> I (done @ [x]) s'"
  shows "\<exists>s'. for_each body xs s = Some s' \<and> I xs s'"
proof -
  have "\<exists>s'. for_each body ys s = Some s' \<and> I ys s'" if "\<exists>zs. xs = ys @ zs" for ys
    using that
  proof (induction ys rule: rev_induct)
    case Nil
    then show ?case using assms(1) by simp
  next
    case (snoc y ys)
    then obtain s' where "for_each body ys s = Some s'" "I ys s'" by auto
    with step [of ys y _ s'] snoc.prems show ?case
      by (fastforce simp: for_each_append)
  qed
  then show ?thesis by blast
qed

lemma option_case_id [simp]: "(case x of None \<Rightarrow> None | Some y \<Rightarrow> Some y) = x"
  by (cases x) simp_all

text \<open>The loop that appends one value per pass.\<close>

lemma for_each_collect:
  "for_each (\<lambda>x acc. do { y \<leftarrow> f x; Some (acc @ [y]) }) xs acc =
     (case those (map f xs) of None \<Rightarrow> None | Some ys \<Rightarrow> Some (acc @ ys))"
  by (induction xs arbitrary: acc) (auto split: option.splits)

lemma for_each_collect_Nil:
  "for_each (\<lambda>x acc. do { y \<leftarrow> f x; Some (acc @ [y]) }) xs [] = those (map f xs)"
  by (simp only: for_each_collect append_Nil option_case_id)

lemma those_map_Some: "(\<And>x. x \<in> set xs \<Longrightarrow> f x = Some (g x)) \<Longrightarrow> those (map f xs) = Some (map g xs)"
  by (induction xs) auto

lemma those_None: "None \<in> set xs \<Longrightarrow> those xs = None"
  by (induction xs) (auto split: option.splits)

section \<open>Division\<close>

lemma row_major_div [simp]:
  fixes h w H :: int
  assumes "0 \<le> h" "h < H"
  shows "(w * H + h) div H = w"
  using assms by (simp add: div_add1_eq [of "w * H" h H] div_pos_pos_trivial)

lemma sdiv_nonneg [simp]: "0 \<le> a \<Longrightarrow> 0 < b \<Longrightarrow> (a :: int) sdiv b = a div b"
  by (cases "a = 0") (simp_all add: signed_divide_int_def)

lemma smod_nonneg [simp]: "0 \<le> a \<Longrightarrow> 0 < b \<Longrightarrow> (a :: int) smod b = a mod b"
  by (cases "a = 0") (simp_all add: signed_modulo_int_def)

text \<open>C's conversion of a double to an int.\<close>

definition trunc :: "rat \<Rightarrow> int" where
  "trunc x = (if 0 \<le> x then \<lfloor>x\<rfloor> else \<lceil>x\<rceil>)"

lemma trunc_of_int [simp]: "trunc (of_int n) = n" "trunc (numeral k) = numeral k" "trunc 0 = 0" "trunc 1 = 1"
  "trunc (- numeral k) = - numeral k"
  by (auto simp: trunc_def)

lemma div_mult_bounds:
  fixes a b k :: int
  assumes "0 \<le> a" "a < k * b" "0 < b"
  shows "0 \<le> a div b" "a div b < k"
proof -
  show "0 \<le> a div b" using assms by (simp add: pos_imp_zdiv_nonneg_iff)
  have "(a div b) * b \<le> a"
    using assms(3) by (simp add: minus_mod_eq_div_mult [symmetric])
  with assms(2) have "(a div b) * b < k * b" by simp
  with assms(3) show "a div b < k" by (simp add: mult_less_cancel_right)
qed

end
