(* ===== verification/Projection_Grid.thy ===== *)
theory Projection_Grid
  imports VR_Prelude
begin

text \<open>
  The tile grids of \<^verbatim>\<open>Projection.cpp\<close> (the same routines are compiled into the client through
  \<^verbatim>\<open>Tile.h\<close>): neighbours of a tile in one equirectangular face, with and without separate
  pole tiles, neighbours inside a cube face, and the eight direction functions.

  A grid has \<open>NO_TILE_H\<close> columns (\<open>tid_h\<close>) and \<open>NO_TILE_W\<close> rows (\<open>tid_w\<close>); a tile id is its
  row-major index. The \<open>fid\<close> member of the temporary \<open>Tile\<close> objects is neither written nor read
  by these routines, so a cell is the pair \<open>(tid_h, tid_w)\<close>. A \<open>None\<close> result is undefined
  behaviour: a division by zero or a store outside the array the routine allocates.
\<close>

record Tile =
  fid :: int
  tid_h :: int
  tid_w :: int

abbreviation mk_tile :: "int \<Rightarrow> int \<Rightarrow> int \<Rightarrow> Tile" where
  "mk_tile f h w \<equiv> \<lparr>fid = f, tid_h = h, tid_w = w\<rparr>"

type_synonym cell = "int \<times> int"

section \<open>One equirectangular face\<close>

text \<open>
  The wrapped column to the left and to the right, and the loop over the columns of a pole row
  that are not among the three already added.
\<close>

definition erp_left :: "int \<Rightarrow> int \<Rightarrow> int" where
  "erp_left H h = (if h - 1 \<ge> 0 then h - 1 else H - 1)"

definition erp_right :: "int \<Rightarrow> int \<Rightarrow> int" where
  "erp_right H h = (if h + 1 < H then h + 1 else 0)"

definition erp_pole_rest :: "int \<Rightarrow> int \<Rightarrow> int list" where
  "erp_pole_rest H h = filter (\<lambda>i. i \<noteq> h \<and> i \<noteq> erp_left H h \<and> i \<noteq> erp_right H h) [0..H - 1]"

definition getAdjacentTileERP :: "int \<Rightarrow> int \<Rightarrow> int \<Rightarrow> int list option" where
  "getAdjacentTileERP NO_TILE_H NO_TILE_W tid =
     (if NO_TILE_H = 0 then None else
      let tid_w = tid sdiv NO_TILE_H;
          tid_h = tid - tid_w * NO_TILE_H;
          left = erp_left NO_TILE_H tid_h;
          right = erp_right NO_TILE_H tid_h
      in do {
        adj \<leftarrow> (if tid_w - 1 \<ge> 0
                then push_cells 16 [(tid_h, tid_w - 1), (left, tid_w - 1), (right, tid_w - 1)] []
                else Some []);
        adj \<leftarrow> (if tid_w + 1 < NO_TILE_W
                then push_cells 16 [(tid_h, tid_w + 1), (left, tid_w + 1), (right, tid_w + 1)] adj
                else Some adj);
        adj \<leftarrow> push_cells 16 [(left, tid_w), (right, tid_w)] adj;
        adj \<leftarrow> (if tid_w = 0 \<or> tid_w = NO_TILE_W - 1
                then push_cells 16
                       (map (\<lambda>i. (i, tid_w)) (erp_pole_rest NO_TILE_H tid_h)) adj
                else Some adj);
        Some (map (\<lambda>(h, w). w * NO_TILE_H + h) adj)
      })"

text \<open>What the routine is for: the neighbours on a cylinder whose two end rows are poles.\<close>

definition erp_neighbour :: "int \<Rightarrow> int \<Rightarrow> cell \<Rightarrow> cell \<Rightarrow> bool" where
  "erp_neighbour H W = (\<lambda>(h, w) (h', w').
     0 \<le> h' \<and> h' < H \<and> 0 \<le> w' \<and> w' < W \<and>
     (if w' = w
      then h' \<noteq> h \<and> ((h' - h) mod H = 1 \<or> (h - h') mod H = 1 \<or> w = 0 \<or> w = W - 1)
      else \<bar>w' - w\<bar> = 1 \<and> (h' = h \<or> (h' - h) mod H = 1 \<or> (h - h') mod H = 1)))"

lemma ring_succ_iff:
  fixes h h' H :: int
  assumes "0 \<le> h" "h < H" "0 \<le> h'" "h' < H" "2 \<le> H"
  shows "(h' - h) mod H = 1 \<longleftrightarrow> h' = erp_right H h"
proof -
  have "(h' - h) mod H = (if h \<le> h' then h' - h else h' - h + H)"
    using assms mod_add_self2 [of "h' - h" H]
    by (auto simp: mod_pos_pos_trivial simp del: mod_add_self2)
  with assms show ?thesis by (auto simp: erp_right_def)
qed

lemma ring_pred_iff:
  fixes h h' H :: int
  assumes "0 \<le> h" "h < H" "0 \<le> h'" "h' < H" "2 \<le> H"
  shows "(h - h') mod H = 1 \<longleftrightarrow> h' = erp_left H h"
  using ring_succ_iff [of h' H h] assms by (auto simp: erp_left_def erp_right_def)

text \<open>The cells the routine collects, in its order, once no store leaves the array.\<close>

definition erp_cells :: "int \<Rightarrow> int \<Rightarrow> int \<Rightarrow> int \<Rightarrow> cell list" where
  "erp_cells H W h w =
     (let l = erp_left H h; r = erp_right H h in
        (if w - 1 \<ge> 0 then [(h, w - 1), (l, w - 1), (r, w - 1)] else [])
        @ (if w + 1 < W then [(h, w + 1), (l, w + 1), (r, w + 1)] else [])
        @ [(l, w), (r, w)]
        @ (if w = 0 \<or> w = W - 1 then map (\<lambda>i. (i, w)) (erp_pole_rest H h) else []))"

lemma length_erp_pole_rest:
  assumes "0 \<le> h" "h < H" "3 \<le> H"
  shows "int (length (erp_pole_rest H h)) = H - 3"
proof -
  let ?out = "{h, erp_left H h, erp_right H h}"
  have d: "distinct (erp_pole_rest H h)" by (simp add: erp_pole_rest_def)
  have s: "set (erp_pole_rest H h) = {0..H - 1} - ?out" by (auto simp: erp_pole_rest_def)
  have sub: "?out \<subseteq> {0..H - 1}" using assms by (auto simp: erp_left_def erp_right_def)
  have c3: "card ?out = 3" using assms by (auto simp: erp_left_def erp_right_def)
  have "length (erp_pole_rest H h) = card ({0..H - 1} - ?out)"
    using distinct_card [OF d] s by simp
  also have "\<dots> = nat H - 3" using sub c3 by (subst card_Diff_subset) auto
  finally show ?thesis using assms by simp
qed

lemma getAdjacentTileERP_cells:
  assumes "0 \<le> h" "h < H" "0 \<le> w" "w < W" "3 \<le> H" "H \<le> 14"
  shows "getAdjacentTileERP H W (w * H + h) = Some (map (\<lambda>(h, w). w * H + h) (erp_cells H W h w))"
proof -
  have len: "length (erp_pole_rest H h) \<le> 11"
    using length_erp_pole_rest [of h H] assms by simp
  have nn: "0 \<le> w * H + h" using assms by simp
  show ?thesis
    unfolding getAdjacentTileERP_def erp_cells_def Let_def
    using assms nn len
    by (simp add: push_cells_Some)
qed

lemma erp_columns:
  assumes "0 \<le> h" "h < H" "3 \<le> H"
  shows "0 \<le> erp_left H h" "erp_left H h < H" "0 \<le> erp_right H h" "erp_right H h < H"
    and "erp_left H h \<noteq> h" "erp_right H h \<noteq> h" "erp_left H h \<noteq> erp_right H h"
  using assms by (auto simp: erp_left_def erp_right_def)

lemma erp_neighbour_iff:
  assumes "0 \<le> h" "h < H" "3 \<le> H"
  shows "erp_neighbour H W (h, w) (h', w') \<longleftrightarrow>
    0 \<le> h' \<and> h' < H \<and> 0 \<le> w' \<and> w' < W \<and>
    (if w' = w then h' \<noteq> h \<and> (h' = erp_left H h \<or> h' = erp_right H h \<or> w = 0 \<or> w = W - 1)
     else \<bar>w' - w\<bar> = 1 \<and> (h' = h \<or> h' = erp_left H h \<or> h' = erp_right H h))"
proof (cases "0 \<le> h' \<and> h' < H")
  case True
  with assms have "(h' - h) mod H = 1 \<longleftrightarrow> h' = erp_right H h"
    and "(h - h') mod H = 1 \<longleftrightarrow> h' = erp_left H h"
    using ring_succ_iff [of h H h'] ring_pred_iff [of h H h'] by auto
  then show ?thesis by (auto simp: erp_neighbour_def)
next
  case False
  then show ?thesis by (auto simp: erp_neighbour_def)
qed

lemma erp_pole_rest_set:
  "i \<in> set (erp_pole_rest H h) \<longleftrightarrow>
     0 \<le> i \<and> i < H \<and> i \<noteq> h \<and> i \<noteq> erp_left H h \<and> i \<noteq> erp_right H h"
  by (auto simp: erp_pole_rest_def)

lemma erp_cells_set:
  assumes "0 \<le> h" "h < H" "0 \<le> w" "w < W" "3 \<le> H"
  shows "c \<in> set (erp_cells H W h w) \<longleftrightarrow> erp_neighbour H W (h, w) c"
proof -
  obtain h' w' where c: "c = (h', w')" by fastforce
  note col = erp_columns [OF assms(1,2,5)]
  note iff = erp_neighbour_iff [OF assms(1,2,5), of W w h' w']
  consider "w' = w" | "w' = w - 1" | "w' = w + 1" | "w' \<noteq> w" "\<bar>w' - w\<bar> \<noteq> 1"
    by linarith
  then show ?thesis
  proof cases
    case 1
    with col assms show ?thesis
      unfolding c iff erp_cells_def Let_def by (auto simp: erp_pole_rest_set)
  next
    case 2
    with col assms show ?thesis unfolding c iff erp_cells_def Let_def by auto
  next
    case 3
    with col assms show ?thesis unfolding c iff erp_cells_def Let_def by auto
  next
    case 4
    with assms show ?thesis unfolding c iff erp_cells_def Let_def by auto
  qed
qed

lemma in_row_image [simp]: "(x, y) \<in> (\<lambda>i. (i, w)) ` A \<longleftrightarrow> y = w \<and> x \<in> A"
  by auto

lemma erp_cells_distinct:
  assumes "0 \<le> h" "h < H" "0 \<le> w" "w < W" "3 \<le> H"
  shows "distinct (erp_cells H W h w)"
proof -
  have d: "distinct (map (\<lambda>i. (i, w)) (erp_pole_rest H h))"
    by (simp add: distinct_map inj_on_def erp_pole_rest_def)
  have l: "erp_left H h \<notin> set (erp_pole_rest H h)" "erp_right H h \<notin> set (erp_pole_rest H h)"
    by (simp_all add: erp_pole_rest_set)
  note col = erp_columns [OF assms(1,2,5)]
  have up: "distinct (if w - 1 \<ge> 0 then [(h, w - 1), (erp_left H h, w - 1), (erp_right H h, w - 1)] else [])"
    and down: "distinct (if w + 1 < W then [(h, w + 1), (erp_left H h, w + 1), (erp_right H h, w + 1)] else [])"
    using col by simp_all
  have same: "distinct ([(erp_left H h, w), (erp_right H h, w)]
      @ (if w = 0 \<or> w = W - 1 then map (\<lambda>i. (i, w)) (erp_pole_rest H h) else []))"
    using col d l by simp
  show ?thesis
    unfolding erp_cells_def Let_def
    by (intro distinct_append [THEN iffD2] conjI up down same) (auto split: if_splits)
qed

lemma erp_neighbour_sym:
  assumes "erp_neighbour H W (h, w) (h', w')" "0 \<le> h" "h < H" "0 \<le> w" "w < W"
  shows "erp_neighbour H W (h', w') (h, w)"
  using assms by (auto simp: erp_neighbour_def split: if_splits)

lemma row_major_inj:
  fixes H h h' w w' :: int
  assumes "w * H + h = w' * H + h'" "0 \<le> h" "h < H" "0 \<le> h'" "h' < H"
  shows "w = w' \<and> h = h'"
  using assms row_major_div [of h H w] row_major_div [of h' H w'] by simp

text \<open>A pole row of a grid with more than fourteen columns does not fit the sixteen cells.\<close>

lemma getAdjacentTileERP_pole_overflow:
  assumes "0 \<le> h" "h < H" "15 \<le> H" "2 \<le> W"
  shows "getAdjacentTileERP H W h = None"
proof -
  have "int (length (erp_pole_rest H h)) = H - 3"
    using length_erp_pole_rest [of h H] assms by simp
  with assms have len: "12 \<le> length (erp_pole_rest H h)" by simp
  then have "erp_pole_rest H h \<noteq> []" by auto
  with len show ?thesis
    unfolding getAdjacentTileERP_def Let_def
    using assms by (simp add: push_cells_eq)
qed

text \<open>
  C40: On an equirectangular grid of 3 to 14 columns the routine answers for every tile with the
  neighbours on the cylinder with two pole rows, each of them once: left and right (around the
  seam), the three tiles of the rows above and below, and the whole row for a pole row.
\<close>

theorem getAdjacentTileERP_spec:
  assumes "0 \<le> h" "h < H" "0 \<le> w" "w < W" "3 \<le> H" "H \<le> 14"
  shows "\<exists>ids. getAdjacentTileERP H W (w * H + h) = Some ids \<and> distinct ids \<and>
           set ids = {w' * H + h' | h' w'. erp_neighbour H W (h, w) (h', w')}"
proof (intro exI conjI)
  let ?enc = "\<lambda>(h, w). w * H + h"
  show "getAdjacentTileERP H W (w * H + h) = Some (map ?enc (erp_cells H W h w))"
    by (rule getAdjacentTileERP_cells [OF assms])
  have "inj_on ?enc (set (erp_cells H W h w))"
  proof (rule inj_onI, clarify)
    fix a b c d
    assume cells: "(a, b) \<in> set (erp_cells H W h w)" "(c, d) \<in> set (erp_cells H W h w)"
      and eq: "b * H + a = d * H + c"
    then have "erp_neighbour H W (h, w) (a, b)" "erp_neighbour H W (h, w) (c, d)"
      using erp_cells_set [OF assms(1-5)] by blast+
    then have "0 \<le> a" "a < H" "0 \<le> c" "c < H" by (simp_all add: erp_neighbour_def)
    then show "a = c \<and> b = d" using row_major_inj [OF eq] by simp
  qed
  then show "distinct (map ?enc (erp_cells H W h w))"
    using erp_cells_distinct [OF assms(1-5)] by (simp add: distinct_map)
  have "set (erp_cells H W h w) = {c. erp_neighbour H W (h, w) c}"
    using erp_cells_set [OF assms(1-5)] by blast
  then show "set (map ?enc (erp_cells H W h w))
      = {w' * H + h' | h' w'. erp_neighbour H W (h, w) (h', w')}"
    by auto
qed

theorem getAdjacentTileERP_spec_witness:
  "\<exists>ids. getAdjacentTileERP 8 8 19 = Some ids \<and> distinct ids"
  using getAdjacentTileERP_spec [of 3 8 2 8] by auto

text \<open>
  The array of sixteen cells is the reason for the bound on the columns: the routine stays
  inside it for the tiles of a pole row exactly up to fourteen columns.
\<close>

theorem getAdjacentTileERP_pole_defined_iff:
  assumes "0 \<le> h" "h < H" "3 \<le> H" "2 \<le> W"
  shows "getAdjacentTileERP H W h \<noteq> None \<longleftrightarrow> H \<le> 14"
proof
  assume "getAdjacentTileERP H W h \<noteq> None"
  then show "H \<le> 14" using getAdjacentTileERP_pole_overflow [of h H W] assms by force
next
  assume "H \<le> 14"
  then show "getAdjacentTileERP H W h \<noteq> None"
    using getAdjacentTileERP_cells [of h H 0 W] assms by simp
qed

theorem getAdjacentTileERP_pole_defined_iff_witness:
  "getAdjacentTileERP 14 2 0 \<noteq> None \<and> getAdjacentTileERP 16 2 0 = None"
  using getAdjacentTileERP_pole_defined_iff [of 0 14 2]
    getAdjacentTileERP_pole_defined_iff [of 0 16 2] by simp

text \<open>The neighbour relation on tile ids, and its symmetry.\<close>

lemma row_major_cell:
  fixes H W :: int
  assumes "0 < H" "0 \<le> t" "t < H * W"
  shows "t = (t div H) * H + t mod H" "0 \<le> t mod H" "t mod H < H" "0 \<le> t div H" "t div H < W"
  using assms div_mult_bounds [of t W H] by (simp_all add: mult.commute)

lemma getAdjacentTileERP_mem_iff:
  assumes "3 \<le> H" "H \<le> 14" "0 \<le> t" "t < H * W" "0 \<le> u" "u < H * W"
  shows "\<exists>us. getAdjacentTileERP H W t = Some us \<and> (\<forall>v \<in> set us. 0 \<le> v \<and> v < H * W) \<and>
    (u \<in> set us \<longleftrightarrow> erp_neighbour H W (t mod H, t div H) (u mod H, u div H))"
proof -
  have H: "0 < H" using assms by simp
  note t = row_major_cell [OF H assms(3,4)] and u = row_major_cell [OF H assms(5,6)]
  let ?cs = "erp_cells H W (t mod H) (t div H)"
  have run: "getAdjacentTileERP H W t = Some (map (\<lambda>(h, w). w * H + h) ?cs)"
    using getAdjacentTileERP_cells [OF t(2-5) assms(1,2)] t(1) by simp
  note cs = erp_cells_set [OF t(2-5) assms(1)]
  have rng: "0 \<le> v \<and> v < H * W" if v: "v \<in> set (map (\<lambda>(h, w). w * H + h) ?cs)" for v
  proof -
    obtain h' w' where hw: "(h', w') \<in> set ?cs" "v = w' * H + h'" using v by auto
    then have g: "0 \<le> h'" "h' < H" "0 \<le> w'" "w' < W" using cs by (auto simp: erp_neighbour_def)
    have "w' * H \<le> (W - 1) * H" using g by (intro mult_right_mono) auto
    with g hw(2) show ?thesis by (simp add: algebra_simps)
  qed
  have "u \<in> set (map (\<lambda>(h, w). w * H + h) ?cs) \<longleftrightarrow> (u mod H, u div H) \<in> set ?cs"
  proof
    assume "u \<in> set (map (\<lambda>(h, w). w * H + h) ?cs)"
    then obtain h' w' where hw: "(h', w') \<in> set ?cs" "u = w' * H + h'" by auto
    then have "0 \<le> h'" "h' < H" using cs by (auto simp: erp_neighbour_def)
    with hw show "(u mod H, u div H) \<in> set ?cs" by simp
  next
    assume "(u mod H, u div H) \<in> set ?cs"
    then have "(\<lambda>(h, w). w * H + h) (u mod H, u div H) \<in> set (map (\<lambda>(h, w). w * H + h) ?cs)"
      unfolding set_map by (rule imageI)
    then show "u \<in> set (map (\<lambda>(h, w). w * H + h) ?cs)" using u(1) by simp
  qed
  with run rng cs show ?thesis by blast
qed

section \<open>One equirectangular face with separate pole tiles\<close>

text \<open>
  Tiles 0 and 1 are the poles, the others the grid. The second loop of the routine rewrites
  \<open>ret\<close> in place; since \<open>cnt \<le> i\<close> at every store it never overwrites an entry it has still to
  read, so the loop is a recursion over the entries with the two flags.
\<close>

fun erp2_compact :: "int \<Rightarrow> int \<Rightarrow> bool \<Rightarrow> bool \<Rightarrow> int list \<Rightarrow> int list" where
  "erp2_compact NO_TILE_H NO_TILE_W2 TOP_TILE BOT_TILE [] = []"
| "erp2_compact NO_TILE_H NO_TILE_W2 TOP_TILE BOT_TILE (t # ts) =
     (let tid_w = t sdiv NO_TILE_H; tid_h = t smod NO_TILE_H in
      if tid_w = 0
      then (if \<not> TOP_TILE then 0 # erp2_compact NO_TILE_H NO_TILE_W2 True BOT_TILE ts
            else erp2_compact NO_TILE_H NO_TILE_W2 TOP_TILE BOT_TILE ts)
      else if tid_w = NO_TILE_W2 - 1
      then (if \<not> BOT_TILE then 1 # erp2_compact NO_TILE_H NO_TILE_W2 TOP_TILE True ts
            else erp2_compact NO_TILE_H NO_TILE_W2 TOP_TILE BOT_TILE ts)
      else (2 + (tid_w - 1) * NO_TILE_H + tid_h)
             # erp2_compact NO_TILE_H NO_TILE_W2 TOP_TILE BOT_TILE ts)"

definition getAdjacentTileERP2 :: "int \<Rightarrow> int \<Rightarrow> int \<Rightarrow> int list option" where
  "getAdjacentTileERP2 NO_TILE_H NO_TILE_W tid =
     (if tid = 0 \<or> tid = 1
      then let tid_w = (if tid = 0 then 0 else NO_TILE_W - 1)
           in push_cells 8 (map (\<lambda>tid_h. 2 + tid_w * NO_TILE_H + tid_h) [0..NO_TILE_H - 1]) []
      else if NO_TILE_H = 0 then None
      else let tid_w = (tid - 2 + NO_TILE_H) sdiv NO_TILE_H;
               tid_h = (tid - 2 + NO_TILE_H) smod NO_TILE_H
           in do {
             ret \<leftarrow> getAdjacentTileERP NO_TILE_H (NO_TILE_W + 2) (tid_w * NO_TILE_H + tid_h);
             Some (erp2_compact NO_TILE_H (NO_TILE_W + 2) False False ret)
           })"

lemma getAdjacentTileERP2_pole:
  assumes "1 \<le> H" "H \<le> 8"
  shows "getAdjacentTileERP2 H W 0 = Some (map (\<lambda>h. 2 + h) [0..H - 1])"
    and "getAdjacentTileERP2 H W 1 = Some (map (\<lambda>h. 2 + (W - 1) * H + h) [0..H - 1])"
  using assms by (simp_all add: getAdjacentTileERP2_def push_cells_Some)

lemma getAdjacentTileERP2_pole_overflow:
  "9 \<le> H \<Longrightarrow> getAdjacentTileERP2 H W 0 = None \<and> getAdjacentTileERP2 H W 1 = None"
  by (simp add: getAdjacentTileERP2_def push_cells_eq)

lemma row_major_mod [simp]:
  fixes h w H :: int
  assumes "0 \<le> h" "h < H"
  shows "(w * H + h) mod H = h"
  using assms by simp

definition erp2_tile :: "int \<Rightarrow> int \<Rightarrow> int \<Rightarrow> int" where
  "erp2_tile H h w = 2 + w * H + h"

text \<open>The neighbours of a grid tile, in the routine's order: each pole appears once.\<close>

definition erp2_cells :: "int \<Rightarrow> int \<Rightarrow> int \<Rightarrow> int \<Rightarrow> int list" where
  "erp2_cells H W h w =
     (let l = erp_left H h; r = erp_right H h in
        (if w = 0 then [0] else map (\<lambda>x. erp2_tile H x (w - 1)) [h, l, r])
        @ (if w = W - 1 then [1] else map (\<lambda>x. erp2_tile H x (w + 1)) [h, l, r])
        @ map (\<lambda>x. erp2_tile H x w) [l, r])"

lemma erp2_compact_step:
  assumes "0 \<le> h" "h < H" "0 \<le> w"
  shows "erp2_compact H W2 tp bt ((w * H + h) # ts) =
     (if w = 0 then (if tp then [] else [0]) @ erp2_compact H W2 True bt ts
      else if w = W2 - 1 then (if bt then [] else [1]) @ erp2_compact H W2 tp True ts
      else erp2_tile H h (w - 1) # erp2_compact H W2 tp bt ts)"
proof -
  have "(w * H + h) sdiv H = w" "(w * H + h) smod H = h" using assms by simp_all
  then show ?thesis by (simp add: erp2_tile_def)
qed

lemma getAdjacentTileERP2_grid:
  assumes "0 \<le> h" "h < H" "0 \<le> w" "w < W" "3 \<le> H" "H \<le> 14"
  shows "getAdjacentTileERP2 H W (erp2_tile H h w) = Some (erp2_cells H W h w)"
proof -
  let ?l = "erp_left H h" and ?r = "erp_right H h"
  note col = erp_columns [OF assms(1,2,5)]
  have t: "erp2_tile H h w - 2 + H = (w + 1) * H + h" by (simp add: erp2_tile_def algebra_simps)
  have tw: "((w + 1) * H + h) sdiv H = w + 1" "((w + 1) * H + h) smod H = h"
    using assms by (simp_all del: add_mult_distrib add_mult_distrib2)
  have ne: "erp2_tile H h w \<noteq> 0" "erp2_tile H h w \<noteq> 1"
    using assms mult_nonneg_nonneg [of w H] unfolding erp2_tile_def by linarith+
  have cells: "erp_cells H (W + 2) h (w + 1) =
      [(h, w), (?l, w), (?r, w), (h, w + 2), (?l, w + 2), (?r, w + 2), (?l, w + 1), (?r, w + 1)]"
    using assms by (simp add: erp_cells_def Let_def)
  have ret: "getAdjacentTileERP H (W + 2) ((w + 1) * H + h)
      = Some (map (\<lambda>(h, w). w * H + h) (erp_cells H (W + 2) h (w + 1)))"
    using assms by (intro getAdjacentTileERP_cells) auto
  have compact: "erp2_compact H (W + 2) False False
      (map (\<lambda>(h, w). w * H + h) (erp_cells H (W + 2) h (w + 1))) = erp2_cells H W h w"
  proof -
    have v: "0 \<le> w + 1" "0 \<le> w + 2" using assms by simp_all
    have c: "w + 1 \<noteq> 0" "w + 1 \<noteq> W + 2 - 1" "w + 2 \<noteq> 0" "(w + 2 = W + 2 - 1) = (w = W - 1)"
        "w = 0 \<Longrightarrow> w \<noteq> W + 2 - 1"  "w \<noteq> W + 2 - 1" "w + 1 - 1 = w" "w + 2 - 1 = w + 1"
      using assms by auto
    show ?thesis
      unfolding cells list.map prod.case
      by (simp only: erp2_compact_step assms col v c if_False if_True simp_thms)
         (simp add: erp2_cells_def Let_def)
  qed
  show ?thesis
    unfolding getAdjacentTileERP2_def Let_def t tw ret
    using assms ne by (simp add: compact)
qed

text \<open>Every tile id of the layout is a pole or a grid tile; the entries of a grid tile's list.\<close>

lemma erp2_tile_cases:
  assumes "0 < H" "0 \<le> t" "t < 2 + H * W"
  obtains "t = 0" | "t = 1" | h w where "t = erp2_tile H h w" "0 \<le> h" "h < H" "0 \<le> w" "w < W"
proof (cases "t < 2")
  case True
  with assms(2) that(1,2) show thesis by linarith
next
  case False
  then have "0 \<le> t - 2" "t - 2 < H * W" using assms by simp_all
  note c = row_major_cell [OF assms(1) this]
  have "t = erp2_tile H ((t - 2) mod H) ((t - 2) div H)" using c(1) by (simp add: erp2_tile_def)
  with c(2-5) that(3) show thesis by blast
qed

lemma erp2_tile_inj:
  assumes "erp2_tile H h w = erp2_tile H h' w'" "0 \<le> h" "h < H" "0 \<le> h'" "h' < H"
  shows "h = h'" "w = w'"
  using row_major_inj [of w H h w' h'] assms by (simp_all add: erp2_tile_def)

lemma erp2_tile_range:
  assumes "0 \<le> h" "h < H" "0 \<le> w" "w < W"
  shows "2 \<le> erp2_tile H h w" "erp2_tile H h w < 2 + H * W"
proof -
  show "2 \<le> erp2_tile H h w" using assms by (simp add: erp2_tile_def)
  have "w * H \<le> (W - 1) * H" using assms by (intro mult_right_mono) auto
  with assms show "erp2_tile H h w < 2 + H * W" by (simp add: erp2_tile_def algebra_simps)
qed

definition erp2_near :: "int \<Rightarrow> int \<times> int \<Rightarrow> int \<times> int \<Rightarrow> bool" where
  "erp2_near H = (\<lambda>(h, w) (x, y).
     if y = w then x = erp_left H h \<or> x = erp_right H h
     else \<bar>y - w\<bar> = 1 \<and> (x = h \<or> x = erp_left H h \<or> x = erp_right H h))"

lemma erp2_near_sym:
  assumes "erp2_near H (h, w) (x, y)" "0 \<le> h" "h < H" "0 \<le> x" "x < H" "3 \<le> H"
  shows "erp2_near H (x, y) (h, w)"
  using assms by (auto simp: erp2_near_def erp_left_def erp_right_def split: if_splits)

lemma erp2_cells_mem:
  assumes "0 \<le> h" "h < H" "0 \<le> w" "w < W" "3 \<le> H"
  shows "0 \<in> set (erp2_cells H W h w) \<longleftrightarrow> w = 0"
    and "1 \<in> set (erp2_cells H W h w) \<longleftrightarrow> w = W - 1"
    and "0 \<le> x \<Longrightarrow> x < H \<Longrightarrow> 0 \<le> y \<Longrightarrow> y < W \<Longrightarrow>
           erp2_tile H x y \<in> set (erp2_cells H W h w) \<longleftrightarrow> erp2_near H (h, w) (x, y)"
proof -
  note col = erp_columns [OF assms(1,2,5)]
  have big: "2 \<le> erp2_tile H a b" if "0 \<le> a" "0 \<le> b" for a b
    using that assms by (simp add: erp2_tile_def)
  have small: "0 \<noteq> erp2_tile H a b" "1 \<noteq> erp2_tile H a b" if "0 \<le> a" "0 \<le> b" for a b
    using big [OF that] by simp_all
  show "0 \<in> set (erp2_cells H W h w) \<longleftrightarrow> w = 0" "1 \<in> set (erp2_cells H W h w) \<longleftrightarrow> w = W - 1"
    using col assms by (auto simp: erp2_cells_def Let_def small)
  assume xy: "0 \<le> x" "x < H" "0 \<le> y" "y < W"
  have eq: "erp2_tile H x y = erp2_tile H a b \<longleftrightarrow> x = a \<and> y = b" if "0 \<le> a" "a < H" for a b
    using erp2_tile_inj [of H x y a b] xy(1,2) that by auto
  have ne: "erp2_tile H x y \<noteq> 0" "erp2_tile H x y \<noteq> 1" using big [of x y] xy by simp_all
  show "erp2_tile H x y \<in> set (erp2_cells H W h w) \<longleftrightarrow> erp2_near H (h, w) (x, y)"
  proof -
    have set: "erp2_tile H x y \<in> set (erp2_cells H W h w) \<longleftrightarrow>
        w \<noteq> 0 \<and> (x = h \<or> x = erp_left H h \<or> x = erp_right H h) \<and> y = w - 1 \<or>
        w \<noteq> W - 1 \<and> (x = h \<or> x = erp_left H h \<or> x = erp_right H h) \<and> y = w + 1 \<or>
        (x = erp_left H h \<or> x = erp_right H h) \<and> y = w"
      unfolding erp2_cells_def Let_def
      by (cases "w = 0"; cases "w = W - 1")
        (simp_all add: eq [OF assms(1,2)] eq [OF col(1,2)] eq [OF col(3,4)] ne, blast+)
    consider "y = w" | "y = w - 1" | "y = w + 1" | "y \<noteq> w" "\<bar>y - w\<bar> \<noteq> 1" by linarith
    then show ?thesis
      unfolding set erp2_near_def prod.case using xy(3,4) assms(3,4) by cases auto
  qed
qed

definition erp2_adjacent :: "int \<Rightarrow> int \<Rightarrow> int \<Rightarrow> int \<Rightarrow> bool" where
  "erp2_adjacent H W t u \<longleftrightarrow>
     (case getAdjacentTileERP2 H W t of None \<Rightarrow> False | Some us \<Rightarrow> u \<in> set us)"

lemma pole_row_mem:
  assumes "0 \<le> x" "x < H"
  shows "erp2_tile H x y \<in> set (map (\<lambda>h. 2 + w * H + h) [0..H - 1]) \<longleftrightarrow> y = w"
proof
  assume "erp2_tile H x y \<in> set (map (\<lambda>h. 2 + w * H + h) [0..H - 1])"
  then have "erp2_tile H x y \<in> (\<lambda>h. erp2_tile H h w) ` {0..H - 1}"
    by (simp only: set_map set_upto erp2_tile_def)
  then obtain h where "erp2_tile H x y = erp2_tile H h w" "h \<in> {0..H - 1}" by blast
  then have "erp2_tile H x y = erp2_tile H h w" "0 \<le> h" "h < H" by simp_all
  with erp2_tile_inj [of H x y h w] assms show "y = w" by simp
qed (use assms in \<open>auto simp: erp2_tile_def\<close>)

lemma erp2_adjacent_iff:
  assumes "3 \<le> H" "H \<le> 8" "1 \<le> W"
  shows "\<not> erp2_adjacent H W 0 0" "\<not> erp2_adjacent H W 0 1"
    and "\<not> erp2_adjacent H W 1 0" "\<not> erp2_adjacent H W 1 1"
    and "0 \<le> h \<Longrightarrow> h < H \<Longrightarrow> 0 \<le> w \<Longrightarrow> w < W \<Longrightarrow> erp2_adjacent H W 0 (erp2_tile H h w) \<longleftrightarrow> w = 0"
    and "0 \<le> h \<Longrightarrow> h < H \<Longrightarrow> 0 \<le> w \<Longrightarrow> w < W \<Longrightarrow> erp2_adjacent H W 1 (erp2_tile H h w) \<longleftrightarrow> w = W - 1"
    and "0 \<le> h \<Longrightarrow> h < H \<Longrightarrow> 0 \<le> w \<Longrightarrow> w < W \<Longrightarrow> erp2_adjacent H W (erp2_tile H h w) 0 \<longleftrightarrow> w = 0"
    and "0 \<le> h \<Longrightarrow> h < H \<Longrightarrow> 0 \<le> w \<Longrightarrow> w < W \<Longrightarrow> erp2_adjacent H W (erp2_tile H h w) 1 \<longleftrightarrow> w = W - 1"
    and "0 \<le> h \<Longrightarrow> h < H \<Longrightarrow> 0 \<le> w \<Longrightarrow> w < W \<Longrightarrow> 0 \<le> x \<Longrightarrow> x < H \<Longrightarrow> 0 \<le> y \<Longrightarrow> y < W \<Longrightarrow>
           erp2_adjacent H W (erp2_tile H h w) (erp2_tile H x y) \<longleftrightarrow> erp2_near H (h, w) (x, y)"
proof -
  have H: "1 \<le> H" using assms by simp
  have p0: "getAdjacentTileERP2 H W 0 = Some (map (\<lambda>h. 2 + 0 * H + h) [0..H - 1])"
    and p1: "getAdjacentTileERP2 H W 1 = Some (map (\<lambda>h. 2 + (W - 1) * H + h) [0..H - 1])"
    using getAdjacentTileERP2_pole [OF H assms(2), of W] by simp_all
  have "0 \<le> (W - 1) * H" using assms by simp
  then show "\<not> erp2_adjacent H W 0 0" "\<not> erp2_adjacent H W 0 1"
      "\<not> erp2_adjacent H W 1 0" "\<not> erp2_adjacent H W 1 1"
    unfolding erp2_adjacent_def p0 p1 by auto
  assume hw: "0 \<le> h" "h < H" "0 \<le> w" "w < W"
  show "erp2_adjacent H W 0 (erp2_tile H h w) \<longleftrightarrow> w = 0"
      "erp2_adjacent H W 1 (erp2_tile H h w) \<longleftrightarrow> w = W - 1"
    unfolding erp2_adjacent_def p0 p1 option.case pole_row_mem [OF hw(1,2)] by simp_all
  have "H \<le> 14" using assms by simp
  note g = getAdjacentTileERP2_grid [OF hw assms(1) this]
  note m = erp2_cells_mem [OF hw assms(1)]
  show "erp2_adjacent H W (erp2_tile H h w) 0 \<longleftrightarrow> w = 0"
      "erp2_adjacent H W (erp2_tile H h w) 1 \<longleftrightarrow> w = W - 1"
    unfolding erp2_adjacent_def g option.case using m(1,2) by simp_all
  assume "0 \<le> x" "x < H" "0 \<le> y" "y < W"
  then show "erp2_adjacent H W (erp2_tile H h w) (erp2_tile H x y) \<longleftrightarrow> erp2_near H (h, w) (x, y)"
    unfolding erp2_adjacent_def g option.case by (rule m(3))
qed

text \<open>
  With separate pole tiles and 3 to 8 columns, the neighbour relation is symmetric: a pole
  tile lists exactly the tiles of its row, each of which lists the pole, and two grid tiles list
  each other or neither lists the other.
\<close>

theorem getAdjacentTileERP2_symmetric:
  assumes "3 \<le> H" "H \<le> 8" "1 \<le> W" "t \<in> {0..<2 + H * W}" "u \<in> {0..<2 + H * W}"
  shows "erp2_adjacent H W t u \<longleftrightarrow> erp2_adjacent H W u t"
proof -
  note iff = erp2_adjacent_iff [OF assms(1-3)]
  have H: "0 < H" using assms by simp
  have sym: "erp2_near H (h, w) (x, y) \<longleftrightarrow> erp2_near H (x, y) (h, w)"
    if "0 \<le> h" "h < H" "0 \<le> x" "x < H" for h w x y
    using erp2_near_sym that assms(1) by blast
  have t: "0 \<le> t" "t < 2 + H * W" and u: "0 \<le> u" "u < 2 + H * W" using assms by simp_all
  show ?thesis
    by (rule erp2_tile_cases [OF H t]; rule erp2_tile_cases [OF H u]) (simp_all add: iff sym)
qed

theorem getAdjacentTileERP2_symmetric_witness:
  "erp2_adjacent 8 6 1 45 \<longleftrightarrow> erp2_adjacent 8 6 45 1"
  using getAdjacentTileERP2_symmetric [of 8 6 1 45] by simp

section \<open>Neighbours inside one cube face\<close>

definition get_adj_tile_in_face :: "int \<Rightarrow> int \<Rightarrow> int \<Rightarrow> int \<Rightarrow> cell list option" where
  "get_adj_tile_in_face NO_TILE_H NO_TILE_W w h = do {
     adj \<leftarrow> (if w - 1 \<ge> 0
             then push_cells 8
               ([(h, w - 1)]
                @ (if h - 1 \<ge> 0 then [(h - 1, w - 1)] else [])
                @ (if h + 1 < NO_TILE_H then [(h + 1, w - 1)] else [])) []
             else Some []);
     adj \<leftarrow> (if w + 1 < NO_TILE_W
             then push_cells 8
               ([(h, w + 1)]
                @ (if h - 1 \<ge> 0 then [(h - 1, w + 1)] else [])
                @ (if h + 1 < NO_TILE_H then [(h + 1, w + 1)] else [])) adj
             else Some adj);
     adj \<leftarrow> (if h - 1 \<ge> 0 then push_cells 8 [(h - 1, w)] adj else Some adj);
     (if h + 1 < NO_TILE_H then push_cells 8 [(h + 1, w)] adj else Some adj)
   }"

text \<open>
  The routine never fills more than its eight cells, whatever its arguments, and the cells it
  returns for a cell of the face are the other cells at distance at most one in both directions.
\<close>

lemma get_adj_tile_in_face_total:
  "\<exists>cs. get_adj_tile_in_face H W w h = Some cs \<and> length cs \<le> 8"
  by (simp add: get_adj_tile_in_face_def push_cells_eq)

lemma get_adj_tile_in_face_neighbours:
  assumes "get_adj_tile_in_face H W w h = Some cs" "0 \<le> h" "h < H" "0 \<le> w" "w < W"
  shows "set cs = {(h', w'). 0 \<le> h' \<and> h' < H \<and> 0 \<le> w' \<and> w' < W \<and>
           \<bar>h' - h\<bar> \<le> 1 \<and> \<bar>w' - w\<bar> \<le> 1 \<and> (h', w') \<noteq> (h, w)}"
proof -
  have near: "\<bar>x - y\<bar> \<le> 1 \<longleftrightarrow> x = y - 1 \<or> x = y \<or> x = y + 1" for x y :: int by linarith
  show ?thesis
    using assms(1)
    by (simp add: get_adj_tile_in_face_def push_cells_eq near split: if_splits)
       (insert assms(2-5), auto)
qed

section \<open>The eight directions on a grid that wraps horizontally\<close>

text \<open>
  \<open>M\<close> rows, \<open>N\<close> columns; \<open>i = -1\<close> says that there is no such neighbour.
\<close>

record Pos =
  pos_i :: int
  pos_j :: int

abbreviation mk_pos :: "int \<Rightarrow> int \<Rightarrow> Pos" where
  "mk_pos i j \<equiv> \<lparr>pos_i = i, pos_j = j\<rparr>"

definition TOP :: "int \<Rightarrow> int \<Rightarrow> int \<Rightarrow> int \<Rightarrow> Pos" where
  "TOP i j M N = (if i = 0 then mk_pos (-1) (-1) else mk_pos (i - 1) j)"

definition DOWN :: "int \<Rightarrow> int \<Rightarrow> int \<Rightarrow> int \<Rightarrow> Pos" where
  "DOWN i j M N = (if i = M - 1 then mk_pos (-1) (-1) else mk_pos (i + 1) j)"

definition LEFT :: "int \<Rightarrow> int \<Rightarrow> int \<Rightarrow> int \<Rightarrow> Pos" where
  "LEFT i j M N = mk_pos i (if j = 0 then N - 1 else j - 1)"

definition RIGHT :: "int \<Rightarrow> int \<Rightarrow> int \<Rightarrow> int \<Rightarrow> Pos" where
  "RIGHT i j M N = mk_pos i (if j = N - 1 then 0 else j + 1)"

definition TOP_LEFT :: "int \<Rightarrow> int \<Rightarrow> int \<Rightarrow> int \<Rightarrow> Pos" where
  "TOP_LEFT i j M N =
     (if i = 0 then mk_pos (-1) (-1) else mk_pos (i - 1) (if j = 0 then N - 1 else j - 1))"

definition TOP_RIGHT :: "int \<Rightarrow> int \<Rightarrow> int \<Rightarrow> int \<Rightarrow> Pos" where
  "TOP_RIGHT i j M N =
     (if i = 0 then mk_pos (-1) (-1) else mk_pos (i - 1) (if j = N - 1 then 0 else j + 1))"

definition DOWN_LEFT :: "int \<Rightarrow> int \<Rightarrow> int \<Rightarrow> int \<Rightarrow> Pos" where
  "DOWN_LEFT i j M N =
     (if i = M - 1 then mk_pos (-1) (-1) else mk_pos (i + 1) (if j = 0 then N - 1 else j - 1))"

definition DOWN_RIGHT :: "int \<Rightarrow> int \<Rightarrow> int \<Rightarrow> int \<Rightarrow> Pos" where
  "DOWN_RIGHT i j M N =
     (if i = M - 1 then mk_pos (-1) (-1) else mk_pos (i + 1) (if j = N - 1 then 0 else j + 1))"

lemmas direction_defs =
  TOP_def DOWN_def LEFT_def RIGHT_def TOP_LEFT_def TOP_RIGHT_def DOWN_LEFT_def DOWN_RIGHT_def

end
