(* ===== verification/Cube_Map.thy ===== *)
theory Cube_Map
  imports Projection_Grid
begin

text \<open>
  \<^verbatim>\<open>getAdjacentTileCMP\<close> of \<^verbatim>\<open>Projection.cpp\<close>: the neighbours of a tile of a cube map with six
  faces of \<open>NO_TILE_H\<close> by \<open>NO_TILE_W\<close> tiles. The code is a table in straight-line form: for every
  face one block of stores for the tiles inside the face, four for its corners, four for its
  borders; a second table serves grids with one row. Each block is one \<open>store_block\<close> here, in the
  code's order and with the code's guard, and each of its rows is one triple of stores
  \<open>tiles[k].fid\<close>, \<open>.tid_h\<close>, \<open>.tid_w\<close>.

  A block writes \<open>tiles[0], \<dots>, tiles[k - 1]\<close> and sets \<open>*N = k\<close>; the result is read from the
  first \<open>*N\<close> cells only, so the state is \<open>None\<close> while \<open>*N\<close> is unset and \<open>Some\<close> of these cells
  after a block has run, a later block replacing an earlier one.
\<close>

definition store_block :: "bool \<Rightarrow> 'a list \<Rightarrow> 'a list option \<Rightarrow> 'a list option" where
  [code_unfold]: "store_block guard rows N = (if guard then Some rows else N)"

section \<open>Grids with at least two rows and columns\<close>

definition cmp_face0_inner :: "int \<Rightarrow> int \<Rightarrow> Tile \<Rightarrow> Tile list option \<Rightarrow> Tile list option" where
  "cmp_face0_inner NO_TILE_H NO_TILE_W tile N =
    (store_block (tid_h tile > 0 \<and> tid_h tile < NO_TILE_H - 1 \<and> tid_w tile > 0 \<and> tid_w tile < NO_TILE_W - 1)
       [mk_tile (fid tile) (tid_h tile - 1) (tid_w tile - 1),
        mk_tile (fid tile) (tid_h tile) (tid_w tile - 1),
        mk_tile (fid tile) (tid_h tile + 1) (tid_w tile - 1),
        mk_tile (fid tile) (tid_h tile - 1) (tid_w tile),
        mk_tile (fid tile) (tid_h tile + 1) (tid_w tile),
        mk_tile (fid tile) (tid_h tile - 1) (tid_w tile + 1),
        mk_tile (fid tile) (tid_h tile) (tid_w tile + 1),
        mk_tile (fid tile) (tid_h tile + 1) (tid_w tile + 1)] N)"

definition cmp_face0_vertex :: "int \<Rightarrow> int \<Rightarrow> Tile \<Rightarrow> Tile list option \<Rightarrow> Tile list option" where
  "cmp_face0_vertex NO_TILE_H NO_TILE_W tile N =
    (let N = store_block (tid_h tile = 0 \<and> tid_w tile = 0)
           [mk_tile (fid tile) (tid_h tile + 1) (tid_w tile),
            mk_tile (fid tile) (tid_h tile) (tid_w tile + 1),
            mk_tile (fid tile) (tid_h tile + 1) (tid_w tile + 1),
            mk_tile 2 (NO_TILE_H - 1) (NO_TILE_W - 1),
            mk_tile 2 (NO_TILE_H - 1) (NO_TILE_W - 2),
            mk_tile 4 (NO_TILE_H - 1) 0,
            mk_tile 4 (NO_TILE_H - 1) 1] N;
         N = store_block (tid_h tile = NO_TILE_H - 1 \<and> tid_w tile = 0)
           [mk_tile (fid tile) (tid_h tile - 1) (tid_w tile),
            mk_tile (fid tile) (tid_h tile) (tid_w tile + 1),
            mk_tile (fid tile) (tid_h tile - 1) (tid_w tile + 1),
            mk_tile 2 (NO_TILE_H - 1) 0,
            mk_tile 2 (NO_TILE_H - 1) 1,
            mk_tile 5 0 0,
            mk_tile 5 0 1] N;
         N = store_block (tid_h tile = 0 \<and> tid_w tile = NO_TILE_W - 1)
           [mk_tile (fid tile) (tid_h tile) (tid_w tile - 1),
            mk_tile (fid tile) (tid_h tile + 1) (tid_w tile),
            mk_tile (fid tile) (tid_h tile + 1) (tid_w tile - 1),
            mk_tile 4 (NO_TILE_H - 1) (NO_TILE_W - 1),
            mk_tile 4 (NO_TILE_H - 1) (NO_TILE_W - 2),
            mk_tile 3 (NO_TILE_H - 1) 0,
            mk_tile 3 (NO_TILE_H - 1) 1] N;
         N = store_block (tid_h tile = NO_TILE_H - 1 \<and> tid_w tile = NO_TILE_W - 1)
           [mk_tile (fid tile) (tid_h tile) (tid_w tile - 1),
            mk_tile (fid tile) (tid_h tile - 1) (tid_w tile),
            mk_tile (fid tile) (tid_h tile - 1) (tid_w tile - 1),
            mk_tile 3 (NO_TILE_H - 1) (NO_TILE_W - 1),
            mk_tile 3 (NO_TILE_H - 1) (NO_TILE_W - 2),
            mk_tile 5 0 (NO_TILE_W - 2),
            mk_tile 5 0 (NO_TILE_W - 1)] N
     in N)"

definition cmp_face0_border :: "int \<Rightarrow> int \<Rightarrow> Tile \<Rightarrow> Tile list option \<Rightarrow> Tile list option" where
  "cmp_face0_border NO_TILE_H NO_TILE_W tile N =
    (let N = store_block (tid_w tile = 0 \<and> tid_h tile > 0 \<and> tid_h tile < NO_TILE_H - 1)
           [mk_tile (fid tile) (tid_h tile - 1) (tid_w tile),
            mk_tile (fid tile) (tid_h tile + 1) (tid_w tile),
            mk_tile (fid tile) (tid_h tile - 1) (tid_w tile + 1),
            mk_tile (fid tile) (tid_h tile) (tid_w tile + 1),
            mk_tile (fid tile) (tid_h tile + 1) (tid_w tile + 1),
            mk_tile 2 (NO_TILE_H - 1) (tid_h tile),
            mk_tile 2 (NO_TILE_H - 1) (tid_h tile - 1),
            mk_tile 2 (NO_TILE_H - 1) (tid_h tile + 1)] N;
         N = store_block (tid_w tile = NO_TILE_W - 1 \<and> tid_h tile > 0 \<and> tid_h tile < NO_TILE_H - 1)
           [mk_tile (fid tile) (tid_h tile - 1) (tid_w tile),
            mk_tile (fid tile) (tid_h tile + 1) (tid_w tile),
            mk_tile (fid tile) (tid_h tile + 1) (tid_w tile - 1),
            mk_tile (fid tile) (tid_h tile) (tid_w tile - 1),
            mk_tile (fid tile) (tid_h tile - 1) (tid_w tile - 1),
            mk_tile 3 (NO_TILE_H - 1) (tid_h tile),
            mk_tile 3 (NO_TILE_H - 1) (tid_h tile - 1),
            mk_tile 3 (NO_TILE_H - 1) (tid_h tile + 1)] N;
         N = store_block (tid_h tile = 0 \<and> tid_w tile > 0 \<and> tid_w tile < NO_TILE_W - 1)
           [mk_tile (fid tile) (tid_h tile) (tid_w tile + 1),
            mk_tile (fid tile) (tid_h tile) (tid_w tile - 1),
            mk_tile (fid tile) (tid_h tile + 1) (tid_w tile - 1),
            mk_tile (fid tile) (tid_h tile + 1) (tid_w tile),
            mk_tile (fid tile) (tid_h tile + 1) (tid_w tile + 1),
            mk_tile 4 (NO_TILE_H - 1) (tid_w tile),
            mk_tile 4 (NO_TILE_H - 1) (tid_w tile - 1),
            mk_tile 4 (NO_TILE_H - 1) (tid_w tile + 1)] N;
         N = store_block (tid_h tile = NO_TILE_H - 1 \<and> tid_w tile > 0 \<and> tid_w tile < NO_TILE_W - 1)
           [mk_tile (fid tile) (tid_h tile) (tid_w tile + 1),
            mk_tile (fid tile) (tid_h tile) (tid_w tile - 1),
            mk_tile (fid tile) (tid_h tile - 1) (tid_w tile - 1),
            mk_tile (fid tile) (tid_h tile - 1) (tid_w tile),
            mk_tile (fid tile) (tid_h tile - 1) (tid_w tile + 1),
            mk_tile 5 0 (tid_w tile),
            mk_tile 5 0 (tid_w tile - 1),
            mk_tile 5 0 (tid_w tile + 1)] N
     in N)"

definition cmp_face5_inner :: "int \<Rightarrow> int \<Rightarrow> Tile \<Rightarrow> Tile list option \<Rightarrow> Tile list option" where
  "cmp_face5_inner NO_TILE_H NO_TILE_W tile N =
    (store_block (tid_h tile > 0 \<and> tid_h tile < NO_TILE_H - 1 \<and> tid_w tile > 0 \<and> tid_w tile < NO_TILE_W - 1)
       [mk_tile (fid tile) (tid_h tile - 1) (tid_w tile - 1),
        mk_tile (fid tile) (tid_h tile) (tid_w tile - 1),
        mk_tile (fid tile) (tid_h tile + 1) (tid_w tile - 1),
        mk_tile (fid tile) (tid_h tile - 1) (tid_w tile),
        mk_tile (fid tile) (tid_h tile + 1) (tid_w tile),
        mk_tile (fid tile) (tid_h tile - 1) (tid_w tile + 1),
        mk_tile (fid tile) (tid_h tile) (tid_w tile + 1),
        mk_tile (fid tile) (tid_h tile + 1) (tid_w tile + 1)] N)"

definition cmp_face5_vertex :: "int \<Rightarrow> int \<Rightarrow> Tile \<Rightarrow> Tile list option \<Rightarrow> Tile list option" where
  "cmp_face5_vertex NO_TILE_H NO_TILE_W tile N =
    (let N = store_block (tid_h tile = 0 \<and> tid_w tile = 0)
           [mk_tile (fid tile) (tid_h tile + 1) (tid_w tile),
            mk_tile (fid tile) (tid_h tile) (tid_w tile + 1),
            mk_tile (fid tile) (tid_h tile + 1) (tid_w tile + 1),
            mk_tile 2 (NO_TILE_H - 1) 0,
            mk_tile 2 (NO_TILE_H - 2) 0,
            mk_tile 0 (NO_TILE_H - 1) 0,
            mk_tile 0 (NO_TILE_H - 1) 1] N;
         N = store_block (tid_h tile = NO_TILE_H - 1 \<and> tid_w tile = 0)
           [mk_tile (fid tile) (tid_h tile - 1) (tid_w tile),
            mk_tile (fid tile) (tid_h tile) (tid_w tile + 1),
            mk_tile (fid tile) (tid_h tile - 1) (tid_w tile + 1),
            mk_tile 2 0 0,
            mk_tile 2 1 0,
            mk_tile 1 0 0,
            mk_tile 1 0 1] N;
         N = store_block (tid_h tile = 0 \<and> tid_w tile = NO_TILE_W - 1)
           [mk_tile (fid tile) (tid_h tile) (tid_w tile - 1),
            mk_tile (fid tile) (tid_h tile + 1) (tid_w tile),
            mk_tile (fid tile) (tid_h tile + 1) (tid_w tile - 1),
            mk_tile 0 (NO_TILE_H - 1) (NO_TILE_W - 1),
            mk_tile 0 (NO_TILE_H - 1) (NO_TILE_W - 2),
            mk_tile 3 (NO_TILE_H - 1) (NO_TILE_W - 1),
            mk_tile 3 (NO_TILE_H - 2) (NO_TILE_W - 1)] N;
         N = store_block (tid_h tile = NO_TILE_H - 1 \<and> tid_w tile = NO_TILE_W - 1)
           [mk_tile (fid tile) (tid_h tile) (tid_w tile - 1),
            mk_tile (fid tile) (tid_h tile - 1) (tid_w tile),
            mk_tile (fid tile) (tid_h tile - 1) (tid_w tile - 1),
            mk_tile 3 1 (NO_TILE_W - 1),
            mk_tile 3 0 (NO_TILE_W - 1),
            mk_tile 1 0 (NO_TILE_W - 2),
            mk_tile 1 0 (NO_TILE_W - 1)] N
     in N)"

definition cmp_face5_border :: "int \<Rightarrow> int \<Rightarrow> Tile \<Rightarrow> Tile list option \<Rightarrow> Tile list option" where
  "cmp_face5_border NO_TILE_H NO_TILE_W tile N =
    (let N = store_block (tid_w tile = 0 \<and> tid_h tile > 0 \<and> tid_h tile < NO_TILE_H - 1)
           [mk_tile (fid tile) (tid_h tile - 1) (tid_w tile),
            mk_tile (fid tile) (tid_h tile + 1) (tid_w tile),
            mk_tile (fid tile) (tid_h tile - 1) (tid_w tile + 1),
            mk_tile (fid tile) (tid_h tile) (tid_w tile + 1),
            mk_tile (fid tile) (tid_h tile + 1) (tid_w tile + 1),
            mk_tile 2 (tid_h tile) 0,
            mk_tile 2 (tid_h tile - 1) 0,
            mk_tile 2 (tid_h tile + 1) 0] N;
         N = store_block (tid_w tile = NO_TILE_W - 1 \<and> tid_h tile > 0 \<and> tid_h tile < NO_TILE_H - 1)
           [mk_tile (fid tile) (tid_h tile - 1) (tid_w tile),
            mk_tile (fid tile) (tid_h tile + 1) (tid_w tile),
            mk_tile (fid tile) (tid_h tile + 1) (tid_w tile - 1),
            mk_tile (fid tile) (tid_h tile) (tid_w tile - 1),
            mk_tile (fid tile) (tid_h tile - 1) (tid_w tile - 1),
            mk_tile 3 (tid_h tile) (NO_TILE_W - 1),
            mk_tile 3 (tid_h tile - 1) (NO_TILE_W - 1),
            mk_tile 3 (tid_h tile + 1) (NO_TILE_W - 1)] N;
         N = store_block (tid_h tile = 0 \<and> tid_w tile > 0 \<and> tid_w tile < NO_TILE_W - 1)
           [mk_tile (fid tile) (tid_h tile) (tid_w tile + 1),
            mk_tile (fid tile) (tid_h tile) (tid_w tile - 1),
            mk_tile (fid tile) (tid_h tile + 1) (tid_w tile - 1),
            mk_tile (fid tile) (tid_h tile + 1) (tid_w tile),
            mk_tile (fid tile) (tid_h tile + 1) (tid_w tile + 1),
            mk_tile 0 (NO_TILE_H - 1) (tid_w tile),
            mk_tile 0 (NO_TILE_H - 1) (tid_w tile - 1),
            mk_tile 0 (NO_TILE_H - 1) (tid_w tile + 1)] N;
         N = store_block (tid_h tile = NO_TILE_H - 1 \<and> tid_w tile > 0 \<and> tid_w tile < NO_TILE_W - 1)
           [mk_tile (fid tile) (tid_h tile) (tid_w tile + 1),
            mk_tile (fid tile) (tid_h tile) (tid_w tile - 1),
            mk_tile (fid tile) (tid_h tile - 1) (tid_w tile - 1),
            mk_tile (fid tile) (tid_h tile - 1) (tid_w tile),
            mk_tile (fid tile) (tid_h tile - 1) (tid_w tile + 1),
            mk_tile 1 0 (tid_w tile),
            mk_tile 1 0 (tid_w tile - 1),
            mk_tile 1 0 (tid_w tile + 1)] N
     in N)"

definition cmp_face1_inner :: "int \<Rightarrow> int \<Rightarrow> Tile \<Rightarrow> Tile list option \<Rightarrow> Tile list option" where
  "cmp_face1_inner NO_TILE_H NO_TILE_W tile N =
    (store_block (tid_h tile > 0 \<and> tid_h tile < NO_TILE_H - 1 \<and> tid_w tile > 0 \<and> tid_w tile < NO_TILE_W - 1)
       [mk_tile (fid tile) (tid_h tile - 1) (tid_w tile - 1),
        mk_tile (fid tile) (tid_h tile) (tid_w tile - 1),
        mk_tile (fid tile) (tid_h tile + 1) (tid_w tile - 1),
        mk_tile (fid tile) (tid_h tile - 1) (tid_w tile),
        mk_tile (fid tile) (tid_h tile + 1) (tid_w tile),
        mk_tile (fid tile) (tid_h tile - 1) (tid_w tile + 1),
        mk_tile (fid tile) (tid_h tile) (tid_w tile + 1),
        mk_tile (fid tile) (tid_h tile + 1) (tid_w tile + 1)] N)"

definition cmp_face1_vertex :: "int \<Rightarrow> int \<Rightarrow> Tile \<Rightarrow> Tile list option \<Rightarrow> Tile list option" where
  "cmp_face1_vertex NO_TILE_H NO_TILE_W tile N =
    (let N = store_block (tid_h tile = 0 \<and> tid_w tile = 0)
           [mk_tile (fid tile) (tid_h tile + 1) (tid_w tile),
            mk_tile (fid tile) (tid_h tile) (tid_w tile + 1),
            mk_tile (fid tile) (tid_h tile + 1) (tid_w tile + 1),
            mk_tile 2 0 0,
            mk_tile 2 0 1,
            mk_tile 5 (NO_TILE_H - 1) 0,
            mk_tile 5 (NO_TILE_H - 1) 1] N;
         N = store_block (tid_h tile = NO_TILE_H - 1 \<and> tid_w tile = 0)
           [mk_tile (fid tile) (tid_h tile - 1) (tid_w tile),
            mk_tile (fid tile) (tid_h tile) (tid_w tile + 1),
            mk_tile (fid tile) (tid_h tile - 1) (tid_w tile + 1),
            mk_tile 2 0 (NO_TILE_W - 1),
            mk_tile 2 0 (NO_TILE_W - 2),
            mk_tile 4 0 0,
            mk_tile 4 0 1] N;
         N = store_block (tid_h tile = 0 \<and> tid_w tile = NO_TILE_W - 1)
           [mk_tile (fid tile) (tid_h tile) (tid_w tile - 1),
            mk_tile (fid tile) (tid_h tile + 1) (tid_w tile),
            mk_tile (fid tile) (tid_h tile + 1) (tid_w tile - 1),
            mk_tile 5 (NO_TILE_H - 1) (NO_TILE_W - 1),
            mk_tile 5 (NO_TILE_H - 1) (NO_TILE_W - 2),
            mk_tile 3 0 (NO_TILE_W - 1),
            mk_tile 3 0 (NO_TILE_W - 2)] N;
         N = store_block (tid_h tile = NO_TILE_H - 1 \<and> tid_w tile = NO_TILE_W - 1)
           [mk_tile (fid tile) (tid_h tile) (tid_w tile - 1),
            mk_tile (fid tile) (tid_h tile - 1) (tid_w tile),
            mk_tile (fid tile) (tid_h tile - 1) (tid_w tile - 1),
            mk_tile 3 0 0,
            mk_tile 3 0 1,
            mk_tile 4 0 (NO_TILE_W - 2),
            mk_tile 4 0 (NO_TILE_W - 1)] N
     in N)"

definition cmp_face1_border :: "int \<Rightarrow> int \<Rightarrow> Tile \<Rightarrow> Tile list option \<Rightarrow> Tile list option" where
  "cmp_face1_border NO_TILE_H NO_TILE_W tile N =
    (let N = store_block (tid_w tile = 0 \<and> tid_h tile > 0 \<and> tid_h tile < NO_TILE_H - 1)
           [mk_tile (fid tile) (tid_h tile - 1) (tid_w tile),
            mk_tile (fid tile) (tid_h tile + 1) (tid_w tile),
            mk_tile (fid tile) (tid_h tile - 1) (tid_w tile + 1),
            mk_tile (fid tile) (tid_h tile) (tid_w tile + 1),
            mk_tile (fid tile) (tid_h tile + 1) (tid_w tile + 1),
            mk_tile 2 0 (tid_h tile),
            mk_tile 2 0 (tid_h tile - 1),
            mk_tile 2 0 (tid_h tile + 1)] N;
         N = store_block (tid_w tile = NO_TILE_W - 1 \<and> tid_h tile > 0 \<and> tid_h tile < NO_TILE_H - 1)
           [mk_tile (fid tile) (tid_h tile - 1) (tid_w tile),
            mk_tile (fid tile) (tid_h tile + 1) (tid_w tile),
            mk_tile (fid tile) (tid_h tile + 1) (tid_w tile - 1),
            mk_tile (fid tile) (tid_h tile) (tid_w tile - 1),
            mk_tile (fid tile) (tid_h tile - 1) (tid_w tile - 1),
            mk_tile 3 0 (tid_h tile),
            mk_tile 3 0 (tid_h tile - 1),
            mk_tile 3 0 (tid_h tile + 1)] N;
         N = store_block (tid_h tile = 0 \<and> tid_w tile > 0 \<and> tid_w tile < NO_TILE_W - 1)
           [mk_tile (fid tile) (tid_h tile) (tid_w tile + 1),
            mk_tile (fid tile) (tid_h tile) (tid_w tile - 1),
            mk_tile (fid tile) (tid_h tile + 1) (tid_w tile - 1),
            mk_tile (fid tile) (tid_h tile + 1) (tid_w tile),
            mk_tile (fid tile) (tid_h tile + 1) (tid_w tile + 1),
            mk_tile 5 (NO_TILE_H - 1) (tid_w tile),
            mk_tile 5 (NO_TILE_H - 1) (tid_w tile - 1),
            mk_tile 5 (NO_TILE_H - 1) (tid_w tile + 1)] N;
         N = store_block (tid_h tile = NO_TILE_H - 1 \<and> tid_w tile > 0 \<and> tid_w tile < NO_TILE_W - 1)
           [mk_tile (fid tile) (tid_h tile) (tid_w tile + 1),
            mk_tile (fid tile) (tid_h tile) (tid_w tile - 1),
            mk_tile (fid tile) (tid_h tile - 1) (tid_w tile - 1),
            mk_tile (fid tile) (tid_h tile - 1) (tid_w tile),
            mk_tile (fid tile) (tid_h tile - 1) (tid_w tile + 1),
            mk_tile 4 0 (tid_w tile),
            mk_tile 4 0 (tid_w tile - 1),
            mk_tile 4 0 (tid_w tile + 1)] N
     in N)"

definition cmp_face4_inner :: "int \<Rightarrow> int \<Rightarrow> Tile \<Rightarrow> Tile list option \<Rightarrow> Tile list option" where
  "cmp_face4_inner NO_TILE_H NO_TILE_W tile N =
    (store_block (tid_h tile > 0 \<and> tid_h tile < NO_TILE_H - 1 \<and> tid_w tile > 0 \<and> tid_w tile < NO_TILE_W - 1)
       [mk_tile (fid tile) (tid_h tile - 1) (tid_w tile - 1),
        mk_tile (fid tile) (tid_h tile) (tid_w tile - 1),
        mk_tile (fid tile) (tid_h tile + 1) (tid_w tile - 1),
        mk_tile (fid tile) (tid_h tile - 1) (tid_w tile),
        mk_tile (fid tile) (tid_h tile + 1) (tid_w tile),
        mk_tile (fid tile) (tid_h tile - 1) (tid_w tile + 1),
        mk_tile (fid tile) (tid_h tile) (tid_w tile + 1),
        mk_tile (fid tile) (tid_h tile + 1) (tid_w tile + 1)] N)"

definition cmp_face4_vertex :: "int \<Rightarrow> int \<Rightarrow> Tile \<Rightarrow> Tile list option \<Rightarrow> Tile list option" where
  "cmp_face4_vertex NO_TILE_H NO_TILE_W tile N =
    (let N = store_block (tid_h tile = 0 \<and> tid_w tile = 0)
           [mk_tile (fid tile) (tid_h tile + 1) (tid_w tile),
            mk_tile (fid tile) (tid_h tile) (tid_w tile + 1),
            mk_tile (fid tile) (tid_h tile + 1) (tid_w tile + 1),
            mk_tile 2 0 (NO_TILE_W - 1),
            mk_tile 2 1 (NO_TILE_W - 1),
            mk_tile 1 (NO_TILE_H - 1) 0,
            mk_tile 1 (NO_TILE_H - 1) 1] N;
         N = store_block (tid_h tile = NO_TILE_H - 1 \<and> tid_w tile = 0)
           [mk_tile (fid tile) (tid_h tile - 1) (tid_w tile),
            mk_tile (fid tile) (tid_h tile) (tid_w tile + 1),
            mk_tile (fid tile) (tid_h tile - 1) (tid_w tile + 1),
            mk_tile 2 (NO_TILE_H - 1) (NO_TILE_W - 1),
            mk_tile 2 (NO_TILE_H - 2) (NO_TILE_W - 1),
            mk_tile 0 0 0,
            mk_tile 0 0 1] N;
         N = store_block (tid_h tile = 0 \<and> tid_w tile = NO_TILE_W - 1)
           [mk_tile (fid tile) (tid_h tile) (tid_w tile - 1),
            mk_tile (fid tile) (tid_h tile + 1) (tid_w tile),
            mk_tile (fid tile) (tid_h tile + 1) (tid_w tile - 1),
            mk_tile 1 (NO_TILE_H - 1) (NO_TILE_W - 1),
            mk_tile 1 (NO_TILE_H - 1) (NO_TILE_W - 2),
            mk_tile 3 0 0,
            mk_tile 3 1 0] N;
         N = store_block (tid_h tile = NO_TILE_H - 1 \<and> tid_w tile = NO_TILE_W - 1)
           [mk_tile (fid tile) (tid_h tile) (tid_w tile - 1),
            mk_tile (fid tile) (tid_h tile - 1) (tid_w tile),
            mk_tile (fid tile) (tid_h tile - 1) (tid_w tile - 1),
            mk_tile 3 (NO_TILE_H - 1) 0,
            mk_tile 3 (NO_TILE_H - 2) 0,
            mk_tile 0 0 (NO_TILE_W - 2),
            mk_tile 0 0 (NO_TILE_W - 1)] N
     in N)"

definition cmp_face4_border :: "int \<Rightarrow> int \<Rightarrow> Tile \<Rightarrow> Tile list option \<Rightarrow> Tile list option" where
  "cmp_face4_border NO_TILE_H NO_TILE_W tile N =
    (let N = store_block (tid_w tile = 0 \<and> tid_h tile > 0 \<and> tid_h tile < NO_TILE_H - 1)
           [mk_tile (fid tile) (tid_h tile - 1) (tid_w tile),
            mk_tile (fid tile) (tid_h tile + 1) (tid_w tile),
            mk_tile (fid tile) (tid_h tile - 1) (tid_w tile + 1),
            mk_tile (fid tile) (tid_h tile) (tid_w tile + 1),
            mk_tile (fid tile) (tid_h tile + 1) (tid_w tile + 1),
            mk_tile 2 (tid_h tile) (NO_TILE_W - 1),
            mk_tile 2 (tid_h tile - 1) (NO_TILE_W - 1),
            mk_tile 2 (tid_h tile + 1) (NO_TILE_W - 1)] N;
         N = store_block (tid_w tile = NO_TILE_W - 1 \<and> tid_h tile > 0 \<and> tid_h tile < NO_TILE_H - 1)
           [mk_tile (fid tile) (tid_h tile - 1) (tid_w tile),
            mk_tile (fid tile) (tid_h tile + 1) (tid_w tile),
            mk_tile (fid tile) (tid_h tile + 1) (tid_w tile - 1),
            mk_tile (fid tile) (tid_h tile) (tid_w tile - 1),
            mk_tile (fid tile) (tid_h tile - 1) (tid_w tile - 1),
            mk_tile 3 (tid_h tile) 0,
            mk_tile 3 (tid_h tile - 1) 0,
            mk_tile 3 (tid_h tile + 1) 0] N;
         N = store_block (tid_h tile = 0 \<and> tid_w tile > 0 \<and> tid_w tile < NO_TILE_W - 1)
           [mk_tile (fid tile) (tid_h tile) (tid_w tile + 1),
            mk_tile (fid tile) (tid_h tile) (tid_w tile - 1),
            mk_tile (fid tile) (tid_h tile + 1) (tid_w tile - 1),
            mk_tile (fid tile) (tid_h tile + 1) (tid_w tile),
            mk_tile (fid tile) (tid_h tile + 1) (tid_w tile + 1),
            mk_tile 1 (NO_TILE_H - 1) (tid_w tile),
            mk_tile 1 (NO_TILE_H - 1) (tid_w tile - 1),
            mk_tile 1 (NO_TILE_H - 1) (tid_w tile + 1)] N;
         N = store_block (tid_h tile = NO_TILE_H - 1 \<and> tid_w tile > 0 \<and> tid_w tile < NO_TILE_W - 1)
           [mk_tile (fid tile) (tid_h tile) (tid_w tile + 1),
            mk_tile (fid tile) (tid_h tile) (tid_w tile - 1),
            mk_tile (fid tile) (tid_h tile - 1) (tid_w tile - 1),
            mk_tile (fid tile) (tid_h tile - 1) (tid_w tile),
            mk_tile (fid tile) (tid_h tile - 1) (tid_w tile + 1),
            mk_tile 0 0 (tid_w tile),
            mk_tile 0 0 (tid_w tile - 1),
            mk_tile 0 0 (tid_w tile + 1)] N
     in N)"

definition cmp_face3_inner :: "int \<Rightarrow> int \<Rightarrow> Tile \<Rightarrow> Tile list option \<Rightarrow> Tile list option" where
  "cmp_face3_inner NO_TILE_H NO_TILE_W tile N =
    (store_block (tid_h tile > 0 \<and> tid_h tile < NO_TILE_H - 1 \<and> tid_w tile > 0 \<and> tid_w tile < NO_TILE_W - 1)
       [mk_tile (fid tile) (tid_h tile - 1) (tid_w tile - 1),
        mk_tile (fid tile) (tid_h tile) (tid_w tile - 1),
        mk_tile (fid tile) (tid_h tile + 1) (tid_w tile - 1),
        mk_tile (fid tile) (tid_h tile - 1) (tid_w tile),
        mk_tile (fid tile) (tid_h tile + 1) (tid_w tile),
        mk_tile (fid tile) (tid_h tile - 1) (tid_w tile + 1),
        mk_tile (fid tile) (tid_h tile) (tid_w tile + 1),
        mk_tile (fid tile) (tid_h tile + 1) (tid_w tile + 1)] N)"

definition cmp_face3_vertex :: "int \<Rightarrow> int \<Rightarrow> Tile \<Rightarrow> Tile list option \<Rightarrow> Tile list option" where
  "cmp_face3_vertex NO_TILE_H NO_TILE_W tile N =
    (let N = store_block (tid_h tile = 0 \<and> tid_w tile = 0)
           [mk_tile (fid tile) (tid_h tile + 1) (tid_w tile),
            mk_tile (fid tile) (tid_h tile) (tid_w tile + 1),
            mk_tile (fid tile) (tid_h tile + 1) (tid_w tile + 1),
            mk_tile 4 0 (NO_TILE_W - 1),
            mk_tile 4 1 (NO_TILE_W - 1),
            mk_tile 1 (NO_TILE_H - 1) (NO_TILE_W - 1),
            mk_tile 1 (NO_TILE_H - 2) (NO_TILE_W - 1)] N;
         N = store_block (tid_h tile = NO_TILE_H - 1 \<and> tid_w tile = 0)
           [mk_tile (fid tile) (tid_h tile - 1) (tid_w tile),
            mk_tile (fid tile) (tid_h tile) (tid_w tile + 1),
            mk_tile (fid tile) (tid_h tile - 1) (tid_w tile + 1),
            mk_tile 0 0 (NO_TILE_W - 1),
            mk_tile 0 1 (NO_TILE_W - 1),
            mk_tile 4 (NO_TILE_H - 1) (NO_TILE_W - 1),
            mk_tile 4 (NO_TILE_H - 2) (NO_TILE_W - 1)] N;
         N = store_block (tid_h tile = 0 \<and> tid_w tile = NO_TILE_W - 1)
           [mk_tile (fid tile) (tid_h tile) (tid_w tile - 1),
            mk_tile (fid tile) (tid_h tile + 1) (tid_w tile),
            mk_tile (fid tile) (tid_h tile + 1) (tid_w tile - 1),
            mk_tile 1 0 (NO_TILE_W - 1),
            mk_tile 1 1 (NO_TILE_W - 1),
            mk_tile 5 (NO_TILE_H - 1) (NO_TILE_W - 1),
            mk_tile 5 (NO_TILE_H - 2) (NO_TILE_W - 1)] N;
         N = store_block (tid_h tile = NO_TILE_H - 1 \<and> tid_w tile = NO_TILE_W - 1)
           [mk_tile (fid tile) (tid_h tile) (tid_w tile - 1),
            mk_tile (fid tile) (tid_h tile - 1) (tid_w tile),
            mk_tile (fid tile) (tid_h tile - 1) (tid_w tile - 1),
            mk_tile 5 0 (NO_TILE_W - 1),
            mk_tile 5 1 (NO_TILE_W - 1),
            mk_tile 0 (NO_TILE_H - 1) (NO_TILE_W - 1),
            mk_tile 0 (NO_TILE_H - 2) (NO_TILE_W - 1)] N
     in N)"

definition cmp_face3_border :: "int \<Rightarrow> int \<Rightarrow> Tile \<Rightarrow> Tile list option \<Rightarrow> Tile list option" where
  "cmp_face3_border NO_TILE_H NO_TILE_W tile N =
    (let N = store_block (tid_w tile = 0 \<and> tid_h tile > 0 \<and> tid_h tile < NO_TILE_H - 1)
           [mk_tile (fid tile) (tid_h tile - 1) (tid_w tile),
            mk_tile (fid tile) (tid_h tile + 1) (tid_w tile),
            mk_tile (fid tile) (tid_h tile - 1) (tid_w tile + 1),
            mk_tile (fid tile) (tid_h tile) (tid_w tile + 1),
            mk_tile (fid tile) (tid_h tile + 1) (tid_w tile + 1),
            mk_tile 4 (tid_h tile) (NO_TILE_W - 1),
            mk_tile 4 (tid_h tile - 1) (NO_TILE_W - 1),
            mk_tile 4 (tid_h tile + 1) (NO_TILE_W - 1)] N;
         N = store_block (tid_w tile = NO_TILE_W - 1 \<and> tid_h tile > 0 \<and> tid_h tile < NO_TILE_H - 1)
           [mk_tile (fid tile) (tid_h tile - 1) (tid_w tile),
            mk_tile (fid tile) (tid_h tile + 1) (tid_w tile),
            mk_tile (fid tile) (tid_h tile + 1) (tid_w tile - 1),
            mk_tile (fid tile) (tid_h tile) (tid_w tile - 1),
            mk_tile (fid tile) (tid_h tile - 1) (tid_w tile - 1),
            mk_tile 5 (tid_h tile) (NO_TILE_W - 1),
            mk_tile 5 (tid_h tile - 1) (NO_TILE_W - 1),
            mk_tile 5 (tid_h tile + 1) (NO_TILE_W - 1)] N;
         N = store_block (tid_h tile = 0 \<and> tid_w tile > 0 \<and> tid_w tile < NO_TILE_W - 1)
           [mk_tile (fid tile) (tid_h tile) (tid_w tile + 1),
            mk_tile (fid tile) (tid_h tile) (tid_w tile - 1),
            mk_tile (fid tile) (tid_h tile + 1) (tid_w tile - 1),
            mk_tile (fid tile) (tid_h tile + 1) (tid_w tile),
            mk_tile (fid tile) (tid_h tile + 1) (tid_w tile + 1),
            mk_tile 1 (tid_w tile) (NO_TILE_W - 1),
            mk_tile 1 (tid_w tile - 1) (NO_TILE_W - 1),
            mk_tile 1 (tid_w tile + 1) (NO_TILE_W - 1)] N;
         N = store_block (tid_h tile = NO_TILE_H - 1 \<and> tid_w tile > 0 \<and> tid_w tile < NO_TILE_W - 1)
           [mk_tile (fid tile) (tid_h tile) (tid_w tile + 1),
            mk_tile (fid tile) (tid_h tile) (tid_w tile - 1),
            mk_tile (fid tile) (tid_h tile - 1) (tid_w tile - 1),
            mk_tile (fid tile) (tid_h tile - 1) (tid_w tile),
            mk_tile (fid tile) (tid_h tile - 1) (tid_w tile + 1),
            mk_tile 0 (tid_w tile) (NO_TILE_W - 1),
            mk_tile 0 (tid_w tile - 1) (NO_TILE_W - 1),
            mk_tile 0 (tid_w tile + 1) (NO_TILE_W - 1)] N
     in N)"

definition cmp_face2_inner :: "int \<Rightarrow> int \<Rightarrow> Tile \<Rightarrow> Tile list option \<Rightarrow> Tile list option" where
  "cmp_face2_inner NO_TILE_H NO_TILE_W tile N =
    (store_block (tid_h tile > 0 \<and> tid_h tile < NO_TILE_H - 1 \<and> tid_w tile > 0 \<and> tid_w tile < NO_TILE_W - 1)
       [mk_tile (fid tile) (tid_h tile - 1) (tid_w tile - 1),
        mk_tile (fid tile) (tid_h tile) (tid_w tile - 1),
        mk_tile (fid tile) (tid_h tile + 1) (tid_w tile - 1),
        mk_tile (fid tile) (tid_h tile - 1) (tid_w tile),
        mk_tile (fid tile) (tid_h tile + 1) (tid_w tile),
        mk_tile (fid tile) (tid_h tile - 1) (tid_w tile + 1),
        mk_tile (fid tile) (tid_h tile) (tid_w tile + 1),
        mk_tile (fid tile) (tid_h tile + 1) (tid_w tile + 1)] N)"

definition cmp_face2_vertex :: "int \<Rightarrow> int \<Rightarrow> Tile \<Rightarrow> Tile list option \<Rightarrow> Tile list option" where
  "cmp_face2_vertex NO_TILE_H NO_TILE_W tile N =
    (let N = store_block (tid_h tile = 0 \<and> tid_w tile = 0)
           [mk_tile (fid tile) (tid_h tile + 1) (tid_w tile),
            mk_tile (fid tile) (tid_h tile) (tid_w tile + 1),
            mk_tile (fid tile) (tid_h tile + 1) (tid_w tile + 1),
            mk_tile 1 0 0,
            mk_tile 1 1 0,
            mk_tile 5 (NO_TILE_H - 1) 0,
            mk_tile 5 (NO_TILE_H - 2) 0] N;
         N = store_block (tid_h tile = NO_TILE_H - 1 \<and> tid_w tile = 0)
           [mk_tile (fid tile) (tid_h tile - 1) (tid_w tile),
            mk_tile (fid tile) (tid_h tile) (tid_w tile + 1),
            mk_tile (fid tile) (tid_h tile - 1) (tid_w tile + 1),
            mk_tile 5 0 0,
            mk_tile 5 1 0,
            mk_tile 0 (NO_TILE_H - 1) 0,
            mk_tile 0 (NO_TILE_H - 2) 0] N;
         N = store_block (tid_h tile = 0 \<and> tid_w tile = NO_TILE_W - 1)
           [mk_tile (fid tile) (tid_h tile) (tid_w tile - 1),
            mk_tile (fid tile) (tid_h tile + 1) (tid_w tile),
            mk_tile (fid tile) (tid_h tile + 1) (tid_w tile - 1),
            mk_tile 4 0 0,
            mk_tile 4 1 0,
            mk_tile 1 (NO_TILE_H - 1) 0,
            mk_tile 1 (NO_TILE_H - 2) 0] N;
         N = store_block (tid_h tile = NO_TILE_H - 1 \<and> tid_w tile = NO_TILE_W - 1)
           [mk_tile (fid tile) (tid_h tile) (tid_w tile - 1),
            mk_tile (fid tile) (tid_h tile - 1) (tid_w tile),
            mk_tile (fid tile) (tid_h tile - 1) (tid_w tile - 1),
            mk_tile 0 0 0,
            mk_tile 0 1 0,
            mk_tile 4 (NO_TILE_H - 1) 0,
            mk_tile 4 (NO_TILE_H - 2) 0] N
     in N)"

definition cmp_face2_border :: "int \<Rightarrow> int \<Rightarrow> Tile \<Rightarrow> Tile list option \<Rightarrow> Tile list option" where
  "cmp_face2_border NO_TILE_H NO_TILE_W tile N =
    (let N = store_block (tid_w tile = 0 \<and> tid_h tile > 0 \<and> tid_h tile < NO_TILE_H - 1)
           [mk_tile (fid tile) (tid_h tile - 1) (tid_w tile),
            mk_tile (fid tile) (tid_h tile + 1) (tid_w tile),
            mk_tile (fid tile) (tid_h tile - 1) (tid_w tile + 1),
            mk_tile (fid tile) (tid_h tile) (tid_w tile + 1),
            mk_tile (fid tile) (tid_h tile + 1) (tid_w tile + 1),
            mk_tile 5 (tid_h tile) 0,
            mk_tile 5 (tid_h tile - 1) 0,
            mk_tile 5 (tid_h tile + 1) 0] N;
         N = store_block (tid_w tile = NO_TILE_W - 1 \<and> tid_h tile > 0 \<and> tid_h tile < NO_TILE_H - 1)
           [mk_tile (fid tile) (tid_h tile - 1) (tid_w tile),
            mk_tile (fid tile) (tid_h tile + 1) (tid_w tile),
            mk_tile (fid tile) (tid_h tile + 1) (tid_w tile - 1),
            mk_tile (fid tile) (tid_h tile) (tid_w tile - 1),
            mk_tile (fid tile) (tid_h tile - 1) (tid_w tile - 1),
            mk_tile 4 (tid_h tile) 0,
            mk_tile 4 (tid_h tile - 1) 0,
            mk_tile 4 (tid_h tile + 1) 0] N;
         N = store_block (tid_h tile = 0 \<and> tid_w tile > 0 \<and> tid_w tile < NO_TILE_W - 1)
           [mk_tile (fid tile) (tid_h tile) (tid_w tile + 1),
            mk_tile (fid tile) (tid_h tile) (tid_w tile - 1),
            mk_tile (fid tile) (tid_h tile + 1) (tid_w tile - 1),
            mk_tile (fid tile) (tid_h tile + 1) (tid_w tile),
            mk_tile (fid tile) (tid_h tile + 1) (tid_w tile + 1),
            mk_tile 1 (tid_w tile) 0,
            mk_tile 1 (tid_w tile - 1) 0,
            mk_tile 1 (tid_w tile + 1) 0] N;
         N = store_block (tid_h tile = NO_TILE_H - 1 \<and> tid_w tile > 0 \<and> tid_w tile < NO_TILE_W - 1)
           [mk_tile (fid tile) (tid_h tile) (tid_w tile + 1),
            mk_tile (fid tile) (tid_h tile) (tid_w tile - 1),
            mk_tile (fid tile) (tid_h tile - 1) (tid_w tile - 1),
            mk_tile (fid tile) (tid_h tile - 1) (tid_w tile),
            mk_tile (fid tile) (tid_h tile - 1) (tid_w tile + 1),
            mk_tile 0 (tid_w tile) 0,
            mk_tile 0 (tid_w tile - 1) 0,
            mk_tile 0 (tid_w tile + 1) 0] N
     in N)"

definition cmp_face0 :: "int \<Rightarrow> int \<Rightarrow> Tile \<Rightarrow> Tile list option \<Rightarrow> Tile list option" where
  "cmp_face0 NO_TILE_H NO_TILE_W tile N =
     cmp_face0_border NO_TILE_H NO_TILE_W tile
       (cmp_face0_vertex NO_TILE_H NO_TILE_W tile
         (cmp_face0_inner NO_TILE_H NO_TILE_W tile N))"

definition cmp_face5 :: "int \<Rightarrow> int \<Rightarrow> Tile \<Rightarrow> Tile list option \<Rightarrow> Tile list option" where
  "cmp_face5 NO_TILE_H NO_TILE_W tile N =
     cmp_face5_border NO_TILE_H NO_TILE_W tile
       (cmp_face5_vertex NO_TILE_H NO_TILE_W tile
         (cmp_face5_inner NO_TILE_H NO_TILE_W tile N))"

definition cmp_face1 :: "int \<Rightarrow> int \<Rightarrow> Tile \<Rightarrow> Tile list option \<Rightarrow> Tile list option" where
  "cmp_face1 NO_TILE_H NO_TILE_W tile N =
     cmp_face1_border NO_TILE_H NO_TILE_W tile
       (cmp_face1_vertex NO_TILE_H NO_TILE_W tile
         (cmp_face1_inner NO_TILE_H NO_TILE_W tile N))"

definition cmp_face4 :: "int \<Rightarrow> int \<Rightarrow> Tile \<Rightarrow> Tile list option \<Rightarrow> Tile list option" where
  "cmp_face4 NO_TILE_H NO_TILE_W tile N =
     cmp_face4_border NO_TILE_H NO_TILE_W tile
       (cmp_face4_vertex NO_TILE_H NO_TILE_W tile
         (cmp_face4_inner NO_TILE_H NO_TILE_W tile N))"

definition cmp_face3 :: "int \<Rightarrow> int \<Rightarrow> Tile \<Rightarrow> Tile list option \<Rightarrow> Tile list option" where
  "cmp_face3 NO_TILE_H NO_TILE_W tile N =
     cmp_face3_border NO_TILE_H NO_TILE_W tile
       (cmp_face3_vertex NO_TILE_H NO_TILE_W tile
         (cmp_face3_inner NO_TILE_H NO_TILE_W tile N))"

definition cmp_face2 :: "int \<Rightarrow> int \<Rightarrow> Tile \<Rightarrow> Tile list option \<Rightarrow> Tile list option" where
  "cmp_face2 NO_TILE_H NO_TILE_W tile N =
     cmp_face2_border NO_TILE_H NO_TILE_W tile
       (cmp_face2_vertex NO_TILE_H NO_TILE_W tile
         (cmp_face2_inner NO_TILE_H NO_TILE_W tile N))"

definition cmp_grid :: "int \<Rightarrow> int \<Rightarrow> Tile \<Rightarrow> Tile list option \<Rightarrow> Tile list option" where
  "cmp_grid NO_TILE_H NO_TILE_W tile N =
    (let N = (if fid tile = 0 then cmp_face0 NO_TILE_H NO_TILE_W tile N else N);
         N = (if fid tile = 5 then cmp_face5 NO_TILE_H NO_TILE_W tile N else N);
         N = (if fid tile = 1 then cmp_face1 NO_TILE_H NO_TILE_W tile N else N);
         N = (if fid tile = 4 then cmp_face4 NO_TILE_H NO_TILE_W tile N else N);
         N = (if fid tile = 3 then cmp_face3 NO_TILE_H NO_TILE_W tile N else N);
         N = (if fid tile = 2 then cmp_face2 NO_TILE_H NO_TILE_W tile N else N)
     in N)"

section \<open>Grids with one row\<close>

definition cmp_strip_face0 :: "int \<Rightarrow> Tile \<Rightarrow> Tile list \<Rightarrow> Tile list option" where
  "cmp_strip_face0 NO_TILE_H tile tiles = do {
      tiles \<leftarrow> (if tid_h tile = 0
        then push_cells 9
           [mk_tile 2 (NO_TILE_H - 1) 0,
             mk_tile 3 (NO_TILE_H - 1) 0,
             mk_tile 4 (NO_TILE_H - 1) 0] tiles
        else Some tiles);
      tiles \<leftarrow> (if tid_h tile = NO_TILE_H - 1
        then push_cells 9
           [mk_tile 2 (NO_TILE_H - 1) 0,
             mk_tile 3 (NO_TILE_H - 1) 0,
             mk_tile 5 0 0] tiles
        else Some tiles);
      tiles \<leftarrow> (if tid_h tile > 0 \<and> tid_h tile < NO_TILE_H - 1
        then push_cells 9
           [mk_tile 2 (NO_TILE_H - 1) 0,
             mk_tile 3 (NO_TILE_H - 1) 0] tiles
        else Some tiles);
      Some tiles
    }"

definition cmp_strip_face5 :: "int \<Rightarrow> Tile \<Rightarrow> Tile list \<Rightarrow> Tile list option" where
  "cmp_strip_face5 NO_TILE_H tile tiles = do {
      tiles \<leftarrow> (if tid_h tile = 0
        then push_cells 9
           [mk_tile 2 (NO_TILE_H - 1) 0,
             mk_tile 2 (NO_TILE_H - 2) 0,
             mk_tile 3 (NO_TILE_H - 1) 0,
             mk_tile 3 (NO_TILE_H - 2) 0,
             mk_tile 0 (NO_TILE_H - 1) 0] tiles
        else Some tiles);
      tiles \<leftarrow> (if tid_h tile = NO_TILE_H - 1
        then push_cells 9
           [mk_tile 2 0 0,
             mk_tile 2 1 0,
             mk_tile 3 0 0,
             mk_tile 3 1 0,
             mk_tile 1 0 0] tiles
        else Some tiles);
      tiles \<leftarrow> (if tid_h tile > 0 \<and> tid_h tile < NO_TILE_H - 1
        then push_cells 9
           [mk_tile 2 (tid_h tile) 0,
             mk_tile 2 (tid_h tile - 1) 0,
             mk_tile 2 (tid_h tile + 1) 0,
             mk_tile 3 (tid_h tile) 0,
             mk_tile 3 (tid_h tile - 1) 0,
             mk_tile 3 (tid_h tile + 1) 0] tiles
        else Some tiles);
      Some tiles
    }"

definition cmp_strip_face1 :: "int \<Rightarrow> Tile \<Rightarrow> Tile list \<Rightarrow> Tile list option" where
  "cmp_strip_face1 NO_TILE_H tile tiles = do {
      tiles \<leftarrow> (if tid_h tile = 0
        then push_cells 9
           [mk_tile 2 0 0,
             mk_tile 3 0 0,
             mk_tile 5 (NO_TILE_H - 1) 0] tiles
        else Some tiles);
      tiles \<leftarrow> (if tid_h tile = NO_TILE_H - 1
        then push_cells 9
           [mk_tile 2 0 0,
             mk_tile 3 0 0,
             mk_tile 4 0 0] tiles
        else Some tiles);
      tiles \<leftarrow> (if tid_h tile > 0 \<and> tid_h tile < NO_TILE_H - 1
        then push_cells 9
           [mk_tile 2 0 0,
             mk_tile 3 0 0] tiles
        else Some tiles);
      Some tiles
    }"

definition cmp_strip_face4 :: "int \<Rightarrow> Tile \<Rightarrow> Tile list \<Rightarrow> Tile list option" where
  "cmp_strip_face4 NO_TILE_H tile tiles = do {
      tiles \<leftarrow> (if tid_h tile = 0
        then push_cells 9
           [mk_tile 2 0 0,
             mk_tile 2 1 0,
             mk_tile 3 0 0,
             mk_tile 3 1 0,
             mk_tile 1 (NO_TILE_H - 1) 0] tiles
        else Some tiles);
      tiles \<leftarrow> (if tid_h tile = NO_TILE_H - 1
        then push_cells 9
           [mk_tile 2 (NO_TILE_H - 1) 0,
             mk_tile 2 (NO_TILE_H - 2) 0,
             mk_tile 3 (NO_TILE_H - 1) 0,
             mk_tile 3 (NO_TILE_H - 2) 0,
             mk_tile 0 0 0] tiles
        else Some tiles);
      tiles \<leftarrow> (if tid_h tile > 0 \<and> tid_h tile < NO_TILE_H - 1
        then push_cells 9
           [mk_tile 2 (tid_h tile) 0,
             mk_tile 2 (tid_h tile - 1) 0,
             mk_tile 2 (tid_h tile + 1) 0,
             mk_tile 3 (tid_h tile) 0,
             mk_tile 3 (tid_h tile - 1) 0,
             mk_tile 3 (tid_h tile + 1) 0] tiles
        else Some tiles);
      Some tiles
    }"

definition cmp_strip_face2 :: "int \<Rightarrow> Tile \<Rightarrow> Tile list \<Rightarrow> Tile list option" where
  "cmp_strip_face2 NO_TILE_H tile tiles = do {
      tiles \<leftarrow> (if tid_h tile = 0
        then push_cells 9
           ([mk_tile 4 0 0,
             mk_tile 4 1 0,
             mk_tile 5 (NO_TILE_H - 1) 0,
             mk_tile 5 (NO_TILE_H - 2) 0]
             @ map (\<lambda>i. mk_tile 1 i 0) [0..NO_TILE_H - 1]) tiles
        else Some tiles);
      tiles \<leftarrow> (if tid_h tile = NO_TILE_H - 1
        then push_cells 9
           ([mk_tile 5 0 0,
             mk_tile 5 1 0,
             mk_tile 4 (NO_TILE_H - 1) 0,
             mk_tile 4 (NO_TILE_H - 2) 0]
             @ map (\<lambda>i. mk_tile 0 i 0) [0..NO_TILE_H - 1]) tiles
        else Some tiles);
      tiles \<leftarrow> (if tid_h tile > 0 \<and> tid_h tile < NO_TILE_H - 1
        then push_cells 9
           [mk_tile 4 (tid_h tile) 0,
             mk_tile 4 (tid_h tile - 1) 0,
             mk_tile 4 (tid_h tile + 1) 0,
             mk_tile 5 (tid_h tile) 0,
             mk_tile 5 (tid_h tile - 1) 0,
             mk_tile 5 (tid_h tile + 1) 0] tiles
        else Some tiles);
      Some tiles
    }"

definition cmp_strip_face3 :: "int \<Rightarrow> Tile \<Rightarrow> Tile list \<Rightarrow> Tile list option" where
  "cmp_strip_face3 NO_TILE_H tile tiles = do {
      tiles \<leftarrow> (if tid_h tile = 0
        then push_cells 9
           ([mk_tile 4 0 0,
             mk_tile 4 1 0,
             mk_tile 5 (NO_TILE_H - 1) 0,
             mk_tile 5 (NO_TILE_H - 2) 0]
             @ map (\<lambda>i. mk_tile 1 i 0) [0..NO_TILE_H - 1]) tiles
        else Some tiles);
      tiles \<leftarrow> (if tid_h tile = NO_TILE_H - 1
        then push_cells 9
           ([mk_tile 5 0 0,
             mk_tile 5 1 0,
             mk_tile 4 (NO_TILE_H - 1) 0,
             mk_tile 4 (NO_TILE_H - 2) 0]
             @ map (\<lambda>i. mk_tile 0 i 0) [0..NO_TILE_H - 1]) tiles
        else Some tiles);
      tiles \<leftarrow> (if tid_h tile > 0 \<and> tid_h tile < NO_TILE_H - 1
        then push_cells 9
           [mk_tile 4 (tid_h tile) 0,
             mk_tile 4 (tid_h tile - 1) 0,
             mk_tile 4 (tid_h tile + 1) 0,
             mk_tile 5 (tid_h tile) 0,
             mk_tile 5 (tid_h tile - 1) 0,
             mk_tile 5 (tid_h tile + 1) 0] tiles
        else Some tiles);
      Some tiles
    }"

text \<open>
  The neighbours inside the face come first, then the rows of the face's blocks at
  \<open>tiles[cnt++]\<close>. \<open>*N\<close> is set by the branch of the face only.
\<close>

definition cmp_strip :: "int \<Rightarrow> int \<Rightarrow> Tile \<Rightarrow> Tile list option" where
  "cmp_strip NO_TILE_H NO_TILE_W tile = do {
      adjTile \<leftarrow> get_adj_tile_in_face NO_TILE_H NO_TILE_W (tid_w tile) (tid_h tile);
      tiles \<leftarrow> push_cells 9 (map (\<lambda>(h, w). mk_tile (fid tile) h w) adjTile) [];
      (if fid tile = 0 then cmp_strip_face0 NO_TILE_H tile tiles
       else if fid tile = 5 then cmp_strip_face5 NO_TILE_H tile tiles
       else if fid tile = 1 then cmp_strip_face1 NO_TILE_H tile tiles
       else if fid tile = 4 then cmp_strip_face4 NO_TILE_H tile tiles
       else if fid tile = 2 then cmp_strip_face2 NO_TILE_H tile tiles
       else if fid tile = 3 then cmp_strip_face3 NO_TILE_H tile tiles
       else None)
    }"

section \<open>The routine\<close>

definition cmp_decode :: "int \<Rightarrow> int \<Rightarrow> int \<Rightarrow> Tile" where
  "cmp_decode NO_TILE_H NO_TILE_W tid =
    (let f = tid sdiv (NO_TILE_H * NO_TILE_W);
         w = (tid - f * (NO_TILE_H * NO_TILE_W)) sdiv NO_TILE_H
     in mk_tile f (tid - f * (NO_TILE_H * NO_TILE_W) - w * NO_TILE_H) w)"

definition cmp_encode :: "int \<Rightarrow> int \<Rightarrow> Tile \<Rightarrow> int" where
  "cmp_encode NO_TILE_H NO_TILE_W t =
     NO_TILE_H * NO_TILE_W * fid t + NO_TILE_H * tid_w t + tid_h t"

definition getAdjacentTileCMP :: "int \<Rightarrow> int \<Rightarrow> int \<Rightarrow> int list option" where
  "getAdjacentTileCMP NO_TILE_H NO_TILE_W tid =
    (if NO_TILE_H * NO_TILE_W = 0 then None else
     let tile = cmp_decode NO_TILE_H NO_TILE_W tid;
         N = (if NO_TILE_H \<ge> 2 \<and> NO_TILE_W \<ge> 2 then cmp_grid NO_TILE_H NO_TILE_W tile None else None);
         N = (if NO_TILE_W = 1 then cmp_strip NO_TILE_H NO_TILE_W tile else N)
     in map_option (map (cmp_encode NO_TILE_H NO_TILE_W)) N)"

section \<open>Correctness on square faces\<close>

definition on_cube :: "int \<Rightarrow> Tile \<Rightarrow> bool" where
  "on_cube n t \<longleftrightarrow> 0 \<le> fid t \<and> fid t < 6 \<and> 0 \<le> tid_h t \<and> tid_h t < n \<and> 0 \<le> tid_w t \<and> tid_w t < n"

definition at_vertex :: "int \<Rightarrow> Tile \<Rightarrow> bool" where
  "at_vertex n t \<longleftrightarrow> (tid_h t = 0 \<or> tid_h t = n - 1) \<and> (tid_w t = 0 \<or> tid_w t = n - 1)"

text \<open>
  What a neighbour list has to satisfy: its tiles lie on the cube, differ from each other and
  from the tile itself, and there are seven of them at a vertex of the cube, eight elsewhere.
\<close>

definition proper_neighbours :: "int \<Rightarrow> Tile \<Rightarrow> Tile list \<Rightarrow> bool" where
  "proper_neighbours n t ts \<longleftrightarrow>
     (\<forall>u \<in> set ts. on_cube n u) \<and> distinct ts \<and> t \<notin> set ts \<and>
     length ts = (if at_vertex n t then 7 else 8)"

lemma side_cases:
  fixes x n :: int
  assumes "0 \<le> x" "x < n" "2 \<le> n"
  obtains "x = 0" "n - 1 \<noteq> 0" | "0 < x" "x < n - 1" | "x = n - 1" "n - 1 \<noteq> 0"
  using assms by linarith

lemmas proper_defs = store_block_def proper_neighbours_def on_cube_def at_vertex_def

lemma cmp_face0_proper:
  assumes "2 \<le> n" "0 \<le> h" "h < n" "0 \<le> w" "w < n"
  shows "\<exists>ts. cmp_face0 n n (mk_tile 0 h w) N = Some ts \<and> proper_neighbours n (mk_tile 0 h w) ts"
  by (rule side_cases [OF assms(2,3,1)]; rule side_cases [OF assms(4,5,1)];
      use assms in \<open>simp add: cmp_face0_def cmp_face0_inner_def cmp_face0_vertex_def
        cmp_face0_border_def proper_defs\<close>)

lemma cmp_face5_proper:
  assumes "2 \<le> n" "0 \<le> h" "h < n" "0 \<le> w" "w < n"
  shows "\<exists>ts. cmp_face5 n n (mk_tile 5 h w) N = Some ts \<and> proper_neighbours n (mk_tile 5 h w) ts"
  by (rule side_cases [OF assms(2,3,1)]; rule side_cases [OF assms(4,5,1)];
      use assms in \<open>simp add: cmp_face5_def cmp_face5_inner_def cmp_face5_vertex_def
        cmp_face5_border_def proper_defs\<close>)

lemma cmp_face1_proper:
  assumes "2 \<le> n" "0 \<le> h" "h < n" "0 \<le> w" "w < n"
  shows "\<exists>ts. cmp_face1 n n (mk_tile 1 h w) N = Some ts \<and> proper_neighbours n (mk_tile 1 h w) ts"
  by (rule side_cases [OF assms(2,3,1)]; rule side_cases [OF assms(4,5,1)];
      use assms in \<open>simp add: cmp_face1_def cmp_face1_inner_def cmp_face1_vertex_def
        cmp_face1_border_def proper_defs\<close>)

lemma cmp_face4_proper:
  assumes "2 \<le> n" "0 \<le> h" "h < n" "0 \<le> w" "w < n"
  shows "\<exists>ts. cmp_face4 n n (mk_tile 4 h w) N = Some ts \<and> proper_neighbours n (mk_tile 4 h w) ts"
  by (rule side_cases [OF assms(2,3,1)]; rule side_cases [OF assms(4,5,1)];
      use assms in \<open>simp add: cmp_face4_def cmp_face4_inner_def cmp_face4_vertex_def
        cmp_face4_border_def proper_defs\<close>)

lemma cmp_face3_proper:
  assumes "2 \<le> n" "0 \<le> h" "h < n" "0 \<le> w" "w < n"
  shows "\<exists>ts. cmp_face3 n n (mk_tile 3 h w) N = Some ts \<and> proper_neighbours n (mk_tile 3 h w) ts"
  by (rule side_cases [OF assms(2,3,1)]; rule side_cases [OF assms(4,5,1)];
      use assms in \<open>simp add: cmp_face3_def cmp_face3_inner_def cmp_face3_vertex_def
        cmp_face3_border_def proper_defs\<close>)

lemma cmp_face2_proper:
  assumes "2 \<le> n" "0 \<le> h" "h < n" "0 \<le> w" "w < n"
  shows "\<exists>ts. cmp_face2 n n (mk_tile 2 h w) N = Some ts \<and> proper_neighbours n (mk_tile 2 h w) ts"
  by (rule side_cases [OF assms(2,3,1)]; rule side_cases [OF assms(4,5,1)];
      use assms in \<open>simp add: cmp_face2_def cmp_face2_inner_def cmp_face2_vertex_def
        cmp_face2_border_def proper_defs\<close>)

lemma cmp_grid_proper:
  assumes "2 \<le> n" "on_cube n t"
  shows "\<exists>ts. cmp_grid n n t N = Some ts \<and> proper_neighbours n t ts"
proof -
  obtain f h w where t: "t = mk_tile f h w" by (cases t) auto
  with assms have r: "0 \<le> h" "h < n" "0 \<le> w" "w < n" and "0 \<le> f" "f < 6"
    by (simp_all add: on_cube_def)
  then consider "f = 0" | "f = 5" | "f = 1" | "f = 4" | "f = 3" | "f = 2" by linarith
  then show ?thesis
    unfolding cmp_grid_def Let_def t
    by cases (use assms(1) r in \<open>simp_all add: cmp_face0_proper cmp_face1_proper
      cmp_face2_proper cmp_face3_proper cmp_face4_proper cmp_face5_proper\<close>)
qed

text \<open>Tile ids and the coordinates they stand for.\<close>

lemma cmp_encode_decode:
  assumes "0 < H" "0 < W" "0 \<le> tid" "tid < F * (H * W)"
  shows "cmp_encode H W (cmp_decode H W tid) = tid"
    and "0 \<le> fid (cmp_decode H W tid)" "fid (cmp_decode H W tid) < F"
    and "0 \<le> tid_w (cmp_decode H W tid)" "tid_w (cmp_decode H W tid) < W"
    and "0 \<le> tid_h (cmp_decode H W tid)" "tid_h (cmp_decode H W tid) < H"
proof -
  have HW: "0 < H * W" using assms by simp
  define f where "f = tid div (H * W)"
  define r where "r = tid mod (H * W)"
  have tf: "tid - f * (H * W) = r" by (simp add: f_def r_def minus_div_mult_eq_mod)
  have r: "0 \<le> r" "r < W * H" using HW by (simp_all add: r_def mult.commute)
  have rh: "r - (r div H) * H = r mod H" by (simp add: minus_div_mult_eq_mod)
  have dec: "cmp_decode H W tid = mk_tile f (r mod H) (r div H)"
    using assms HW r by (simp add: cmp_decode_def Let_def tf rh flip: f_def)
  show "cmp_encode H W (cmp_decode H W tid) = tid"
    unfolding dec using tf rh by (simp add: cmp_encode_def algebra_simps)
  show "0 \<le> fid (cmp_decode H W tid)" "fid (cmp_decode H W tid) < F"
    using div_mult_bounds [OF assms(3,4) HW] by (simp_all add: dec f_def)
  show "0 \<le> tid_w (cmp_decode H W tid)" "tid_w (cmp_decode H W tid) < W"
    using div_mult_bounds [OF r assms(1)] by (simp_all add: dec)
  show "0 \<le> tid_h (cmp_decode H W tid)" "tid_h (cmp_decode H W tid) < H"
    using assms(1) by (simp_all add: dec)
qed

lemma cmp_decode_encode:
  assumes "0 \<le> tid_h t" "tid_h t < H" "0 \<le> tid_w t" "tid_w t < W" "0 \<le> fid t"
  shows "cmp_decode H W (cmp_encode H W t) = t"
proof -
  obtain f h w where t: "t = mk_tile f h w" by (cases t) auto
  have wh: "0 \<le> w * H + h" "w * H + h < H * W"
  proof -
    show "0 \<le> w * H + h" using assms by (simp add: t)
    have "w * H + h < (w + 1) * H" using assms by (simp add: t algebra_simps)
    also have "\<dots> \<le> W * H" using assms by (intro mult_right_mono) (simp_all add: t)
    finally show "w * H + h < H * W" by (simp add: mult.commute)
  qed
  have enc: "cmp_encode H W t = f * (H * W) + (w * H + h)" by (simp add: cmp_encode_def t algebra_simps)
  have "0 \<le> f * (H * W)" "0 < H * W" using assms by (simp_all add: t)
  then have nn: "0 \<le> f * (H * W) + (w * H + h)" using wh(1) by linarith
  have "(f * (H * W) + (w * H + h)) sdiv (H * W) = f" "(w * H + h) sdiv H = w"
    using nn wh assms by (simp_all add: t)
  then show ?thesis unfolding enc by (simp add: cmp_decode_def Let_def t)
qed

lemma on_cube_decode:
  assumes "2 \<le> n" "0 \<le> tid" "tid < 6 * (n * n)"
  shows "on_cube n (cmp_decode n n tid)"
  using cmp_encode_decode [of n n tid 6] assms by (simp add: on_cube_def)

lemma cmp_encode_bounds:
  assumes "2 \<le> n" "on_cube n t"
  shows "0 \<le> cmp_encode n n t" "cmp_encode n n t < 6 * (n * n)"
proof -
  have nn: "0 \<le> n * n * fid t" "0 \<le> n * tid_w t" using assms by (simp_all add: on_cube_def)
  then show "0 \<le> cmp_encode n n t" using assms by (simp add: cmp_encode_def on_cube_def)
  have "n * n * fid t \<le> n * n * 5"
    by (rule mult_left_mono) (use assms in \<open>simp_all add: on_cube_def\<close>)
  moreover have "n * tid_w t \<le> n * (n - 1)"
    by (rule mult_left_mono) (use assms in \<open>simp_all add: on_cube_def\<close>)
  moreover have "tid_h t < n" using assms by (simp add: on_cube_def)
  ultimately have "cmp_encode n n t < n * n * 5 + n * (n - 1) + n"
    unfolding cmp_encode_def by linarith
  then show "cmp_encode n n t < 6 * (n * n)" by (simp add: algebra_simps)
qed

lemma inj_on_cmp_encode: "2 \<le> n \<Longrightarrow> inj_on (cmp_encode n n) {t. on_cube n t}"
  by (intro inj_on_inverseI [of _ "cmp_decode n n"] cmp_decode_encode) (simp_all add: on_cube_def)

text \<open>On a square grid the routine is the encoded table of the decoded tile.\<close>

lemma getAdjacentTileCMP_eq:
  assumes "2 \<le> n" "0 \<le> tid" "tid < 6 * (n * n)"
  obtains ts where "getAdjacentTileCMP n n tid = Some (map (cmp_encode n n) ts)"
    and "proper_neighbours n (cmp_decode n n tid) ts"
    and "cmp_grid n n (cmp_decode n n tid) None = Some ts"
  using cmp_grid_proper [OF assms(1) on_cube_decode [OF assms], of None] assms(1)
  by (auto simp: getAdjacentTileCMP_def)

text \<open>
  C4: For cube faces of n by n tiles, n at least 2, the adjacency table answers for every tile of
  the cube, and its answer is a proper neighbour list: all ids are tiles of the cube, no id
  occurs twice, the tile is not its own neighbour, and there are seven neighbours where three
  faces meet (a corner tile of a face) and eight otherwise.
\<close>

theorem getAdjacentTileCMP_square:
  assumes "2 \<le> n" "0 \<le> tid" "tid < 6 * (n * n)"
  shows "\<exists>ids. getAdjacentTileCMP n n tid = Some ids \<and>
           (\<forall>i \<in> set ids. 0 \<le> i \<and> i < 6 * (n * n)) \<and> distinct ids \<and> tid \<notin> set ids \<and>
           length ids = (if at_vertex n (cmp_decode n n tid) then 7 else 8)"
proof -
  obtain ts where ids: "getAdjacentTileCMP n n tid = Some (map (cmp_encode n n) ts)"
    and p: "proper_neighbours n (cmp_decode n n tid) ts"
    using getAdjacentTileCMP_eq [OF assms] by blast
  have sub: "set ts \<subseteq> {t. on_cube n t}" using p by (auto simp: proper_neighbours_def)
  have "distinct (map (cmp_encode n n) ts)"
    using p inj_on_subset [OF inj_on_cmp_encode [OF assms(1)] sub]
    by (simp add: distinct_map proper_neighbours_def)
  moreover have "tid \<notin> cmp_encode n n ` set ts"
  proof
    assume "tid \<in> cmp_encode n n ` set ts"
    then obtain u where u: "u \<in> set ts" "tid = cmp_encode n n u" by blast
    with sub have "cmp_decode n n tid = u"
      using cmp_decode_encode [of u n n] by (auto simp: on_cube_def)
    with p u show False by (simp add: proper_neighbours_def)
  qed
  moreover have "\<forall>i \<in> cmp_encode n n ` set ts. 0 \<le> i \<and> i < 6 * (n * n)"
    using sub cmp_encode_bounds [OF assms(1)] by auto
  ultimately show ?thesis using ids p by (simp add: proper_neighbours_def)
qed

theorem getAdjacentTileCMP_square_witness:
  "\<exists>ids. getAdjacentTileCMP 2 2 0 = Some ids \<and> distinct ids \<and> 0 \<notin> set ids"
  using getAdjacentTileCMP_square [of 2 0] by auto

section \<open>Symmetry\<close>

definition cmp_adjacent :: "int \<Rightarrow> int \<Rightarrow> int \<Rightarrow> int \<Rightarrow> bool" where
  "cmp_adjacent H W i j \<longleftrightarrow>
     (case getAdjacentTileCMP H W i of None \<Rightarrow> False | Some ids \<Rightarrow> j \<in> set ids)"

definition cmp_symmetric :: "int \<Rightarrow> int \<Rightarrow> bool" where
  "cmp_symmetric H W \<longleftrightarrow>
     (\<forall>i j. 0 \<le> i \<and> i < 6 * (H * W) \<and> 0 \<le> j \<and> j < 6 * (H * W) \<longrightarrow>
        cmp_adjacent H W i j \<longrightarrow> cmp_adjacent H W j i)"

text \<open>The finite check of a grid: the table is computed once and read by index.\<close>

definition cmp_table :: "int \<Rightarrow> int \<Rightarrow> int list option list" where
  "cmp_table H W = map (getAdjacentTileCMP H W) [0..6 * (H * W) - 1]"

definition cmp_table_symmetric :: "int list option list \<Rightarrow> bool" where
  "cmp_table_symmetric tab \<longleftrightarrow>
     list_all (\<lambda>(i, a). case a of None \<Rightarrow> False
       | Some js \<Rightarrow> list_all (\<lambda>j. case tab ! nat j of None \<Rightarrow> False | Some ks \<Rightarrow> i \<in> set ks) js)
       (zip [0..int (length tab) - 1] tab)"

lemma nth_upto_0: "k < nat m \<Longrightarrow> [0..m - 1] ! k = int k"
  by simp

lemma cmp_table_nth:
  assumes "0 \<le> i" "i < 6 * (H * W)"
  shows "cmp_table H W ! nat i = getAdjacentTileCMP H W i"
  using assms by (simp add: cmp_table_def)

lemma cmp_symmetric_check:
  assumes "cmp_table_symmetric (cmp_table H W)"
  shows "cmp_symmetric H W"
  unfolding cmp_symmetric_def
proof (intro allI impI, elim conjE)
  fix i j
  assume i: "0 \<le> i" "i < 6 * (H * W)" and j: "0 \<le> j" "j < 6 * (H * W)"
    and adj: "cmp_adjacent H W i j"
  let ?tab = "cmp_table H W"
  obtain js where js: "getAdjacentTileCMP H W i = Some js" "j \<in> set js"
    using adj by (auto simp: cmp_adjacent_def split: option.splits)
  have len: "length ?tab = nat (6 * (H * W))" by (simp add: cmp_table_def)
  have "(i, Some js) \<in> set (zip [0..int (length ?tab) - 1] ?tab)"
    using i len js(1) cmp_table_nth [OF i]
    by (auto simp: in_set_zip intro!: exI [of _ "nat i"])
  with assms js(2) have "case ?tab ! nat j of None \<Rightarrow> False | Some ks \<Rightarrow> i \<in> set ks"
    by (auto simp: cmp_table_symmetric_def list_all_iff)
  then show "cmp_adjacent H W j i"
    unfolding cmp_adjacent_def cmp_table_nth [OF j] .
qed

lemma cmp_symmetric_2: "cmp_symmetric 2 2"
  by (rule cmp_symmetric_check) code_simp

lemma cmp_symmetric_3: "cmp_symmetric 3 3"
  by (rule cmp_symmetric_check) code_simp

text \<open>
  From four tiles per side on, a border tile next to the edge between faces 0 and 2 names a
  tile at the mirrored position, which does not name it back.
\<close>

lemma cmp_adjacent_tiles:
  assumes "2 \<le> n" "on_cube n t" "on_cube n u"
  shows "cmp_adjacent n n (cmp_encode n n t) (cmp_encode n n u) \<longleftrightarrow>
    u \<in> set (the (cmp_grid n n t None))"
proof -
  have dec: "cmp_decode n n (cmp_encode n n t) = t"
    using assms by (intro cmp_decode_encode) (simp_all add: on_cube_def)
  obtain ts where ts: "getAdjacentTileCMP n n (cmp_encode n n t) = Some (map (cmp_encode n n) ts)"
    and p: "proper_neighbours n t ts" and g: "cmp_grid n n t None = Some ts"
    using getAdjacentTileCMP_eq [OF assms(1) cmp_encode_bounds [OF assms(1,2)]] dec by metis
  have "set ts \<subseteq> {t. on_cube n t}" using p by (auto simp: proper_neighbours_def)
  then have "cmp_encode n n u \<in> cmp_encode n n ` set ts \<longleftrightarrow> u \<in> set ts"
    using assms(3) by (intro inj_on_image_mem_iff [OF inj_on_cmp_encode [OF assms(1)]]) auto
  then show ?thesis by (simp add: cmp_adjacent_def ts g)
qed

lemma cmp_asymmetric:
  assumes "4 \<le> n"
  shows "\<not> cmp_symmetric n n"
proof
  assume sym: "cmp_symmetric n n"
  let ?t = "mk_tile 0 1 0" and ?u = "mk_tile 2 (n - 1) 0"
  have on: "2 \<le> n" "on_cube n ?t" "on_cube n ?u" using assms by (simp_all add: on_cube_def)
  have "?u \<in> set (the (cmp_grid n n ?t None))"
    using assms by (simp add: cmp_grid_def cmp_face0_def cmp_face0_inner_def cmp_face0_vertex_def
        cmp_face0_border_def store_block_def)
  moreover have "?t \<notin> set (the (cmp_grid n n ?u None))"
    using assms by (simp add: cmp_grid_def cmp_face2_def cmp_face2_inner_def cmp_face2_vertex_def
        cmp_face2_border_def store_block_def)
  ultimately show False
    using sym cmp_adjacent_tiles [OF on] cmp_adjacent_tiles [OF on(1,3,2)]
      cmp_encode_bounds [OF on(1,2)] cmp_encode_bounds [OF on(1,3)]
    by (simp add: cmp_symmetric_def)
qed

text \<open>
  C38: The neighbour relation of the cube-map table is symmetric on faces of two by two (the
  layout the player uses) and three by three tiles, and on no larger square face: there the
  table contradicts itself along the edges it traverses in opposite directions.
\<close>

theorem getAdjacentTileCMP_symmetric_iff:
  assumes "2 \<le> n"
  shows "cmp_symmetric n n \<longleftrightarrow> n \<le> 3"
proof
  assume "cmp_symmetric n n"
  with cmp_asymmetric [of n] show "n \<le> 3" by linarith
next
  assume "n \<le> 3"
  with assms have "n = 2 \<or> n = 3" by linarith
  then show "cmp_symmetric n n" using cmp_symmetric_2 cmp_symmetric_3 by auto
qed

theorem getAdjacentTileCMP_symmetric_iff_witness:
  "cmp_symmetric 3 3 \<and> \<not> cmp_symmetric 4 4"
  using getAdjacentTileCMP_symmetric_iff [of 3] getAdjacentTileCMP_symmetric_iff [of 4] by simp

section \<open>Strips\<close>

lemma getAdjacentTileCMP_strip_overflow:
  assumes "H = 1 \<or> 5 \<le> H"
  shows "getAdjacentTileCMP H 1 (2 * H) = None"
proof -
  have "cmp_decode H 1 (2 * H) = mk_tile 2 0 0"
    using assms by (auto simp: cmp_decode_def Let_def)
  then show ?thesis
    using assms
    by (auto simp: getAdjacentTileCMP_def cmp_strip_def get_adj_tile_in_face_def
        push_cells_eq cmp_strip_face2_def Let_def)
qed

text \<open>
  With one row of tiles per face, the routine stays inside its nine cells only for strips of
  two to four tiles; it answers for every tile there, while for a strip of one tile or of five or
  more tiles it stores past the end of its array at the end tile of face 2.
\<close>

theorem getAdjacentTileCMP_strip:
  assumes "1 \<le> H"
  shows "(\<forall>tid \<in> {0..<6 * H}. getAdjacentTileCMP H 1 tid \<noteq> None) \<longleftrightarrow> 2 \<le> H \<and> H \<le> 4"
proof
  assume all: "\<forall>tid \<in> {0..<6 * H}. getAdjacentTileCMP H 1 tid \<noteq> None"
  then have "getAdjacentTileCMP H 1 (2 * H) \<noteq> None" using assms by simp
  with getAdjacentTileCMP_strip_overflow [of H] assms show "2 \<le> H \<and> H \<le> 4" by force
next
  have small: "list_all (\<lambda>tid. getAdjacentTileCMP H 1 tid \<noteq> None) [0..6 * H - 1]"
    if "H = 2 \<or> H = 3 \<or> H = 4"
    using that by (elim disjE; hypsubst) code_simp+
  assume "2 \<le> H \<and> H \<le> 4"
  then have "H = 2 \<or> H = 3 \<or> H = 4" by linarith
  from small [OF this] show "\<forall>tid \<in> {0..<6 * H}. getAdjacentTileCMP H 1 tid \<noteq> None"
    by (auto simp: list_all_iff)
qed

theorem getAdjacentTileCMP_strip_witness:
  "getAdjacentTileCMP 4 1 13 \<noteq> None \<and> (\<exists>tid. getAdjacentTileCMP 5 1 tid = None)"
proof
  have "\<forall>tid \<in> {0..<24}. getAdjacentTileCMP 4 1 tid \<noteq> None"
    using getAdjacentTileCMP_strip [of 4] by simp
  then show "getAdjacentTileCMP 4 1 13 \<noteq> None" by (rule bspec) simp
  show "\<exists>tid. getAdjacentTileCMP 5 1 tid = None" using getAdjacentTileCMP_strip [of 5] by auto
qed

end
