(* ===== verification/Ring_Extension.thy ===== *)
theory Ring_Extension
  imports VR_Prelude
begin

text \<open>
  The loops of \<^verbatim>\<open>extVmask\<close> (\<^verbatim>\<open>Projection.cpp\<close>) over any neighbour function. The interface to
  a tiling is the locale \<open>tile_adjacency\<close>: a neighbour function that answers for every tile
  with tiles. Under it the loops stay inside the mask and label every tile with its distance from
  the visible tiles.
\<close>

section \<open>Extension by rings of neighbours\<close>

text \<open>The body of the innermost loop, of the loop over the tiles, and of the loop over the rings.\<close>

definition ext_mark :: "int \<Rightarrow> int \<Rightarrow> int list \<Rightarrow> int list option" where
  "ext_mark a t vmask_ext = do {
     v \<leftarrow> aget vmask_ext t;
     if v = 0 then aset vmask_ext t (a + 1) else Some vmask_ext
   }"

definition ext_tile :: "(int \<Rightarrow> int list option) \<Rightarrow> int \<Rightarrow> int \<Rightarrow> int list \<Rightarrow> int list option" where
  "ext_tile adjf a tid vmask_ext = do {
     v \<leftarrow> aget vmask_ext tid;
     if v = a then do {
       adj \<leftarrow> adjf tid;
       for_each (ext_mark a) adj vmask_ext
     } else Some vmask_ext
   }"

definition ext_ring :: "(int \<Rightarrow> int list option) \<Rightarrow> int \<Rightarrow> int \<Rightarrow> int list \<Rightarrow> int list option" where
  "ext_ring adjf NO_TILE a = for_each (ext_tile adjf a) [0..NO_TILE - 1]"

text \<open>The specification: the tiles within \<open>k\<close> steps of a set of tiles.\<close>

fun rings :: "(int \<Rightarrow> int list option) \<Rightarrow> nat \<Rightarrow> int set \<Rightarrow> int set" where
  "rings adjf 0 V = V"
| "rings adjf (Suc k) V =
     rings adjf k V \<union> (\<Union>t \<in> rings adjf k V. case adjf t of None \<Rightarrow> {} | Some us \<Rightarrow> set us)"

definition visible :: "int list \<Rightarrow> int set" where
  "visible vmask = {t. 0 \<le> t \<and> t < int (length vmask) \<and> vmask ! nat t = 1}"

text \<open>
  The labelling after the rings up to \<open>k\<close>: a tile carries \<open>j + 1\<close> when it is \<open>j\<close> steps away from
  the visible tiles, \<open>j\<close> at most \<open>k\<close>, and 0 when it is further away.
\<close>

definition ring_labelled :: "(int \<Rightarrow> int list option) \<Rightarrow> int set \<Rightarrow> nat \<Rightarrow> int list \<Rightarrow> bool" where
  "ring_labelled adjf V k m \<longleftrightarrow>
     (\<forall>t < length m.
        (m ! t = 0 \<and> int t \<notin> rings adjf k V) \<or>
        (\<exists>j \<le> k. m ! t = int j + 1 \<and> int t \<in> rings adjf j V \<and> (\<forall>i < j. int t \<notin> rings adjf i V)))"

text \<open>The neighbours of the tiles of \<open>ts\<close> that carry the label \<open>a\<close>.\<close>

definition ring_of :: "(int \<Rightarrow> int list option) \<Rightarrow> int \<Rightarrow> int list \<Rightarrow> int set \<Rightarrow> int set" where
  "ring_of adjf a m ts = (\<Union>t \<in> {t \<in> ts. m ! nat t = a}. set (the (adjf t)))"

lemma within_mono: "i \<le> j \<Longrightarrow> rings adjf i V \<subseteq> rings adjf j V"
  by (rule lift_Suc_mono_le [of "\<lambda>k. rings adjf k V"]) auto

lemma within_mono_set: "V \<subseteq> V' \<Longrightarrow> rings adjf k V \<subseteq> rings adjf k V'"
  by (induction k) (auto simp: subset_iff)

lemma within_Suc_left: "rings adjf (Suc k) V = rings adjf k (rings adjf 1 V)"
  by (induction k) auto

locale tile_adjacency =
  fixes adjf :: "int \<Rightarrow> int list option" and n :: int
  assumes adj_total: "0 \<le> t \<Longrightarrow> t < n \<Longrightarrow> \<exists>us. adjf t = Some us \<and> (\<forall>u \<in> set us. 0 \<le> u \<and> u < n)"
begin

lemma ext_marks:
  assumes "\<forall>u \<in> set us. 0 \<le> u \<and> u < int (length m)"
  shows "\<exists>m'. for_each (ext_mark a) us m = Some m' \<and> length m' = length m \<and>
           (\<forall>t < length m. m' ! t = (if m ! t = 0 \<and> int t \<in> set us then a + 1 else m ! t))"
  using assms
proof (induction us arbitrary: m)
  case (Cons u us)
  let ?m = "if m ! nat u = 0 then m[nat u := a + 1] else m"
  have u: "0 \<le> u" "u < int (length m)" using Cons.prems by auto
  then have step: "ext_mark a u m = Some ?m"
    by (simp add: ext_mark_def aget_in aset_in)
  have "\<forall>v \<in> set us. 0 \<le> v \<and> v < int (length ?m)" using Cons.prems by simp
  from Cons.IH [OF this] obtain m' where m': "for_each (ext_mark a) us ?m = Some m'"
      "length m' = length m"
      "\<forall>t < length m. m' ! t = (if ?m ! t = 0 \<and> int t \<in> set us then a + 1 else ?m ! t)"
    by auto
  have "m' ! t = (if m ! t = 0 \<and> int t \<in> set (u # us) then a + 1 else m ! t)" if "t < length m" for t
    using m'(3) that u by (auto simp: nth_list_update split: if_splits)
  with m' step show ?case by simp
qed simp

text \<open>One tile, then all of them: the round extends every tile whose label is \<open>a\<close>.\<close>

lemma ext_ring_step:
  assumes "length m = nat n" "0 < a"
  shows "\<exists>m'. ext_ring adjf n a m = Some m' \<and> length m' = nat n \<and>
           (\<forall>t < nat n. m' ! t = (if m ! t = 0 \<and> int t \<in> ring_of adjf a m {0..<n} then a + 1 else m ! t))"
proof -
  define I where "I ds m' \<longleftrightarrow> length m' = nat n \<and>
    (\<forall>t < nat n. m' ! t = (if m ! t = 0 \<and> int t \<in> ring_of adjf a m (set ds) then a + 1 else m ! t))"
    for ds :: "int list" and m'
  have "\<exists>m'. for_each (ext_tile adjf a) [0..n - 1] m = Some m' \<and> I [0..n - 1] m'"
  proof (rule for_each_rule)
    show "I [] m" using assms by (simp add: I_def ring_of_def)
  next
    fix ds x rest m'
    assume split: "[0..n - 1] = ds @ x # rest" and inv: "I ds m'"
    from split have "x \<in> set [0..n - 1]" by (metis in_set_conv_decomp)
    then have x: "0 \<le> x" "x < n" by simp_all
    then obtain us where us: "adjf x = Some us" "\<forall>u \<in> set us. 0 \<le> u \<and> u < n"
      using adj_total by blast
    have len: "length m' = nat n" using inv by (simp add: I_def)
    have same: "m' ! nat x = a \<longleftrightarrow> m ! nat x = a"
      using inv x assms(2) by (auto simp: I_def)
    show "\<exists>m''. ext_tile adjf a x m' = Some m'' \<and> I (ds @ [x]) m''"
    proof (cases "m ! nat x = a")
      case False
      then have "ring_of adjf a m (set (ds @ [x])) = ring_of adjf a m (set ds)"
        by (auto simp: ring_of_def)
      with False same x inv len show ?thesis
        by (simp add: ext_tile_def aget_in I_def)
    next
      case True
      have bound: "\<forall>u \<in> set us. 0 \<le> u \<and> u < int (length m')" using us(2) len x by auto
      obtain m'' where m'': "for_each (ext_mark a) us m' = Some m''" "length m'' = nat n"
          "\<forall>t < nat n. m'' ! t = (if m' ! t = 0 \<and> int t \<in> set us then a + 1 else m' ! t)"
        using ext_marks [OF bound, of a] len by auto
      have "ring_of adjf a m (set (ds @ [x])) = ring_of adjf a m (set ds) \<union> set us"
        using True us(1) by (auto simp: ring_of_def)
      with m'' inv assms(2) have "I (ds @ [x]) m''" by (auto simp: I_def)
      with True same x us(1) m''(1) len show ?thesis
        by (simp add: ext_tile_def aget_in)
    qed
  qed
  moreover have "set [0..n - 1] = {0..<n}" by auto
  ultimately show ?thesis by (simp add: I_def ext_ring_def)
qed

text \<open>The rings one after the other.\<close>

lemma within_range:
  assumes "V \<subseteq> {0..<n}"
  shows "rings adjf k V \<subseteq> {0..<n}"
proof (induction k)
  case (Suc k)
  have "u \<in> {0..<n}" if "t \<in> rings adjf k V" "adjf t = Some us" "u \<in> set us" for t us u
  proof -
    have "0 \<le> t" "t < n" using Suc that(1) by auto
    from adj_total [OF this] that(2,3) show ?thesis by auto
  qed
  with Suc show ?case by (auto split: option.splits)
qed (use assms in simp)

lemma ring_labelled_step:
  assumes lab: "ring_labelled adjf V k m" and len: "length m = nat n" and V: "V \<subseteq> {0..<n}"
  shows "\<exists>m'. ext_ring adjf n (int k + 1) m = Some m' \<and> length m' = nat n \<and>
           ring_labelled adjf V (Suc k) m'"
proof -
  let ?R = "ring_of adjf (int k + 1) m {0..<n}"
  let ?W = "\<lambda>j. rings adjf j V"
  obtain m' where m': "ext_ring adjf n (int k + 1) m = Some m'" "length m' = nat n"
      "\<forall>t < nat n. m' ! t = (if m ! t = 0 \<and> int t \<in> ?R then int k + 2 else m ! t)"
    using ext_ring_step [OF len, of "int k + 1"] by auto
  have lab_t: "m ! t = 0 \<and> int t \<notin> ?W k \<or>
      (\<exists>j \<le> k. m ! t = int j + 1 \<and> int t \<in> ?W j \<and> (\<forall>i < j. int t \<notin> ?W i))" if "t < nat n" for t
    using lab that len by (simp add: ring_labelled_def)
  have reach: "int t \<in> ?W (Suc k) \<longleftrightarrow> int t \<in> ?W k \<or> int t \<in> ?R" for t
  proof
    assume "int t \<in> ?W (Suc k)"
    then consider "int t \<in> ?W k" | s us where "s \<in> ?W k" "adjf s = Some us" "int t \<in> set us"
      by (auto split: option.splits)
    then show "int t \<in> ?W k \<or> int t \<in> ?R"
    proof cases
      case (2 s us)
      then have s: "0 \<le> s" "s < n" using within_range [OF V, of k] by auto
      then obtain j where j: "j \<le> k" "m ! nat s = int j + 1" "s \<in> ?W j"
        using lab_t [of "nat s"] 2(1) by auto
      show ?thesis
      proof (cases "j = k")
        case True
        with j s 2 show ?thesis by (auto simp: ring_of_def)
      next
        case False
        then have "int t \<in> ?W (Suc j)" using 2 j(3) by (auto split: option.splits)
        moreover have "Suc j \<le> k" using False j(1) by simp
        ultimately show ?thesis using within_mono [of "Suc j" k adjf V] by blast
      qed
    qed simp
  next
    assume "int t \<in> ?W k \<or> int t \<in> ?R"
    then consider "int t \<in> ?W k" | s where "0 \<le> s" "s < n" "m ! nat s = int k + 1"
        "int t \<in> set (the (adjf s))"
      by (auto simp: ring_of_def)
    then show "int t \<in> ?W (Suc k)"
    proof cases
      case (2 s)
      obtain us where us: "adjf s = Some us" using adj_total 2 by blast
      have "s \<in> ?W k" using lab_t [of "nat s"] 2 by auto
      with us 2(4) show ?thesis by (auto split: option.splits)
    qed simp
  qed
  have "ring_labelled adjf V (Suc k) m'"
    unfolding ring_labelled_def m'(2)
  proof (intro allI impI)
    fix t
    assume t: "t < nat n"
    consider "m ! t = 0" "int t \<notin> ?W k" "int t \<in> ?R" | "m ! t = 0" "int t \<notin> ?W k" "int t \<notin> ?R"
      | j where "j \<le> k" "m ! t = int j + 1" "int t \<in> ?W j" "\<forall>i < j. int t \<notin> ?W i"
      using lab_t [OF t] by blast
    then show "(m' ! t = 0 \<and> int t \<notin> ?W (Suc k)) \<or>
        (\<exists>j \<le> Suc k. m' ! t = int j + 1 \<and> int t \<in> ?W j \<and> (\<forall>i < j. int t \<notin> ?W i))"
    proof cases
      case 1
      have "\<forall>i < Suc k. int t \<notin> ?W i"
        using 1(2) within_mono [of _ k adjf V] by (metis less_Suc_eq_le subsetD)
      moreover have "int t \<in> ?W (Suc k)" using reach 1(3) by blast
      moreover have "m' ! t = int (Suc k) + 1" using m'(3) t 1 by simp
      ultimately show ?thesis by blast
    next
      case 2
      then have "m' ! t = 0" using m'(3) t by simp
      with reach 2 show ?thesis by blast
    next
      case 3
      then have "m' ! t = int j + 1" using m'(3) t by simp
      with 3 show ?thesis by (metis le_SucI)
    qed
  qed
  with m' show ?thesis by simp
qed

lemma ring_labelled_0:
  assumes "length m = nat n" "set m \<subseteq> {0, 1}"
  shows "ring_labelled adjf (visible m) 0 m"
proof -
  have "m ! t = 0 \<or> m ! t = 1" if "t < length m" for t
    using assms(2) nth_mem [OF that] by blast
  then show ?thesis by (auto simp: ring_labelled_def visible_def)
qed

theorem ext_rings:
  assumes "length m = nat n" "set m \<subseteq> {0, 1}"
  shows "\<exists>m'. for_each (ext_ring adjf n) [1..int k] m = Some m' \<and> length m' = nat n \<and>
           ring_labelled adjf (visible m) k m'"
proof (induction k)
  case 0
  then show ?case using ring_labelled_0 [OF assms] assms by simp
next
  case (Suc k)
  then obtain m' where m': "for_each (ext_ring adjf n) [1..int k] m = Some m'"
      "length m' = nat n" "ring_labelled adjf (visible m) k m'" by blast
  have V: "visible m \<subseteq> {0..<n}" using assms(1) by (auto simp: visible_def)
  have "[1..int (Suc k)] = [1..int k] @ [int k + 1]" by (simp add: upto_rec2)
  with ring_labelled_step [OF m'(3,2) V] m'(1) show ?case by (auto simp: for_each_append)
qed

end

text \<open>
  A second contract: the relation is symmetric. Then growing by \<open>k\<close> rings commutes with
  asking from either side.
\<close>

locale symmetric_adjacency = tile_adjacency +
  assumes adj_sym: "0 \<le> t \<Longrightarrow> t < n \<Longrightarrow> adjf t = Some us \<Longrightarrow> u \<in> set us \<Longrightarrow> t \<in> set (the (adjf u))"
begin

lemma within_1_sym:
  assumes "t \<in> {0..<n}" "u \<in> rings adjf 1 {t}"
  shows "u \<in> {0..<n}" "t \<in> rings adjf 1 {u}"
proof -
  obtain us where us: "adjf t = Some us" "\<forall>u \<in> set us. 0 \<le> u \<and> u < n"
    using adj_total [of t] assms(1) by auto
  from assms(2) us consider "u = t" | "u \<in> set us" by auto
  then have "u \<in> {0..<n} \<and> t \<in> rings adjf 1 {u}"
  proof cases
    case 2
    then have u: "0 \<le> u" "u < n" using us(2) by auto
    then obtain ws where "adjf u = Some ws" using adj_total by blast
    moreover have "t \<in> set (the (adjf u))" using adj_sym [of t us u] assms(1) us(1) 2 by simp
    ultimately show ?thesis using u by simp
  qed (use assms in simp)
  then show "u \<in> {0..<n}" "t \<in> rings adjf 1 {u}" by simp_all
qed

text \<open>Distance is symmetric, so who extends to whom does not depend on the end one starts at.\<close>

theorem within_sym:
  assumes "t \<in> {0..<n}" "u \<in> rings adjf k {t}"
  shows "u \<in> {0..<n} \<and> t \<in> rings adjf k {u}"
  using assms(2)
proof (induction k arbitrary: u)
  case 0
  then show ?case using assms(1) by simp
next
  case (Suc k)
  from Suc.prems obtain s where s: "s \<in> rings adjf k {t}" "u \<in> rings adjf 1 {s}"
    by (auto split: option.splits)
  from Suc.IH [OF s(1)] have st: "s \<in> {0..<n}" "t \<in> rings adjf k {s}" by simp_all
  from within_1_sym [OF st(1) s(2)] have u: "u \<in> {0..<n}" "s \<in> rings adjf 1 {u}" by simp_all
  have "rings adjf k {s} \<subseteq> rings adjf k (rings adjf 1 {u})"
    using u(2) by (intro within_mono_set) simp
  with st(2) u(1) show ?case unfolding within_Suc_left by blast
qed

end

end
