(* ===== verification/Vmask_Ext.thy ===== *)
theory Vmask_Ext
  imports Cube_Map Ring_Extension
begin

text \<open>
  \<^verbatim>\<open>getAdjacentTile\<close> and \<^verbatim>\<open>extVmask\<close> of \<^verbatim>\<open>Projection.cpp\<close>: the tilings provide the interface
  \<open>tile_adjacency\<close> of the ring extension, which then labels every tile of the mask with its
  distance from the visible tiles.
\<close>

definition getAdjacentTile :: "int \<Rightarrow> int \<Rightarrow> int \<Rightarrow> int \<Rightarrow> int list option" where
  "getAdjacentTile NO_FACE NO_TILE_H NO_TILE_W tid =
     (if NO_FACE = 1 then getAdjacentTileERP NO_TILE_H NO_TILE_W tid
      else if NO_FACE = 2 then getAdjacentTileERP2 NO_TILE_H NO_TILE_W tid
      else if NO_FACE = 6 then getAdjacentTileCMP NO_TILE_H NO_TILE_W tid
      else None)"

definition extVmask :: "int list \<Rightarrow> int \<Rightarrow> int \<Rightarrow> int \<Rightarrow> int \<Rightarrow> int list option" where
  "extVmask vmask NO_FACE NO_TILE_H NO_TILE_W ext_width =
     (let N = NO_TILE_W * NO_TILE_H; NO_TILE = N * NO_FACE in
      if NO_TILE < 0 \<or> int (length vmask) < NO_TILE then None
      else for_each (ext_ring (getAdjacentTile NO_FACE NO_TILE_H NO_TILE_W) NO_TILE)
             [1..ext_width] (take (nat NO_TILE) vmask))"

section \<open>The tilings that provide the interface\<close>

text \<open>The layouts whose neighbour function is total: one face of 3 to 14 columns, square cube faces.\<close>

definition good_layout :: "int \<Rightarrow> int \<Rightarrow> int \<Rightarrow> bool" where
  "good_layout NO_FACE NO_TILE_H NO_TILE_W \<longleftrightarrow>
     (NO_FACE = 1 \<and> 3 \<le> NO_TILE_H \<and> NO_TILE_H \<le> 14 \<and> 1 \<le> NO_TILE_W) \<or>
     (NO_FACE = 6 \<and> 2 \<le> NO_TILE_H \<and> NO_TILE_H = NO_TILE_W)"

lemma erp_adjacency:
  assumes "3 \<le> H" "H \<le> 14"
  shows "symmetric_adjacency (getAdjacentTile 1 H W) (W * H)"
proof (unfold_locales, goal_cases)
  case (1 t)
  then have t: "0 \<le> t" "t < H * W" by (simp_all add: mult.commute)
  obtain us where "getAdjacentTileERP H W t = Some us" "\<forall>v \<in> set us. 0 \<le> v \<and> v < H * W"
    using getAdjacentTileERP_mem_iff [OF assms t t] by blast
  then have "getAdjacentTile 1 H W t = Some us" "\<forall>v \<in> set us. 0 \<le> v \<and> v < W * H"
    by (simp_all only: getAdjacentTile_def if_True simp_thms mult.commute [of W H])
  then show ?case by blast
next
  case (2 t us u)
  then have t: "0 \<le> t" "t < H * W" and run: "getAdjacentTileERP H W t = Some us"
    by (simp_all add: getAdjacentTile_def mult.commute)
  have "\<forall>v \<in> set us. 0 \<le> v \<and> v < H * W"
    using getAdjacentTileERP_mem_iff [OF assms t t] run by (metis option.inject)
  with 2(4) have u: "0 \<le> u" "u < H * W" by blast+
  have H: "0 < H" using assms by simp
  have "erp_neighbour H W (t mod H, t div H) (u mod H, u div H)"
    using getAdjacentTileERP_mem_iff [OF assms t u] run 2(4) by (metis option.inject)
  then have "erp_neighbour H W (u mod H, u div H) (t mod H, t div H)"
    by (rule erp_neighbour_sym) (use row_major_cell [OF H t] in simp_all)
  then have "t \<in> set (the (getAdjacentTileERP H W u))"
    using getAdjacentTileERP_mem_iff [OF assms u t] by (metis option.sel)
  then show ?case by (simp add: getAdjacentTile_def)
qed

lemma cube_adjacency:
  assumes "2 \<le> n"
  shows "tile_adjacency (getAdjacentTile 6 n n) (n * n * 6)"
proof (unfold_locales, goal_cases)
  case (1 t)
  then have t: "0 \<le> t" "t < 6 * (n * n)" by simp_all
  obtain ts where ts: "getAdjacentTileCMP n n t = Some (map (cmp_encode n n) ts)"
    and p: "proper_neighbours n (cmp_decode n n t) ts"
    using getAdjacentTileCMP_eq [OF assms t] by blast
  have "0 \<le> v \<and> v < 6 * (n * n)" if "v \<in> cmp_encode n n ` set ts" for v
    using that p cmp_encode_bounds [OF assms] by (force simp: proper_neighbours_def)
  with ts show ?case by (force simp: getAdjacentTile_def mult.commute [of _ 6])
qed

lemma layout_adjacency:
  assumes "good_layout F H W"
  shows "tile_adjacency (getAdjacentTile F H W) (W * H * F)"
  using assms erp_adjacency [of H W] cube_adjacency [of H]
  by (auto simp: good_layout_def symmetric_adjacency_def)

text \<open>The layouts of the configuration files: six faces of two by two tiles, one of eight by eight.\<close>

lemma cube_symmetric_adjacency:
  assumes "2 \<le> n" "cmp_symmetric n n"
  shows "symmetric_adjacency (getAdjacentTile 6 n n) (n * n * 6)"
proof (rule symmetric_adjacency.intro [OF cube_adjacency [OF assms(1)]], unfold_locales)
  fix t us u
  assume t: "0 \<le> t" "t < n * n * 6" "getAdjacentTile 6 n n t = Some us" "u \<in> set us"
  have u: "0 \<le> u" "u < n * n * 6"
    using tile_adjacency.adj_total [OF cube_adjacency [OF assms(1)] t(1,2)] t(3,4) by auto
  have "cmp_adjacent n n t u" using t by (simp add: cmp_adjacent_def getAdjacentTile_def)
  then have "cmp_adjacent n n u t" using assms(2) t(1,2) u by (simp add: cmp_symmetric_def)
  then show "t \<in> set (the (getAdjacentTile 6 n n u))"
    by (auto simp: cmp_adjacent_def getAdjacentTile_def split: option.splits)
qed

interpretation cube2: symmetric_adjacency "getAdjacentTile 6 2 2" 24
  using cube_symmetric_adjacency [OF _ cmp_symmetric_2] by simp

interpretation cube3: symmetric_adjacency "getAdjacentTile 6 3 3" 54
  using cube_symmetric_adjacency [OF _ cmp_symmetric_3] by simp

interpretation erp8: symmetric_adjacency "getAdjacentTile 1 8 8" 64
  using erp_adjacency [of 8 8] by simp

section \<open>The extension\<close>

text \<open>
  C16: On every good layout, extending a mask of zeros and ones by \<open>k\<close> rings succeeds, keeps the
  size of the mask, and labels each tile with one more than its distance from the visible tiles
  when that distance is at most \<open>k\<close>, and with 0 otherwise.
\<close>

theorem extVmask_labels_distance:
  assumes "good_layout F H W" "int (length vmask) = W * H * F" "set vmask \<subseteq> {0, 1}"
  shows "\<exists>ext. extVmask vmask F H W (int k) = Some ext \<and> length ext = length vmask \<and>
           ring_labelled (getAdjacentTile F H W) (visible vmask) k ext"
proof -
  have "length vmask = nat (W * H * F)" using assms(2) by simp
  with tile_adjacency.ext_rings [OF layout_adjacency [OF assms(1)] this assms(3), of k] assms(2)
  show ?thesis by (auto simp: extVmask_def Let_def)
qed

theorem extVmask_labels_distance_witness:
  "\<exists>ext. extVmask (1 # replicate 23 0) 6 2 2 (int 1) = Some ext \<and> length ext = 24 \<and>
     ring_labelled (getAdjacentTile 6 2 2) (visible (1 # replicate 23 0)) 1 ext"
  using extVmask_labels_distance [of 6 2 2 "1 # replicate 23 0" 1] by (simp add: good_layout_def)

text \<open>Two labellings agree on a pair of tiles as soon as their distances to it do.\<close>

lemma ring_labelled_cong:
  assumes "ring_labelled adjf V k m" "ring_labelled adjf V' k m'"
    and "t < length m" "t' < length m'"
    and "\<And>j. int t \<in> rings adjf j V \<longleftrightarrow> int t' \<in> rings adjf j V'"
  shows "m ! t = m' ! t'"
proof -
  let ?far = "\<lambda>m t V. m ! t = 0 \<and> int t \<notin> rings adjf k V"
  let ?lab = "\<lambda>m t V j. j \<le> k \<and> m ! t = int j + 1 \<and> int t \<in> rings adjf j V \<and> (\<forall>i < j. int t \<notin> rings adjf i V)"
  from assms have "?far m t V \<or> (\<exists>j. ?lab m t V j)" "?far m' t' V' \<or> (\<exists>j. ?lab m' t' V' j)"
    unfolding ring_labelled_def using assms(3,4) by blast+
  then consider "?far m t V" "?far m' t' V'" | j where "?far m t V" "?lab m' t' V' j"
    | j where "?lab m t V j" "?far m' t' V'" | j j' where "?lab m t V j" "?lab m' t' V' j'"
    by blast
  then show ?thesis
  proof cases
    case (2 j) then show ?thesis using assms(5) within_mono [of j k adjf V'] by blast
  next
    case (3 j) then show ?thesis using assms(5) within_mono [of j k adjf V] by blast
  next
    case (4 j j') then have "j = j'" using assms(5) by (metis linorder_neqE_nat)
    with 4 show ?thesis by simp
  qed simp
qed

definition single_mask :: "nat \<Rightarrow> nat \<Rightarrow> int list" where
  "single_mask n t = (replicate n 0)[t := 1]"

lemma visible_single_mask: "t < n \<Longrightarrow> visible (single_mask n t) = {int t}"
  by (auto simp: visible_def single_mask_def nth_list_update split: if_splits)

text \<open>
  On the cube of two by two tiles per face extension is mutual: the label that the extension
  of tile \<open>t\<close> alone gives to tile \<open>u\<close> is the label that the extension of \<open>u\<close> alone gives to \<open>t\<close>,
  for any number of rings.
\<close>

theorem extVmask_mutual:
  assumes "t < 24" "u < 24"
  shows "\<exists>et eu. extVmask (single_mask 24 t) 6 2 2 (int k) = Some et \<and>
           extVmask (single_mask 24 u) 6 2 2 (int k) = Some eu \<and> et ! u = eu ! t"
proof -
  have ext: "\<exists>e. extVmask (single_mask 24 x) 6 2 2 (int k) = Some e \<and> length e = 24 \<and>
      ring_labelled (getAdjacentTile 6 2 2) {int x} k e" if "x < 24" for x
  proof -
    have "length (single_mask 24 x) = nat 24" "set (single_mask 24 x) \<subseteq> {0, 1}"
      using set_update_subset_insert [of "replicate 24 (0 :: int)" x 1] by (auto simp: single_mask_def)
    with cube2.ext_rings [OF this, of k] visible_single_mask [OF that] show ?thesis
      by (auto simp: extVmask_def Let_def)
  qed
  obtain et eu where e: "extVmask (single_mask 24 t) 6 2 2 (int k) = Some et" "length et = 24"
      "ring_labelled (getAdjacentTile 6 2 2) {int t} k et"
      "extVmask (single_mask 24 u) 6 2 2 (int k) = Some eu" "length eu = 24"
      "ring_labelled (getAdjacentTile 6 2 2) {int u} k eu"
    using ext [OF assms(1)] ext [OF assms(2)] by blast
  have "int u \<in> rings (getAdjacentTile 6 2 2) j {int t} \<longleftrightarrow>
      int t \<in> rings (getAdjacentTile 6 2 2) j {int u}" for j
    using cube2.within_sym [of "int t" "int u" j] cube2.within_sym [of "int u" "int t" j] assms by auto
  with ring_labelled_cong [OF e(3,6)] e(2,5) assms have "et ! u = eu ! t" by simp
  with e show ?thesis by blast
qed

theorem extVmask_mutual_witness:
  "\<exists>et eu. extVmask (single_mask 24 3) 6 2 2 (int 2) = Some et \<and>
     extVmask (single_mask 24 17) 6 2 2 (int 2) = Some eu \<and> et ! 17 = eu ! 3"
  using extVmask_mutual [of 3 17 2] by simp

end
