(* ===== verification/Rect_Extension.thy ===== *)
theory Rect_Extension
  imports Projection_Grid
begin

text \<open>
  \<^verbatim>\<open>extVmask2\<close> of \<^verbatim>\<open>Projection.cpp\<close>: the extension of a mask on one rectangular face, by eight
  passes over the grid for every ring, one per direction. The working copy is a matrix of
  \<open>M = NO_TILE_H\<close> rows and \<open>N = NO_TILE_W\<close> columns; the result is an array whose entries are
  \<open>None\<close> until they are stored.
\<close>

section \<open>The code\<close>

definition vm_get :: "int list list \<Rightarrow> int \<Rightarrow> int \<Rightarrow> int option" where
  "vm_get vm i j = do { row \<leftarrow> aget vm i; aget row j }"

definition vm_set :: "int list list \<Rightarrow> int \<Rightarrow> int \<Rightarrow> int \<Rightarrow> int list list option" where
  "vm_set vm i j v = do { row \<leftarrow> aget vm i; row \<leftarrow> aset row j v; aset vm i row }"

text \<open>\<open>vmask_ext[i][j] = vmask[i*M + j]\<close>: the row stride in the code is the number of rows.\<close>

definition ext2_load :: "int list \<Rightarrow> int \<Rightarrow> int \<Rightarrow> int list list option" where
  "ext2_load vmask M N =
     for_each (\<lambda>i rows. do {
         row \<leftarrow> for_each (\<lambda>j row. do { v \<leftarrow> aget vmask (i * M + j); Some (row @ [v]) }) [0..N - 1] [];
         Some (rows @ [row])
       }) [0..M - 1] []"

text \<open>One pass: every selected cell marks its neighbour in the pass's direction, if it is free.\<close>

definition ext2_cell ::
  "(int \<Rightarrow> int \<Rightarrow> int \<Rightarrow> int \<Rightarrow> Pos) \<Rightarrow> (int \<Rightarrow> bool) \<Rightarrow> int \<Rightarrow> int \<Rightarrow> int \<Rightarrow> int \<times> int
     \<Rightarrow> int list list \<Rightarrow> int list list option" where
  "ext2_cell dir sel k M N = (\<lambda>(i, j) vmask_ext. do {
     v \<leftarrow> vm_get vmask_ext i j;
     if sel v
     then let pos = dir i j M N in
       if pos_i pos \<noteq> -1
       then do {
         u \<leftarrow> vm_get vmask_ext (pos_i pos) (pos_j pos);
         if u = 0 then vm_set vmask_ext (pos_i pos) (pos_j pos) k else Some vmask_ext
       }
       else Some vmask_ext
     else Some vmask_ext
   })"

definition ext2_pass ::
  "(int \<Rightarrow> bool) \<Rightarrow> int \<Rightarrow> int \<Rightarrow> (int \<Rightarrow> int \<Rightarrow> int \<Rightarrow> int \<Rightarrow> Pos) \<times> int
     \<Rightarrow> int list list \<Rightarrow> int list list option" where
  "ext2_pass sel M N = (\<lambda>(dir, k). for_each (ext2_cell dir sel k M N) (List.product [0..M - 1] [0..N - 1]))"

definition ext2_ring1 :: "int \<Rightarrow> int \<Rightarrow> int list list \<Rightarrow> int list list option" where
  "ext2_ring1 M N = for_each (ext2_pass (\<lambda>v. v = 1) M N)
     [(TOP, 2), (DOWN, 3), (LEFT, 4), (RIGHT, 5),
      (TOP_LEFT, 4), (TOP_RIGHT, 5), (DOWN_LEFT, 4), (DOWN_RIGHT, 5)]"

definition ext2_ring2 :: "int \<Rightarrow> int \<Rightarrow> int list list \<Rightarrow> int list list option" where
  "ext2_ring2 M N = for_each (ext2_pass (\<lambda>v. v \<ge> 1 \<and> v \<le> 5) M N)
     [(TOP, 6), (DOWN, 7), (LEFT, 8), (RIGHT, 9),
      (TOP_LEFT, 8), (TOP_RIGHT, 9), (DOWN_LEFT, 8), (DOWN_RIGHT, 9)]"

text \<open>\<open>ret[i*N + j] = vmask_ext[i][j]\<close> for every cell.\<close>

definition ext2_store :: "int \<Rightarrow> int \<Rightarrow> int list list \<Rightarrow> int option list \<Rightarrow> int option list option" where
  "ext2_store M N vmask_ext = for_each (\<lambda>(i, j) ret. do {
       v \<leftarrow> vm_get vmask_ext i j;
       aset ret (i * N + j) (Some v)
     }) (List.product [0..M - 1] [0..N - 1])"

definition extVmask2 :: "int list \<Rightarrow> int \<Rightarrow> int \<Rightarrow> int \<Rightarrow> int \<Rightarrow> int option list option" where
  "extVmask2 vmask NO_FACE NO_TILE_H NO_TILE_W ext_width =
     (let No_tile = NO_FACE * NO_TILE_H * NO_TILE_W; M = NO_TILE_H; N = NO_TILE_W in
      if No_tile < 0 then None
      else let ret = replicate (nat No_tile) None in
      if ext_width = 0 then Some (map Some vmask)
      else if ext_width \<ge> 3 then Some (map (\<lambda>_. Some 1) ret)
      else do {
        vmask_ext \<leftarrow> ext2_load vmask M N;
        vmask_ext \<leftarrow> ext2_ring1 M N vmask_ext;
        ret \<leftarrow> ext2_store M N vmask_ext ret;
        if ext_width = 1 then Some ret
        else do {
          vmask_ext \<leftarrow> ext2_ring2 M N vmask_ext;
          ext2_store M N vmask_ext ret
        }
      })"

section \<open>Matrices\<close>

definition is_matrix :: "int \<Rightarrow> int \<Rightarrow> int list list \<Rightarrow> bool" where
  "is_matrix M N vm \<longleftrightarrow> length vm = nat M \<and> (\<forall>row \<in> set vm. length row = nat N)"

definition in_grid :: "int \<Rightarrow> int \<Rightarrow> int \<times> int \<Rightarrow> bool" where
  "in_grid M N = (\<lambda>(i, j). 0 \<le> i \<and> i < M \<and> 0 \<le> j \<and> j < N)"

definition entry_of :: "int list list \<Rightarrow> int \<times> int \<Rightarrow> int" where
  "entry_of vm = (\<lambda>(i, j). vm ! nat i ! nat j)"

lemma set_cells [simp]: "set (List.product [0..M - 1] [0..N - 1]) = {c. in_grid M N c}"
  by (auto simp: in_grid_def)

lemma vm_get_in:
  assumes "is_matrix M N vm" "in_grid M N (i, j)"
  shows "vm_get vm i j = Some (entry_of vm (i, j))"
proof -
  have i: "nat i < length vm" "i < int (length vm)" using assms by (auto simp: is_matrix_def in_grid_def)
  then have "length (vm ! nat i) = nat N" using assms(1) nth_mem by (auto simp: is_matrix_def)
  then show ?thesis using assms i by (simp add: vm_get_def entry_of_def aget_in in_grid_def)
qed

lemma vm_set_in:
  assumes "is_matrix M N vm" "in_grid M N (i, j)"
  shows "\<exists>vm'. vm_set vm i j v = Some vm' \<and> is_matrix M N vm' \<and>
           (\<forall>c. in_grid M N c \<longrightarrow> entry_of vm' c = (if c = (i, j) then v else entry_of vm c))"
proof -
  let ?row = "(vm ! nat i)[nat j := v]"
  have i: "nat i < length vm" "i < int (length vm)" using assms by (auto simp: is_matrix_def in_grid_def)
  then have len: "length (vm ! nat i) = nat N" using assms(1) nth_mem by (auto simp: is_matrix_def)
  have "vm_set vm i j v = Some (vm[nat i := ?row])"
    using assms i len by (simp add: vm_set_def aget_in aset_in in_grid_def)
  moreover have "is_matrix M N (vm[nat i := ?row])"
    using assms(1) i len set_update_subset_insert [of vm "nat i" ?row] by (auto simp: is_matrix_def)
  moreover have "entry_of (vm[nat i := ?row]) c = (if c = (i, j) then v else entry_of vm c)" if "in_grid M N c" for c
    using that assms i len by (cases c) (auto simp: entry_of_def in_grid_def nth_list_update nat_eq_iff2)
  ultimately show ?thesis by blast
qed

section \<open>A pass and a sequence of passes\<close>

text \<open>
  A direction maps a cell of the grid to a cell of the grid or says that there is none; the
  cell a selected cell \<open>s\<close> points at is \<open>target dir M N s\<close>.
\<close>

definition target :: "(int \<Rightarrow> int \<Rightarrow> int \<Rightarrow> int \<Rightarrow> Pos) \<Rightarrow> int \<Rightarrow> int \<Rightarrow> int \<times> int \<Rightarrow> (int \<times> int) option" where
  "target dir M N = (\<lambda>(i, j). let pos = dir i j M N in
     if pos_i pos = -1 then None else Some (pos_i pos, pos_j pos))"

definition direction :: "int \<Rightarrow> int \<Rightarrow> (int \<Rightarrow> int \<Rightarrow> int \<Rightarrow> int \<Rightarrow> Pos) \<Rightarrow> bool" where
  "direction M N dir \<longleftrightarrow> (\<forall>s c. in_grid M N s \<longrightarrow> target dir M N s = Some c \<longrightarrow> in_grid M N c)"

lemma ext2_cell_step:
  assumes "is_matrix M N vm" "in_grid M N s" "direction M N dir"
  shows "\<exists>vm'. ext2_cell dir sel k M N s vm = Some vm' \<and> is_matrix M N vm' \<and>
           (\<forall>c. in_grid M N c \<longrightarrow> entry_of vm' c =
              (if sel (entry_of vm s) \<and> target dir M N s = Some c \<and> entry_of vm c = 0 then k else entry_of vm c))"
proof -
  obtain i j where s: "s = (i, j)" by fastforce
  have get: "vm_get vm i j = Some (entry_of vm s)" using vm_get_in assms(1,2) s by blast
  let ?p = "dir i j M N"
  show ?thesis
  proof (cases "sel (entry_of vm s) \<and> pos_i ?p \<noteq> -1")
    case False
    then show ?thesis using get assms(1) by (auto simp: ext2_cell_def s target_def Let_def)
  next
    case True
    then have t: "target dir M N s = Some (pos_i ?p, pos_j ?p)" by (simp add: target_def s Let_def)
    then have g: "in_grid M N (pos_i ?p, pos_j ?p)" using assms(2,3) unfolding direction_def by blast
    have get2: "vm_get vm (pos_i ?p) (pos_j ?p) = Some (entry_of vm (pos_i ?p, pos_j ?p))"
      by (rule vm_get_in [OF assms(1) g])
    have body: "ext2_cell dir sel k M N s vm =
        (if entry_of vm (pos_i ?p, pos_j ?p) = 0 then vm_set vm (pos_i ?p) (pos_j ?p) k else Some vm)"
      using True get get2 by (simp add: ext2_cell_def s Let_def)
    show ?thesis
    proof (cases "entry_of vm (pos_i ?p, pos_j ?p) = 0")
      case free: True
      obtain vm' where "vm_set vm (pos_i ?p) (pos_j ?p) k = Some vm'" "is_matrix M N vm'"
          "\<forall>c. in_grid M N c \<longrightarrow> entry_of vm' c = (if c = (pos_i ?p, pos_j ?p) then k else entry_of vm c)"
        using vm_set_in [OF assms(1) g] by blast
      with body free True t show ?thesis by (intro exI [of _ vm']) (auto simp del: split_paired_All)
    next
      case False
      with body True t assms(1) show ?thesis by (intro exI [of _ vm]) (auto simp del: split_paired_All)
    qed
  qed
qed

lemma ext2_pass_step:
  assumes "is_matrix M N vm" "direction M N dir" "\<not> sel 0" "\<not> sel k" "k \<noteq> 0"
  shows "\<exists>vm'. ext2_pass sel M N (dir, k) vm = Some vm' \<and> is_matrix M N vm' \<and>
           (\<forall>c. in_grid M N c \<longrightarrow> entry_of vm' c =
              (if entry_of vm c = 0 \<and> (\<exists>s. in_grid M N s \<and> sel (entry_of vm s) \<and> target dir M N s = Some c)
               then k else entry_of vm c))"
proof -
  define I where "I ds vm' \<longleftrightarrow> is_matrix M N vm' \<and> (\<forall>c. in_grid M N c \<longrightarrow> entry_of vm' c =
      (if entry_of vm c = 0 \<and> (\<exists>s \<in> set ds. sel (entry_of vm s) \<and> target dir M N s = Some c) then k else entry_of vm c))"
    for ds :: "(int \<times> int) list" and vm'
  have "\<exists>vm'. for_each (ext2_cell dir sel k M N) (List.product [0..M - 1] [0..N - 1]) vm = Some vm'
          \<and> I (List.product [0..M - 1] [0..N - 1]) vm'"
  proof (rule for_each_rule)
    show "I [] vm" using assms(1) by (simp add: I_def)
  next
    fix ds s rest vm'
    assume split: "List.product [0..M - 1] [0..N - 1] = ds @ s # rest" and inv: "I ds vm'"
    have "s \<in> set (List.product [0..M - 1] [0..N - 1])" unfolding split by simp
    then have s: "in_grid M N s" unfolding set_cells by simp
    have m: "is_matrix M N vm'" using inv by (simp add: I_def)
    have "entry_of vm' s = k \<and> entry_of vm s = 0 \<or> entry_of vm' s = entry_of vm s"
      using inv s unfolding I_def by presburger
    then have sel: "sel (entry_of vm' s) \<longleftrightarrow> sel (entry_of vm s)" using assms(3,4) by auto
    obtain vm'' where vm'': "ext2_cell dir sel k M N s vm' = Some vm''" "is_matrix M N vm''"
        "\<forall>c. in_grid M N c \<longrightarrow> entry_of vm'' c =
          (if sel (entry_of vm' s) \<and> target dir M N s = Some c \<and> entry_of vm' c = 0 then k else entry_of vm' c)"
      using ext2_cell_step [OF m s assms(2)] by blast
    have "I (ds @ [s]) vm''"
      using vm''(2,3) inv sel assms(5) by (auto simp: I_def)
    with vm''(1) show "\<exists>vm''. ext2_cell dir sel k M N s vm' = Some vm'' \<and> I (ds @ [s]) vm''" by blast
  qed
  then show ?thesis unfolding I_def ext2_pass_def set_cells by auto
qed

lemma ext2_passes:
  assumes "is_matrix M N vm" "\<not> sel 0"
    and "\<forall>(dir, k) \<in> set ps. direction M N dir \<and> \<not> sel k \<and> k \<noteq> 0"
  shows "\<exists>vm'. for_each (ext2_pass sel M N) ps vm = Some vm' \<and> is_matrix M N vm' \<and>
           (\<forall>c. in_grid M N c \<longrightarrow>
              (entry_of vm c \<noteq> 0 \<longrightarrow> entry_of vm' c = entry_of vm c) \<and>
              (entry_of vm c = 0 \<longrightarrow>
                 (if \<exists>p \<in> set ps. \<exists>s. in_grid M N s \<and> sel (entry_of vm s) \<and> target (fst p) M N s = Some c
                  then entry_of vm' c \<in> snd ` set ps else entry_of vm' c = 0)))"
  using assms
proof (induction ps arbitrary: vm)
  case (Cons p ps)
  obtain dir k where p: "p = (dir, k)" by fastforce
  from Cons.prems p have d: "direction M N dir" "\<not> sel k" "k \<noteq> 0" by auto
  obtain vm1 where vm1: "ext2_pass sel M N p vm = Some vm1" "is_matrix M N vm1"
      "\<And>c. in_grid M N c \<Longrightarrow> entry_of vm1 c =
        (if entry_of vm c = 0 \<and> (\<exists>s. in_grid M N s \<and> sel (entry_of vm s) \<and> target dir M N s = Some c)
         then k else entry_of vm c)"
    using ext2_pass_step [OF Cons.prems(1) d(1) Cons.prems(2) d(2,3)] p by blast
  have sel: "sel (entry_of vm1 s) \<longleftrightarrow> sel (entry_of vm s)" if "in_grid M N s" for s
    using vm1(3) [OF that] d(2) Cons.prems(2) by auto
  obtain vm' where vm': "for_each (ext2_pass sel M N) ps vm1 = Some vm'" "is_matrix M N vm'"
      "\<And>c. in_grid M N c \<Longrightarrow>
         (entry_of vm1 c \<noteq> 0 \<longrightarrow> entry_of vm' c = entry_of vm1 c) \<and>
         (entry_of vm1 c = 0 \<longrightarrow>
            (if \<exists>p \<in> set ps. \<exists>s. in_grid M N s \<and> sel (entry_of vm1 s) \<and> target (fst p) M N s = Some c
             then entry_of vm' c \<in> snd ` set ps else entry_of vm' c = 0))"
    using Cons.IH [OF vm1(2) Cons.prems(2)] Cons.prems(3) by auto
  show ?case
  proof (intro exI conjI allI impI)
    show "for_each (ext2_pass sel M N) (p # ps) vm = Some vm'" using vm1(1) vm'(1) by simp
    show "is_matrix M N vm'" by (rule vm'(2))
  next
    fix c
    assume c: "in_grid M N c" "entry_of vm c \<noteq> 0"
    then show "entry_of vm' c = entry_of vm c" using vm1(3) vm'(3) by auto
  next
    fix c
    assume c: "in_grid M N c" "entry_of vm c = 0"
    let ?hit = "\<lambda>ps. \<exists>p \<in> set ps. \<exists>s. in_grid M N s \<and> sel (entry_of vm s) \<and> target (fst p) M N s = Some c"
    show "if ?hit (p # ps) then entry_of vm' c \<in> snd ` set (p # ps) else entry_of vm' c = 0"
    proof (cases "\<exists>s. in_grid M N s \<and> sel (entry_of vm s) \<and> target dir M N s = Some c")
      case True
      then have "entry_of vm1 c = k" using vm1(3) [OF c(1)] c(2) by simp
      then have "entry_of vm' c = k" using vm'(3) [OF c(1)] d(3) by simp
      with True p show ?thesis by auto
    next
      case False
      then have z: "entry_of vm1 c = 0" using vm1(3) [OF c(1)] c(2) by (metis (no_types, lifting))
      have hit: "?hit (p # ps) \<longleftrightarrow> ?hit ps"
        unfolding p list.set by (simp only: bex_simps fst_conv False simp_thms)
      have "(\<exists>p \<in> set ps. \<exists>s. in_grid M N s \<and> sel (entry_of vm1 s) \<and> target (fst p) M N s = Some c) \<longleftrightarrow> ?hit ps"
        using sel by blast
      then have "if ?hit ps then entry_of vm' c \<in> snd ` set ps else entry_of vm' c = 0"
        using vm'(3) [OF c(1)] z by simp
      then show ?thesis unfolding hit by (auto split: if_splits)
    qed
  qed
qed simp


section \<open>The eight directions\<close>

abbreviation eight :: "(int \<Rightarrow> int \<Rightarrow> int \<Rightarrow> int \<Rightarrow> Pos) list" where
  "eight \<equiv> [TOP, DOWN, LEFT, RIGHT, TOP_LEFT, TOP_RIGHT, DOWN_LEFT, DOWN_RIGHT]"

lemma direction_eight: "dir \<in> set eight \<Longrightarrow> direction M N dir"
  by (auto simp: direction_def target_def in_grid_def direction_defs Let_def split: if_splits)

text \<open>
  The specification: two cells of the cylinder (the columns wrap around, the rows do not) are
  at distance at most \<open>d\<close> in both coordinates.
\<close>

definition cyl_within :: "int \<Rightarrow> int \<Rightarrow> int \<times> int \<Rightarrow> int \<times> int \<Rightarrow> bool" where
  "cyl_within N d = (\<lambda>(i, j) (i', j'). \<bar>i - i'\<bar> \<le> d \<and> ((j - j') mod N \<le> d \<or> (j' - j) mod N \<le> d))"

lemma mod_le_iff:
  fixes x N :: int
  assumes "- N < x" "x < N"
  shows "x mod N = (if 0 \<le> x then x else x + N)"
proof (cases "0 \<le> x")
  case False
  then have "(x + N) mod N = x + N" using assms by (intro mod_pos_pos_trivial) auto
  with False show ?thesis by simp
qed (use assms in simp)

lemma cyl_within_iff:
  assumes "in_grid M N (i, j)" "in_grid M N (i', j')"
  shows "cyl_within N d (i, j) (i', j') \<longleftrightarrow>
    \<bar>i - i'\<bar> \<le> d \<and> (\<bar>j - j'\<bar> \<le> d \<or> N - \<bar>j - j'\<bar> \<le> d)"
proof -
  have a: "(j - j') mod N = (if 0 \<le> j - j' then j - j' else j - j' + N)"
    and b: "(j' - j) mod N = (if 0 \<le> j' - j then j' - j else j' - j + N)"
    using assms by (simp_all only: in_grid_def prod.case) (rule mod_le_iff, linarith, linarith)+
  show ?thesis unfolding cyl_within_def prod.case a b by auto
qed

lemma eight_targets:
  assumes "in_grid M N (i, j)" "in_grid M N (i', j')"
  shows "(\<exists>dir \<in> set eight. target dir M N (i, j) = Some (i', j')) \<or> (i, j) = (i', j')
    \<longleftrightarrow> cyl_within N 1 (i, j) (i', j')"
proof -
  note g = assms [unfolded in_grid_def prod.case]
  show ?thesis
  proof
    assume "(\<exists>dir \<in> set eight. target dir M N (i, j) = Some (i', j')) \<or> (i, j) = (i', j')"
    then show "cyl_within N 1 (i, j) (i', j')"
      unfolding cyl_within_iff [OF assms] using g
      by (auto simp: target_def direction_defs Let_def split: if_splits)
  next
    assume "cyl_within N 1 (i, j) (i', j')"
    then have i: "i' = i - 1 \<or> i' = i \<or> i' = i + 1"
      and j: "j' = j \<or> j' = (if j = 0 then N - 1 else j - 1) \<or> j' = (if j = N - 1 then 0 else j + 1)"
      unfolding cyl_within_iff [OF assms] using g by auto
    have t: "target TOP M N (i, j) = (if i = 0 then None else Some (i - 1, j))"
      "target DOWN M N (i, j) = (if i = M - 1 then None else Some (i + 1, j))"
      "target LEFT M N (i, j) = Some (i, if j = 0 then N - 1 else j - 1)"
      "target RIGHT M N (i, j) = Some (i, if j = N - 1 then 0 else j + 1)"
      "target TOP_LEFT M N (i, j) = (if i = 0 then None else Some (i - 1, if j = 0 then N - 1 else j - 1))"
      "target TOP_RIGHT M N (i, j) = (if i = 0 then None else Some (i - 1, if j = N - 1 then 0 else j + 1))"
      "target DOWN_LEFT M N (i, j) = (if i = M - 1 then None else Some (i + 1, if j = 0 then N - 1 else j - 1))"
      "target DOWN_RIGHT M N (i, j) = (if i = M - 1 then None else Some (i + 1, if j = N - 1 then 0 else j + 1))"
      using g by (auto simp: target_def direction_defs Let_def)
    have n0: "i' = i - 1 \<Longrightarrow> i \<noteq> 0" "i' = i + 1 \<Longrightarrow> i \<noteq> M - 1" using g by auto
    from i j show "(\<exists>dir \<in> set eight. target dir M N (i, j) = Some (i', j')) \<or> (i, j) = (i', j')"
      by (elim disjE) (simp_all add: t n0)
  qed
qed

lemma cyl_within_trans:
  assumes "in_grid M N c" "in_grid M N c'"
  shows "(\<exists>s. in_grid M N s \<and> cyl_within N 1 c s \<and> cyl_within N 1 s c') \<longleftrightarrow> cyl_within N 2 c c'"
proof -
  obtain i j i' j' where c: "c = (i, j)" "c' = (i', j')" by fastforce
  note g = assms [unfolded c in_grid_def prod.case]
  show ?thesis
  proof
    assume "\<exists>s. in_grid M N s \<and> cyl_within N 1 c s \<and> cyl_within N 1 s c'"
    then obtain a b where s: "in_grid M N (a, b)" "cyl_within N 1 c (a, b)" "cyl_within N 1 (a, b) c'"
      by fastforce
    from s(2,3) show "cyl_within N 2 c c'"
      using s(1) assms unfolding c
      by (simp add: cyl_within_iff) (simp add: in_grid_def, linarith)
  next
    assume w: "cyl_within N 2 c c'"
    then have wi: "\<bar>i - i'\<bar> \<le> 2" and wj: "\<bar>j - j'\<bar> \<le> 2 \<or> N - \<bar>j - j'\<bar> \<le> 2"
      using assms unfolding c by (simp_all add: cyl_within_iff)
    have "\<exists>a. 0 \<le> a \<and> a < M \<and> \<bar>i - a\<bar> \<le> 1 \<and> \<bar>a - i'\<bar> \<le> 1"
    proof (cases "i' < i")
      case True then show ?thesis using wi g by (intro exI [of _ "i - 1"]) auto
    next
      case False then show ?thesis using wi g
        by (cases "i' = i") (auto intro: exI [of _ i] exI [of _ "i + 1"])
    qed
    then obtain a where a: "0 \<le> a" "a < M" "\<bar>i - a\<bar> \<le> 1" "\<bar>a - i'\<bar> \<le> 1" by blast
    let ?near = "\<lambda>x y. \<bar>x - y\<bar> \<le> 1 \<or> N - \<bar>x - y\<bar> \<le> 1"
    have "\<exists>b. 0 \<le> b \<and> b < N \<and> ?near j b \<and> ?near b j'"
    proof -
      let ?l = "if j = 0 then N - 1 else j - 1" and ?r = "if j = N - 1 then 0 else j + 1"
      have "?near j j'  \<or> ?near ?l j' \<or> ?near ?r j'" using wj g by auto
      moreover have "0 \<le> ?l \<and> ?l < N \<and> ?near j ?l" "0 \<le> ?r \<and> ?r < N \<and> ?near j ?r" "?near j j"
        using g by auto
      ultimately show ?thesis using g(1) by blast
    qed
    then obtain b where b: "0 \<le> b" "b < N" "?near j b" "?near b j'" by blast
    have "in_grid M N (a, b)" using a b by (simp add: in_grid_def)
    moreover have "cyl_within N 1 c (a, b)" "cyl_within N 1 (a, b) c'"
      using calculation assms a b unfolding c by (simp_all add: cyl_within_iff)
    ultimately show "\<exists>s. in_grid M N s \<and> cyl_within N 1 c s \<and> cyl_within N 1 s c'" by blast
  qed
qed

section \<open>Loading, storing and the whole routine\<close>

lemma ext2_load_eq:
  "ext2_load vmask M N =
     those (map (\<lambda>i. those (map (\<lambda>j. aget vmask (i * M + j)) [0..N - 1])) [0..M - 1])"
  by (simp add: ext2_load_def for_each_collect_Nil)

lemma cell_index:
  assumes "in_grid M N (i, j)"
  shows "0 \<le> i * N + j" "i * N + j < M * N"
proof -
  have g: "0 \<le> i" "i < M" "0 \<le> j" "j < N" using assms by (simp_all add: in_grid_def)
  then show "0 \<le> i * N + j" by simp
  have "i * N \<le> (M - 1) * N" using g by (intro mult_right_mono) auto
  with g show "i * N + j < M * N" by (simp add: algebra_simps)
qed

lemma ext2_load_wide:
  assumes "M \<le> N" "M * N \<le> int (length vmask)"
  shows "\<exists>vm. ext2_load vmask M N = Some vm \<and> is_matrix M N vm \<and>
           (\<forall>i j. in_grid M N (i, j) \<longrightarrow> i * M + j \<in> {0..<int (length vmask)} \<and>
              entry_of vm (i, j) = vmask ! nat (i * M + j))"
proof -
  let ?row = "\<lambda>i. map (\<lambda>j. vmask ! nat (i * M + j)) [0..N - 1]"
  have idx: "i * M + j \<in> {0..<int (length vmask)}" if g: "in_grid M N (i, j)" for i j
  proof -
    have "0 \<le> i * M" "i * M \<le> i * N" "0 \<le> j"
      using g assms(1) by (auto simp: in_grid_def intro: mult_left_mono)
    moreover have "i * N + j < M * N" by (rule cell_index(2) [OF g])
    ultimately show ?thesis using assms(2) by simp
  qed
  have row: "those (map (\<lambda>j. aget vmask (i * M + j)) [0..N - 1]) = Some (?row i)" if "i \<in> set [0..M - 1]" for i
  proof (rule those_map_Some)
    fix j
    assume "j \<in> set [0..N - 1]"
    with that have "in_grid M N (i, j)" by (simp add: in_grid_def)
    from idx [OF this] show "aget vmask (i * M + j) = Some (vmask ! nat (i * M + j))"
      by (simp add: aget_in)
  qed
  then have "ext2_load vmask M N = Some (map ?row [0..M - 1])"
    unfolding ext2_load_eq by (rule those_map_Some)
  moreover have "is_matrix M N (map ?row [0..M - 1])" by (auto simp: is_matrix_def)
  moreover have "entry_of (map ?row [0..M - 1]) (i, j) = vmask ! nat (i * M + j)" if "in_grid M N (i, j)" for i j
    using that by (simp add: entry_of_def in_grid_def)
  ultimately show ?thesis using idx by blast
qed

lemma ext2_load_tall:
  assumes "N < M" "1 \<le> N" "int (length vmask) = M * N"
  shows "ext2_load vmask M N = None"
proof -
  have "(M - 1) * (N + 1) \<le> (M - 1) * M" using assms by (intro mult_left_mono) auto
  then have "int (length vmask) \<le> (M - 1) * M + (N - 1)" using assms by (simp add: algebra_simps)
  then have "aget vmask ((M - 1) * M + (N - 1)) = None" by (simp add: aget_None_iff)
  then have "None \<in> set (map (\<lambda>j. aget vmask ((M - 1) * M + j)) [0..N - 1])"
    using assms by (auto intro: image_eqI [of _ _ "N - 1"])
  then have "those (map (\<lambda>j. aget vmask ((M - 1) * M + j)) [0..N - 1]) = None" by (rule those_None)
  then have "None \<in> set (map (\<lambda>i. those (map (\<lambda>j. aget vmask (i * M + j)) [0..N - 1])) [0..M - 1])"
    using assms by (auto intro: image_eqI [of _ _ "M - 1"])
  then show ?thesis unfolding ext2_load_eq by (rule those_None)
qed

lemma ext2_store_step:
  assumes vm: "is_matrix M N vm" and len: "length ret = nat (M * N)"
  shows "\<exists>ret'. ext2_store M N vm ret = Some ret' \<and> length ret' = nat (M * N) \<and>
           (\<forall>i j. in_grid M N (i, j) \<longrightarrow> ret' ! nat (i * N + j) = Some (entry_of vm (i, j)))"
proof -
  define I where "I ds r \<longleftrightarrow> length r = nat (M * N) \<and>
      (\<forall>i j. (i, j) \<in> set ds \<longrightarrow> in_grid M N (i, j) \<longrightarrow> r ! nat (i * N + j) = Some (entry_of vm (i, j)))"
    for ds and r :: "int option list"
  have "\<exists>ret'. ext2_store M N vm ret = Some ret' \<and> I (List.product [0..M - 1] [0..N - 1]) ret'"
    unfolding ext2_store_def
  proof (rule for_each_rule)
    show "I [] ret" using len by (simp add: I_def)
  next
    fix ds s rest r
    assume split: "List.product [0..M - 1] [0..N - 1] = ds @ s # rest" and inv: "I ds r"
    obtain i j where s: "s = (i, j)" by fastforce
    have "s \<in> set (List.product [0..M - 1] [0..N - 1])" unfolding split by simp
    then have g: "in_grid M N (i, j)" unfolding set_cells s by simp
    note idx = cell_index [OF g]
    have lenr: "length r = nat (M * N)" using inv by (simp add: I_def)
    let ?r = "r[nat (i * N + j) := Some (entry_of vm (i, j))]"
    have "I (ds @ [s]) ?r"
      unfolding I_def s
    proof (intro conjI allI impI)
      fix a b
      assume ab: "(a, b) \<in> set (ds @ [(i, j)])" and gab: "in_grid M N (a, b)"
      note idx' = cell_index [OF gab]
      have "a * N + b = i * N + j \<longleftrightarrow> (a, b) = (i, j)"
        using row_major_inj [of a N b i j] g gab by (auto simp: in_grid_def)
      then have "nat (a * N + b) = nat (i * N + j) \<longleftrightarrow> (a, b) = (i, j)"
        using idx(1) idx'(1) by (simp add: eq_nat_nat_iff)
      then show "?r ! nat (a * N + b) = Some (entry_of vm (a, b))"
        using ab gab inv idx idx' lenr by (auto simp: nth_list_update I_def)
    qed (simp add: lenr)
    moreover have "aset r (i * N + j) (Some (entry_of vm (i, j))) = Some ?r"
      using idx lenr by (intro aset_in) auto
    ultimately show "\<exists>r'. (case s of (i, j) \<Rightarrow> \<lambda>ret. do {
          v \<leftarrow> vm_get vm i j; aset ret (i * N + j) (Some v) }) r = Some r' \<and> I (ds @ [s]) r'"
      using vm_get_in [OF vm g] by (simp add: s)
  qed
  then show ?thesis unfolding I_def set_cells by auto
qed

text \<open>
  One ring, for any selection and labels: the cells that are not 0 afterwards are the cells
  around the selected ones, provided every cell that was not 0 was selected.
\<close>

lemma ext2_ring_step:
  assumes "is_matrix M N vm" "\<not> sel 0" "map fst ps = eight" "\<forall>k \<in> snd ` set ps. \<not> sel k \<and> k \<noteq> 0"
    and sup: "\<And>c. in_grid M N c \<Longrightarrow> entry_of vm c \<noteq> 0 \<longleftrightarrow> sel (entry_of vm c)"
  shows "\<exists>vm'. for_each (ext2_pass sel M N) ps vm = Some vm' \<and> is_matrix M N vm' \<and>
    (\<forall>c. in_grid M N c \<longrightarrow>
       (entry_of vm' c = entry_of vm c \<or> entry_of vm' c \<in> snd ` set ps) \<and>
       (entry_of vm' c \<noteq> 0 \<longleftrightarrow> (\<exists>s. in_grid M N s \<and> entry_of vm s \<noteq> 0 \<and> cyl_within N 1 s c)))"
proof -
  let ?hit = "\<lambda>c. \<exists>p \<in> set ps. \<exists>s. in_grid M N s \<and> sel (entry_of vm s) \<and> target (fst p) M N s = Some c"
  have fst_ps: "fst ` set ps = set eight" using assms(3) by (metis set_map)
  have dirs: "\<forall>(dir, k) \<in> set ps. direction M N dir \<and> \<not> sel k \<and> k \<noteq> 0"
  proof (rule ballI, simp only: split_paired_all prod.case, intro conjI)
    fix dir k
    assume p: "(dir, k) \<in> set ps"
    then have "dir \<in> set eight" unfolding fst_ps [symmetric] by force
    then show "direction M N dir" by (rule direction_eight)
    show "\<not> sel k" using p assms(4) by force
    show "k \<noteq> 0" using p assms(4) by force
  qed
  obtain vm' where vm': "for_each (ext2_pass sel M N) ps vm = Some vm'" "is_matrix M N vm'"
      "\<And>c. in_grid M N c \<Longrightarrow> (entry_of vm c \<noteq> 0 \<longrightarrow> entry_of vm' c = entry_of vm c) \<and>
         (entry_of vm c = 0 \<longrightarrow> (if ?hit c then entry_of vm' c \<in> snd ` set ps else entry_of vm' c = 0))"
    using ext2_passes [OF assms(1,2) dirs] by blast
  have "(entry_of vm' c = entry_of vm c \<or> entry_of vm' c \<in> snd ` set ps) \<and>
       (entry_of vm' c \<noteq> 0 \<longleftrightarrow> (\<exists>s. in_grid M N s \<and> entry_of vm s \<noteq> 0 \<and> cyl_within N 1 s c))"
    if c: "in_grid M N c" for c
  proof -
    define hit where "hit = ?hit c"
    have m: "(entry_of vm c \<noteq> 0 \<longrightarrow> entry_of vm' c = entry_of vm c) \<and>
        (entry_of vm c = 0 \<longrightarrow> (if hit then entry_of vm' c \<in> snd ` set ps else entry_of vm' c = 0))"
      using vm'(3) [OF c] unfolding hit_def .
    have "hit \<longleftrightarrow> (\<exists>s. in_grid M N s \<and> entry_of vm s \<noteq> 0 \<and> (\<exists>dir \<in> set eight. target dir M N s = Some c))"
      unfolding hit_def fst_ps [symmetric] using sup by blast
    moreover have "(\<exists>dir \<in> set eight. target dir M N s = Some c) \<or> s = c \<longleftrightarrow> cyl_within N 1 s c"
      if "in_grid M N s" for s
      using eight_targets [of M N "fst s" "snd s" "fst c" "snd c"] that c by simp
    ultimately have "hit \<or> entry_of vm c \<noteq> 0 \<longleftrightarrow>
        (\<exists>s. in_grid M N s \<and> entry_of vm s \<noteq> 0 \<and> cyl_within N 1 s c)"
      using c by blast
    moreover have "entry_of vm' c \<noteq> 0 \<longleftrightarrow> hit \<or> entry_of vm c \<noteq> 0"
      using m assms(4) by (cases "entry_of vm c = 0"; cases hit) auto
    moreover have "entry_of vm' c = entry_of vm c \<or> entry_of vm' c \<in> snd ` set ps"
      using m by (cases "entry_of vm c = 0"; cases hit) simp_all
    ultimately show ?thesis by blast
  qed
  with vm' show ?thesis by blast
qed

lemma ext2_rings:
  assumes "is_matrix M N vm" "\<forall>c. in_grid M N c \<longrightarrow> entry_of vm c \<in> {0, 1}"
  shows "\<exists>vm1 vm2. ext2_ring1 M N vm = Some vm1 \<and> is_matrix M N vm1 \<and>
    ext2_ring2 M N vm1 = Some vm2 \<and> is_matrix M N vm2 \<and>
    (\<forall>c. in_grid M N c \<longrightarrow>
       (entry_of vm1 c \<noteq> 0 \<longleftrightarrow> (\<exists>s. in_grid M N s \<and> entry_of vm s = 1 \<and> cyl_within N 1 s c)) \<and>
       (entry_of vm2 c \<noteq> 0 \<longleftrightarrow> (\<exists>s. in_grid M N s \<and> entry_of vm s = 1 \<and> cyl_within N 2 s c)))"
proof -
  have one: "entry_of vm c \<noteq> 0 \<longleftrightarrow> entry_of vm c = 1" if "in_grid M N c" for c
  proof -
    have "entry_of vm c \<in> {0, 1}" using assms(2) that by blast
    then show ?thesis by auto
  qed
  let ?ps1 = "zip eight [2, 3, 4, 5, 4, 5, 4, 5 :: int]"
    and ?ps2 = "zip eight [6, 7, 8, 9, 8, 9, 8, 9 :: int]"
  have ps: "ext2_ring1 M N = for_each (ext2_pass (\<lambda>v. v = 1) M N) ?ps1"
      "ext2_ring2 M N = for_each (ext2_pass (\<lambda>v. v \<ge> 1 \<and> v \<le> 5) M N) ?ps2"
    by (simp_all only: ext2_ring1_def ext2_ring2_def zip_Cons_Cons zip_Nil)
  have fst_ps: "map fst ?ps1 = eight" "map fst ?ps2 = eight" by (simp_all del: upto.simps)
  have snd_ps: "snd ` set ?ps1 = {2, 3, 4, 5}" "snd ` set ?ps2 = {6, 7, 8, 9}" by (simp_all, blast+)
  obtain vm1 where vm1: "ext2_ring1 M N vm = Some vm1" "is_matrix M N vm1"
      "\<And>c. in_grid M N c \<Longrightarrow> entry_of vm1 c = entry_of vm c \<or> entry_of vm1 c \<in> {2, 3, 4, 5}"
      "\<And>c. in_grid M N c \<Longrightarrow> entry_of vm1 c \<noteq> 0 \<longleftrightarrow>
         (\<exists>s. in_grid M N s \<and> entry_of vm s \<noteq> 0 \<and> cyl_within N 1 s c)"
    using ext2_ring_step [of M N vm "\<lambda>v. v = 1", OF assms(1) _ fst_ps(1) _ one]
    unfolding snd_ps ps [symmetric] by (auto simp del: split_paired_All split_paired_Ex)
  have five: "entry_of vm1 c \<noteq> 0 \<longleftrightarrow> entry_of vm1 c \<ge> 1 \<and> entry_of vm1 c \<le> 5" if "in_grid M N c" for c
    using vm1(3) [OF that] one [OF that] by (cases "entry_of vm c = 0") auto
  obtain vm2 where vm2: "ext2_ring2 M N vm1 = Some vm2" "is_matrix M N vm2"
      "\<And>c. in_grid M N c \<Longrightarrow> entry_of vm2 c \<noteq> 0 \<longleftrightarrow>
         (\<exists>s. in_grid M N s \<and> entry_of vm1 s \<noteq> 0 \<and> cyl_within N 1 s c)"
    using ext2_ring_step [of M N vm1 "\<lambda>v. v \<ge> 1 \<and> v \<le> 5", OF vm1(2) _ fst_ps(2) _ five]
    unfolding snd_ps ps [symmetric] by (auto simp del: split_paired_All split_paired_Ex)
  have first: "entry_of vm1 c \<noteq> 0 \<longleftrightarrow> (\<exists>s. in_grid M N s \<and> entry_of vm s = 1 \<and> cyl_within N 1 s c)"
    if "in_grid M N c" for c
    using vm1(4) [OF that] one by blast
  have "entry_of vm2 c \<noteq> 0 \<longleftrightarrow> (\<exists>s. in_grid M N s \<and> entry_of vm s = 1 \<and> cyl_within N 2 s c)"
    if c: "in_grid M N c" for c
  proof -
    have "entry_of vm2 c \<noteq> 0 \<longleftrightarrow> (\<exists>t s. in_grid M N t \<and> in_grid M N s \<and> entry_of vm s = 1 \<and>
        cyl_within N 1 s t \<and> cyl_within N 1 t c)"
      unfolding vm2(3) [OF c] using first by blast
    also have "\<dots> \<longleftrightarrow> (\<exists>s. in_grid M N s \<and> entry_of vm s = 1 \<and> cyl_within N 2 s c)"
      using cyl_within_trans [OF _ c] by blast
    finally show ?thesis .
  qed
  with first vm1(1,2) vm2(1,2) show ?thesis by blast
qed

text \<open>
  The routine on one face with at most as many rows as columns; its visible cells are those of
  the matrix it loads, which reads the mask with stride \<open>M\<close>.
\<close>

lemma extVmask2_wide:
  assumes "1 \<le> M" "M \<le> N" "int (length vmask) = M * N" "set vmask \<subseteq> {0, 1}" "width \<in> {1, 2}"
  shows "\<exists>ret. extVmask2 vmask 1 M N width = Some (map Some ret) \<and> length ret = length vmask \<and>
    (\<forall>i j. in_grid M N (i, j) \<longrightarrow>
       (ret ! nat (i * N + j) \<noteq> 0 \<longleftrightarrow>
         (\<exists>i' j'. in_grid M N (i', j') \<and> vmask ! nat (i' * M + j') = 1 \<and>
                  cyl_within N width (i', j') (i, j))))"
proof -
  obtain vm where vm: "ext2_load vmask M N = Some vm" "is_matrix M N vm"
      "\<And>i j. in_grid M N (i, j) \<Longrightarrow> i * M + j \<in> {0..<int (length vmask)} \<and>
         entry_of vm (i, j) = vmask ! nat (i * M + j)"
    using ext2_load_wide [of M N vmask] assms(2,3) by auto
  have "entry_of vm c \<in> {0, 1}" if "in_grid M N c" for c
  proof -
    obtain i j where c: "c = (i, j)" by fastforce
    from vm(3) [of i j] that have "nat (i * M + j) < length vmask" by (simp add: c nat_less_iff)
    then have "vmask ! nat (i * M + j) \<in> {0, 1}" using assms(4) nth_mem by blast
    with vm(3) that show ?thesis by (simp add: c)
  qed
  with ext2_rings [OF vm(2)] obtain vm1 vm2 where
      vm1: "ext2_ring1 M N vm = Some vm1" "is_matrix M N vm1"
    and vm2: "ext2_ring2 M N vm1 = Some vm2" "is_matrix M N vm2"
    and sup: "\<And>c. in_grid M N c \<Longrightarrow>
       (entry_of vm1 c \<noteq> 0 \<longleftrightarrow> (\<exists>s. in_grid M N s \<and> entry_of vm s = 1 \<and> cyl_within N 1 s c)) \<and>
       (entry_of vm2 c \<noteq> 0 \<longleftrightarrow> (\<exists>s. in_grid M N s \<and> entry_of vm s = 1 \<and> cyl_within N 2 s c))"
    by blast
  let ?empty = "replicate (nat (M * N)) None :: int option list"
  obtain r1 where r1: "ext2_store M N vm1 ?empty = Some r1" "length r1 = nat (M * N)"
      "\<forall>i j. in_grid M N (i, j) \<longrightarrow> r1 ! nat (i * N + j) = Some (entry_of vm1 (i, j))"
    using ext2_store_step [OF vm1(2), of ?empty] by auto
  obtain r2 where r2: "ext2_store M N vm2 r1 = Some r2" "length r2 = nat (M * N)"
      "\<forall>i j. in_grid M N (i, j) \<longrightarrow> r2 ! nat (i * N + j) = Some (entry_of vm2 (i, j))"
    using ext2_store_step [OF vm2(2) r1(2)] by auto
  define vw where "vw = (if width = 1 then vm1 else vm2)"
  define rw where "rw = (if width = 1 then r1 else r2)"
  have MN: "\<not> M * N < 0" using assms by simp
  have run: "extVmask2 vmask 1 M N width = Some rw"
    using MN assms(5) vm(1) vm1(1) vm2(1) r1(1) r2(1) by (auto simp: extVmask2_def Let_def rw_def)
  have rw: "length rw = nat (M * N)"
      "\<And>i j. in_grid M N (i, j) \<Longrightarrow> rw ! nat (i * N + j) = Some (entry_of vw (i, j))"
    using r1 r2 by (simp_all add: rw_def vw_def)
  have stored: "\<exists>v. rw ! k = Some v" if "k < nat (M * N)" for k
  proof -
    have "in_grid M N (int k div N, int k mod N)"
      using div_mult_bounds [of "int k" M N] that assms(1,2) by (simp add: in_grid_def nat_less_iff zless_nat_eq_int_zless)
    from rw(2) [OF this] show ?thesis by simp
  qed
  have "rw = map Some (map the rw)"
    using stored rw(1) by (intro nth_equalityI) (auto simp: nat_less_iff)
  moreover have "map the rw ! nat (i * N + j) \<noteq> 0 \<longleftrightarrow>
      (\<exists>i' j'. in_grid M N (i', j') \<and> vmask ! nat (i' * M + j') = 1 \<and> cyl_within N width (i', j') (i, j))"
    if g: "in_grid M N (i, j)" for i j
  proof -
    have "nat (i * N + j) < length rw" using cell_index [OF g] rw(1) by simp
    then have v: "map the rw ! nat (i * N + j) = entry_of vw (i, j)" using rw(2) [OF g] by simp
    have s: "entry_of vw (i, j) \<noteq> 0 \<longleftrightarrow> (\<exists>s. in_grid M N s \<and> entry_of vm s = 1 \<and> cyl_within N width s (i, j))"
      using sup [OF g] assms(5) by (auto simp: vw_def simp del: split_paired_Ex)
    show ?thesis unfolding v s split_paired_Ex using vm(3) by (metis (no_types, lifting))
  qed
  ultimately show ?thesis
    using run rw(1) assms(3) by (intro exI [of _ "map the rw"]) auto
qed

text \<open>
  On one face of n by n tiles with a mask of zeros and ones, \<open>extVmask2\<close> with width 1 or 2
  returns an array with every entry stored, and an entry is not 0 exactly when some visible tile
  is at most that many rows and that many columns away, columns counted around the cylinder.
\<close>

theorem extVmask2_square:
  assumes "1 \<le> n" "int (length vmask) = n * n" "set vmask \<subseteq> {0, 1}" "width \<in> {1, 2}"
  shows "\<exists>ret. extVmask2 vmask 1 n n width = Some (map Some ret) \<and> length ret = length vmask \<and>
    (\<forall>i j. in_grid n n (i, j) \<longrightarrow>
       (ret ! nat (i * n + j) \<noteq> 0 \<longleftrightarrow>
         (\<exists>i' j'. in_grid n n (i', j') \<and> vmask ! nat (i' * n + j') = 1 \<and>
                  cyl_within n width (i', j') (i, j))))"
  using extVmask2_wide [of n n vmask width] assms by simp

theorem extVmask2_square_witness:
  "\<exists>ret. extVmask2 [0, 0, 0, 0, 0, 0, 1, 0, 0, 0, 0, 0, 0, 0, 0, 0] 1 4 4 1 = Some (map Some ret) \<and>
     length ret = 16"
  using extVmask2_square [of 4 "[0, 0, 0, 0, 0, 0, 1, 0, 0, 0, 0, 0, 0, 0, 0, 0]" 1] by auto

text \<open>
  On a single face that is not square the row stride of the load decides: with more rows than
  columns, extending by 1 or 2 reads past the end of the mask, with at most as many rows it does
  not.
\<close>

theorem extVmask2_defined_iff:
  assumes "1 \<le> M" "1 \<le> N" "int (length vmask) = M * N" "set vmask \<subseteq> {0, 1}" "width \<in> {1, 2}"
  shows "extVmask2 vmask 1 M N width \<noteq> None \<longleftrightarrow> M \<le> N"
proof (cases "M \<le> N")
  case True
  with extVmask2_wide [of M N vmask width] assms show ?thesis by auto
next
  case False
  with ext2_load_tall [of N M vmask] assms show ?thesis by (auto simp: extVmask2_def Let_def)
qed

theorem extVmask2_defined_iff_witness:
  "extVmask2 [0, 1, 0, 0, 0, 0] 1 2 3 1 \<noteq> None \<and> extVmask2 [0, 1, 0, 0, 0, 0] 1 3 2 1 = None"
  using extVmask2_defined_iff [of 2 3 "[0, 1, 0, 0, 0, 0]" 1]
    extVmask2_defined_iff [of 3 2 "[0, 1, 0, 0, 0, 0]" 1] by simp

end
