(* ===== verification/Layer_Fill.thy ===== *)
theory Layer_Fill
  imports Complex_Main VR_Prelude
begin

text \<open>
  The choice of enhancement layers (\<^verbatim>\<open>MMSP\<close> and \<^verbatim>\<open>UTD2017_adaptation_vr\<close> of \<^verbatim>\<open>nghttp.cc\<close>): the
  loop that requests layer after layer for the tiles of a viewport while the sum of the bitrates
  stays below the budget, and the loop that looks for the highest layer affordable for all
  tiles. The throughput estimates are doubles in the code and rationals here.

  The loops send a request per step. What they rely on is the locale \<open>request_sink\<close>: sending a
  valid request succeeds and is logged. The request engine provides it.
\<close>

section \<open>The code\<close>

text \<open>
  The inner loop \<^verbatim>\<open>while (ID < size && sum_tile_br + enha_layer_br[layerId-1] < budget)\<close>; the state
  is the sink, \<open>sum_tile_br\<close> and \<open>dep_stream_id\<close>, the stream the next request depends on.
\<close>

fun fill_layer ::
  "(int \<Rightarrow> int \<Rightarrow> int \<Rightarrow> int \<Rightarrow> 'c \<Rightarrow> ('c \<times> int) option) \<Rightarrow> int list \<Rightarrow> rat \<Rightarrow> int \<Rightarrow> int list
     \<Rightarrow> 'c \<times> int \<times> int \<Rightarrow> ('c \<times> int \<times> int) option" where
  "fill_layer req enha_layer_br budget layerId [] st = Some st"
| "fill_layer req enha_layer_br budget layerId (t # ts) (c, sum_tile_br, dep) =
     (case aget enha_layer_br (layerId - 1) of
        None \<Rightarrow> None
      | Some br \<Rightarrow>
          if of_int (sum_tile_br + br) < budget
          then do {
            (c, stream_id) \<leftarrow> req t layerId br dep c;
            fill_layer req enha_layer_br budget layerId ts (c, sum_tile_br + br, stream_id)
          }
          else Some (c, sum_tile_br, dep))"

definition fill_layers ::
  "(int \<Rightarrow> int \<Rightarrow> int \<Rightarrow> int \<Rightarrow> 'c \<Rightarrow> ('c \<times> int) option) \<Rightarrow> int list \<Rightarrow> rat \<Rightarrow> int \<Rightarrow> int \<Rightarrow> int list
     \<Rightarrow> 'c \<times> int \<times> int \<Rightarrow> ('c \<times> int \<times> int) option" where
  "fill_layers req enha_layer_br budget lo hi tiles =
     for_each (\<lambda>layerId. fill_layer req enha_layer_br budget layerId tiles) [lo..hi]"

text \<open>
  The variant of algorithms 9, 10 and 13 also keeps the highest and the lowest layer it requested,
  in variables that are \<open>None\<close> while unassigned.
\<close>

fun fill_layer_track ::
  "(int \<Rightarrow> int \<Rightarrow> int \<Rightarrow> int \<Rightarrow> 'c \<Rightarrow> ('c \<times> int) option) \<Rightarrow> int list \<Rightarrow> rat \<Rightarrow> int \<Rightarrow> int list
     \<Rightarrow> ('c \<times> int \<times> int) \<times> int option \<times> int option \<Rightarrow> (('c \<times> int \<times> int) \<times> int option \<times> int option) option" where
  "fill_layer_track req enha_layer_br budget layerId [] st = Some st"
| "fill_layer_track req enha_layer_br budget layerId (t # ts) ((c, sum_tile_br, dep), mx, mn) =
     (case aget enha_layer_br (layerId - 1) of
        None \<Rightarrow> None
      | Some br \<Rightarrow>
          if of_int (sum_tile_br + br) < budget
          then do {
            (c, stream_id) \<leftarrow> req t layerId br dep c;
            max_temp \<leftarrow> mx;
            min_temp \<leftarrow> mn;
            fill_layer_track req enha_layer_br budget layerId ts
              ((c, sum_tile_br + br, stream_id), Some (max layerId max_temp), Some (min layerId min_temp))
          }
          else Some ((c, sum_tile_br, dep), mx, mn))"

definition fill_layers_track ::
  "(int \<Rightarrow> int \<Rightarrow> int \<Rightarrow> int \<Rightarrow> 'c \<Rightarrow> ('c \<times> int) option) \<Rightarrow> int list \<Rightarrow> rat \<Rightarrow> int \<Rightarrow> int \<Rightarrow> int list
     \<Rightarrow> ('c \<times> int \<times> int) \<times> int option \<times> int option \<Rightarrow> (('c \<times> int \<times> int) \<times> int option \<times> int option) option" where
  "fill_layers_track req enha_layer_br budget lo hi tiles =
     for_each (\<lambda>layerId. fill_layer_track req enha_layer_br budget layerId tiles) [lo..hi]"

text \<open>Algorithms 1 and 2: the number of layers that fit for every tile of the viewport.\<close>

fun find_version :: "int list \<Rightarrow> int \<Rightarrow> int \<Rightarrow> rat \<Rightarrow> rat \<Rightarrow> nat \<Rightarrow> nat" where
  "find_version [] base_layer_br vsize thrp EL_br_tmp l = l"
| "find_version (br # brs) base_layer_br vsize thrp EL_br_tmp l =
     (if of_int base_layer_br + (EL_br_tmp + of_int br) * of_int vsize > thrp then l
      else find_version brs base_layer_br vsize thrp (EL_br_tmp + of_int br) (Suc l))"

text \<open>The layers \<open>lo\<close> to \<open>hi\<close> of all the tiles, layer by layer.\<close>

definition full_layers :: "int \<Rightarrow> int \<Rightarrow> int list \<Rightarrow> (int \<times> int) list" where
  "full_layers lo hi ts = concat (map (\<lambda>l. map (\<lambda>t. (t, l)) ts) [lo..hi])"

text \<open>The bitrates of some (tile, layer) pairs.\<close>

definition layers_br :: "int list \<Rightarrow> (int \<times> int) list \<Rightarrow> int" where
  "layers_br enha ps = sum_list (map (\<lambda>(t, l). enha ! nat (l - 1)) ps)"

lemma layers_br_append [simp]: "layers_br enha (ps @ qs) = layers_br enha ps + layers_br enha qs"
  by (simp add: layers_br_def)

lemma layers_br_layer [simp]: "layers_br enha (map (\<lambda>t. (t, l)) ts) = int (length ts) * enha ! nat (l - 1)"
  by (induction ts) (simp_all add: layers_br_def algebra_simps)

lemma full_layers_rec: "lo \<le> m \<Longrightarrow> full_layers lo m ts = map (\<lambda>t. (t, lo)) ts @ full_layers (lo + 1) m ts"
  by (simp add: full_layers_def upto_rec1)

text \<open>
  All layers: the first \<open>m\<close> layers of every tile and layer \<open>m + 1\<close> of the first \<open>k\<close> tiles, within
  the budget, and the next request would exceed it.
\<close>

definition filled :: "int list \<Rightarrow> rat \<Rightarrow> int \<Rightarrow> int \<Rightarrow> int list \<Rightarrow> int \<Rightarrow> (int \<times> int) list \<Rightarrow> int \<Rightarrow> bool" where
  "filled enha budget lo hi ts s new s' \<longleftrightarrow> (\<exists>m k. new = full_layers lo m ts @ map (\<lambda>t. (t, m + 1)) (take k ts) \<and>
     lo - 1 \<le> m \<and> m \<le> hi \<and> k \<le> length ts \<and> (k \<noteq> 0 \<longrightarrow> m < hi) \<and>
     s' = s + layers_br enha new \<and> (new \<noteq> [] \<longrightarrow> of_int s' < budget) \<and>
     (m < hi \<longrightarrow> k < length ts \<and> budget \<le> of_int (s' + enha ! nat m)))"

section \<open>The interface to the requests\<close>

locale request_sink =
  fixes ok :: "'c \<Rightarrow> bool"
    and logged :: "'c \<Rightarrow> (int \<times> int) list"
    and valid :: "int \<Rightarrow> int \<Rightarrow> bool"
    and req :: "int \<Rightarrow> int \<Rightarrow> int \<Rightarrow> int \<Rightarrow> 'c \<Rightarrow> ('c \<times> int) option"
  assumes req_ok: "ok c \<Longrightarrow> valid t l \<Longrightarrow>
    \<exists>c' stream_id. req t l br dep c = Some (c', stream_id) \<and> ok c' \<and> logged c' = logged c @ [(t, l)]"
begin

text \<open>One layer: it is requested for the first \<open>k\<close> tiles, as many as the budget allows.\<close>

lemma fill_layer_prefix:
  assumes "ok c" "\<forall>t \<in> set ts. valid t l" "1 \<le> l" "l \<le> int (length enha)"
  shows "\<exists>c' dep' k. fill_layer req enha budget l ts (c, s, dep) =
        Some (c', s + int k * (enha ! nat (l - 1)), dep') \<and> ok c' \<and>
      logged c' = logged c @ map (\<lambda>t. (t, l)) (take k ts) \<and> k \<le> length ts \<and>
      (0 < k \<longrightarrow> of_int (s + int k * (enha ! nat (l - 1))) < budget) \<and>
      (k < length ts \<longrightarrow> budget \<le> of_int (s + int k * (enha ! nat (l - 1)) + enha ! nat (l - 1)))"
  using assms
proof (induction ts arbitrary: c s dep)
  case Nil
  then show ?case by auto
next
  case (Cons t ts)
  let ?br = "enha ! nat (l - 1)"
  have br: "aget enha (l - 1) = Some ?br" using Cons.prems(3,4) by (simp add: aget_in)
  show ?case
  proof (cases "of_int (s + ?br) < budget")
    case False
    then have "fill_layer req enha budget l (t # ts) (c, s, dep) = Some (c, s + int 0 * ?br, dep)"
      by (simp add: br)
    moreover have "budget \<le> of_int (s + int 0 * ?br + ?br)" using False by simp
    ultimately show ?thesis
      using Cons.prems(1) by (intro exI [of _ c] exI [of _ dep] exI [of _ 0]) simp
  next
    case True
    obtain c1 i where c1: "req t l ?br dep c = Some (c1, i)" "ok c1" "logged c1 = logged c @ [(t, l)]"
      using req_ok [OF Cons.prems(1), of t l ?br dep] Cons.prems(2) by auto
    have "\<forall>t \<in> set ts. valid t l" using Cons.prems(2) by simp
    from Cons.IH [OF c1(2) this Cons.prems(3,4), of "s + ?br" i] obtain c' dep' k where
        r: "fill_layer req enha budget l ts (c1, s + ?br, i) = Some (c', s + ?br + int k * ?br, dep')"
        "ok c'" "logged c' = logged c1 @ map (\<lambda>t. (t, l)) (take k ts)" "k \<le> length ts"
        "0 < k \<longrightarrow> of_int (s + ?br + int k * ?br) < budget"
        "k < length ts \<longrightarrow> budget \<le> of_int (s + ?br + int k * ?br + ?br)"
      by blast
    have e: "s + ?br + int k * ?br = s + int (Suc k) * ?br" by (simp add: algebra_simps)
    have "of_int (s + int (Suc k) * ?br) < budget"
      using r(5) True by (cases "k = 0") (simp_all add: e)
    with r c1 True br show ?thesis
      unfolding e by (intro exI [of _ c'] exI [of _ dep'] exI [of _ "Suc k"]) simp
  qed
qed

text \<open>Once a layer did not reach every tile, no later layer that costs as much gets a tile.\<close>

lemma fill_layers_blocked:
  assumes "\<forall>l \<in> set ls. 1 \<le> l \<and> l \<le> int (length enha) \<and> budget \<le> of_int (s + enha ! nat (l - 1))"
  shows "for_each (\<lambda>l. fill_layer req enha budget l ts) ls (c, s, dep) = Some (c, s, dep)"
  using assms
proof (induction ls)
  case (Cons l ls)
  then have "fill_layer req enha budget l ts (c, s, dep) = Some (c, s, dep)"
    by (cases ts) (auto simp: aget_in)
  with Cons show ?case by simp
qed simp

lemma fill_layers_shape:
  assumes "ok c" "1 \<le> lo" "lo \<le> hi + 1" "hi \<le> int (length enha)"
    and "\<forall>t \<in> set ts. \<forall>l. lo \<le> l \<and> l \<le> hi \<longrightarrow> valid t l"
    and mono: "\<And>i j. i \<le> j \<Longrightarrow> j < length enha \<Longrightarrow> enha ! i \<le> enha ! j"
  shows "\<exists>c' s' dep' new. fill_layers req enha budget lo hi ts (c, s, dep) = Some (c', s', dep') \<and> ok c' \<and>
      logged c' = logged c @ new \<and> filled enha budget lo hi ts s new s'"
  using assms(1-5)
proof (induction "nat (hi + 1 - lo)" arbitrary: c s dep lo)
  case 0
  then have "lo = hi + 1" by simp
  then show ?case
    using 0 by (intro exI [of _ c] exI [of _ s] exI [of _ dep] exI [of _ "[]"])
      (auto simp: fill_layers_def full_layers_def filled_def layers_br_def intro!: exI [of _ hi])
next
  case (Suc d)
  then have lo: "lo \<le> hi" by simp
  let ?br = "enha ! nat (lo - 1)"
  have unroll: "fill_layers req enha budget lo hi ts st =
      (case fill_layer req enha budget lo ts st of None \<Rightarrow> None
       | Some st' \<Rightarrow> fill_layers req enha budget (lo + 1) hi ts st')" for st
    using lo by (simp add: fill_layers_def upto_rec1 split: option.split)
  obtain c1 dep1 k where r: "fill_layer req enha budget lo ts (c, s, dep) = Some (c1, s + int k * ?br, dep1)"
      "ok c1" "logged c1 = logged c @ map (\<lambda>t. (t, lo)) (take k ts)" "k \<le> length ts"
      "0 < k \<longrightarrow> of_int (s + int k * ?br) < budget"
      "k < length ts \<longrightarrow> budget \<le> of_int (s + int k * ?br + ?br)"
    using fill_layer_prefix [of c ts lo enha budget s dep] Suc.prems lo by auto
  show ?case
  proof (cases "k = length ts")
    case False
    then have blocked: "budget \<le> of_int (s + int k * ?br + ?br)" using r(4,6) by simp
    have "fill_layers req enha budget (lo + 1) hi ts (c1, s + int k * ?br, dep1) = Some (c1, s + int k * ?br, dep1)"
      unfolding fill_layers_def
    proof (rule fill_layers_blocked, intro ballI conjI)
      fix l
      assume l: "l \<in> set [lo + 1..hi]"
      then show "1 \<le> l" "l \<le> int (length enha)" using Suc.prems by auto
      have "?br \<le> enha ! nat (l - 1)" using l Suc.prems by (intro mono) auto
      then have "(of_int (s + int k * ?br + ?br) :: rat) \<le> of_int (s + int k * ?br + enha ! nat (l - 1))"
        by (simp only: of_int_le_iff add_le_cancel_left)
      with blocked show "budget \<le> of_int (s + int k * ?br + enha ! nat (l - 1))" by (rule order_trans)
    qed
    moreover have "filled enha budget lo hi ts s (map (\<lambda>t. (t, lo)) (take k ts)) (s + int k * ?br)"
      unfolding filled_def using r(4,5) lo False blocked
      by (intro exI [of _ "lo - 1"] exI [of _ k]) (simp add: full_layers_def)
    ultimately show ?thesis using unroll r(1-3) by fastforce
  next
    case True
    have "\<exists>c' s' dep' new. fill_layers req enha budget (lo + 1) hi ts (c1, s + int k * ?br, dep1) = Some (c', s', dep') \<and>
        ok c' \<and> logged c' = logged c1 @ new \<and> filled enha budget (lo + 1) hi ts (s + int k * ?br) new s'"
      using Suc.hyps(2) Suc.prems lo r(2) by (intro Suc.hyps(1)) auto
    then obtain c' s' dep' new where q:
        "fill_layers req enha budget (lo + 1) hi ts (c1, s + int k * ?br, dep1) = Some (c', s', dep')"
        "ok c'" "logged c' = logged c1 @ new" "filled enha budget (lo + 1) hi ts (s + int k * ?br) new s'"
      by blast
    have "filled enha budget lo hi ts s (map (\<lambda>t. (t, lo)) ts @ new) s'"
    proof -
      from q(4) obtain m j where f: "new = full_layers (lo + 1) m ts @ map (\<lambda>t. (t, m + 1)) (take j ts)"
        "lo \<le> m" "m \<le> hi" "j \<le> length ts" "j \<noteq> 0 \<longrightarrow> m < hi" "s' = s + int k * ?br + layers_br enha new"
        "new \<noteq> [] \<longrightarrow> of_int s' < budget" "m < hi \<longrightarrow> j < length ts \<and> budget \<le> of_int (s' + enha ! nat m)"
        unfolding filled_def add_diff_cancel_right' by blast
      have "s' = s + layers_br enha (map (\<lambda>t. (t, lo)) ts @ new)" using f(6) True by simp
      moreover have "map (\<lambda>t. (t, lo)) ts @ new \<noteq> [] \<longrightarrow> of_int s' < budget"
        using f(6,7) r(5) True by (cases "new = []"; cases "ts = []") (auto simp: layers_br_def)
      ultimately show ?thesis
        unfolding filled_def using f(1-5,8)
        by (intro exI [of _ m] exI [of _ j]) (simp add: full_layers_rec)
    qed
    moreover have "fill_layers req enha budget lo hi ts (c, s, dep) = Some (c', s', dep')"
      using unroll r(1) q(1) by simp
    ultimately show ?thesis using q(2,3) r(3) True by fastforce
  qed
qed

end

section \<open>The version for the whole viewport\<close>

lemma find_version_bounds: "l \<le> find_version brs base vsize thrp acc l \<and>
    find_version brs base vsize thrp acc l \<le> l + length brs"
proof (induction brs arbitrary: acc l)
  case (Cons br brs)
  from Cons [where acc = "acc + of_int br" and l = "Suc l"] show ?case by auto
qed simp

lemma find_version_fits:
  assumes "k < find_version brs base vsize thrp acc l - l"
  shows "of_int base + (acc + of_int (sum_list (take (Suc k) brs))) * of_int vsize \<le> thrp"
  using assms
proof (induction brs arbitrary: acc l k)
  case (Cons br brs)
  then have fits: "of_int base + (acc + of_int br) * of_int vsize \<le> thrp"
    by (auto split: if_splits)
  show ?case
  proof (cases k)
    case 0
    with fits show ?thesis by simp
  next
    case (Suc j)
    with Cons.prems fits have "j < find_version brs base vsize thrp (acc + of_int br) (Suc l) - Suc l"
      by simp
    from Cons.IH [OF this] Suc show ?thesis by (simp add: add.assoc)
  qed
qed simp

lemma find_version_stops:
  assumes "find_version brs base vsize thrp acc l = l + k" "k < length brs"
  shows "thrp < of_int base + (acc + of_int (sum_list (take (Suc k) brs))) * of_int vsize"
  using assms
proof (induction brs arbitrary: acc l k)
  case (Cons br brs)
  show ?case
  proof (cases "of_int base + (acc + of_int br) * of_int vsize > thrp")
    case True
    with Cons.prems have "k = 0" by simp
    with True show ?thesis by simp
  next
    case False
    with Cons.prems(1) have v: "find_version brs base vsize thrp (acc + of_int br) (Suc l) = l + k" by simp
    with find_version_bounds [where l = "Suc l" and acc = "acc + of_int br" and brs = brs
        and base = base and vsize = vsize and thrp = thrp] obtain j where j: "k = Suc j"
      by (cases k) auto
    with Cons.IH [where acc = "acc + of_int br" and l = "Suc l" and k = j] v Cons.prems(2) show ?thesis by (simp add: add.assoc)
  qed
qed simp

lemma find_version_iff:
  assumes "\<forall>br \<in> set brs. 0 \<le> br" "0 \<le> vsize"
  shows "k \<le> find_version brs base vsize thrp 0 0 \<longleftrightarrow>
    k = 0 \<or> (k \<le> length brs \<and> of_int (base + sum_list (take k brs) * vsize) \<le> thrp)"
proof
  let ?v = "find_version brs base vsize thrp 0 0"
  assume k: "k \<le> ?v"
  show "k = 0 \<or> (k \<le> length brs \<and> of_int (base + sum_list (take k brs) * vsize) \<le> thrp)"
  proof (cases k)
    case (Suc j)
    with k have "j < ?v - 0" by simp
    from find_version_fits [OF this] Suc find_version_bounds [of 0 brs base vsize thrp 0] k
    show ?thesis by simp
  qed simp
next
  let ?v = "find_version brs base vsize thrp 0 0"
  assume k: "k = 0 \<or> (k \<le> length brs \<and> of_int (base + sum_list (take k brs) * vsize) \<le> thrp)"
  show "k \<le> ?v"
  proof (rule ccontr)
    assume "\<not> k \<le> ?v"
    then have less: "?v < k" by simp
    with k have len: "k \<le> length brs" and fits: "of_int (base + sum_list (take k brs) * vsize) \<le> thrp"
      by auto
    have "thrp < of_int base + (0 + of_int (sum_list (take (Suc ?v) brs))) * of_int vsize"
      using less len by (intro find_version_stops [of _ _ _ _ _ 0]) auto
    moreover have "sum_list (take (Suc ?v) brs) \<le> sum_list (take k brs)"
    proof -
      have "take k brs = take (Suc ?v) brs @ take (k - Suc ?v) (drop (Suc ?v) brs)"
        using less by (metis Suc_leI le_add_diff_inverse take_add)
      moreover have "0 \<le> sum_list (take (k - Suc ?v) (drop (Suc ?v) brs))"
        using assms(1) by (intro sum_list_nonneg) (meson in_set_dropD in_set_takeD)
      ultimately show ?thesis by simp
    qed
    then have "base + sum_list (take (Suc ?v) brs) * vsize \<le> base + sum_list (take k brs) * vsize"
      using assms(2) by (simp add: mult_right_mono)
    then have "(of_int (base + sum_list (take (Suc ?v) brs) * vsize) :: rat)
        \<le> of_int (base + sum_list (take k brs) * vsize)"
      by (simp only: of_int_le_iff)
    ultimately show False using fits by simp
  qed
qed

text \<open>
  With bitrates that are not negative, the version the search returns is the largest number of
  enhancement layers whose bitrates, for every tile of the viewport and on top of the base layer,
  stay within the estimated throughput.
\<close>

theorem find_version_greatest:
  assumes "\<forall>br \<in> set brs. 0 \<le> br" "0 \<le> vsize"
  shows "k \<le> find_version brs base vsize thrp 0 0 \<longleftrightarrow>
    k = 0 \<or> (k \<le> length brs \<and> of_int (base + sum_list (take k brs) * vsize) \<le> thrp)"
  using assms by (rule find_version_iff)

theorem find_version_greatest_witness:
  "2 \<le> find_version [100, 150, 200] 1000 4 2000 0 0 \<and> \<not> 3 \<le> find_version [100, 150, 200] 1000 4 2000 0 0"
  using find_version_greatest [of "[100, 150, 200]" 4 2 1000 2000]
    find_version_greatest [of "[100, 150, 200]" 4 3 1000 2000] by simp

end
