(* ===== verification/Tile_Priority.thy ===== *)
theory Tile_Priority
  imports VR_Prelude "HOL-Library.Multiset"
begin

text \<open>
  The order in which the client serves the tiles of a viewport (\<^verbatim>\<open>MMSP\<close> and
  \<^verbatim>\<open>UTD2017_adaptation_vr\<close> of \<^verbatim>\<open>nghttp.cc\<close>): a bubble sort of the tile ids by the number of
  visible pixels, largest first. Tile ids count from 1, the pixel array from 0.

  The loop bound of the code is \<open>pri.size() - 1\<close> on an unsigned type: for an empty viewport it
  wraps around and the first pass reads past the vector, which is \<open>None\<close> here.
\<close>

text \<open>One pass of the inner loop, from the position whose element is the head of the list.\<close>

fun bubble_pass :: "int list \<Rightarrow> int list \<Rightarrow> (int list \<times> bool) option" where
  "bubble_pass tile_pixel [] = Some ([], False)"
| "bubble_pass tile_pixel [x] = Some ([x], False)"
| "bubble_pass tile_pixel (x # y # zs) = do {
     px \<leftarrow> aget tile_pixel (x - 1);
     py \<leftarrow> aget tile_pixel (y - 1);
     if px < py
     then do { (ws, swapped) \<leftarrow> bubble_pass tile_pixel (x # zs); Some (y # ws, True) }
     else do { (ws, swapped) \<leftarrow> bubble_pass tile_pixel (y # zs); Some (x # ws, swapped) }
   }"

text \<open>The measure: the pairs that stand in the wrong order.\<close>

definition pixels :: "int list \<Rightarrow> int \<Rightarrow> int" where
  "pixels tile_pixel t = (case aget tile_pixel (t - 1) of None \<Rightarrow> 0 | Some p \<Rightarrow> p)"

fun inversions :: "('a \<Rightarrow> int) \<Rightarrow> 'a list \<Rightarrow> nat" where
  "inversions f [] = 0"
| "inversions f (x # xs) = length (filter (\<lambda>y. f x < f y) xs) + inversions f xs"

lemma bubble_pass_mset: "bubble_pass px xs = Some (ys, s) \<Longrightarrow> mset ys = mset xs"
  by (induction px xs arbitrary: ys s rule: bubble_pass.induct)
    (auto split: if_splits bind_splits)

lemma length_filter_mset: "mset xs = mset ys \<Longrightarrow> length (filter P xs) = length (filter P ys)"
  by (metis mset_filter size_mset)

lemma bubble_pass_inversions:
  "bubble_pass px xs = Some (ys, s) \<Longrightarrow>
     inversions (pixels px) ys \<le> inversions (pixels px) xs \<and>
     (s \<longrightarrow> inversions (pixels px) ys < inversions (pixels px) xs) \<and> (\<not> s \<longrightarrow> ys = xs)"
proof (induction px xs arbitrary: ys s rule: bubble_pass.induct)
  case (3 px x y zs)
  from 3(3) obtain a b where ab: "aget px (x - 1) = Some a" "aget px (y - 1) = Some b"
    by (auto split: bind_splits)
  then have pix: "pixels px x = a" "pixels px y = b" by (simp_all add: pixels_def)
  show ?case
  proof (cases "a < b")
    case True
    with 3(3) ab obtain ws s' where ws: "bubble_pass px (x # zs) = Some (ws, s')" "ys = y # ws" "s"
      by (auto split: bind_splits)
    have IH: "inversions (pixels px) ws \<le> inversions (pixels px) (x # zs)"
      using 3(1) [OF ab True ws(1)] by blast
    have "length (filter (\<lambda>z. pixels px y < pixels px z) ws)
        = length (filter (\<lambda>z. pixels px y < pixels px z) zs)"
      using length_filter_mset [OF bubble_pass_mset [OF ws(1)]] pix True by simp
    with IH ws True pix show ?thesis by simp
  next
    case False
    with 3(3) ab obtain ws where ws: "bubble_pass px (y # zs) = Some (ws, s)" "ys = x # ws"
      by (auto split: bind_splits)
    note IH = 3(2) [OF ab False ws(1)]
    have "length (filter (\<lambda>z. pixels px x < pixels px z) ws)
        = length (filter (\<lambda>z. pixels px x < pixels px z) (y # zs))"
      by (rule length_filter_mset [OF bubble_pass_mset [OF ws(1)]])
    with IH ws show ?thesis by auto
  qed
qed auto

text \<open>The outer loop: passes until one does not swap.\<close>

function bubble_loop :: "int list \<Rightarrow> int list \<Rightarrow> int list option" where
  "bubble_loop tile_pixel pri = (case bubble_pass tile_pixel pri of
     None \<Rightarrow> None
   | Some (pri', swapped) \<Rightarrow> if swapped then bubble_loop tile_pixel pri' else Some pri')"
  by pat_completeness auto
termination
  by (relation "measure (\<lambda>(px, pri). inversions (pixels px) pri)")
    (auto dest: bubble_pass_inversions)

declare bubble_loop.simps [simp del]

definition sort_priority :: "int list \<Rightarrow> int list \<Rightarrow> int list option" where
  "sort_priority tile_pixel pri = (if pri = [] then None else bubble_loop tile_pixel pri)"

section \<open>Correctness\<close>

text \<open>A pass that does not swap has seen a sorted list; passes keep equal elements in order.\<close>

lemma bubble_pass_sorted:
  "bubble_pass px xs = Some (ys, False) \<Longrightarrow> sorted (map (\<lambda>t. - pixels px t) xs)"
proof (induction px xs arbitrary: ys rule: bubble_pass.induct)
  case (3 px x y zs)
  from 3(3) obtain a b where ab: "aget px (x - 1) = Some a" "aget px (y - 1) = Some b"
    by (auto split: bind_splits)
  have nab: "\<not> a < b" using 3(3) ab by (auto split: bind_splits if_splits)
  with 3(3) ab obtain ws where "bubble_pass px (y # zs) = Some (ws, False)"
    by (auto split: bind_splits)
  from 3(2) [OF ab nab this] show ?case
    using ab nab by (auto simp: pixels_def)
qed auto

lemma bubble_pass_stable:
  "bubble_pass px xs = Some (ys, s) \<Longrightarrow>
     filter (\<lambda>t. pixels px t = k) ys = filter (\<lambda>t. pixels px t = k) xs"
proof (induction px xs arbitrary: ys s rule: bubble_pass.induct)
  case (3 px x y zs)
  from 3(3) obtain a b where ab: "aget px (x - 1) = Some a" "aget px (y - 1) = Some b"
    by (auto split: bind_splits)
  then have pix: "pixels px x = a" "pixels px y = b" by (simp_all add: pixels_def)
  show ?case
  proof (cases "a < b")
    case True
    with 3(3) ab obtain ws s' where "bubble_pass px (x # zs) = Some (ws, s')" "ys = y # ws"
      by (auto split: bind_splits)
    with 3(1) [OF ab True this(1)] True pix show ?thesis by auto
  next
    case False
    with 3(3) ab obtain ws where "bubble_pass px (y # zs) = Some (ws, s)" "ys = x # ws"
      by (auto split: bind_splits)
    with 3(2) [OF ab False this(1)] show ?thesis by auto
  qed
qed auto

definition known_tiles :: "int list \<Rightarrow> int list \<Rightarrow> bool" where
  "known_tiles px pri \<longleftrightarrow> (\<forall>t \<in> set pri. 1 \<le> t \<and> t \<le> int (length px))"

lemma bubble_pass_total: "known_tiles px xs \<Longrightarrow> \<exists>ys s. bubble_pass px xs = Some (ys, s)"
proof (induction px xs rule: bubble_pass.induct)
  case (3 px x y zs)
  then have r: "aget px (x - 1) = Some (px ! nat (x - 1))" "aget px (y - 1) = Some (px ! nat (y - 1))"
    by (simp_all add: known_tiles_def aget_in)
  have "known_tiles px (x # zs)" "known_tiles px (y # zs)" using 3(3) by (simp_all add: known_tiles_def)
  then show ?case
    using 3(1) [OF r] 3(2) [OF r] r by (cases "px ! nat (x - 1) < px ! nat (y - 1)") auto
qed auto

lemma bubble_loop_spec:
  assumes "known_tiles px pri"
  shows "\<exists>ys. bubble_loop px pri = Some ys \<and> mset ys = mset pri \<and>
    sorted (map (\<lambda>t. - pixels px t) ys) \<and>
    (\<forall>k. filter (\<lambda>t. pixels px t = k) ys = filter (\<lambda>t. pixels px t = k) pri)"
  using assms
proof (induction px pri rule: bubble_loop.induct)
  case (1 px pri)
  obtain ys s where pass: "bubble_pass px pri = Some (ys, s)" using bubble_pass_total [OF 1(2)] by blast
  have ms: "mset ys = mset pri" by (rule bubble_pass_mset [OF pass])
  show ?case
  proof (cases s)
    case False
    with pass bubble_pass_inversions [OF pass] bubble_pass_sorted [of px pri ys] show ?thesis
      by (auto simp: bubble_loop.simps [of px pri])
  next
    case True
    have "known_tiles px ys" using 1(2) mset_eq_setD [OF ms] by (simp add: known_tiles_def)
    from 1(1) [OF pass refl True this] True pass ms bubble_pass_stable [OF pass] show ?thesis
      by (auto simp: bubble_loop.simps [of px pri])
  qed
qed

lemma bubble_loop_sort_key:
  assumes "known_tiles px pri"
  shows "bubble_loop px pri = Some (sort_key (\<lambda>t. - pixels px t) pri)"
proof -
  obtain ys where ys: "bubble_loop px pri = Some ys" "mset ys = mset pri"
      "sorted (map (\<lambda>t. - pixels px t) ys)"
      "\<And>k. filter (\<lambda>t. pixels px t = k) ys = filter (\<lambda>t. pixels px t = k) pri"
    using bubble_loop_spec [OF assms] by blast
  have "sort_key (\<lambda>t. - pixels px t) pri = ys"
  proof (rule properties_for_sort_key [OF ys(2) _ ys(3)])
    fix k
    show "filter (\<lambda>t. - pixels px k = - pixels px t) ys = filter (\<lambda>t. - pixels px k = - pixels px t) pri"
      using ys(4) [of "pixels px k"] by (simp add: eq_commute)
  qed
  with ys(1) show ?thesis by simp
qed

lemma sort_priority_set:
  assumes "sort_priority px pri = Some pri'"
  shows "set pri' = set pri"
proof -
  have "mset ys = mset xs" if "bubble_loop px xs = Some ys" for xs ys
    using that
  proof (induction px xs arbitrary: ys rule: bubble_loop.induct)
    case (1 px xs)
    obtain zs s where z: "bubble_pass px xs = Some (zs, s)"
      using 1(2) by (auto simp: bubble_loop.simps [of px xs] split: option.splits)
    with 1 bubble_pass_mset [OF z] show ?case
      by (auto simp: bubble_loop.simps [of px xs] split: if_splits)
  qed
  with assms show ?thesis by (auto simp: sort_priority_def split: if_splits dest: mset_eq_setD)
qed

text \<open>
  C36: For a viewport with at least one tile the bubble sort terminates and computes the stable
  sort of the tiles by decreasing number of visible pixels.
\<close>

theorem sort_priority_stable:
  assumes "known_tiles px pri" "pri \<noteq> []"
  shows "sort_priority px pri = Some (sort_key (\<lambda>t. - pixels px t) pri)"
  using assms by (simp add: sort_priority_def bubble_loop_sort_key)

theorem sort_priority_stable_witness:
  "sort_priority [10, 30, 0, 30] [1, 2, 3, 4] = Some [2, 4, 1, 3]"
  using sort_priority_stable [of "[10, 30, 0, 30]" "[1, 2, 3, 4]"]
  by (simp add: known_tiles_def pixels_def aget_def)

end
