(* ===== verification/Download_Client.thy ===== *)
theory Download_Client
  imports Layer_Fill Tile_Priority
begin

text \<open>
  The state of the download engine of \<^verbatim>\<open>nghttp.cc\<close> (its global variables and the arrays of class
  \<^verbatim>\<open>Metric\<close> in \<^verbatim>\<open>duc_metric.h\<close>) and the request primitive: \<^verbatim>\<open>send_get_request\<close> and the block of
  statements that every adaptation algorithm repeats around it. The three-dimensional arrays are
  partial maps on (segment, face, layer) whose accesses are checked against the dimensions they
  are allocated with; a cell is unassigned until it is stored.

  Whether the HTTP/2 library accepts the request's URI is the field \<open>uri_ok\<close>; the code ignores
  the failure and counts a stream id for it all the same.
\<close>

record Manifest =
  mf_NO_SEG :: int
  mf_SD :: int
  mf_NO_TILE :: int
  mf_NO_FACE :: int
  mf_BASE_BUFF_THRES :: int
  mf_FPS :: int
  mf_base_layer_br :: int
  mf_enha_layer_br :: "int list"
  mf_EL_VER_NUM :: int
  mf_ALG :: int

record StreamInfo =
  si_sid :: int
  si_fid :: int
  si_lid :: int

type_synonym 'a cell3 = "int \<times> int \<times> int \<Rightarrow> 'a option"

record Client =
  cur_req_stream_id :: int
  req_s_num :: int
  fin_s_num :: int
  BL_seg_id :: int
  EL_seg_id :: int
  iter_id :: int
  INI_BUFFERING :: bool
  RE_BUFFERRING :: bool
  LAST_ITER_MASK :: int
  max_layerId :: int
  min_layerId :: int
  cancelled_request_stream :: "int list"
  uri_ok :: bool
  sent :: "(int \<times> int \<times> int \<times> int) list"
  rst_streams :: "int list"
  face_br :: "int cell3"
  face_ini_weight :: "int cell3"
  face_stream_ID :: "int cell3"
  face_late :: "int cell3"
  face_cancel :: "int cell3"
  seg_EL_download :: "bool list"
  RequestStreamInfo :: "int \<Rightarrow> StreamInfo option"
  iter_req_stream :: "int \<Rightarrow> int list"
  iter_req_stream_fin :: "int \<Rightarrow> int list"
  iter_tile_list :: "int \<Rightarrow> int list"
  iter_tile_version :: "int \<Rightarrow> int"
  iter_down_data :: "int \<Rightarrow> rat"
  iter_end :: "int \<Rightarrow> bool"
  ext_width :: "int list"

section \<open>Arrays\<close>

definition in_cells :: "Manifest \<Rightarrow> int \<times> int \<times> int \<Rightarrow> bool" where
  "in_cells m = (\<lambda>(sid, fid, lid). 0 \<le> sid \<and> sid < mf_NO_SEG m \<and> 0 \<le> fid \<and> fid < mf_NO_FACE m \<and>
     0 \<le> lid \<and> lid < mf_EL_VER_NUM m + 1)"

definition set3 :: "Manifest \<Rightarrow> 'a cell3 \<Rightarrow> int \<times> int \<times> int \<Rightarrow> 'a \<Rightarrow> 'a cell3 option" where
  "set3 m a i v = (if in_cells m i then Some (a(i := Some v)) else None)"

definition in_iters :: "Manifest \<Rightarrow> int \<Rightarrow> bool" where
  "in_iters m it \<longleftrightarrow> 0 \<le> it \<and> it < 5 * mf_NO_SEG m"

definition push_iter :: "Manifest \<Rightarrow> (int \<Rightarrow> 'a list) \<Rightarrow> int \<Rightarrow> 'a \<Rightarrow> (int \<Rightarrow> 'a list) option" where
  "push_iter m a it x = (if in_iters m it then Some (a(it := a it @ [x])) else None)"

section \<open>Requests\<close>

text \<open>The submitted request is logged as (face, bitrate, dependency, weight).\<close>

definition send_get_request :: "int \<Rightarrow> int \<Rightarrow> int \<Rightarrow> int \<Rightarrow> Client \<Rightarrow> Client \<times> int" where
  "send_get_request fid br dep w c =
     (let c = (if uri_ok c then c\<lparr>sent := sent c @ [(fid, br, dep, w)]\<rparr> else c);
          c = c\<lparr>cur_req_stream_id := cur_req_stream_id c + 2\<rparr>
      in (c, cur_req_stream_id c))"

text \<open>\<open>std::map::insert\<close> keeps an existing entry.\<close>

definition map_insert :: "('k \<Rightarrow> 'v option) \<Rightarrow> 'k \<Rightarrow> 'v \<Rightarrow> 'k \<Rightarrow> 'v option" where
  "map_insert m k v = (if m k = None then m(k := Some v) else m)"

definition request_layer ::
  "Manifest \<Rightarrow> int \<Rightarrow> int \<Rightarrow> int \<Rightarrow> int \<Rightarrow> int \<Rightarrow> int \<Rightarrow> int \<Rightarrow> Client \<Rightarrow> (Client \<times> int) option" where
  "request_layer m it sid w fid layerId br dep c = do {
     fb \<leftarrow> set3 m (face_br c) (sid, fid, layerId) br;
     fw \<leftarrow> set3 m (face_ini_weight c) (sid, fid, layerId) w;
     let (c, stream_id) = send_get_request fid br dep w (c\<lparr>face_br := fb, face_ini_weight := fw\<rparr>);
     fs \<leftarrow> set3 m (face_stream_ID c) (sid, fid, layerId) stream_id;
     irs \<leftarrow> push_iter m (iter_req_stream c) it stream_id;
     Some (c\<lparr>face_stream_ID := fs, iter_req_stream := irs,
             RequestStreamInfo := map_insert (RequestStreamInfo c) stream_id
               \<lparr>si_sid = sid, si_fid = fid, si_lid = layerId\<rparr>,
             req_s_num := req_s_num c + 1\<rparr>, stream_id)
   }"

text \<open>
  The invariant of the bookkeeping: every stream id that is known or listed is one that has been
  handed out, so the next one is fresh, and every listed stream is known.
\<close>

definition streams_inv :: "Client \<Rightarrow> bool" where
  "streams_inv c \<longleftrightarrow>
     (\<forall>i. RequestStreamInfo c i \<noteq> None \<longrightarrow> i \<le> cur_req_stream_id c) \<and>
     (\<forall>it. \<forall>i \<in> set (iter_req_stream c it). RequestStreamInfo c i \<noteq> None)"

definition requests_of :: "Client \<Rightarrow> int \<Rightarrow> StreamInfo list" where
  "requests_of c it = map (\<lambda>i. the (RequestStreamInfo c i)) (iter_req_stream c it)"

abbreviation stream_info :: "int \<Rightarrow> int \<Rightarrow> int \<Rightarrow> StreamInfo" where
  "stream_info s f l \<equiv> \<lparr>si_sid = s, si_fid = f, si_lid = l\<rparr>"

text \<open>
  A request inside the arrays succeeds, is known under a fresh stream id, two more than the last
  one, and is listed last in its iteration; no other entry changes.
\<close>

lemma request_layer_ok:
  assumes "streams_inv c" "in_cells m (sid, fid, lid)" "in_iters m it"
  shows "\<exists>c'. request_layer m it sid w fid lid br dep c = Some (c', cur_req_stream_id c + 2) \<and>
    streams_inv c' \<and> cur_req_stream_id c' = cur_req_stream_id c + 2 \<and>
    RequestStreamInfo c' = (RequestStreamInfo c)(cur_req_stream_id c + 2 \<mapsto> stream_info sid fid lid) \<and>
    iter_req_stream c' = (iter_req_stream c)(it := iter_req_stream c it @ [cur_req_stream_id c + 2]) \<and>
    requests_of c' it = requests_of c it @ [stream_info sid fid lid] \<and>
    req_s_num c' = req_s_num c + 1 \<and> fin_s_num c' = fin_s_num c"
proof -
  let ?i = "cur_req_stream_id c + 2"
  have fresh: "RequestStreamInfo c ?i = None"
    using assms(1) by (force simp: streams_inv_def)
  have old: "?i \<notin> set (iter_req_stream c x)" for x
    using assms(1) fresh by (force simp: streams_inv_def)
  obtain c' where run: "request_layer m it sid w fid lid br dep c = Some (c', ?i)"
    and f: "cur_req_stream_id c' = ?i" "req_s_num c' = req_s_num c + 1" "fin_s_num c' = fin_s_num c"
      "RequestStreamInfo c' = (RequestStreamInfo c)(?i \<mapsto> stream_info sid fid lid)"
      "iter_req_stream c' = (iter_req_stream c)(it := iter_req_stream c it @ [?i])"
    using assms(2,3) fresh
    by (simp add: request_layer_def set3_def push_iter_def send_get_request_def map_insert_def Let_def)
  have "streams_inv c'"
    using assms(1) by (force simp: streams_inv_def f)
  moreover have "requests_of c' it = requests_of c it @ [stream_info sid fid lid]"
    using old [of it] by (auto simp: requests_of_def f)
  ultimately show ?thesis using run f by blast
qed

section \<open>The engine provides the sink of the layer allocation\<close>

text \<open>
  For one iteration and one segment: the log are the (tile, layer) pairs requested in the
  iteration. The sink keeps the stream bookkeeping, counts the requests in \<open>req_s_num\<close>, and
  leaves the rest of the engine's state alone.
\<close>

definition tile_layers :: "Client \<Rightarrow> int \<Rightarrow> (int \<times> int) list" where
  "tile_layers c it = map (\<lambda>s. (si_fid s, si_lid s)) (requests_of c it)"

definition engine_rest where
  "engine_rest c = (fin_s_num c, BL_seg_id c, EL_seg_id c, iter_id c, INI_BUFFERING c, RE_BUFFERRING c,
     LAST_ITER_MASK c, cancelled_request_stream c, seg_EL_download c, iter_tile_list c,
     iter_req_stream_fin c, iter_end c, max_layerId c, min_layerId c, ext_width c)"

definition engine_ok where
  "engine_ok it d r c \<longleftrightarrow> streams_inv c \<and>
     req_s_num c = d + int (length (tile_layers c it)) \<and> engine_rest c = r"

lemma request_layer_rest:
  "request_layer m it sid w fid l br dep c = Some (c', i) \<Longrightarrow> engine_rest c' = engine_rest c"
  by (cases "uri_ok c")
    (auto simp: request_layer_def engine_rest_def send_get_request_def Let_def split: bind_splits)

interpretation engine: request_sink "engine_ok it d r" "\<lambda>c. tile_layers c it"
  "\<lambda>t l. in_cells m (sid, t, l) \<and> in_iters m it" "\<lambda>t l br dep c. request_layer m it sid w t l br dep c"
  for it d r m sid w
proof (unfold_locales, goal_cases)
  case (1 c t l br dep)
  then have "streams_inv c" "in_cells m (sid, t, l)" "in_iters m it" by (simp_all add: engine_ok_def)
  from request_layer_ok [OF this, of w br dep] obtain c' where
      c': "request_layer m it sid w t l br dep c = Some (c', cur_req_stream_id c + 2)"
      "streams_inv c'" "requests_of c' it = requests_of c it @ [stream_info sid t l]"
      "req_s_num c' = req_s_num c + 1"
    by blast
  with request_layer_rest [OF c'(1)] 1 show ?case by (auto simp: engine_ok_def tile_layers_def)
qed

end
