(* ===== verification/Exhaustive_Alloc.thy ===== *)
theory Exhaustive_Alloc
  imports Complex_Main VR_Prelude
begin

text \<open>
  Algorithm 4 of \<^verbatim>\<open>UTD2017_adaptation_vr\<close> (and of \<^verbatim>\<open>MMSP\<close>) in \<^verbatim>\<open>nghttp.cc\<close>: ten nested loops over the
  layers 0, 1, 2 of up to ten viewport tiles. The ten levels are the same code at increasing
  depth, so they are one recursion here: \<open>alg4 d ys prefix sum sel\<close> is the loop of the level at
  which \<open>d\<close> levels are left, about to try the layers \<open>ys\<close>, after \<open>prefix\<close> was chosen at the
  outer levels at the cost \<open>sum\<close>. A \<open>break\<close> ends the level. \<open>sel\<close> is \<open>selected_tile_layer\<close>,
  \<open>None\<close> until it is assigned.

  The quality the loops compute next to the assignment (\<open>vp_psnr\<close>, \<open>max_vp_psnr\<close>) is read by
  nothing but its own update; its array reads are kept, its value is not.
\<close>

definition layer_cost :: "int list \<Rightarrow> int \<Rightarrow> int option" where
  "layer_cost enha y = map_option sum_list (those (map (\<lambda>i. aget enha (i - 1)) [1..y]))"

text \<open>\<open>limit\<close> is \<open>est_thrp * budget / (SD * 1000)\<close>.\<close>

fun alg4 :: "int list \<Rightarrow> int \<Rightarrow> rat \<Rightarrow> int list \<Rightarrow> int list \<Rightarrow> nat \<Rightarrow> int list \<Rightarrow> int list \<Rightarrow> int
    \<Rightarrow> int list option \<Rightarrow> int list option option" where
  "alg4 enha base limit px vt 0 ys prefix s sel = Some sel"
| "alg4 enha base limit px vt (Suc d) [] prefix s sel = Some sel"
| "alg4 enha base limit px vt (Suc d) (y # ys) prefix s sel =
     (if length prefix + 1 > length vt then Some sel
      else case layer_cost enha y of
        None \<Rightarrow> None
      | Some cost \<Rightarrow>
          if of_int (s + cost + base) > limit then Some sel
          else do {
            sel \<leftarrow> (if length prefix + 1 = length vt
                  then do {
                    _ \<leftarrow> those (map (\<lambda>t. aget px (t - 1)) vt);
                    Some (Some (prefix @ [y]))
                  }
                  else Some sel);
            sel \<leftarrow> alg4 enha base limit px vt d [0, 1, 2] (prefix @ [y]) (s + cost) sel;
            alg4 enha base limit px vt (Suc d) ys prefix s sel
          })"

definition exhaustive_layers :: "int list \<Rightarrow> int \<Rightarrow> rat \<Rightarrow> int list \<Rightarrow> int list \<Rightarrow> int list option option" where
  "exhaustive_layers enha base limit px vt = alg4 enha base limit px vt 10 [0, 1, 2] [] 0 None"

section \<open>What the search returns\<close>

text \<open>
  The reference: tile by tile, the highest of the three layers that still fits, the remaining
  tiles counted with layer 0, which costs nothing.
\<close>

fun greedy_layers :: "int \<Rightarrow> int \<Rightarrow> int \<Rightarrow> rat \<Rightarrow> int \<Rightarrow> nat \<Rightarrow> int list" where
  "greedy_layers b1 b2 base limit s 0 = []"
| "greedy_layers b1 b2 base limit s (Suc n) =
     (let (y, c) = (if of_int (s + b1 + base) > limit then (0, 0)
                    else if of_int (s + (b1 + b2) + base) > limit then (1, b1) else (2, b1 + b2))
      in y # greedy_layers b1 b2 base limit (s + c) n)"

lemma layer_costs:
  "layer_cost (b1 # b2 # bs) 0 = Some 0" "layer_cost (b1 # b2 # bs) 1 = Some b1"
  "layer_cost (b1 # b2 # bs) 2 = Some (b1 + b2)"
  by (simp_all add: layer_cost_def aget_def upto.simps)

lemma alg4_greedy:
  assumes "those (map (\<lambda>t. aget px (t - 1)) vt) \<noteq> None"
    and "length vt - length prefix \<le> d" "length prefix < length vt" "of_int (s + base) \<le> limit"
  shows "alg4 (b1 # b2 # bs) base limit px vt d [0, 1, 2] prefix s sel =
    Some (Some (prefix @ greedy_layers b1 b2 base limit s (length vt - length prefix)))"
  using assms(2-)
proof (induction d arbitrary: prefix s sel)
  case 0
  then show ?case by simp
next
  case (Suc d)
  let ?A = "alg4 (b1 # b2 # bs) base limit px vt"
  obtain ps where ps: "those (map (\<lambda>t. aget px (t - 1)) vt) = Some ps" using assms(1) by blast
  let ?n = "length vt - length prefix"
  obtain k where k: "?n = Suc k" using Suc.prems(2) by (cases ?n) auto
  define rest where "rest y c = prefix @ [y] @ greedy_layers b1 b2 base limit (s + c) k" for y c
  have level: "?A (Suc d) (y # ys) prefix s sel = ?A (Suc d) ys prefix s (Some (rest y c))"
    if c: "layer_cost (b1 # b2 # bs) y = Some c" "of_int (s + c + base) \<le> limit" for y c ys sel
  proof (cases "length prefix + 1 = length vt")
    case True
    then have "k = 0" using k by simp
    moreover have "?A d [0, 1, 2] (prefix @ [y]) (s + c) sel' = Some sel'" for sel'
      using True by (cases d) simp_all
    ultimately show ?thesis using True c ps by (simp add: rest_def)
  next
    case False
    then have "?A d [0, 1, 2] (prefix @ [y]) (s + c) sel =
        Some (Some ((prefix @ [y]) @ greedy_layers b1 b2 base limit (s + c) (length vt - length (prefix @ [y]))))"
      using Suc.prems c(2) by (intro Suc.IH) auto
    moreover have "length vt - length (prefix @ [y]) = k" using k by simp
    ultimately show ?thesis using False Suc.prems(2) c by (simp add: rest_def)
  qed
  have stop: "?A (Suc d) (y # ys) prefix s sel = Some sel"
    if "layer_cost (b1 # b2 # bs) y = Some c" "\<not> of_int (s + c + base) \<le> limit" for y c ys sel
    using that Suc.prems(2) by simp
  note costs = layer_costs [of b1 b2 bs]
  have zero: "?A (Suc d) [0, 1, 2] prefix s sel = ?A (Suc d) [1, 2] prefix s (Some (rest 0 0))"
    using level [OF costs(1)] Suc.prems(3) by simp
  show ?case
  proof (cases "of_int (s + b1 + base) \<le> limit")
    case False
    then have "?A (Suc d) [1, 2] prefix s (Some (rest 0 0)) = Some (Some (rest 0 0))"
      by (rule stop [OF costs(2)])
    with zero False k show ?thesis by (simp add: rest_def)
  next
    case one: True
    have "?A (Suc d) [1, 2] prefix s (Some (rest 0 0)) = ?A (Suc d) [2] prefix s (Some (rest 1 b1))"
      by (rule level [OF costs(2) one])
    moreover have "?A (Suc d) [2] prefix s (Some (rest 1 b1)) =
        Some (Some (if of_int (s + (b1 + b2) + base) \<le> limit then rest 2 (b1 + b2) else rest 1 b1))"
    proof (cases "of_int (s + (b1 + b2) + base) \<le> limit")
      case True
      from level [OF costs(3) this, of "[]"] True show ?thesis by simp
    next
      case False
      from stop [OF costs(3) this, of "[]"] False show ?thesis by simp
    qed
    ultimately show ?thesis using zero one k by (auto simp: rest_def not_le)
  qed
qed

text \<open>
  C39: The exhaustive search does not optimise: for one to ten viewport tiles, when the base layer
  fits, its result is the greedy assignment, which gives the first tiles of the viewport list the
  highest layers whatever their number of visible pixels.
\<close>

theorem exhaustive_layers_greedy:
  assumes "those (map (\<lambda>t. aget px (t - 1)) vt) \<noteq> None"
    and "1 \<le> length vt" "length vt \<le> 10" "of_int base \<le> limit"
  shows "exhaustive_layers (b1 # b2 # bs) base limit px vt =
    Some (Some (greedy_layers b1 b2 base limit 0 (length vt)))"
proof -
  have "vt \<noteq> []" using assms(2) by auto
  then show ?thesis
    using alg4_greedy [of px vt "[]" 10 0 base limit b1 b2 bs None] assms
    by (simp add: exhaustive_layers_def)
qed

theorem exhaustive_layers_greedy_witness:
  "exhaustive_layers [100, 100] 0 200 [1, 900] [1, 2] = Some (Some [2, 0])"
  using exhaustive_layers_greedy [where px = "[1, 900]" and vt = "[1, 2]" and ?b1.0 = 100
      and ?b2.0 = 100 and base = 0 and limit = 200 and bs = "[]"]
  by (simp add: aget_def numeral_2_eq_2)

text \<open>The quality the loops compute for an assignment, up to the constant \<open>VIEWPORT_SIZE\<close>.\<close>

definition vp_psnr :: "int list \<Rightarrow> int list \<Rightarrow> int list \<Rightarrow> int" where
  "vp_psnr px vt ys = sum_list (map (\<lambda>(t, y). [125, 325, 725] ! nat y * px ! nat (t - 1)) (zip vt ys))"

text \<open>
  The assignment the search returns need not be the best one it visited: two tiles of which
  the second covers nearly the whole viewport get layers 2 and 0, although layers 0 and 2 fit
  the same limit and have a higher quality.
\<close>

theorem exhaustive_layers_not_optimal:
  "exhaustive_layers [100, 100] 0 200 [1, 900] [1, 2] = Some (Some [2, 0]) \<and>
   layer_cost [100, 100] 0 = Some 0 \<and> layer_cost [100, 100] 2 = Some 200 \<and>
   vp_psnr [1, 900] [1, 2] [2, 0] < vp_psnr [1, 900] [1, 2] [0, 2]"
  by code_simp

lemma alg4_too_deep:
  assumes "length prefix + d < length vt"
  shows "alg4 (b1 # b2 # bs) base limit px vt d ys prefix s sel = Some sel \<or>
    \<not> set ys \<subseteq> {0, 1, 2}"
  using assms
proof (induction "b1 # b2 # bs" base limit px vt d ys prefix s sel rule: alg4.induct)
  case (3 base limit px vt d y ys prefix s sel)
  show ?case
  proof (cases "set (y # ys) \<subseteq> {0, 1, 2}")
    case True
    then obtain c where c: "layer_cost (b1 # b2 # bs) y = Some c"
      using layer_costs [of b1 b2 bs] by auto
    then show ?thesis
      using 3 True by (cases "of_int (s + c + base) > limit") auto
  qed auto
qed auto

text \<open>
  With more than ten viewport tiles, or when not even the base layer fits, the search assigns
  nothing: the caller then reads the unassigned array of selected layers.
\<close>

theorem exhaustive_layers_unassigned:
  assumes "10 < length vt \<or> (1 \<le> length vt \<and> limit < of_int base)"
  shows "exhaustive_layers (b1 # b2 # bs) base limit px vt = Some None"
proof (cases "10 < length vt")
  case True
  with alg4_too_deep [of "[]" 10 vt b1 b2 bs base limit px "[0, 1, 2]" 0 None] show ?thesis
    by (simp add: exhaustive_layers_def)
next
  case False
  with assms show ?thesis
    using layer_costs [of b1 b2 bs] by (simp add: exhaustive_layers_def eval_nat_numeral)
qed

theorem exhaustive_layers_unassigned_witness:
  "exhaustive_layers [100, 100] 500 200 [1, 900] [1, 2] = Some None"
  using exhaustive_layers_unassigned [of "[1, 2]" 200 500 100 100 "[]" "[1, 900]"] by simp

end
