(* ===== verification/Adaptation.thy ===== *)
theory Adaptation
  imports Download_Client Exhaustive_Alloc
begin

text \<open>
  The decision engines \<^verbatim>\<open>MMSP\<close> and \<^verbatim>\<open>UTD2017_adaptation_vr\<close> of \<^verbatim>\<open>nghttp.cc\<close>. A call decides one
  download round: it requests the base layer of the next segment, or enhancement layers for
  the tiles of the predicted viewport, or waits and decides again.

  What a decision reads from the player and from the throughput estimator is its argument, a
  \<open>Sense\<close>: the buffer level in seconds, the segment playing, the time left until the deadline of
  the segment to enhance, the predicted viewport (tile ids from 1) and its visible pixels, the
  tiles around it per extension width, the recorded viewport errors, the estimated throughput
  and the smoothed bitrate. The two estimators that compute the last two are modelled with the close
  callback (theory \<open>Stream_Close\<close>); the smoothed bitrate of iteration 0 is read from before its array,
  so what is proved for that iteration holds for any value of it.

  The engines are modelled up to console output: no print is a step of \<open>MMSP\<close> or
  \<open>UTD2017_adaptation_vr\<close>, and \<open>Some\<close> says nothing of the reads that only a print makes. One of these
  reads can leave its array: \<open>print_pixels\<close> below is the loop, and \<open>print_pixels_iff\<close> says when it stays
  inside. The call that limits the concurrent streams and the start times written for the log are
  left out too.
\<close>

record Sense =
  buff_sec :: rat
  playing :: int
  time_budget :: rat
  viewport :: "int list"
  tile_pixel :: "int list"
  adjacent :: "int \<Rightarrow> int list option"
  frame_vp_err :: "rat option list"
  seg_vp_err :: "rat list"
  seg_smooth_vp_err :: "rat list"
  est_thrp :: rat
  smooth_bitrate :: rat

text \<open>
  The loop that prints 25 pixel counts before a decision by priority, whatever the number of tiles. It
  is inside the array only for a video of at least 25 tiles; the configurations of the repository have 24.
\<close>

definition print_pixels :: "Sense \<Rightarrow> int list option" where
  "print_pixels s = those (map (aget (tile_pixel s)) [0..24])"

lemma those_map_None: "those (map f xs) = None \<longleftrightarrow> (\<exists>x \<in> set xs. f x = None)"
  by (induction xs) (auto split: option.splits)

lemma print_pixels_iff: "print_pixels s \<noteq> None \<longleftrightarrow> 25 \<le> length (tile_pixel s)"
proof -
  have "print_pixels s = None \<longleftrightarrow> (\<exists>t \<in> {0..24 :: int}. int (length (tile_pixel s)) \<le> t)"
    by (auto simp: print_pixels_def those_map_None aget_def)
  then show ?thesis by (auto intro: bexI [of _ 24])
qed

text \<open>How a call ends: requests are under way, nothing more will be requested, decide again.\<close>

datatype Decision = Requested | Finished | Wait

section \<open>Buffering mode and base layer\<close>

definition alpha :: rat where "alpha = 9 / 10"

definition reset_round :: "Client \<Rightarrow> Client" where
  "reset_round c = c\<lparr>cancelled_request_stream := [], req_s_num := 0\<rparr>"

text \<open>The three conditionals that move between initial buffering, steady state and re-buffering.\<close>

definition buffering_mode :: "Manifest \<Rightarrow> rat \<Rightarrow> Client \<Rightarrow> Client" where
  "buffering_mode m b c =
     (let c = (if b \<ge> of_int (mf_BASE_BUFF_THRES m) \<and> INI_BUFFERING c
               then c\<lparr>INI_BUFFERING := False\<rparr> else c);
          c = (if b < of_int (mf_BASE_BUFF_THRES m sdiv 2) \<and> \<not> RE_BUFFERRING c \<and> \<not> INI_BUFFERING c
               then c\<lparr>RE_BUFFERRING := True\<rparr> else c)
      in (if b \<ge> of_int (mf_BASE_BUFF_THRES m) \<and> \<not> INI_BUFFERING c \<and> RE_BUFFERRING c
          then c\<lparr>RE_BUFFERRING := False\<rparr> else c))"

definition wants_base_MMSP :: "Manifest \<Rightarrow> rat \<Rightarrow> Client \<Rightarrow> bool" where
  "wants_base_MMSP m b c \<longleftrightarrow>
     (INI_BUFFERING c \<and> b < of_int (mf_BASE_BUFF_THRES m * 15)) \<or>
     (\<not> INI_BUFFERING c \<and> \<not> RE_BUFFERRING c \<and> b < of_int (mf_BASE_BUFF_THRES m * 15) \<and>
        LAST_ITER_MASK c = 1) \<or>
     (\<not> INI_BUFFERING c \<and> RE_BUFFERRING c)"

definition wants_base_UTD :: "Manifest \<Rightarrow> rat \<Rightarrow> bool" where
  "wants_base_UTD m b \<longleftrightarrow> b < of_int (mf_BASE_BUFF_THRES m - 1)"

definition set_tile_version :: "Manifest \<Rightarrow> int \<Rightarrow> int \<Rightarrow> Client \<Rightarrow> Client option" where
  "set_tile_version m it l c =
     (if in_iters m it then Some (c\<lparr>iter_tile_version := (iter_tile_version c)(it := l)\<rparr>) else None)"

definition request_base :: "Manifest \<Rightarrow> int \<Rightarrow> Client \<Rightarrow> Client option" where
  "request_base m it c = do {
     c \<leftarrow> set_tile_version m it 0 c;
     (c, stream_id) \<leftarrow> request_layer m it (BL_seg_id c) 20 0 0 (mf_base_layer_br m) 0 c;
     Some (c\<lparr>req_s_num := 1, fin_s_num := 0\<rparr>)
   }"

section \<open>Enhancement layers\<close>

definition note_tile :: "Manifest \<Rightarrow> int \<Rightarrow> int \<Rightarrow> Client \<Rightarrow> Client option" where
  "note_tile m it t c = do {
     tl \<leftarrow> push_iter m (iter_tile_list c) it t;
     Some (c\<lparr>iter_tile_list := tl\<rparr>)
   }"

definition el_request :: "Manifest \<Rightarrow> int \<Rightarrow> int \<Rightarrow> int \<Rightarrow> int \<Rightarrow> int \<Rightarrow> Client \<Rightarrow> (Client \<times> int) option" where
  "el_request m it t l br dep c = request_layer m it (EL_seg_id c) 20 t l br dep c"

text \<open>With the segment to enhance fixed, these requests are a sink for the layer allocation.\<close>

interpretation el: request_sink "\<lambda>c. engine_ok it d r c \<and> EL_seg_id c = sid" "\<lambda>c. tile_layers c it"
  "\<lambda>t l. in_cells m (sid, t, l) \<and> in_iters m it" "\<lambda>t l br dep c. el_request m it t l br dep c"
  for it d r m sid
proof (unfold_locales, goal_cases)
  case (1 c t l br dep)
  then obtain c' i where "request_layer m it sid 20 t l br dep c = Some (c', i)" "engine_ok it d r c'"
      "tile_layers c' it = tile_layers c it @ [(t, l)]"
    using engine.req_ok [of it d r c m sid t l 20 br dep] by blast
  with 1 show ?case
    by (auto simp: el_request_def engine_ok_def engine_rest_def)
qed

text \<open>Algorithms 1 and 2: one version for all tiles, tile by tile, each request chained to the last.\<close>

definition request_version :: "Manifest \<Rightarrow> int \<Rightarrow> Sense \<Rightarrow> Client \<Rightarrow> Client option" where
  "request_version m it s c =
     (let brs = take (nat (mf_EL_VER_NUM m)) (mf_enha_layer_br m);
          l = find_version brs (mf_base_layer_br m) (int (length (viewport s))) (est_thrp s) 0 0
      in if l = length brs \<and> int (length brs) < mf_EL_VER_NUM m then None
         else if l > 0
         then do {
           c \<leftarrow> set_tile_version m it (int l) c;
           (c, dep) \<leftarrow> for_each (\<lambda>(t, layerId) (c, dep). do {
                br \<leftarrow> aget (mf_enha_layer_br m) (layerId - 1);
                (c, stream_id) \<leftarrow> el_request m it t layerId br dep c;
                c \<leftarrow> note_tile m it t c;
                Some (c, stream_id)
              }) (List.product (viewport s) [1..int l]) (c, 0);
           Some (c\<lparr>fin_s_num := 0\<rparr>)
         }
         else Some c)"

text \<open>Algorithm 4: the exhaustive search, then layer 1 and layer 2 of the tiles it selected.\<close>

definition request_exhaustive :: "Manifest \<Rightarrow> int \<Rightarrow> Sense \<Rightarrow> Client \<Rightarrow> Client option" where
  "request_exhaustive m it s c =
     (if mf_SD m = 0 then None else do {
        sel \<leftarrow> exhaustive_layers (mf_enha_layer_br m) (mf_base_layer_br m)
          (est_thrp s * time_budget s / of_int (mf_SD m * 1000)) (tile_pixel s) (viewport s);
        c \<leftarrow> for_each (\<lambda>(layerId, i) c. do {
               layers \<leftarrow> sel;
               y \<leftarrow> aget layers i;
               t \<leftarrow> aget (viewport s) i;
               if y \<ge> layerId
               then do {
                 br \<leftarrow> aget (mf_enha_layer_br m) (layerId - 1);
                 (c, stream_id) \<leftarrow> el_request m it t layerId br 0 c;
                 note_tile m it t c
               }
               else Some c
             }) (List.product [1, 2] [0..int (length (viewport s)) - 1]) c;
        Some (c\<lparr>fin_s_num := 0\<rparr>)
      })"

text \<open>The mean viewport error of the last \<open>k\<close> frames before the segment playing.\<close>

definition mean_vp_err :: "Manifest \<Rightarrow> int \<Rightarrow> Sense \<Rightarrow> rat option" where
  "mean_vp_err m k s =
     (if k \<le> 0 then None else do {
        vs \<leftarrow> those (map (\<lambda>i. do { v \<leftarrow> aget (frame_vp_err s) (playing s * mf_FPS m - i); v }) [1..k]);
        Some (sum_list vs / of_int k)
      })"

type_synonym fill = "Client \<times> int \<times> int"

text \<open>Algorithms 6, 8, 11: layer 1 of the tiles around the viewport, as far as the error suggests.\<close>

definition fill_adjacent :: "Manifest \<Rightarrow> int \<Rightarrow> rat \<Rightarrow> rat \<Rightarrow> Sense \<Rightarrow> fill \<Rightarrow> fill option" where
  "fill_adjacent m it budget last_diff s st =
     (if last_diff > 5
      then do {
        adj \<leftarrow> adjacent s (if last_diff > 25 then 3 else if last_diff > 12 then 2 else 1);
        fill_layers (el_request m it) (mf_enha_layer_br m) budget 1 1 adj st
      }
      else Some st)"

definition set_ext_width :: "int \<Rightarrow> int \<Rightarrow> Client \<Rightarrow> Client option" where
  "set_ext_width k w c = do { xs \<leftarrow> aset (ext_width c) k w; Some (c\<lparr>ext_width := xs\<rparr>) }"

text \<open>\<open>&&\<close> and \<open>||\<close> read their right operand only when needed.\<close>

definition err_above :: "rat list \<Rightarrow> int \<Rightarrow> bool option" where
  "err_above xs k = do { v \<leftarrow> aget xs k; Some (v > 20) }"

fun all_above :: "rat list \<Rightarrow> int list \<Rightarrow> bool option" where
  "all_above xs [] = Some True"
| "all_above xs (k # ks) = do { b \<leftarrow> err_above xs k; if b then all_above xs ks else Some False }"

definition recent_errors :: "Sense \<Rightarrow> bool option" where
  "recent_errors s = do {
     b \<leftarrow> err_above (seg_vp_err s) (playing s - 1);
     if b then Some True else err_above (seg_vp_err s) (playing s - 2)
   }"

text \<open>The bounds of algorithms 9, 10 and 13 and their update after a tracked fill.\<close>

definition clamp_layers :: "Manifest \<Rightarrow> Client \<Rightarrow> Client" where
  "clamp_layers m c =
     (let c = (if max_layerId c > mf_EL_VER_NUM m then c\<lparr>max_layerId := mf_EL_VER_NUM m\<rparr> else c)
      in (if min_layerId c < 1 then c\<lparr>min_layerId := 1\<rparr> else c))"

definition fill_tracked ::
  "Manifest \<Rightarrow> int \<Rightarrow> rat \<Rightarrow> int list \<Rightarrow> (int \<times> int) option \<Rightarrow> fill \<Rightarrow> fill option" where
  "fill_tracked m it budget tiles temps = (\<lambda>(c, sum_tile_br, dep). do {
     ((c, sum_tile_br, dep), mx, mn) \<leftarrow> fill_layers_track (el_request m it) (mf_enha_layer_br m) budget
        (min_layerId c) (max_layerId c) tiles
        ((c, sum_tile_br, dep), map_option fst temps, map_option snd temps);
     max_temp \<leftarrow> mx;
     min_temp \<leftarrow> mn;
     Some (c\<lparr>max_layerId := max_temp + 1, min_layerId := min_temp - 1\<rparr>, sum_tile_br, dep)
   })"

definition fill_alg7 :: "Manifest \<Rightarrow> int \<Rightarrow> rat \<Rightarrow> int list \<Rightarrow> Sense \<Rightarrow> fill \<Rightarrow> fill option" where
  "fill_alg7 m it budget pri s = (\<lambda>(c, sum_tile_br, dep). do {
     last_diff \<leftarrow> mean_vp_err m (mf_FPS m) s;
     widen \<leftarrow> (if playing s > 6 then recent_errors s else Some False);
     adj \<leftarrow> (if widen then adjacent s 1 else Some []);
     c \<leftarrow> (if widen then set_ext_width (playing s) 1 c else Some c);
     fill_layers (el_request m it) (mf_enha_layer_br m) budget 1 (mf_EL_VER_NUM m) (pri @ adj)
       (c, sum_tile_br, dep)
   })"

definition fill_alg10 :: "Manifest \<Rightarrow> int \<Rightarrow> rat \<Rightarrow> int list \<Rightarrow> Sense \<Rightarrow> fill \<Rightarrow> fill option" where
  "fill_alg10 m it budget pri s = (\<lambda>(c, sum_tile_br, dep). do {
     last_diff \<leftarrow> mean_vp_err m (mf_FPS m) s;
     widen \<leftarrow> (if playing s > 6 then recent_errors s else Some False);
     adj \<leftarrow> (if widen then adjacent s 1 else Some []);
     let c = clamp_layers m c;
     fill_tracked m it budget (pri @ adj) (Some (min_layerId c, max_layerId c)) (c, sum_tile_br, dep)
   })"

definition fill_alg12 :: "Manifest \<Rightarrow> int \<Rightarrow> rat \<Rightarrow> int list \<Rightarrow> Sense \<Rightarrow> fill \<Rightarrow> fill option" where
  "fill_alg12 m it budget pri s = (\<lambda>(c, sum_tile_br, dep). do {
     last_diff \<leftarrow> mean_vp_err m (mf_FPS m) s;
     widen \<leftarrow> (if playing s > 6 then err_above (seg_smooth_vp_err s) (playing s - 1) else Some False);
     c \<leftarrow> set_ext_width (playing s) (if widen then 1 else 0) c;
     adj \<leftarrow> (if widen then adjacent s 1 else Some []);
     fill_layers (el_request m it) (mf_enha_layer_br m) budget 1 (mf_EL_VER_NUM m) (pri @ adj)
       (c, sum_tile_br, dep)
   })"

text \<open>In algorithm 13 the branch that widens leaves \<open>max_temp\<close> and \<open>min_temp\<close> unassigned.\<close>

definition fill_alg13 :: "Manifest \<Rightarrow> int \<Rightarrow> rat \<Rightarrow> int list \<Rightarrow> Sense \<Rightarrow> fill \<Rightarrow> fill option" where
  "fill_alg13 m it budget pri s = (\<lambda>(c, sum_tile_br, dep). do {
     last_diff \<leftarrow> mean_vp_err m (mf_FPS m) s;
     widen \<leftarrow> (if playing s > 6
               then all_above (seg_smooth_vp_err s) (map (\<lambda>k. playing s - k) [5, 4, 3, 2, 1])
               else Some False);
     c \<leftarrow> set_ext_width (playing s) (if widen then 1 else 0) c;
     adj \<leftarrow> (if widen then adjacent s 1 else Some []);
     let c = (if widen then c\<lparr>min_layerId := 1, max_layerId := mf_EL_VER_NUM m\<rparr> else clamp_layers m c);
     fill_tracked m it budget (pri @ adj)
       (if widen then None else Some (min_layerId c, max_layerId c)) (c, sum_tile_br, dep)
   })"

definition fill_alg9 :: "Manifest \<Rightarrow> int \<Rightarrow> rat \<Rightarrow> int list \<Rightarrow> fill \<Rightarrow> fill option" where
  "fill_alg9 m it budget pri = (\<lambda>(c, sum_tile_br, dep).
     let c = clamp_layers m c
     in fill_tracked m it budget pri (Some (min_layerId c, max_layerId c)) (c, sum_tile_br, dep))"

text \<open>The block of \<^verbatim>\<open>MMSP\<close> for the algorithms that serve the tiles by priority.\<close>

definition request_by_priority :: "Manifest \<Rightarrow> int \<Rightarrow> Sense \<Rightarrow> Client \<Rightarrow> Client option" where
  "request_by_priority m it s c = do {
     pri \<leftarrow> sort_priority (tile_pixel s) (viewport s);
     c \<leftarrow> for_each (note_tile m it) pri c;
     let A = mf_ALG m;
     let budget = alpha * (if A = 8 \<or> A = 11 then smooth_bitrate s else est_thrp s);
     let st = (c, mf_base_layer_br m, 0);
     st \<leftarrow> (if A \<in> {6, 7, 8, 10, 11, 12, 13}
            then do {
              last_diff \<leftarrow> mean_vp_err m (mf_FPS m * 3) s;
              st \<leftarrow> (if A = 6 \<or> A = 8 \<or> A = 11 then fill_adjacent m it budget last_diff s st else Some st);
              st \<leftarrow> (if A = 7 then fill_alg7 m it budget pri s st else Some st);
              st \<leftarrow> (if A = 10 then fill_alg10 m it budget pri s st else Some st);
              st \<leftarrow> (if A = 12 then fill_alg12 m it budget pri s st else Some st);
              (if A = 13 then fill_alg13 m it budget pri s st else Some st)
            }
            else Some st);
     st \<leftarrow> (if A \<in> {5, 6, 8, 11}
            then fill_layers (el_request m it) (mf_enha_layer_br m) budget 1 (mf_EL_VER_NUM m) pri st
            else Some st);
     st \<leftarrow> (if A = 9 then fill_alg9 m it budget pri st else Some st);
     Some ((fst st)\<lparr>fin_s_num := 0\<rparr>)
   }"

text \<open>The block of \<^verbatim>\<open>UTD2017_adaptation_vr\<close> for algorithms 3 and 5 asks for two layers.\<close>

definition request_by_priority_UTD :: "Manifest \<Rightarrow> int \<Rightarrow> Sense \<Rightarrow> Client \<Rightarrow> Client option" where
  "request_by_priority_UTD m it s c = do {
     pri \<leftarrow> sort_priority (tile_pixel s) (viewport s);
     c \<leftarrow> for_each (note_tile m it) pri c;
     (c, sum_tile_br, dep) \<leftarrow> fill_layers (el_request m it) (mf_enha_layer_br m) (alpha * est_thrp s) 1 2 pri
        (c, mf_base_layer_br m, 0);
     Some (c\<lparr>fin_s_num := 0\<rparr>)
   }"

section \<open>The two engines\<close>

text \<open>The three blocks of each engine, one after the other as the code has them.\<close>

definition request_enhancement :: "Manifest \<Rightarrow> int \<Rightarrow> Sense \<Rightarrow> Client \<Rightarrow> Client option" where
  "request_enhancement m it s c = do {
     let A = mf_ALG m;
     c \<leftarrow> (if A = 4 then request_exhaustive m it s c else Some c);
     c \<leftarrow> (if A \<in> {3, 5, 6, 7, 8, 9, 10, 11, 12, 13} then request_by_priority m it s c else Some c);
     (if A = 1 \<or> A = 2 then request_version m it s c else Some c)
   }"

definition request_enhancement_UTD :: "Manifest \<Rightarrow> int \<Rightarrow> Sense \<Rightarrow> Client \<Rightarrow> Client option" where
  "request_enhancement_UTD m it s c = do {
     let A = mf_ALG m;
     c \<leftarrow> (if A = 4 then request_exhaustive m it s c else Some c);
     c \<leftarrow> (if A = 3 \<or> A = 5 then request_by_priority_UTD m it s c else Some c);
     (if A = 1 \<or> A = 2 then request_version m it s c else Some c)
   }"

definition finish_decision :: "int \<Rightarrow> Client \<Rightarrow> Decision \<times> Client" where
  "finish_decision it c =
     (if req_s_num c > 0
      then (Requested, c\<lparr>iter_down_data := (iter_down_data c)(it := 0)\<rparr>)
      else (Wait, c))"

definition MMSP :: "Manifest \<Rightarrow> int \<Rightarrow> Sense \<Rightarrow> Client \<Rightarrow> (Decision \<times> Client) option" where
  "MMSP m it s c = do {
     let c = buffering_mode m (buff_sec s) (reset_round c);
     c \<leftarrow> (if BL_seg_id c < mf_NO_SEG m \<and> wants_base_MMSP m (buff_sec s) c
           then map_option (\<lambda>c. c\<lparr>LAST_ITER_MASK := 0\<rparr>) (request_base m it c)
           else Some c);
     if req_s_num c = 0
     then if playing s = mf_NO_SEG m - 1 then Some (Finished, c)
          else do {
            let c = c\<lparr>EL_seg_id := playing s + 1\<rparr>;
            done_already \<leftarrow> aget (seg_EL_download c) (EL_seg_id c);
            c \<leftarrow> (if \<not> done_already \<and> EL_seg_id c < mf_NO_SEG m
                  then do {
                    let c = c\<lparr>LAST_ITER_MASK := 1\<rparr>;
                    request_enhancement m it s c
                  }
                  else Some c);
            Some (finish_decision it c)
          }
     else Some (finish_decision it c)
   }"

definition UTD2017_adaptation_vr ::
  "Manifest \<Rightarrow> int \<Rightarrow> Sense \<Rightarrow> Client \<Rightarrow> (Decision \<times> Client) option" where
  "UTD2017_adaptation_vr m it s c = do {
     let c = reset_round c;
     c \<leftarrow> (if BL_seg_id c < mf_NO_SEG m \<and> wants_base_UTD m (buff_sec s)
           then request_base m it c else Some c);
     if req_s_num c = 0
     then if playing s = mf_NO_SEG m - 1 then Some (Finished, c)
          else do {
            let c = c\<lparr>EL_seg_id := playing s + 1\<rparr>;
            done_already \<leftarrow> aget (seg_EL_download c) (EL_seg_id c);
            c \<leftarrow> (if \<not> done_already \<and> EL_seg_id c < mf_NO_SEG m
                  then request_enhancement_UTD m it s c
                  else Some c);
            Some (finish_decision it c)
          }
     else Some (finish_decision it c)
   }"

text \<open>The dispatch on the algorithm, as the callbacks do it.\<close>

definition engine_for :: "Manifest \<Rightarrow> int \<Rightarrow> Sense \<Rightarrow> Client \<Rightarrow> (Decision \<times> Client) option" where
  "engine_for m it =
     (if mf_ALG m \<in> {5, 6, 7, 8, 9, 10, 11, 12, 13} then MMSP m it else UTD2017_adaptation_vr m it)"

text \<open>
  The recursion: after a wait of 100 ms the engine decides again with what it then senses. The
  list are the senses of the successive decisions; \<open>Wait\<close> with the list used up is a client that
  is still waiting.
\<close>

fun decide :: "(Sense \<Rightarrow> Client \<Rightarrow> (Decision \<times> Client) option) \<Rightarrow> Sense list \<Rightarrow> Client
    \<Rightarrow> (Decision \<times> Client) option" where
  "decide eng [] c = Some (Wait, c)"
| "decide eng (s # ss) c = (case eng s c of
     None \<Rightarrow> None
   | Some (d, c) \<Rightarrow> if d = Wait then decide eng ss c else Some (d, c))"

end
