(* ===== verification/Engine_Steps.thy ===== *)
theory Engine_Steps
  imports Adaptation
begin

text \<open>
  What a decision keeps, in general: a property of the client that the request of one layer and the
  updates of the fields an algorithm writes keep is kept by every algorithm (locale
  \<open>engine_invariant\<close>); if it also survives the request of a base layer and the start and the end
  of a decision, it is kept by both engines and by their repetition (\<open>decision_invariant\<close>).
\<close>

section \<open>Preservation\<close>

lemma for_each_preserves:
  assumes "\<And>x s s'. x \<in> set xs \<Longrightarrow> body x s = Some s' \<Longrightarrow> P s \<Longrightarrow> P s'"
  shows "for_each body xs s = Some s' \<Longrightarrow> P s \<Longrightarrow> P s'"
  using assms
proof (induction xs arbitrary: s)
  case (Cons x xs)
  then show ?case by (auto split: option.splits) blast
qed simp

lemma fill_layer_preserves:
  assumes "\<And>t br dep c c' i. t \<in> T \<Longrightarrow> req t l br dep c = Some (c', i) \<Longrightarrow> P c \<Longrightarrow> P c'"
  shows "fill_layer req enha budget l ts st = Some st' \<Longrightarrow> set ts \<subseteq> T \<Longrightarrow> P (fst st) \<Longrightarrow> P (fst st')"
proof (induction ts arbitrary: st)
  case (Cons t ts)
  then show ?case by (cases st) (auto split: option.splits if_splits bind_splits dest: assms)
qed simp

lemma fill_layers_preserves:
  assumes req: "\<And>t l br dep c c' i. t \<in> T \<Longrightarrow> req t l br dep c = Some (c', i) \<Longrightarrow> P c \<Longrightarrow> P c'"
    and ts: "set ts \<subseteq> T"
  shows "fill_layers req enha budget lo hi ts st = Some st' \<Longrightarrow> P (fst st) \<Longrightarrow> P (fst st')"
  unfolding fill_layers_def
  by (erule for_each_preserves [where P = "\<lambda>st. P (fst st)", rotated])
    (auto dest!: fill_layer_preserves [where P = P and T = T, rotated, OF _ ts] intro: req)

lemma fill_layer_track_preserves:
  assumes "\<And>t br dep c c' i. t \<in> T \<Longrightarrow> req t l br dep c = Some (c', i) \<Longrightarrow> P c \<Longrightarrow> P c'"
  shows "fill_layer_track req enha budget l ts st = Some st' \<Longrightarrow> set ts \<subseteq> T \<Longrightarrow> P (fst (fst st)) \<Longrightarrow> P (fst (fst st'))"
proof (induction ts arbitrary: st)
  case (Cons t ts)
  then show ?case
    by (cases st; cases "fst st") (auto split: option.splits if_splits bind_splits dest: assms)
qed simp

lemma fill_layers_track_preserves:
  assumes req: "\<And>t l br dep c c' i. t \<in> T \<Longrightarrow> lo \<le> l \<Longrightarrow> l \<le> hi \<Longrightarrow> req t l br dep c = Some (c', i) \<Longrightarrow>
      P c \<Longrightarrow> P c'"
    and ts: "set ts \<subseteq> T"
  shows "fill_layers_track req enha budget lo hi ts st = Some st' \<Longrightarrow> P (fst (fst st)) \<Longrightarrow> P (fst (fst st'))"
  unfolding fill_layers_track_def
  by (erule for_each_preserves [where P = "\<lambda>st. P (fst (fst st))", rotated])
    (auto dest!: fill_layer_track_preserves [where P = P and T = T, rotated, OF _ ts] intro: req)

section \<open>The blocks of the engines\<close>

text \<open>The tiles a decision may ask for: those of the viewport and those around it.\<close>

definition senses_in :: "int set \<Rightarrow> Sense \<Rightarrow> bool" where
  "senses_in T s \<longleftrightarrow> set (viewport s) \<subseteq> T \<and> (\<forall>w \<ge> 1. \<forall>adj. adjacent s w = Some adj \<longrightarrow> set adj \<subseteq> T)"

lemma senses_in_UNIV [simp]: "senses_in UNIV s"
  by (simp add: senses_in_def)

lemma senses_in_adjacent:
  assumes "senses_in T s"
  shows "adjacent s 1 = Some adj \<Longrightarrow> set adj \<subseteq> T" "adjacent s 2 = Some adj \<Longrightarrow> set adj \<subseteq> T"
    "adjacent s 3 = Some adj \<Longrightarrow> set adj \<subseteq> T"
proof -
  have r: "adjacent s w = Some adj \<Longrightarrow> 1 \<le> w \<Longrightarrow> set adj \<subseteq> T" for w
    using assms by (simp add: senses_in_def)
  show "adjacent s 1 = Some adj \<Longrightarrow> set adj \<subseteq> T" by (erule r) simp
  show "adjacent s 2 = Some adj \<Longrightarrow> set adj \<subseteq> T" by (erule r) simp
  show "adjacent s 3 = Some adj \<Longrightarrow> set adj \<subseteq> T" by (erule r) simp
qed

text \<open>At most one of the blocks of an engine applies.\<close>

lemma request_enhancement_cases:
  "request_enhancement m it s c =
     (if mf_ALG m = 4 then request_exhaustive m it s c
      else if mf_ALG m = 1 \<or> mf_ALG m = 2 then request_version m it s c
      else if mf_ALG m \<in> {3, 5, 6, 7, 8, 9, 10, 11, 12, 13} then request_by_priority m it s c
      else Some c)"
  "request_enhancement_UTD m it s c =
     (if mf_ALG m = 4 then request_exhaustive m it s c
      else if mf_ALG m = 1 \<or> mf_ALG m = 2 then request_version m it s c
      else if mf_ALG m = 3 \<or> mf_ALG m = 5 then request_by_priority_UTD m it s c
      else Some c)"
  by (auto simp: request_enhancement_def request_enhancement_UTD_def)

locale engine_invariant =
  fixes m :: Manifest and it :: int and T :: "int set" and P :: "Client \<Rightarrow> bool"
  assumes P_request: "t \<in> T \<Longrightarrow> el_request m it t l br dep c = Some (c', i) \<Longrightarrow> P c \<Longrightarrow> P c'"
    and P_fin: "P c \<Longrightarrow> P (c\<lparr>fin_s_num := n\<rparr>)"
    and P_max: "P c \<Longrightarrow> P (c\<lparr>max_layerId := n\<rparr>)"
    and P_min: "P c \<Longrightarrow> P (c\<lparr>min_layerId := n\<rparr>)"
    and P_ext: "P c \<Longrightarrow> P (c\<lparr>ext_width := w\<rparr>)"
    and P_version: "P c \<Longrightarrow> P (c\<lparr>iter_tile_version := v\<rparr>)"
    and P_tiles: "P c \<Longrightarrow> P (c\<lparr>iter_tile_list := tls\<rparr>)"
begin

lemma note_tile_P: "note_tile m it t c = Some c' \<Longrightarrow> P c \<Longrightarrow> P c'"
  by (auto simp: note_tile_def split: bind_splits intro: P_tiles)

lemma set_ext_width_P: "set_ext_width k w c = Some c' \<Longrightarrow> P c \<Longrightarrow> P c'"
  by (auto simp: set_ext_width_def split: bind_splits intro: P_ext)

lemma set_tile_version_P: "set_tile_version m it l c = Some c' \<Longrightarrow> P c \<Longrightarrow> P c'"
  by (auto simp: set_tile_version_def split: if_splits intro: P_version)

lemma clamp_layers_P: "P c \<Longrightarrow> P (clamp_layers m c)"
  by (simp add: clamp_layers_def Let_def P_max P_min)

lemma fill_P:
  "fill_layers (el_request m it) enha budget lo hi ts st = Some st' \<Longrightarrow> set ts \<subseteq> T \<Longrightarrow> P (fst st) \<Longrightarrow> P (fst st')"
  by (rule fill_layers_preserves [where P = P, OF P_request])

lemma fill_tracked_P:
  assumes "fill_tracked m it budget ts tmp (c, s, dep) = Some (c', s', dep')" "set ts \<subseteq> T" "P c"
  shows "P c'"
proof -
  obtain c1 mx mn a b where r: "fill_layers_track (el_request m it) (mf_enha_layer_br m) budget
        (min_layerId c) (max_layerId c) ts ((c, s, dep), map_option fst tmp, map_option snd tmp) =
        Some ((c1, s', dep'), Some mx, Some mn)"
      "c' = c1\<lparr>max_layerId := a\<rparr>\<lparr>min_layerId := b\<rparr>"
    using assms(1) by (auto simp: fill_tracked_def split: bind_splits prod.splits)
  have "P c1" using fill_layers_track_preserves [where P = P, OF _ assms(2) r(1)] P_request assms(3) by auto
  then show ?thesis unfolding r(2) by (intro P_min P_max)
qed

lemma request_version_P:
  assumes "request_version m it s c = Some c'" "senses_in T s" "P c"
  shows "P c'"
proof -
  have "P (fst st')" if "for_each (\<lambda>(t, layerId) (c, dep). do {
                br \<leftarrow> aget (mf_enha_layer_br m) (layerId - 1);
                (c, stream_id) \<leftarrow> el_request m it t layerId br dep c;
                c \<leftarrow> note_tile m it t c;
                Some (c, stream_id)
              }) ps st = Some st'" "P (fst st)" "fst ` set ps \<subseteq> T" for ps st st'
    using _ that(1,2) by (rule for_each_preserves)
      (use that(3) in \<open>fastforce split: bind_splits prod.splits dest: P_request note_tile_P\<close>)
  moreover have "fst ` set (List.product (viewport s) ls) \<subseteq> T" for ls :: "int list"
    using assms(2) by (auto simp: senses_in_def)
  ultimately show ?thesis using assms(1,3)
    by (fastforce simp: request_version_def Let_def split: if_splits bind_splits prod.splits
        dest: set_tile_version_P intro: P_fin)
qed

lemma request_exhaustive_P:
  assumes "request_exhaustive m it s c = Some c'" "senses_in T s" "P c"
  shows "P c'"
proof -
  have tile: "t \<in> T" if "aget (viewport s) i = Some t" for i t
    using that assms(2) by (auto simp: aget_Some_iff senses_in_def)
  have "P c1" if "for_each (\<lambda>(layerId, i) c. do {
               layers \<leftarrow> sel;
               y \<leftarrow> aget layers i;
               t \<leftarrow> aget (viewport s) i;
               if y \<ge> layerId
               then do {
                 br \<leftarrow> aget (mf_enha_layer_br m) (layerId - 1);
                 (c, stream_id) \<leftarrow> el_request m it t layerId br 0 c;
                 note_tile m it t c
               }
               else Some c
             }) ps c = Some c1" for sel ps c1
    using _ that assms(3) by (rule for_each_preserves)
      (auto split: if_splits bind_splits dest!: P_request [OF tile] dest: note_tile_P)
  with assms(1) show ?thesis
    by (auto simp: request_exhaustive_def split: if_splits bind_splits intro: P_fin)
qed

lemma fill_adjacent_P:
  "fill_adjacent m it budget d s st = Some st' \<Longrightarrow> senses_in T s \<Longrightarrow> P (fst st) \<Longrightarrow> P (fst st')"
  by (auto simp: fill_adjacent_def split: if_splits bind_splits dest!: fill_P dest: senses_in_adjacent)

lemma fill_algs_P:
  "fill_alg7 m it budget pri s st = Some st' \<Longrightarrow> senses_in T s \<Longrightarrow> set pri \<subseteq> T \<Longrightarrow> P (fst st) \<Longrightarrow> P (fst st')"
  "fill_alg12 m it budget pri s st = Some st' \<Longrightarrow> senses_in T s \<Longrightarrow> set pri \<subseteq> T \<Longrightarrow> P (fst st) \<Longrightarrow> P (fst st')"
  by (cases st; fastforce simp: fill_alg7_def fill_alg12_def split: if_splits bind_splits
      dest!: set_ext_width_P fill_P dest: senses_in_adjacent(1))+

lemma fill_tracked_algs_P:
  "fill_alg9 m it budget pri st = Some st' \<Longrightarrow> set pri \<subseteq> T \<Longrightarrow> P (fst st) \<Longrightarrow> P (fst st')"
  "fill_alg10 m it budget pri s st = Some st' \<Longrightarrow> senses_in T s \<Longrightarrow> set pri \<subseteq> T \<Longrightarrow> P (fst st) \<Longrightarrow> P (fst st')"
  "fill_alg13 m it budget pri s st = Some st' \<Longrightarrow> senses_in T s \<Longrightarrow> set pri \<subseteq> T \<Longrightarrow> P (fst st) \<Longrightarrow> P (fst st')"
  by (cases st; cases st'; fastforce simp: fill_alg9_def fill_alg10_def fill_alg13_def Let_def
      split: if_splits bind_splits dest!: set_ext_width_P fill_tracked_P dest: senses_in_adjacent(1)
      intro: clamp_layers_P P_max P_min)+

lemma note_tiles_P: "for_each (note_tile m it) ts c = Some c' \<Longrightarrow> P c \<Longrightarrow> P c'"
  by (erule for_each_preserves [rotated]) (auto dest: note_tile_P)

lemmas alg_P = fill_adjacent_P fill_algs_P fill_tracked_algs_P fill_P

lemma request_by_priority_P:
  assumes "request_by_priority m it s c = Some c'" "senses_in T s" "P c"
  shows "P c'"
proof -
  have "set pri \<subseteq> T" if "sort_priority (tile_pixel s) (viewport s) = Some pri" for pri
    using sort_priority_set [OF that] assms(2) by (simp add: senses_in_def)
  with assms show ?thesis
    by (auto simp: request_by_priority_def Let_def split: if_splits bind_splits
        dest!: note_tiles_P alg_P intro: P_fin)
qed

lemma request_by_priority_UTD_P:
  assumes "request_by_priority_UTD m it s c = Some c'" "senses_in T s" "P c"
  shows "P c'"
proof -
  have "set pri \<subseteq> T" if "sort_priority (tile_pixel s) (viewport s) = Some pri" for pri
    using sort_priority_set [OF that] assms(2) by (simp add: senses_in_def)
  with assms show ?thesis
    by (auto simp: request_by_priority_UTD_def split: bind_splits dest!: note_tiles_P fill_P intro: P_fin)
qed

lemma enhancement_P:
  "request_enhancement m it s c = Some c' \<Longrightarrow> senses_in T s \<Longrightarrow> P c \<Longrightarrow> P c'"
  "request_enhancement_UTD m it s c = Some c' \<Longrightarrow> senses_in T s \<Longrightarrow> P c \<Longrightarrow> P c'"
  by (auto simp: request_enhancement_cases split: if_splits
      intro: request_exhaustive_P request_version_P request_by_priority_P request_by_priority_UTD_P)

end

section \<open>Whole decisions\<close>

text \<open>
  Both engines: a base layer is requested or not; if it is not, the enhancement layers of the next
  segment to play are.
\<close>

definition el_half ::
  "Manifest \<Rightarrow> int \<Rightarrow> Sense \<Rightarrow> (Client \<Rightarrow> Client option) \<Rightarrow> Client \<Rightarrow> (Decision \<times> Client) option" where
  "el_half m it s enh c =
     (if req_s_num c = 0
      then if playing s = mf_NO_SEG m - 1 then Some (Finished, c)
           else do {
             let c = c\<lparr>EL_seg_id := playing s + 1\<rparr>;
             done_already \<leftarrow> aget (seg_EL_download c) (EL_seg_id c);
             c \<leftarrow> (if \<not> done_already \<and> EL_seg_id c < mf_NO_SEG m then enh c else Some c);
             Some (finish_decision it c)
           }
      else Some (finish_decision it c))"

lemma engine_split:
  assumes "engine_for m it s c = Some (d, c')"
  obtains (split) c0 c1 enh where "c0 = reset_round c \<or> c0 = buffering_mode m (buff_sec s) (reset_round c)"
    "c1 = c0 \<or> (\<exists>x k. request_base m it c0 = Some x \<and> BL_seg_id c0 < mf_NO_SEG m \<and> c1 = x\<lparr>LAST_ITER_MASK := k\<rparr>)"
    "el_half m it s enh c1 = Some (d, c')"
    "enh = (\<lambda>c. request_enhancement m it s (c\<lparr>LAST_ITER_MASK := 1\<rparr>)) \<or> enh = request_enhancement_UTD m it s"
proof (cases "mf_ALG m \<in> {5, 6, 7, 8, 9, 10, 11, 12, 13}")
  case True
  let ?c0 = "buffering_mode m (buff_sec s) (reset_round c)"
  from True assms obtain c1 where
    "(if BL_seg_id ?c0 < mf_NO_SEG m \<and> wants_base_MMSP m (buff_sec s) ?c0
      then map_option (\<lambda>c. c\<lparr>LAST_ITER_MASK := 0\<rparr>) (request_base m it ?c0) else Some ?c0) = Some c1"
    "el_half m it s (\<lambda>c. request_enhancement m it s (c\<lparr>LAST_ITER_MASK := 1\<rparr>)) c1 = Some (d, c')"
    unfolding engine_for_def MMSP_def el_half_def by (auto simp only: if_True Let_def bind_eq_Some_conv)
  then show thesis by (intro split [of ?c0 c1]) (auto split: if_splits)
next
  case False
  let ?c0 = "reset_round c"
  from False assms obtain c1 where
    "(if BL_seg_id ?c0 < mf_NO_SEG m \<and> wants_base_UTD m (buff_sec s) then request_base m it ?c0 else Some ?c0)
      = Some c1"
    "el_half m it s (request_enhancement_UTD m it s) c1 = Some (d, c')"
    unfolding engine_for_def UTD2017_adaptation_vr_def el_half_def
    by (auto simp only: if_False Let_def bind_eq_Some_conv)
  then show thesis
    by (intro split [of ?c0 c1]) (auto split: if_splits intro: exI [of _ "LAST_ITER_MASK c1"])
qed

locale decision_invariant = engine_invariant +
  assumes P_base: "request_base m it c = Some c' \<Longrightarrow> P c \<Longrightarrow> P c'"
    and P_reset: "P c \<Longrightarrow> P (reset_round c)"
    and P_ini: "P c \<Longrightarrow> P (c\<lparr>INI_BUFFERING := b\<rparr>)"
    and P_re: "P c \<Longrightarrow> P (c\<lparr>RE_BUFFERRING := b\<rparr>)"
    and P_mask: "P c \<Longrightarrow> P (c\<lparr>LAST_ITER_MASK := n\<rparr>)"
    and P_segment: "P c \<Longrightarrow> P (c\<lparr>EL_seg_id := n\<rparr>)"
    and P_data: "P c \<Longrightarrow> P (c\<lparr>iter_down_data := f\<rparr>)"
begin

lemma buffering_P: "P c \<Longrightarrow> P (buffering_mode m b c)"
  by (simp add: buffering_mode_def Let_def P_ini P_re)

lemma finish_P: "finish_decision it c = (d, c') \<Longrightarrow> P c \<Longrightarrow> P c'"
  by (auto simp: finish_decision_def split: if_splits intro: P_data)

lemma engine_P:
  assumes "engine_for m it s c = Some (d, c')" "senses_in T s" "P c"
  shows "P c'"
  using assms(1)
proof (cases rule: engine_split)
  case (split c0 c1 enh)
  have "P c0" using split(1) assms(3) by (auto intro: buffering_P P_reset)
  with split(2) have "P c1" by (auto intro: P_mask P_base)
  moreover have "P x'" if "enh x = Some x'" "P x" for x x'
    using that split(4) by (auto dest: enhancement_P [OF _ assms(2)] intro: P_mask)
  ultimately show ?thesis
    using split(3) by (auto simp: el_half_def Let_def split: if_splits bind_splits dest!: finish_P intro: P_segment)
qed

lemma decide_P:
  "decide (engine_for m it) ss c = Some (d, c') \<Longrightarrow> (\<And>s. s \<in> set ss \<Longrightarrow> senses_in T s) \<Longrightarrow> P c \<Longrightarrow> P c'"
  by (induction ss arbitrary: c)
    (auto split: option.splits prod.splits if_splits dest: engine_P)

end

end
