(* ===== verification/Engine_Bookkeeping.thy ===== *)
theory Engine_Bookkeeping
  imports Engine_Steps
begin

text \<open>
  What every decision of every algorithm keeps: the bookkeeping of the streams. The counter
  \<open>req_s_num\<close>, which the stream-close handler compares with \<open>fin_s_num\<close> to end a round, is the
  number of streams listed for the iteration, and all of them belong to one segment.
\<close>

section \<open>The bookkeeping of a round\<close>

definition booked :: "int \<Rightarrow> int \<Rightarrow> Client \<Rightarrow> bool" where
  "booked it sid c \<longleftrightarrow> streams_inv c \<and> req_s_num c = int (length (iter_req_stream c it)) \<and>
     (\<forall>s \<in> set (requests_of c it). si_sid s = sid)"

definition EL_booked :: "int \<Rightarrow> Client \<Rightarrow> bool" where
  "EL_booked it c \<longleftrightarrow> booked it (EL_seg_id c) c"

lemma request_layer_booked:
  assumes r: "request_layer m it sid w fid l br dep c = Some (c', i)" and "booked it sid c"
  shows "booked it sid c'"
proof -
  have "in_cells m (sid, fid, l)" "in_iters m it"
    using r by (auto simp: request_layer_def set3_def push_iter_def split: if_splits bind_splits prod.splits)
  from request_layer_ok [OF _ this, of c w br dep] assms obtain
    "streams_inv c'" "iter_req_stream c' = (iter_req_stream c)(it := iter_req_stream c it @ [cur_req_stream_id c + 2])"
    "requests_of c' it = requests_of c it @ [stream_info sid fid l]" "req_s_num c' = req_s_num c + 1"
    by (auto simp: booked_def)
  with assms(2) show ?thesis by (auto simp: booked_def)
qed

lemma el_request_booked:
  "el_request m it t l br dep c = Some (c', i) \<Longrightarrow> EL_booked it c \<Longrightarrow> EL_booked it c'"
  using request_layer_rest [of m it "EL_seg_id c" 20 t l br dep c c' i]
  by (auto simp: EL_booked_def el_request_def engine_rest_def dest: request_layer_booked)

lemmas booked_defs = EL_booked_def booked_def streams_inv_def requests_of_def

lemma booked_updates [simp]:
  "EL_booked it (c\<lparr>fin_s_num := n\<rparr>) = EL_booked it c"
  "EL_booked it (c\<lparr>max_layerId := n\<rparr>) = EL_booked it c"
  "EL_booked it (c\<lparr>min_layerId := n\<rparr>) = EL_booked it c"
  "EL_booked it (c\<lparr>ext_width := w\<rparr>) = EL_booked it c"
  "EL_booked it (c\<lparr>LAST_ITER_MASK := n\<rparr>) = EL_booked it c"
  "EL_booked it (c\<lparr>iter_tile_version := v\<rparr>) = EL_booked it c"
  "EL_booked it (c\<lparr>iter_tile_list := tls\<rparr>) = EL_booked it c"
  by (simp_all add: booked_defs)

interpretation bk: engine_invariant m it UNIV "EL_booked it" for m it
  by unfold_locales (simp_all add: el_request_booked)

section \<open>A decision\<close>

text \<open>Every algorithm leaves \<open>fin_s_num\<close> at 0, or the whole client as it was.\<close>

lemma request_fin:
  "request_version m it s c = Some c' \<Longrightarrow> fin_s_num c' = 0 \<or> c' = c"
  "request_exhaustive m it s c = Some c' \<Longrightarrow> fin_s_num c' = 0"
  "request_by_priority m it s c = Some c' \<Longrightarrow> fin_s_num c' = 0"
  "request_by_priority_UTD m it s c = Some c' \<Longrightarrow> fin_s_num c' = 0"
  by (auto simp: request_version_def request_exhaustive_def request_by_priority_def
      request_by_priority_UTD_def Let_def split: if_splits bind_splits)

definition decided :: "int \<Rightarrow> Client \<Rightarrow> bool" where
  "decided it c \<longleftrightarrow> (\<exists>sid. booked it sid c) \<and> (req_s_num c = 0 \<or> fin_s_num c = 0)"

lemma decided_updates [simp]:
  "decided it (c\<lparr>LAST_ITER_MASK := n\<rparr>) = decided it c"
  "decided it (c\<lparr>EL_seg_id := n\<rparr>) = decided it c"
  "decided it (c\<lparr>iter_down_data := f\<rparr>) = decided it c"
  "decided it (c\<lparr>INI_BUFFERING := b\<rparr>) = decided it c"
  "decided it (c\<lparr>RE_BUFFERRING := b\<rparr>) = decided it c"
  by (simp_all add: decided_def booked_defs)

lemma decided_buffering [simp]: "decided it (buffering_mode m b c) = decided it c"
  by (simp add: buffering_mode_def Let_def)

lemma decided_reset: "streams_inv c \<Longrightarrow> iter_req_stream c it = [] \<Longrightarrow> decided it (reset_round c)"
  by (simp add: decided_def booked_defs reset_round_def)

lemma request_base_decided:
  assumes "request_base m it c = Some c'" "decided it c" "req_s_num c = 0"
  shows "decided it c'"
proof -
  obtain c1 i where c1: "request_layer m it (BL_seg_id c) 20 0 0 (mf_base_layer_br m) 0
       (c\<lparr>iter_tile_version := (iter_tile_version c)(it := 0)\<rparr>) = Some (c1, i)"
    and c': "c' = c1\<lparr>req_s_num := 1, fin_s_num := 0\<rparr>"
    using assms(1) by (auto simp: request_base_def set_tile_version_def split: if_splits bind_splits)
  have "booked it (BL_seg_id c) (c\<lparr>iter_tile_version := (iter_tile_version c)(it := 0)\<rparr>)"
    using assms(2,3) by (auto simp: decided_def booked_defs)
  from request_layer_booked [OF c1 this] have b: "booked it (BL_seg_id c) c1" .
  have "req_s_num c1 = 1"
    using c1 assms(3) by (auto simp: request_layer_def send_get_request_def Let_def split: bind_splits if_splits)
  with b have "booked it (BL_seg_id c) c'" by (simp add: c' booked_defs)
  then show ?thesis by (auto simp: decided_def c')
qed

lemma decided_request:
  assumes "decided it c" "req_s_num c = 0" "EL_booked it c \<Longrightarrow> EL_booked it c'" "fin_s_num c' = 0 \<or> c' = c"
  shows "decided it c'"
proof -
  have "EL_booked it c" using assms(1,2) by (auto simp: decided_def booked_defs)
  with assms show ?thesis by (auto simp: decided_def EL_booked_def)
qed

lemmas decided_requests =
  decided_request [OF _ _ bk.request_version_P [OF _ senses_in_UNIV] request_fin(1)]
  decided_request [OF _ _ bk.request_exhaustive_P [OF _ senses_in_UNIV] disjI1 [OF request_fin(2)]]
  decided_request [OF _ _ bk.request_by_priority_P [OF _ senses_in_UNIV] disjI1 [OF request_fin(3)]]
  decided_request [OF _ _ bk.request_by_priority_UTD_P [OF _ senses_in_UNIV] disjI1 [OF request_fin(4)]]

lemma finish_decision_decided:
  "finish_decision it c = (d, c') \<Longrightarrow> decided it c \<Longrightarrow> decided it c' \<and> (d = Requested \<longleftrightarrow> req_s_num c' > 0)"
  by (auto simp: finish_decision_def split: if_splits)


lemma enhancement_decided:
  assumes "decided it c" "req_s_num c = 0"
  shows "request_enhancement m it s c = Some c' \<Longrightarrow> decided it c'"
    and "request_enhancement_UTD m it s c = Some c' \<Longrightarrow> decided it c'"
  using assms(1) decided_requests [OF assms]
  by (simp_all add: request_enhancement_cases split: if_splits)

lemma reset_round_num [simp]: "req_s_num (reset_round c) = 0"
  by (simp add: reset_round_def)

lemma buffering_mode_num [simp]: "req_s_num (buffering_mode m b c) = req_s_num c"
  by (simp add: buffering_mode_def Let_def)

text \<open>What the first part of a decision does to the fields the second part reads.\<close>

lemma decision_start [simp]:
  "seg_EL_download (reset_round c) = seg_EL_download c"
  "BL_seg_id (reset_round c) = BL_seg_id c"
  "streams_inv (reset_round c) = streams_inv c"
  "tile_layers (reset_round c) it = tile_layers c it"
  "seg_EL_download (buffering_mode m b c) = seg_EL_download c"
  "BL_seg_id (buffering_mode m b c) = BL_seg_id c"
  "streams_inv (buffering_mode m b c) = streams_inv c"
  "tile_layers (buffering_mode m b c) it = tile_layers c it"
  "streams_inv (c\<lparr>EL_seg_id := sid\<rparr>) = streams_inv c"
  "tile_layers (c\<lparr>EL_seg_id := sid\<rparr>) it = tile_layers c it"
  "streams_inv (c\<lparr>LAST_ITER_MASK := n\<rparr>) = streams_inv c"
  "tile_layers (c\<lparr>LAST_ITER_MASK := n\<rparr>) it = tile_layers c it"
  "tile_layers (c\<lparr>iter_down_data := f\<rparr>) it = tile_layers c it"
  by (simp_all add: reset_round_def buffering_mode_def streams_inv_def tile_layers_def requests_of_def Let_def)

lemma start_streams [simp]:
  "iter_req_stream (reset_round c) it = iter_req_stream c it"
  "iter_req_stream (buffering_mode m b c) it = iter_req_stream c it"
  "cur_req_stream_id (reset_round c) = cur_req_stream_id c"
  "cur_req_stream_id (buffering_mode m b c) = cur_req_stream_id c"
  by (simp_all add: reset_round_def buffering_mode_def Let_def)

lemma engine_decided:
  assumes "engine_for m it s c = Some (d, c')" "streams_inv c" "iter_req_stream c it = []"
  shows "decided it c' \<and> (d = Requested \<longleftrightarrow> req_s_num c' > 0)"
  using assms(1)
proof (cases rule: engine_split)
  case (split c0 c1 enh)
  have "decided it c0" "req_s_num c0 = 0" using split(1) decided_reset assms(2,3) by auto
  with split(2) have "decided it c1" by (auto dest: request_base_decided)
  moreover have "decided it x'" if "enh x = Some x'" "decided it x" "req_s_num x = 0" for x x'
    using that split(4) enhancement_decided [of it "x\<lparr>LAST_ITER_MASK := 1\<rparr>" m s x'] enhancement_decided(2) by auto
  ultimately show ?thesis
    using split(3) by (auto simp: el_half_def Let_def split: if_splits bind_splits dest: finish_decision_decided)
qed

lemma MMSP_decided:
  assumes "MMSP m it s c = Some (d, c')" "mf_ALG m \<in> {5, 6, 7, 8, 9, 10, 11, 12, 13}" "streams_inv c"
    "iter_req_stream c it = []"
  shows "decided it c' \<and> (d = Requested \<longleftrightarrow> req_s_num c' > 0)"
proof -
  have "engine_for m it s c = Some (d, c')" using assms(1,2) by (simp add: engine_for_def)
  then show ?thesis using assms(3,4) by (rule engine_decided)
qed

text \<open>A repeated decision: as long as the engine waits, the iteration stays empty.\<close>

lemma decided_empty: "decided it c \<Longrightarrow> req_s_num c = 0 \<Longrightarrow> streams_inv c \<and> iter_req_stream c it = []"
  by (auto simp: decided_def booked_def)

lemma decide_decided:
  assumes "decide (engine_for m it) ss c = Some (d, c')" "streams_inv c" "iter_req_stream c it = []"
    "req_s_num c = 0 \<or> ss \<noteq> []"
  shows "decided it c' \<and> (d = Requested \<longleftrightarrow> req_s_num c' > 0)"
  using assms
proof (induction ss arbitrary: c)
  case Nil
  then show ?case by (auto simp: decided_def booked_def requests_of_def)
next
  case (Cons s ss)
  from Cons.prems(1) obtain d1 c1 where e: "engine_for m it s c = Some (d1, c1)"
    and rest: "(if d1 = Wait then decide (engine_for m it) ss c1 else Some (d1, c1)) = Some (d, c')"
    by (auto split: option.splits)
  note d1 = engine_decided [OF e Cons.prems(2,3)]
  show ?case
  proof (cases "d1 = Wait")
    case False
    with rest d1 show ?thesis by simp
  next
    case True
    then have "req_s_num c1 = 0" using d1 by (auto simp: decided_def booked_def)
    with Cons.IH rest True d1 decided_empty show ?thesis by auto
  qed
qed

text \<open>What no decision touches.\<close>

definition kept where
  "kept it c = (BL_seg_id c, iter_id c, seg_EL_download c, iter_req_stream_fin c, iter_end c,
     (iter_req_stream c)(it := []))"

lemma request_layer_kept:
  assumes "request_layer m it sid w fid l br dep c = Some (c', i)"
  shows "kept it c' = kept it c"
  using assms
  by (cases "uri_ok c")
    (auto simp: request_layer_def kept_def push_iter_def send_get_request_def Let_def split: bind_splits if_splits)

interpretation kept: decision_invariant m it UNIV "\<lambda>c. kept it c = K" for m it K
proof (unfold_locales, goal_cases)
  case (1 t l br dep c c' i)
  then show ?case by (simp add: el_request_def request_layer_kept)
next
  case (8 c c')
  then show ?case
    by (auto simp: request_base_def set_tile_version_def split: if_splits bind_splits dest!: request_layer_kept)
      (simp_all add: kept_def)
qed (simp_all add: kept_def reset_round_def)

section \<open>A small session\<close>

definition demo_manifest :: "int \<Rightarrow> Manifest" where
  "demo_manifest alg = \<lparr>mf_NO_SEG = 20, mf_SD = 1, mf_NO_TILE = 6, mf_NO_FACE = 7, mf_BASE_BUFF_THRES = 2,
     mf_FPS = 1, mf_base_layer_br = 1000, mf_enha_layer_br = [100, 150, 200], mf_EL_VER_NUM = 3, mf_ALG = alg\<rparr>"

definition demo_client :: Client where
  "demo_client = \<lparr>cur_req_stream_id = 13, req_s_num = 0, fin_s_num = 0, BL_seg_id = 0, EL_seg_id = 0,
     iter_id = 0, INI_BUFFERING = True, RE_BUFFERRING = False, LAST_ITER_MASK = 1, max_layerId = 4,
     min_layerId = 1, cancelled_request_stream = [], uri_ok = True, sent = [], rst_streams = [],
     face_br = \<lambda>_. None, face_ini_weight = \<lambda>_. None, face_stream_ID = \<lambda>_. None,
     face_late = \<lambda>_. None, face_cancel = \<lambda>_. None, seg_EL_download = replicate 20 False,
     RequestStreamInfo = \<lambda>_. None, iter_req_stream = \<lambda>_. [], iter_req_stream_fin = \<lambda>_. [],
     iter_tile_list = \<lambda>_. [], iter_tile_version = \<lambda>_. 0, iter_down_data = \<lambda>_. 0,
     iter_end = \<lambda>_. False, ext_width = replicate 20 0\<rparr>"

definition demo_sense :: "rat \<Rightarrow> int \<Rightarrow> rat \<Rightarrow> Sense" where
  "demo_sense b play thrp = \<lparr>buff_sec = b, playing = play, time_budget = 900, viewport = [1, 2, 3],
     tile_pixel = [10, 30, 20, 0, 0, 0], adjacent = \<lambda>w. Some [4], frame_vp_err = replicate 20 (Some 0),
     seg_vp_err = replicate 20 0, seg_smooth_vp_err = replicate 20 30, est_thrp = thrp,
     smooth_bitrate = thrp\<rparr>"

text \<open>
  C6: Whatever the algorithm, a decision that starts an iteration leaves the bookkeeping right: the
  known streams have been handed out, \<^verbatim>\<open>req_s_num\<close> counts the streams listed for the iteration,
  \<^verbatim>\<open>fin_s_num\<close> starts from 0 when there are any, all of them belong to one segment, and the engine
  waits exactly when it requested nothing.
\<close>

theorem engine_bookkeeping:
  assumes "engine_for m it s c = Some (d, c')" "streams_inv c" "iter_req_stream c it = []"
  shows "streams_inv c' \<and> req_s_num c' = int (length (iter_req_stream c' it)) \<and>
    (d = Requested \<longleftrightarrow> iter_req_stream c' it \<noteq> []) \<and> (d = Requested \<longrightarrow> fin_s_num c' = 0) \<and>
    (\<exists>sid. \<forall>r \<in> set (requests_of c' it). si_sid r = sid)"
proof -
  have "decided it c' \<and> (d = Requested \<longleftrightarrow> req_s_num c' > 0)"
    using assms by (rule engine_decided)
  then show ?thesis by (auto simp: decided_def booked_def)
qed

theorem engine_bookkeeping_witness:
  "\<exists>d c'. engine_for (demo_manifest 8) 0 (demo_sense 3 4 2000) (demo_client\<lparr>LAST_ITER_MASK := 0\<rparr>) = Some (d, c') \<and>
     d = Requested \<and> streams_inv c' \<and> req_s_num c' = 6 \<and> length (iter_req_stream c' 0) = 6"
proof -
  let ?c = "demo_client\<lparr>LAST_ITER_MASK := 0\<rparr>"
  have inv: "streams_inv ?c" "iter_req_stream ?c 0 = []" by (simp_all add: streams_inv_def demo_client_def)
  have "map_option (\<lambda>(d, c). (d, req_s_num c)) (engine_for (demo_manifest 8) 0 (demo_sense 3 4 2000) ?c)
      = Some (Requested, 6)"
    by code_simp
  then obtain d c' where r: "engine_for (demo_manifest 8) 0 (demo_sense 3 4 2000) ?c = Some (d, c')"
    "d = Requested" "req_s_num c' = 6"
    by auto
  from engine_bookkeeping [OF r(1) inv] r show ?thesis by auto
qed

end
