(* ===== verification/Round_Requests.thy ===== *)
theory Round_Requests
  imports Engine_Bookkeeping
begin

text \<open>
  What a decision requests: the rounds of the algorithms that serve tiles by priority (3 and 5)
  and of those that request one version (1 and 2), the base layer, and the cases in which the
  other algorithms lose layers or read values that were never assigned.
\<close>

section \<open>The conditions of a round\<close>

text \<open>
  Segment, iteration and tiles are inside their arrays, the viewport is not empty, its tiles have
  pixel counts, and the bitrates of the layers do not decrease.
\<close>

definition round_ok :: "Manifest \<Rightarrow> int \<Rightarrow> Sense \<Rightarrow> int \<Rightarrow> bool" where
  "round_ok m it s sid \<longleftrightarrow> in_iters m it \<and> 0 \<le> sid \<and> sid < mf_NO_SEG m \<and> 0 \<le> mf_EL_VER_NUM m \<and>
     mf_EL_VER_NUM m \<le> int (length (mf_enha_layer_br m)) \<and> sorted (mf_enha_layer_br m) \<and>
     viewport s \<noteq> [] \<and> known_tiles (tile_pixel s) (viewport s) \<and> (\<forall>t \<in> set (viewport s). t < mf_NO_FACE m)"

text \<open>The decision enhances the segment after the one playing: no base layer is due.\<close>

definition el_turn :: "Manifest \<Rightarrow> Sense \<Rightarrow> Client \<Rightarrow> bool" where
  "el_turn m s c \<longleftrightarrow>
     \<not> (BL_seg_id c < mf_NO_SEG m \<and> wants_base_MMSP m (buff_sec s) (buffering_mode m (buff_sec s) c)) \<and>
     playing s + 1 < mf_NO_SEG m \<and> aget (seg_EL_download c) (playing s + 1) = Some False"

definition priority :: "Sense \<Rightarrow> int list" where
  "priority s = sort_key (\<lambda>t. - pixels (tile_pixel s) t) (viewport s)"

lemma note_tiles_run:
  assumes "in_iters m it"
  shows "for_each (note_tile m it) ts c =
    Some (c\<lparr>iter_tile_list := (iter_tile_list c)(it := iter_tile_list c it @ ts)\<rparr>)"
  using assms by (induction ts arbitrary: c) (simp_all add: note_tile_def push_iter_def)

lemma engine_ok_updates [simp]:
  "streams_inv (c\<lparr>iter_tile_list := tls\<rparr>) = streams_inv c"
  "streams_inv (c\<lparr>fin_s_num := n\<rparr>) = streams_inv c"
  "tile_layers (c\<lparr>iter_tile_list := tls\<rparr>) it = tile_layers c it"
  "tile_layers (c\<lparr>fin_s_num := n\<rparr>) it = tile_layers c it"
  by (simp_all add: streams_inv_def tile_layers_def requests_of_def)

lemma sort_priority_run:
  assumes "round_ok m it s sid"
  shows "sort_priority (tile_pixel s) (viewport s) = Some (priority s)"
  using assms by (simp add: sort_priority_def bubble_loop_sort_key round_ok_def priority_def)

lemma round_tiles_valid:
  assumes "round_ok m it s sid" "t \<in> set (priority s)" "1 \<le> l" "l \<le> mf_EL_VER_NUM m"
  shows "in_cells m (sid, t, l) \<and> in_iters m it"
  using assms by (auto simp: round_ok_def priority_def known_tiles_def in_cells_def)

section \<open>The round of algorithm 5\<close>

text \<open>The fill from layer 1 to layer \<open>hi\<close> over the tiles by priority.\<close>

lemma priority_fill:
  assumes "round_ok m it s (EL_seg_id c)" "streams_inv c" "0 \<le> hi" "hi \<le> mf_EL_VER_NUM m"
  shows "\<exists>c' s' dep new. fill_layers (el_request m it) (mf_enha_layer_br m) budget 1 hi (priority s)
        (c, mf_base_layer_br m, 0) = Some (c', s', dep) \<and> streams_inv c' \<and> EL_seg_id c' = EL_seg_id c \<and>
      req_s_num c' = req_s_num c + int (length new) \<and>
      tile_layers c' it = tile_layers c it @ new \<and>
      filled (mf_enha_layer_br m) budget 1 hi (priority s) (mf_base_layer_br m) new s'"
proof -
  let ?d = "req_s_num c - int (length (tile_layers c it))"
  have ok: "engine_ok it ?d (engine_rest c) c \<and> EL_seg_id c = EL_seg_id c"
    using assms(2) by (simp add: engine_ok_def)
  have "\<exists>c' s' dep new. fill_layers (\<lambda>t l br dep c. el_request m it t l br dep c) (mf_enha_layer_br m) budget 1 hi
        (priority s) (c, mf_base_layer_br m, 0) = Some (c', s', dep) \<and>
      (engine_ok it ?d (engine_rest c) c' \<and> EL_seg_id c' = EL_seg_id c) \<and>
      tile_layers c' it = tile_layers c it @ new \<and>
      filled (mf_enha_layer_br m) budget 1 hi (priority s) (mf_base_layer_br m) new s'"
  proof (rule el.fill_layers_shape [OF ok])
    show "\<forall>t\<in>set (priority s). \<forall>l. 1 \<le> l \<and> l \<le> hi \<longrightarrow> in_cells m (EL_seg_id c, t, l) \<and> in_iters m it"
      using round_tiles_valid [OF assms(1)] assms(4) by fastforce
  qed (use assms in \<open>auto simp: round_ok_def sorted_iff_nth_mono\<close>)
  then show ?thesis by (force simp: engine_ok_def)
qed

lemma request_by_priority_ALG5:
  assumes "mf_ALG m = 5" "round_ok m it s (EL_seg_id c)" "streams_inv c"
  shows "\<exists>c' s' new. request_by_priority m it s c = Some c' \<and> EL_seg_id c' = EL_seg_id c \<and>
      req_s_num c' = req_s_num c + int (length new) \<and> tile_layers c' it = tile_layers c it @ new \<and>
      filled (mf_enha_layer_br m) (alpha * est_thrp s) 1 (mf_EL_VER_NUM m) (priority s) (mf_base_layer_br m) new s'"
proof -
  let ?c = "c\<lparr>iter_tile_list := (iter_tile_list c)(it := iter_tile_list c it @ priority s)\<rparr>"
  have "in_iters m it" using assms(2) by (simp add: round_ok_def)
  moreover obtain c' s' dep new where
    "fill_layers (el_request m it) (mf_enha_layer_br m) (alpha * est_thrp s) 1 (mf_EL_VER_NUM m) (priority s)
        (?c, mf_base_layer_br m, 0) = Some (c', s', dep)"
    "EL_seg_id c' = EL_seg_id c" "req_s_num c' = req_s_num c + int (length new)" "tile_layers c' it = tile_layers c it @ new"
    "filled (mf_enha_layer_br m) (alpha * est_thrp s) 1 (mf_EL_VER_NUM m) (priority s) (mf_base_layer_br m) new s'"
    using priority_fill [of m it s ?c "mf_EL_VER_NUM m" "alpha * est_thrp s"] assms(2,3)
    by (auto simp: round_ok_def)
  ultimately show ?thesis
    using assms(1) by (auto simp: request_by_priority_def sort_priority_run [OF assms(2)] note_tiles_run Let_def)
qed

lemma wants_base_reset [simp]:
  "wants_base_MMSP m b (buffering_mode m b (reset_round c)) = wants_base_MMSP m b (buffering_mode m b c)"
  by (simp add: wants_base_MMSP_def buffering_mode_def reset_round_def Let_def)

lemma MMSP_el_turn:
  assumes "el_turn m s c"
  shows "MMSP m it s c = do {
    c \<leftarrow> request_enhancement m it s
      (buffering_mode m (buff_sec s) (reset_round c)\<lparr>EL_seg_id := playing s + 1, LAST_ITER_MASK := 1\<rparr>);
    Some (finish_decision it c) }"
  using assms by (auto simp: MMSP_def el_turn_def Let_def)

text \<open>
  C7: A decision of algorithm 5 that enhances the segment after the one playing requests, tile by
  tile in the order of decreasing visibility, all layers up to some layer \<open>n\<close> for every tile of the
  viewport and layer \<open>n + 1\<close> for the first \<open>k\<close> tiles. The base layer and the requested layers
  together stay below 90 percent of the estimated throughput, and one more request would not.
\<close>

theorem MMSP_ALG5_round:
  assumes "mf_ALG m = 5" "el_turn m s c" "round_ok m it s (playing s + 1)" "streams_inv c"
    "iter_req_stream c it = []"
  shows "\<exists>c' n k new. MMSP m it s c = Some (if new = [] then Wait else Requested, c') \<and>
    tile_layers c' it = new \<and> req_s_num c' = int (length new) \<and>
    new = full_layers 1 n (priority s) @ map (\<lambda>t. (t, n + 1)) (take k (priority s)) \<and>
    0 \<le> n \<and> n \<le> mf_EL_VER_NUM m \<and> (0 < k \<longrightarrow> n < mf_EL_VER_NUM m) \<and>
    (new \<noteq> [] \<longrightarrow> of_int (mf_base_layer_br m + layers_br (mf_enha_layer_br m) new) < 9 / 10 * est_thrp s) \<and>
    (n < mf_EL_VER_NUM m \<longrightarrow> k < length (viewport s) \<and>
       9 / 10 * est_thrp s
         \<le> of_int (mf_base_layer_br m + layers_br (mf_enha_layer_br m) new + mf_enha_layer_br m ! nat n))"
proof -
  let ?c = "buffering_mode m (buff_sec s) (reset_round c)\<lparr>EL_seg_id := playing s + 1, LAST_ITER_MASK := 1\<rparr>"
  have none: "tile_layers c it = []" using assms(5) by (simp add: tile_layers_def requests_of_def)
  have "round_ok m it s (EL_seg_id ?c)" "streams_inv ?c" using assms(3,4) by simp_all
  from request_by_priority_ALG5 [OF assms(1) this] none obtain c' s' new where
    r: "request_by_priority m it s ?c = Some c'" "req_s_num c' = int (length new)" "tile_layers c' it = new"
    and f: "filled (mf_enha_layer_br m) (alpha * est_thrp s) 1 (mf_EL_VER_NUM m) (priority s)
        (mf_base_layer_br m) new s'"
    by auto
  have run: "MMSP m it s c = Some (finish_decision it c')"
    using r(1) assms(1) by (simp add: MMSP_el_turn [OF assms(2)] request_enhancement_cases)
  have fin: "finish_decision it c' = (if new = [] then Wait else Requested, snd (finish_decision it c'))"
    "tile_layers (snd (finish_decision it c')) it = new" "req_s_num (snd (finish_decision it c')) = int (length new)"
    using r(2,3) by (auto simp: finish_decision_def)
  have len: "length (priority s) = length (viewport s)" by (simp add: priority_def)
  from f obtain n k where F: "new = full_layers 1 n (priority s) @ map (\<lambda>t. (t, n + 1)) (take k (priority s))"
     "1 - 1 \<le> n" "n \<le> mf_EL_VER_NUM m" "k \<noteq> 0 \<longrightarrow> n < mf_EL_VER_NUM m"
     "s' = mf_base_layer_br m + layers_br (mf_enha_layer_br m) new"
     "new \<noteq> [] \<longrightarrow> of_int s' < 9 / 10 * est_thrp s"
     "n < mf_EL_VER_NUM m \<longrightarrow> k < length (viewport s) \<and> 9 / 10 * est_thrp s \<le> of_int (s' + mf_enha_layer_br m ! nat n)"
    unfolding filled_def alpha_def len by blast
  have "0 \<le> n" "0 < k \<longrightarrow> n < mf_EL_VER_NUM m" using F(2,4) by simp_all
  moreover have "MMSP m it s c = Some (if new = [] then Wait else Requested, snd (finish_decision it c'))"
    using run fin(1) by simp
  ultimately show ?thesis using fin(2,3) F(1,3,6,7) unfolding F(5) by blast
qed

theorem MMSP_ALG5_round_witness:
  "\<exists>c' n k new. MMSP (demo_manifest 5) 0 (demo_sense 3 1 2000) (demo_client\<lparr>LAST_ITER_MASK := 0\<rparr>)
      = Some (if new = [] then Wait else Requested, c') \<and> tile_layers c' 0 = new \<and> 0 \<le> n \<and>
    new = full_layers 1 n (priority (demo_sense 3 1 2000)) @
      map (\<lambda>t. (t, n + 1)) (take k (priority (demo_sense 3 1 2000)))"
proof -
  have "mf_ALG (demo_manifest 5) = 5" "el_turn (demo_manifest 5) (demo_sense 3 1 2000) (demo_client\<lparr>LAST_ITER_MASK := 0\<rparr>)"
    "round_ok (demo_manifest 5) 0 (demo_sense 3 1 2000) (playing (demo_sense 3 1 2000) + 1)"
    "streams_inv (demo_client\<lparr>LAST_ITER_MASK := 0\<rparr>)" "iter_req_stream (demo_client\<lparr>LAST_ITER_MASK := 0\<rparr>) 0 = []"
    by (simp add: demo_manifest_def, code_simp, code_simp, simp add: streams_inv_def demo_client_def,
        simp add: demo_client_def)
  from MMSP_ALG5_round [OF this] show ?thesis by blast
qed


section \<open>Dependencies between the layers\<close>

lemma set_full_layers: "(t, l) \<in> set (full_layers lo hi ts) \<longleftrightarrow> t \<in> set ts \<and> lo \<le> l \<and> l \<le> hi"
  by (auto simp: full_layers_def)

lemma full_layers_split:
  "lo \<le> a + 1 \<Longrightarrow> a \<le> n \<Longrightarrow> full_layers lo n ts = full_layers lo a ts @ full_layers (a + 1) n ts"
  by (cases "lo = a + 1") (simp_all add: full_layers_def upto_split2 [of lo a n])

lemma filled_dependency:
  assumes new: "new = full_layers 1 n ts @ map (\<lambda>t. (t, n + 1)) (take k ts)"
    and "i < length new" "new ! i = (t, l)" "1 \<le> l'" "l' < l"
  shows "\<exists>j < i. new ! j = (t, l')"
proof -
  have mem: "(t, l) \<in> set new" using assms(2,3) by (metis nth_mem)
  then have t: "t \<in> set ts" and l: "l \<le> n + 1"
    unfolding new by (auto simp: set_full_layers dest: in_set_takeD)
  have split: "new = full_layers 1 (l - 1) ts @ full_layers l n ts @ map (\<lambda>t. (t, n + 1)) (take k ts)"
    unfolding new using assms(4,5) l full_layers_split [of 1 "l - 1" n ts] by simp
  have i: "length (full_layers 1 (l - 1) ts) \<le> i"
  proof (rule ccontr)
    assume "\<not> length (full_layers 1 (l - 1) ts) \<le> i"
    then have "new ! i \<in> set (full_layers 1 (l - 1) ts)" unfolding split by (simp add: nth_append)
    with assms(3) show False by (simp add: set_full_layers)
  qed
  have "(t, l') \<in> set (full_layers 1 (l - 1) ts)" using t assms(4,5) by (simp add: set_full_layers)
  then obtain j where "j < length (full_layers 1 (l - 1) ts)" "full_layers 1 (l - 1) ts ! j = (t, l')"
    by (auto simp: in_set_conv_nth)
  with i show ?thesis unfolding split by (intro exI [of _ j]) (simp add: nth_append)
qed


text \<open>
  In such a round every layer of a tile is requested after all the lower enhancement layers of
  that tile, so that what arrives in order of request can be decoded.
\<close>

theorem MMSP_ALG5_dependency:
  assumes "mf_ALG m = 5" "el_turn m s c" "round_ok m it s (playing s + 1)" "streams_inv c"
    "iter_req_stream c it = []" "MMSP m it s c = Some (d, c')"
    and "i < length (tile_layers c' it)" "tile_layers c' it ! i = (t, l)" "1 \<le> l'" "l' < l"
  shows "\<exists>j < i. tile_layers c' it ! j = (t, l')"
proof -
  let ?c = "buffering_mode m (buff_sec s) (reset_round c)\<lparr>EL_seg_id := playing s + 1, LAST_ITER_MASK := 1\<rparr>"
  have none: "tile_layers c it = []" using assms(5) by (simp add: tile_layers_def requests_of_def)
  have "round_ok m it s (EL_seg_id ?c)" "streams_inv ?c" using assms(3,4) by simp_all
  from request_by_priority_ALG5 [OF assms(1) this] none obtain c1 s' new where
    r: "request_by_priority m it s ?c = Some c1" "tile_layers c1 it = new"
    and f: "filled (mf_enha_layer_br m) (alpha * est_thrp s) 1 (mf_EL_VER_NUM m) (priority s)
        (mf_base_layer_br m) new s'"
    by auto
  have "(d, c') = finish_decision it c1"
    using r(1) assms(1,6) by (simp add: MMSP_el_turn [OF assms(2)] request_enhancement_cases)
  then have new: "tile_layers c' it = new" using r(2) by (auto simp: finish_decision_def split: if_splits)
  from f obtain n k where "new = full_layers 1 n (priority s) @ map (\<lambda>t. (t, n + 1)) (take k (priority s))"
    unfolding filled_def by blast
  from filled_dependency [OF this] assms(7-10) show ?thesis unfolding new by blast
qed

theorem MMSP_ALG5_dependency_witness:
  "\<exists>d c'. MMSP (demo_manifest 5) 0 (demo_sense 3 1 2000) (demo_client\<lparr>LAST_ITER_MASK := 0\<rparr>) = Some (d, c') \<and>
     tile_layers c' 0 ! 4 = (3, 2) \<and> (\<exists>j < 4. tile_layers c' 0 ! j = (3, 1))"
proof -
  let ?c = "demo_client\<lparr>LAST_ITER_MASK := 0\<rparr>"
  have 1: "mf_ALG (demo_manifest 5) = 5" "el_turn (demo_manifest 5) (demo_sense 3 1 2000) ?c"
    "round_ok (demo_manifest 5) 0 (demo_sense 3 1 2000) (playing (demo_sense 3 1 2000) + 1)"
    "streams_inv ?c" "iter_req_stream ?c 0 = []"
    by (simp add: demo_manifest_def, code_simp, code_simp, simp add: streams_inv_def demo_client_def,
        simp add: demo_client_def)
  have "map_option (\<lambda>(d, c'). tile_layers c' 0) (MMSP (demo_manifest 5) 0 (demo_sense 3 1 2000) ?c)
      = Some [(2, 1), (3, 1), (1, 1), (2, 2), (3, 2), (1, 2)]"
    by code_simp
  then obtain d c' where r: "MMSP (demo_manifest 5) 0 (demo_sense 3 1 2000) ?c = Some (d, c')"
    and t: "tile_layers c' 0 = [(2, 1), (3, 1), (1, 1), (2, 2), (3, 2), (1, 2)]"
    by auto
  from MMSP_ALG5_dependency [OF 1 r, of 4 3 2 1] r t show ?thesis by auto
qed

section \<open>The base layer\<close>

lemma request_base_run:
  assumes "BL_seg_id c < mf_NO_SEG m" "0 \<le> BL_seg_id c" "0 < mf_NO_FACE m" "0 \<le> mf_EL_VER_NUM m"
    "in_iters m it" "streams_inv c" "iter_req_stream c it = []"
  shows "\<exists>c'. request_base m it c = Some c' \<and>
    requests_of c' it = [stream_info (BL_seg_id c) 0 0] \<and> iter_req_stream c' it = [cur_req_stream_id c + 2] \<and>
    req_s_num c' = 1 \<and> fin_s_num c' = 0 \<and> BL_seg_id c' = BL_seg_id c"
proof -
  let ?c = "c\<lparr>iter_tile_version := (iter_tile_version c)(it := 0)\<rparr>"
  have "streams_inv ?c" using assms(6) by (simp add: streams_inv_def)
  moreover have "in_cells m (BL_seg_id c, 0, 0)" using assms(1-4) by (simp add: in_cells_def)
  ultimately obtain c1 where
      c1: "request_layer m it (BL_seg_id c) 20 0 0 (mf_base_layer_br m) 0 ?c = Some (c1, cur_req_stream_id ?c + 2)"
      "iter_req_stream c1 = (iter_req_stream ?c)(it := iter_req_stream ?c it @ [cur_req_stream_id ?c + 2])"
      "requests_of c1 it = requests_of ?c it @ [stream_info (BL_seg_id c) 0 0]"
    using request_layer_ok [OF _ _ assms(5), of ?c "BL_seg_id c" 0 0 20 "mf_base_layer_br m" 0] by blast
  have "BL_seg_id c1 = BL_seg_id c"
    using request_layer_rest [OF c1(1)] by (simp add: engine_rest_def)
  with c1 assms(5,7) show ?thesis
    by (simp add: request_base_def set_tile_version_def requests_of_def)
qed

text \<open>
  When a base layer is due, a decision of either engine requests exactly the base layer of
  segment \<^verbatim>\<open>BL_seg_id\<close>, under the next stream id, and nothing else.
\<close>

theorem base_layer_round:
  assumes "BL_seg_id c < mf_NO_SEG m" "0 \<le> BL_seg_id c" "0 < mf_NO_FACE m" "0 \<le> mf_EL_VER_NUM m"
    "in_iters m it" "streams_inv c" "iter_req_stream c it = []"
    and "if mf_ALG m \<in> {5, 6, 7, 8, 9, 10, 11, 12, 13}
         then wants_base_MMSP m (buff_sec s) (buffering_mode m (buff_sec s) c)
         else wants_base_UTD m (buff_sec s)"
  shows "\<exists>c'. engine_for m it s c = Some (Requested, c') \<and>
    requests_of c' it = [\<lparr>si_sid = BL_seg_id c, si_fid = 0, si_lid = 0\<rparr>] \<and>
    iter_req_stream c' it = [cur_req_stream_id c + 2] \<and>
    req_s_num c' = 1 \<and> fin_s_num c' = 0 \<and> BL_seg_id c' = BL_seg_id c"
proof -
  define start where "start = (if mf_ALG m \<in> {5, 6, 7, 8, 9, 10, 11, 12, 13}
    then buffering_mode m (buff_sec s) (reset_round c) else reset_round c)"
  have fields: "BL_seg_id start = BL_seg_id c" "streams_inv start" "iter_req_stream start it = []"
    "cur_req_stream_id start = cur_req_stream_id c"
    using assms(6,7) by (simp_all add: start_def)
  obtain c1 where c1: "request_base m it start = Some c1"
    "requests_of c1 it = [stream_info (BL_seg_id c) 0 0]" "iter_req_stream c1 it = [cur_req_stream_id c + 2]"
    "req_s_num c1 = 1" "fin_s_num c1 = 0" "BL_seg_id c1 = BL_seg_id c"
    using request_base_run [of start m it] assms(1-5) fields by auto
  have "engine_for m it s c = Some (finish_decision it
      (if mf_ALG m \<in> {5, 6, 7, 8, 9, 10, 11, 12, 13} then c1\<lparr>LAST_ITER_MASK := 0\<rparr> else c1))"
    using c1(1,4) assms(1,8)
    by (auto simp: engine_for_def MMSP_def UTD2017_adaptation_vr_def start_def Let_def split: if_splits)
  with c1 show ?thesis
    by (auto simp: finish_decision_def requests_of_def)
qed

theorem base_layer_round_witness:
  "\<exists>c'. engine_for (demo_manifest 5) 0 (demo_sense 0 (- 1) 2000) demo_client = Some (Requested, c') \<and>
     requests_of c' 0 = [\<lparr>si_sid = 0, si_fid = 0, si_lid = 0\<rparr>] \<and> iter_req_stream c' 0 = [15]"
proof -
  have "wants_base_MMSP (demo_manifest 5) 0 (buffering_mode (demo_manifest 5) 0 demo_client)" by code_simp
  then have "\<exists>c'. engine_for (demo_manifest 5) 0 (demo_sense 0 (- 1) 2000) demo_client = Some (Requested, c') \<and>
    requests_of c' 0 = [stream_info (BL_seg_id demo_client) 0 0] \<and>
    iter_req_stream c' 0 = [cur_req_stream_id demo_client + 2] \<and>
    req_s_num c' = 1 \<and> fin_s_num c' = 0 \<and> BL_seg_id c' = BL_seg_id demo_client"
    by (intro base_layer_round)
      (simp_all add: demo_client_def demo_manifest_def demo_sense_def in_iters_def streams_inv_def)
  then show ?thesis by (auto simp: demo_client_def)
qed

end
