(* ===== verification/Layer_Bounds.thy ===== *)
theory Layer_Bounds
  imports Round_Requests
begin

text \<open>
  Algorithms 6 to 13: when the viewport error they average is undefined, and how the bounds
  \<^verbatim>\<open>min_layerId\<close> and \<^verbatim>\<open>max_layerId\<close> of algorithms 9, 10 and 13 evolve from round to round.
\<close>

section \<open>Reads of values that were never written\<close>

lemma mean_vp_err_early:
  assumes "0 < k" "playing s * mf_FPS m < k"
  shows "mean_vp_err m k s = None"
proof -
  have "aget (frame_vp_err s) (playing s * mf_FPS m - k) = None" using assms by (simp add: aget_None_iff)
  then have "None \<in> set (map (\<lambda>i. do { v \<leftarrow> aget (frame_vp_err s) (playing s * mf_FPS m - i); v }) [1..k])"
    using assms(1) by (force intro!: image_eqI [of _ _ k])
  then show ?thesis by (simp add: mean_vp_err_def those_None)
qed

text \<open>
  Algorithms 6, 7, 8 and 10 to 13 average the viewport error of the last three segments: an
  enhancement decision taken while segment 0, 1 or 2 is playing (or none) reads
  \<^verbatim>\<open>frame_vp_err\<close> at a negative index.
\<close>

theorem viewport_error_undefined:
  assumes "mf_ALG m \<in> {6, 7, 8, 10, 11, 12, 13}" "0 < mf_FPS m" "el_turn m s c" "playing s < 3"
  shows "MMSP m it s c = None"
proof -
  have "playing s * mf_FPS m < mf_FPS m * 3" using assms(2,4) by (simp add: mult.commute)
  then have "mean_vp_err m (mf_FPS m * 3) s = None" using assms(2) by (intro mean_vp_err_early) simp_all
  then have "request_by_priority m it s c' = None" for c'
    using assms(1) by (auto simp: request_by_priority_def Let_def)
  then show ?thesis
    using assms(1) by (auto simp: MMSP_el_turn [OF assms(3)] request_enhancement_cases)
qed

theorem viewport_error_undefined_witness:
  "MMSP (demo_manifest 6) 0 (demo_sense 3 1 2000) (demo_client\<lparr>LAST_ITER_MASK := 0\<rparr>) = None"
proof (rule viewport_error_undefined)
  show "el_turn (demo_manifest 6) (demo_sense 3 1 2000) (demo_client\<lparr>LAST_ITER_MASK := 0\<rparr>)" by code_simp
qed (simp_all add: demo_manifest_def demo_sense_def)

lemma fill_layer_track_unassigned:
  "fill_layer_track req enha budget l ts st = Some st' \<Longrightarrow> fst (snd st) = None \<Longrightarrow> fst (snd st') = None"
  by (cases st; cases "fst st"; cases ts) (auto split: option.splits if_splits bind_splits)

lemma fill_tracked_unassigned: "fill_tracked m it budget ts None (c, s, dep) = None"
proof -
  have "fst (snd r) = None"
    if "for_each (\<lambda>l. fill_layer_track req enha budget l ts) ls st = Some r" "fst (snd st) = None"
    for ls st r and req :: "int \<Rightarrow> int \<Rightarrow> int \<Rightarrow> int \<Rightarrow> Client \<Rightarrow> (Client \<times> int) option" and enha
    by (rule for_each_preserves [where P = "\<lambda>st. fst (snd st) = None", OF _ that])
      (rule fill_layer_track_unassigned)
  then show ?thesis
    by (cases "fill_layers_track (el_request m it) (mf_enha_layer_br m) budget (min_layerId c) (max_layerId c) ts
        ((c, s, dep), None, None)")
      (force simp: fill_tracked_def fill_layers_track_def)+
qed

text \<open>
  When the last five smoothed errors are all above 20, algorithm 13 widens the viewport and
  takes a branch that does not assign \<^verbatim>\<open>max_temp\<close> and \<^verbatim>\<open>min_temp\<close>; the round then reads them,
  whether or not it requests anything.
\<close>

theorem ALG13_widening_undefined:
  assumes "mf_ALG m = 13" "el_turn m s c" "6 < playing s"
    "all_above (seg_smooth_vp_err s) (map (\<lambda>k. playing s - k) [5, 4, 3, 2, 1]) = Some True"
  shows "MMSP m it s c = None"
proof -
  have "fill_alg13 m it budget pri s st = None" for budget pri st
    using assms(3,4) by (cases st) (auto simp: fill_alg13_def fill_tracked_unassigned Let_def)
  then have "request_by_priority m it s c' = None" for c'
    using assms(1) by (auto simp: request_by_priority_def Let_def)
  then show ?thesis
    using assms(1) by (auto simp: MMSP_el_turn [OF assms(2)] request_enhancement_cases)
qed

theorem ALG13_widening_undefined_witness:
  "MMSP (demo_manifest 13) 0 (demo_sense 3 8 2000) (demo_client\<lparr>LAST_ITER_MASK := 0\<rparr>) = None"
proof (rule ALG13_widening_undefined)
  show "el_turn (demo_manifest 13) (demo_sense 3 8 2000) (demo_client\<lparr>LAST_ITER_MASK := 0\<rparr>)" by code_simp
  show "all_above (seg_smooth_vp_err (demo_sense 3 8 2000))
     (map (\<lambda>k. playing (demo_sense 3 8 2000) - k) [5, 4, 3, 2, 1]) = Some True" by code_simp
qed (simp_all add: demo_manifest_def demo_sense_def)


section \<open>The bounds of algorithm 9\<close>

text \<open>The bounds a round starts with: those of the last round, moved into \<open>1..EL_VER_NUM\<close>.\<close>

definition lo_layer :: "Client \<Rightarrow> int" where
  "lo_layer c = max 1 (min_layerId c)"

definition hi_layer :: "Manifest \<Rightarrow> Client \<Rightarrow> int" where
  "hi_layer m c = min (mf_EL_VER_NUM m) (max_layerId c)"

lemma clamp_layers_bounds:
  "min_layerId (clamp_layers m c) = lo_layer c" "max_layerId (clamp_layers m c) = hi_layer m c"
  by (auto simp: clamp_layers_def lo_layer_def hi_layer_def Let_def)

lemma el_request_rest:
  "el_request m it t l br dep c = Some (c', i) \<Longrightarrow>
     min_layerId c' = min_layerId c \<and> max_layerId c' = max_layerId c"
  using request_layer_rest [of m it "EL_seg_id c" 20 t l br dep c c' i]
  by (simp add: el_request_def engine_rest_def)

text \<open>Nothing is requested below the lower bound.\<close>

definition above :: "int \<Rightarrow> int \<Rightarrow> Client \<Rightarrow> bool" where
  "above it lo c \<longleftrightarrow> streams_inv c \<and> (\<forall>p \<in> set (tile_layers c it). lo \<le> snd p)"

lemma el_request_above:
  assumes "el_request m it t l br dep c = Some (c', i)" "above it lo c" "lo \<le> l"
  shows "above it lo c'"
proof -
  have cells: "in_cells m (EL_seg_id c, t, l)" "in_iters m it"
    using assms(1) by (auto simp: el_request_def request_layer_def set3_def push_iter_def split: if_splits bind_splits prod.splits)
  have "streams_inv c" using assms(2) by (simp add: above_def)
  from request_layer_ok [OF this cells, of 20 br dep] assms(1)
  have "streams_inv c'" "requests_of c' it = requests_of c it @ [stream_info (EL_seg_id c) t l]"
    by (auto simp: el_request_def)
  with assms(2,3) show ?thesis by (auto simp: above_def tile_layers_def)
qed

lemma fill_alg9_above:
  assumes "fill_alg9 m it budget pri (c, s, dep) = Some (c', s', dep')" "above it (lo_layer c) c"
  shows "above it (lo_layer c) c'"
proof -
  let ?c = "clamp_layers m c"
  have start: "above it (lo_layer c) ?c"
    using assms(2) by (simp add: above_def clamp_layers_def Let_def streams_inv_def tile_layers_def requests_of_def)
  obtain c1 mx mn a b where r: "fill_layers_track (el_request m it) (mf_enha_layer_br m) budget
        (lo_layer c) (hi_layer m c) pri ((?c, s, dep), Some (lo_layer c), Some (hi_layer m c)) =
        Some ((c1, s', dep'), mx, mn)"
      "c' = c1\<lparr>max_layerId := a, min_layerId := b\<rparr>"
    using assms(1) by (auto simp: fill_alg9_def fill_tracked_def clamp_layers_bounds Let_def split: bind_splits prod.splits)
  have "above it (lo_layer c) (fst (fst ((c1, s', dep'), mx, mn)))"
    by (rule fill_layers_track_preserves [where P = "above it (lo_layer c)" and T = UNIV, OF _ subset_UNIV r(1)])
      (use start in \<open>auto intro: el_request_above\<close>)
  then show ?thesis
    by (simp add: r(2) above_def streams_inv_def tile_layers_def requests_of_def)
qed

text \<open>A round without budget leaves the bounds crossed.\<close>

lemma fill_alg9_starved:
  assumes "\<forall>l. lo_layer c \<le> l \<and> l \<le> hi_layer m c \<longrightarrow>
      l \<le> int (length (mf_enha_layer_br m)) \<and> budget \<le> of_int (s + mf_enha_layer_br m ! nat (l - 1))"
  shows "fill_alg9 m it budget pri (c, s, dep) =
    Some (clamp_layers m c\<lparr>max_layerId := lo_layer c + 1, min_layerId := hi_layer m c - 1\<rparr>, s, dep)"
proof -
  have one: "fill_layer_track req (mf_enha_layer_br m) budget l pri ((c1, s, dep), mx, mn) = Some ((c1, s, dep), mx, mn)"
    if "lo_layer c \<le> l" "l \<le> hi_layer m c" for l c1 mx mn req
    using assms that by (cases pri) (auto simp: aget_in lo_layer_def)
  have all: "for_each (\<lambda>l. fill_layer_track req (mf_enha_layer_br m) budget l pri) ls ((c1, s, dep), mx, mn)
      = Some ((c1, s, dep), mx, mn)"
    if "\<forall>l \<in> set ls. lo_layer c \<le> l \<and> l \<le> hi_layer m c" for ls c1 mx mn req
    using that by (induction ls) (simp_all add: one)
  then show ?thesis
    by (simp add: fill_alg9_def fill_tracked_def fill_layers_track_def clamp_layers_bounds Let_def all)
qed


lemma request_by_priority_ALG9:
  assumes "mf_ALG m = 9" "round_ok m it s sid"
  shows "request_by_priority m it s c = map_option (\<lambda>st. (fst st)\<lparr>fin_s_num := 0\<rparr>)
    (fill_alg9 m it (alpha * est_thrp s) (priority s)
      (c\<lparr>iter_tile_list := (iter_tile_list c)(it := iter_tile_list c it @ priority s)\<rparr>, mf_base_layer_br m, 0))"
  using assms
  by (cases "fill_alg9 m it (alpha * est_thrp s) (priority s)
      (c\<lparr>iter_tile_list := (iter_tile_list c)(it := iter_tile_list c it @ priority s)\<rparr>, mf_base_layer_br m, 0)")
    (simp_all add: request_by_priority_def sort_priority_run [OF assms(2)] note_tiles_run round_ok_def Let_def)

lemma start_bounds [simp]:
  "min_layerId (reset_round c) = min_layerId c" "max_layerId (reset_round c) = max_layerId c"
  "min_layerId (buffering_mode m b c) = min_layerId c" "max_layerId (buffering_mode m b c) = max_layerId c"
  by (simp_all add: reset_round_def buffering_mode_def Let_def)

text \<open>An enhancement decision of algorithm 9, up to the fields that do not matter here.\<close>

lemma MMSP_ALG9:
  assumes "mf_ALG m = 9" "el_turn m s c" "round_ok m it s (playing s + 1)"
  shows "\<exists>c0. min_layerId c0 = min_layerId c \<and> max_layerId c0 = max_layerId c \<and>
    streams_inv c0 = streams_inv c \<and> tile_layers c0 it = tile_layers c it \<and> req_s_num c0 = 0 \<and>
    MMSP m it s c = map_option (\<lambda>st. finish_decision it ((fst st)\<lparr>fin_s_num := 0\<rparr>))
      (fill_alg9 m it (alpha * est_thrp s) (priority s) (c0, mf_base_layer_br m, 0))"
proof -
  let ?c = "buffering_mode m (buff_sec s) (reset_round c)\<lparr>EL_seg_id := playing s + 1, LAST_ITER_MASK := 1\<rparr>"
  let ?noted = "?c\<lparr>iter_tile_list := (iter_tile_list ?c)(it := iter_tile_list ?c it @ priority s)\<rparr>"
  have "MMSP m it s c = map_option (\<lambda>st. finish_decision it ((fst st)\<lparr>fin_s_num := 0\<rparr>))
      (fill_alg9 m it (alpha * est_thrp s) (priority s) (?noted, mf_base_layer_br m, 0))"
  proof -
    have "request_enhancement m it s ?c = map_option (\<lambda>st. (fst st)\<lparr>fin_s_num := 0\<rparr>)
        (fill_alg9 m it (alpha * est_thrp s) (priority s) (?noted, mf_base_layer_br m, 0))"
      using assms(1) request_by_priority_ALG9 [OF assms(1,3), where c = ?c]
      by (simp only: request_enhancement_cases) simp
    then show ?thesis
      unfolding MMSP_el_turn [OF assms(2)]
      by (cases "fill_alg9 m it (alpha * est_thrp s) (priority s) (?noted, mf_base_layer_br m, 0)") simp_all
  qed
  then show ?thesis by (intro exI [of _ ?noted]) simp
qed

lemma MMSP_ALG9_starved:
  assumes "mf_ALG m = 9" "el_turn m s c" "round_ok m it s (playing s + 1)"
    "\<forall>l. lo_layer c \<le> l \<and> l \<le> hi_layer m c \<longrightarrow>
      9 / 10 * est_thrp s \<le> of_int (mf_base_layer_br m + mf_enha_layer_br m ! nat (l - 1))"
  shows "\<exists>c'. MMSP m it s c = Some (Wait, c') \<and> tile_layers c' it = tile_layers c it \<and>
    min_layerId c' = hi_layer m c - 1 \<and> max_layerId c' = lo_layer c + 1"
proof -
  from MMSP_ALG9 [OF assms(1-3)] obtain c0 where c0: "min_layerId c0 = min_layerId c" "max_layerId c0 = max_layerId c"
    "tile_layers c0 it = tile_layers c it" "req_s_num c0 = 0"
    "MMSP m it s c = map_option (\<lambda>st. finish_decision it ((fst st)\<lparr>fin_s_num := 0\<rparr>))
      (fill_alg9 m it (alpha * est_thrp s) (priority s) (c0, mf_base_layer_br m, 0))"
    by blast
  have b: "lo_layer c0 = lo_layer c" "hi_layer m c0 = hi_layer m c"
    using c0(1,2) by (simp_all add: lo_layer_def hi_layer_def)
  have "fill_alg9 m it (alpha * est_thrp s) (priority s) (c0, mf_base_layer_br m, 0) =
    Some (clamp_layers m c0\<lparr>max_layerId := lo_layer c0 + 1, min_layerId := hi_layer m c0 - 1\<rparr>, mf_base_layer_br m, 0)"
    using assms(3,4) by (intro fill_alg9_starved) (auto simp: b c0(2) alpha_def round_ok_def hi_layer_def)
  with c0 b show ?thesis
    by (auto simp: finish_decision_def clamp_layers_def Let_def tile_layers_def requests_of_def)
qed

lemma MMSP_ALG9_above:
  assumes "mf_ALG m = 9" "el_turn m s c" "round_ok m it s (playing s + 1)" "streams_inv c"
    "iter_req_stream c it = []" "MMSP m it s c = Some (d, c')" "(t, l) \<in> set (tile_layers c' it)"
  shows "lo_layer c \<le> l"
proof -
  from MMSP_ALG9 [OF assms(1-3)] obtain c0 where c0: "min_layerId c0 = min_layerId c" "streams_inv c0 = streams_inv c"
    "tile_layers c0 it = tile_layers c it"
    "MMSP m it s c = map_option (\<lambda>st. finish_decision it ((fst st)\<lparr>fin_s_num := 0\<rparr>))
      (fill_alg9 m it (alpha * est_thrp s) (priority s) (c0, mf_base_layer_br m, 0))"
    by blast
  with assms(6) obtain c1 s1 d1 where r: "fill_alg9 m it (alpha * est_thrp s) (priority s) (c0, mf_base_layer_br m, 0) = Some (c1, s1, d1)"
    "finish_decision it (c1\<lparr>fin_s_num := 0\<rparr>) = (d, c')"
    by auto
  have "above it (lo_layer c0) c0"
    using assms(4,5) c0(2,3) by (simp add: above_def tile_layers_def requests_of_def)
  from fill_alg9_above [OF r(1) this] have "above it (lo_layer c) c1" using c0(1) by (simp add: lo_layer_def)
  moreover have "tile_layers c' it = tile_layers c1 it"
    using r(2) by (auto simp: finish_decision_def tile_layers_def requests_of_def split: if_splits)
  ultimately show ?thesis using assms(7) by (auto simp: above_def)
qed


text \<open>
  A round of algorithm 9 for which the estimated throughput leaves no budget at all crosses its
  bounds: the next enhancement round requests no layer below \<^verbatim>\<open>EL_VER_NUM - 1\<close>, whatever its budget.
  With three layers or more it asks for layers that depend on layer 1 without asking for layer 1.
\<close>

theorem ALG9_skips_layers:
  assumes "mf_ALG m = 9" "2 \<le> mf_EL_VER_NUM m"
    and "el_turn m s1 c1" "round_ok m it1 s1 (playing s1 + 1)" "min_layerId c1 \<le> 1"
    "mf_EL_VER_NUM m \<le> max_layerId c1"
    "9 / 10 * est_thrp s1 \<le> of_int (mf_base_layer_br m + mf_enha_layer_br m ! 0)"
    "MMSP m it1 s1 c1 = Some (d1, c1')"
    and "el_turn m s2 c2" "round_ok m it2 s2 (playing s2 + 1)" "min_layerId c2 = min_layerId c1'"
    "streams_inv c2" "iter_req_stream c2 it2 = []"
    "MMSP m it2 s2 c2 = Some (d2, c3)" "(t, l) \<in> set (tile_layers c3 it2)"
  shows "d1 = Wait \<and> mf_EL_VER_NUM m - 1 \<le> l"
proof -
  have e: "lo_layer c1 = 1" "hi_layer m c1 = mf_EL_VER_NUM m"
    using assms(5,6) by (simp_all add: lo_layer_def hi_layer_def)
  have mono: "mf_enha_layer_br m ! 0 \<le> mf_enha_layer_br m ! nat (l - 1)" if "1 \<le> l" "l \<le> mf_EL_VER_NUM m" for l
    using assms(4) that by (intro sorted_nth_mono) (auto simp: round_ok_def)
  have "\<forall>l. lo_layer c1 \<le> l \<and> l \<le> hi_layer m c1 \<longrightarrow>
      9 / 10 * est_thrp s1 \<le> of_int (mf_base_layer_br m + mf_enha_layer_br m ! nat (l - 1))"
  proof (intro allI impI)
    fix l
    assume "lo_layer c1 \<le> l \<and> l \<le> hi_layer m c1"
    then have "mf_base_layer_br m + mf_enha_layer_br m ! 0 \<le> mf_base_layer_br m + mf_enha_layer_br m ! nat (l - 1)"
      using mono [of l] by (simp add: e)
    then show "9 / 10 * est_thrp s1 \<le> of_int (mf_base_layer_br m + mf_enha_layer_br m ! nat (l - 1))"
      using assms(7) by (simp only: flip: of_int_le_iff [where 'a = rat])
  qed
  from MMSP_ALG9_starved [OF assms(1,3,4) this] assms(8)
  have "d1 = Wait" "min_layerId c1' = mf_EL_VER_NUM m - 1" by (auto simp: e)
  with MMSP_ALG9_above [OF assms(1,9,10,12-15)] assms(2,11) show ?thesis by (simp add: lo_layer_def)
qed

theorem ALG9_skips_layers_witness:
  "\<exists>c1' d2 c3. MMSP (demo_manifest 9) 0 (demo_sense 3 1 1000) (demo_client\<lparr>LAST_ITER_MASK := 0\<rparr>) = Some (Wait, c1') \<and>
     MMSP (demo_manifest 9) 0 (demo_sense 3 1 9000) (c1'\<lparr>LAST_ITER_MASK := 0\<rparr>) = Some (d2, c3) \<and>
     tile_layers c3 0 = [(2, 2), (3, 2), (1, 2)]"
proof -
  let ?m = "demo_manifest 9" and ?s = "demo_sense 3 1 1000" and ?t = "demo_sense 3 1 9000"
  let ?c = "demo_client\<lparr>LAST_ITER_MASK := 0\<rparr>"
  have "map_option (\<lambda>(d, c). (d, map_option (\<lambda>(d, c). tile_layers c 0) (MMSP ?m 0 ?t (c\<lparr>LAST_ITER_MASK := 0\<rparr>)),
      el_turn ?m ?t (c\<lparr>LAST_ITER_MASK := 0\<rparr>), iter_req_stream c 0)) (MMSP ?m 0 ?s ?c)
    = Some (Wait, Some [(2, 2), (3, 2), (1, 2)], True, [])"
    by code_simp
  then obtain c1 d2 c3 where r: "MMSP ?m 0 ?s ?c = Some (Wait, c1)"
    "MMSP ?m 0 ?t (c1\<lparr>LAST_ITER_MASK := 0\<rparr>) = Some (d2, c3)" "tile_layers c3 0 = [(2, 2), (3, 2), (1, 2)]"
    "el_turn ?m ?t (c1\<lparr>LAST_ITER_MASK := 0\<rparr>)" "iter_req_stream c1 0 = []"
    by auto
  have inv: "streams_inv ?c" "iter_req_stream ?c 0 = []" by (simp_all add: streams_inv_def demo_client_def)
  have "streams_inv c1" using MMSP_decided [OF r(1) _ inv] by (auto simp: decided_def booked_def demo_manifest_def)
  moreover have "el_turn ?m ?s ?c \<and> round_ok ?m 0 ?s (playing ?s + 1) \<and> round_ok ?m 0 ?t (playing ?t + 1)"
    by code_simp
  ultimately have "Wait = Wait \<and> mf_EL_VER_NUM ?m - 1 \<le> 2"
    by (intro ALG9_skips_layers [OF _ _ _ _ _ _ _ r(1) r(4) _ _ _ _ r(2), where t = 2])
      (simp_all add: r demo_manifest_def demo_sense_def demo_client_def)
  then show ?thesis using r by blast
qed

end
