(* ===== verification/Version_Round.thy ===== *)
theory Version_Round
  imports Round_Requests
begin

text \<open>
  The rounds of \<^verbatim>\<open>UTD2017_adaptation_vr\<close>: algorithms 1 and 2, which request one version for all
  tiles of the viewport, and algorithm 3, which fills two layers by priority.
\<close>

definition el_turn_UTD :: "Manifest \<Rightarrow> Sense \<Rightarrow> Client \<Rightarrow> bool" where
  "el_turn_UTD m s c \<longleftrightarrow> \<not> (BL_seg_id c < mf_NO_SEG m \<and> wants_base_UTD m (buff_sec s)) \<and>
     playing s + 1 < mf_NO_SEG m \<and> aget (seg_EL_download c) (playing s + 1) = Some False"

lemma UTD_el_turn:
  assumes "el_turn_UTD m s c"
  shows "UTD2017_adaptation_vr m it s c = do {
    c \<leftarrow> request_enhancement_UTD m it s (reset_round c\<lparr>EL_seg_id := playing s + 1\<rparr>);
    Some (finish_decision it c) }"
  using assms by (auto simp: UTD2017_adaptation_vr_def el_turn_UTD_def Let_def)

section \<open>Algorithms 1 and 2\<close>

lemma el_request_ok:
  assumes "streams_inv c" "in_cells m (EL_seg_id c, t, l)" "in_iters m it"
  shows "\<exists>c' i. el_request m it t l br dep c = Some (c', i) \<and> streams_inv c' \<and> EL_seg_id c' = EL_seg_id c \<and>
    req_s_num c' = req_s_num c + 1 \<and> tile_layers c' it = tile_layers c it @ [(t, l)]"
proof -
  from request_layer_ok [OF assms, of 20 br dep] obtain c' where
    c': "request_layer m it (EL_seg_id c) 20 t l br dep c = Some (c', cur_req_stream_id c + 2)"
    "streams_inv c'" "requests_of c' it = requests_of c it @ [stream_info (EL_seg_id c) t l]"
    "req_s_num c' = req_s_num c + 1"
    by blast
  with request_layer_rest [OF c'(1)] show ?thesis
    by (auto simp: el_request_def engine_rest_def tile_layers_def)
qed

lemma request_pairs:
  assumes "in_iters m it" "streams_inv c"
    "\<forall>(t, l) \<in> set ps. in_cells m (EL_seg_id c, t, l) \<and> 1 \<le> l \<and> l \<le> int (length (mf_enha_layer_br m))"
  shows "\<exists>c' dep'. for_each (\<lambda>(t, layerId) (c, dep). do {
                br \<leftarrow> aget (mf_enha_layer_br m) (layerId - 1);
                (c, stream_id) \<leftarrow> el_request m it t layerId br dep c;
                c \<leftarrow> note_tile m it t c;
                Some (c, stream_id)
              }) ps (c, dep) = Some (c', dep') \<and>
    req_s_num c' = req_s_num c + int (length ps) \<and> tile_layers c' it = tile_layers c it @ ps"
  using assms(2,3)
proof (induction ps arbitrary: c dep)
  case (Cons p ps)
  obtain t l where p: "p = (t, l)" by fastforce
  obtain br where br: "aget (mf_enha_layer_br m) (l - 1) = Some br"
    using Cons.prems(2) p by (auto simp: aget_in)
  obtain c1 i where c1: "el_request m it t l br dep c = Some (c1, i)" "streams_inv c1" "EL_seg_id c1 = EL_seg_id c"
    "req_s_num c1 = req_s_num c + 1" "tile_layers c1 it = tile_layers c it @ [(t, l)]"
    using el_request_ok [OF Cons.prems(1) _ assms(1), of t l br dep] Cons.prems(2) p by auto
  obtain c2 where c2: "note_tile m it t c1 = Some c2" "streams_inv c2" "EL_seg_id c2 = EL_seg_id c"
    "req_s_num c2 = req_s_num c + 1" "tile_layers c2 it = tile_layers c it @ [(t, l)]"
    using c1 assms(1) by (auto simp: note_tile_def push_iter_def)
  have "\<forall>(t, l) \<in> set ps. in_cells m (EL_seg_id c2, t, l) \<and> 1 \<le> l \<and> l \<le> int (length (mf_enha_layer_br m))"
    using Cons.prems(2) c2(3) by simp
  from Cons.IH [OF c2(2) this, of i] obtain c' dep' where
    "for_each (\<lambda>(t, layerId) (c, dep). do {
                br \<leftarrow> aget (mf_enha_layer_br m) (layerId - 1);
                (c, stream_id) \<leftarrow> el_request m it t layerId br dep c;
                c \<leftarrow> note_tile m it t c;
                Some (c, stream_id)
              }) ps (c2, i) = Some (c', dep')"
    "req_s_num c' = req_s_num c2 + int (length ps)" "tile_layers c' it = tile_layers c2 it @ ps"
    by blast
  with c1(1) c2 br show ?case by (simp add: p)
qed simp

definition version_of :: "Manifest \<Rightarrow> Sense \<Rightarrow> nat" where
  "version_of m s = find_version (take (nat (mf_EL_VER_NUM m)) (mf_enha_layer_br m)) (mf_base_layer_br m)
     (int (length (viewport s))) (est_thrp s) 0 0"

lemma request_version_run:
  assumes "round_ok m it s (EL_seg_id c)" "streams_inv c"
  shows "\<exists>c'. request_version m it s c = Some c' \<and>
    req_s_num c' = req_s_num c + int (length (viewport s) * version_of m s) \<and>
    tile_layers c' it = tile_layers c it @ List.product (viewport s) [1..int (version_of m s)]"
proof -
  let ?v = "version_of m s" and ?brs = "take (nat (mf_EL_VER_NUM m)) (mf_enha_layer_br m)"
  have v: "?v \<le> nat (mf_EL_VER_NUM m)" "?v \<le> length (mf_enha_layer_br m)"
    using find_version_bounds [of 0 ?brs "mf_base_layer_br m" "int (length (viewport s))" "est_thrp s" 0]
    by (simp_all add: version_of_def)
  have brs: "\<not> (?v = length ?brs \<and> int (length ?brs) < mf_EL_VER_NUM m)" using assms(1) by (auto simp: round_ok_def min_def)
  let ?c = "c\<lparr>iter_tile_version := (iter_tile_version c)(it := int ?v)\<rparr>"
  have same: "streams_inv ?c = streams_inv c" "tile_layers ?c it = tile_layers c it"
    by (simp_all add: streams_inv_def tile_layers_def requests_of_def)
  have it: "in_iters m it" using assms(1) by (simp add: round_ok_def)
  have "\<forall>(t, l) \<in> set (List.product (viewport s) [1..int ?v]).
      in_cells m (EL_seg_id ?c, t, l) \<and> 1 \<le> l \<and> l \<le> int (length (mf_enha_layer_br m))"
    using assms(1) v by (auto simp: round_ok_def in_cells_def known_tiles_def)
  from request_pairs [OF it _ this, of 0] assms(2) same obtain c' dep' where
    r: "for_each (\<lambda>(t, layerId) (c, dep). do {
                br \<leftarrow> aget (mf_enha_layer_br m) (layerId - 1);
                (c, stream_id) \<leftarrow> el_request m it t layerId br dep c;
                c \<leftarrow> note_tile m it t c;
                Some (c, stream_id)
              }) (List.product (viewport s) [1..int ?v]) (?c, 0) = Some (c', dep')"
      "req_s_num c' = req_s_num c + int (length (List.product (viewport s) [1..int ?v]))"
      "tile_layers c' it = tile_layers c it @ List.product (viewport s) [1..int ?v]"
    by auto
  show ?thesis
  proof (cases "?v = 0")
    case True
    then have "List.product (viewport s) [1..int ?v] = []" by (simp add: product_concat_map)
    with True show ?thesis using brs by (simp add: request_version_def Let_def version_of_def [symmetric])
  next
    case False
    then show ?thesis
      using brs r it by (simp add: request_version_def Let_def version_of_def [symmetric] set_tile_version_def length_product)
  qed
qed


lemma reset_fields [simp]: "iter_req_stream c it = [] \<Longrightarrow> tile_layers c it = []"
  by (simp add: tile_layers_def requests_of_def)

text \<open>
  A decision of algorithm 1 or 2 that enhances the next segment requests, tile after tile, the
  layers 1 to \<open>v\<close> of every tile of the viewport and nothing else, where \<open>v\<close> is the largest number of
  layers that fit the estimated throughput for the whole viewport on top of the base layer.
\<close>

theorem version_round:
  assumes "mf_ALG m = 1 \<or> mf_ALG m = 2" "el_turn_UTD m s c" "round_ok m it s (playing s + 1)"
    "streams_inv c" "iter_req_stream c it = []" "\<forall>br \<in> set (mf_enha_layer_br m). 0 \<le> br"
  shows "\<exists>c' v. engine_for m it s c = Some (if v = 0 then Wait else Requested, c') \<and>
    tile_layers c' it = List.product (viewport s) [1..int v] \<and>
    req_s_num c' = int (length (viewport s) * v) \<and>
    (\<forall>k. k \<le> v \<longleftrightarrow> k = 0 \<or> int k \<le> mf_EL_VER_NUM m \<and>
       of_int (mf_base_layer_br m + sum_list (take k (mf_enha_layer_br m)) * int (length (viewport s))) \<le> est_thrp s)"
proof -
  let ?c = "reset_round c\<lparr>EL_seg_id := playing s + 1\<rparr>" and ?v = "version_of m s"
  have "round_ok m it s (EL_seg_id ?c)" "streams_inv ?c" using assms(3,4) by simp_all
  from request_version_run [OF this] obtain c' where r: "request_version m it s ?c = Some c'"
    "req_s_num c' = int (length (viewport s) * ?v)" "tile_layers c' it = List.product (viewport s) [1..int ?v]"
    using assms(5) by auto
  have run: "engine_for m it s c = Some (finish_decision it c')"
    using r(1) assms(1) by (auto simp: engine_for_def UTD_el_turn [OF assms(2)] request_enhancement_cases)
  have ne: "viewport s \<noteq> []" using assms(3) by (simp add: round_ok_def)
  have fin: "finish_decision it c' = (if ?v = 0 then Wait else Requested, snd (finish_decision it c'))"
    "tile_layers (snd (finish_decision it c')) it = List.product (viewport s) [1..int ?v]"
    "req_s_num (snd (finish_decision it c')) = int (length (viewport s) * ?v)"
    using r(2,3) ne by (auto simp: finish_decision_def)
  have "\<forall>br \<in> set (take (nat (mf_EL_VER_NUM m)) (mf_enha_layer_br m)). 0 \<le> br"
    using assms(6) by (auto dest: in_set_takeD)
  then have "k \<le> ?v \<longleftrightarrow> k = 0 \<or> int k \<le> mf_EL_VER_NUM m \<and>
       of_int (mf_base_layer_br m + sum_list (take k (mf_enha_layer_br m)) * int (length (viewport s))) \<le> est_thrp s" for k
    using assms(3) by (auto simp: version_of_def find_version_iff round_ok_def min_absorb1 le_nat_iff)
  with run fin show ?thesis by (intro exI [of _ "snd (finish_decision it c')"] exI [of _ ?v]) simp
qed

theorem version_round_witness:
  "\<exists>c' v. engine_for (demo_manifest 1) 0 (demo_sense 3 1 1800) demo_client
      = Some (if v = 0 then Wait else Requested, c') \<and> tile_layers c' 0 = List.product [1, 2, 3] [1..int v] \<and> 2 \<le> v"
proof -
  have "el_turn_UTD (demo_manifest 1) (demo_sense 3 1 1800) demo_client \<and>
      round_ok (demo_manifest 1) 0 (demo_sense 3 1 1800) (playing (demo_sense 3 1 1800) + 1)"
    by code_simp
  moreover have "streams_inv demo_client" "iter_req_stream demo_client 0 = []"
    by (simp_all add: streams_inv_def demo_client_def)
  ultimately obtain c' v where "engine_for (demo_manifest 1) 0 (demo_sense 3 1 1800) demo_client
      = Some (if v = 0 then Wait else Requested, c')"
    "tile_layers c' 0 = List.product (viewport (demo_sense 3 1 1800)) [1..int v]"
    and v: "\<forall>k. k \<le> v \<longleftrightarrow> k = 0 \<or> int k \<le> mf_EL_VER_NUM (demo_manifest 1) \<and>
       of_int (mf_base_layer_br (demo_manifest 1) + sum_list (take k (mf_enha_layer_br (demo_manifest 1)))
         * int (length (viewport (demo_sense 3 1 1800)))) \<le> est_thrp (demo_sense 3 1 1800)"
    using version_round [of "demo_manifest 1" "demo_sense 3 1 1800" demo_client 0]
    by (auto simp: demo_manifest_def)
  moreover have "2 \<le> v" using v [rule_format, of 2] by (simp add: demo_manifest_def demo_sense_def)
  moreover have "viewport (demo_sense 3 1 1800) = [1, 2, 3]" by (simp add: demo_sense_def)
  ultimately show ?thesis by metis
qed

end
