(* ===== verification/Segment_Buffer.thy ===== *)
theory Segment_Buffer
  imports VR_Prelude
begin

text \<open>
  Class \<^verbatim>\<open>Buffer\<close> of \<^verbatim>\<open>duc_metric.h\<close>: which quality layers of which tile of which segment have
  arrived. \<open>tile_ver\<close> is the three-dimensional array of the code (segment, tile, layer) with
  -1 for a layer that has not arrived. The version of a tile is the highest layer such that it
  and all layers below it have arrived. The mutex only serialises the two operations, each of
  which is one step here.

  What clients of the buffer rely on is the locale \<open>layer_store\<close>: the number of usable layers
  of a tile as an observer, and the laws of storing one layer.
\<close>

record Buffer =
  bf_NO_SEG :: int
  bf_NO_TILE :: int
  bf_NO_LAYER :: int
  tile_ver :: "int list list list"

definition buffer_init :: "int \<Rightarrow> int \<Rightarrow> int \<Rightarrow> Buffer" where
  "buffer_init NO_SEG NO_TILE NO_LAYER =
     \<lparr>bf_NO_SEG = NO_SEG, bf_NO_TILE = NO_TILE, bf_NO_LAYER = NO_LAYER,
      tile_ver = replicate (nat NO_SEG) (replicate (nat NO_TILE) (replicate (nat NO_LAYER) (-1)))\<rparr>"

text \<open>The loop over the layers; \<open>ret[i]\<close> is \<open>None\<close> as long as it has not been assigned.\<close>

fun version_scan :: "int list \<Rightarrow> int list \<Rightarrow> int option \<Rightarrow> int option option" where
  "version_scan row [] r = Some r"
| "version_scan row (j # js) r = (case aget row j of
     None \<Rightarrow> None
   | Some v \<Rightarrow> if v = -1 then Some r else version_scan row js (Some j))"

definition get_tile_version :: "Buffer \<Rightarrow> int \<Rightarrow> int option list option" where
  "get_tile_version b seg_id =
     those (map (\<lambda>i. do {
         seg \<leftarrow> aget (tile_ver b) seg_id;
         row \<leftarrow> aget seg i;
         version_scan row [0..bf_NO_LAYER b - 1] None
       }) [0..bf_NO_TILE b - 1])"

definition set_layer :: "int \<Rightarrow> int \<Rightarrow> int \<Rightarrow> Buffer \<Rightarrow> Buffer option" where
  "set_layer seg_id tile layerId b = do {
     seg \<leftarrow> aget (tile_ver b) seg_id;
     row \<leftarrow> aget seg tile;
     row \<leftarrow> aset row layerId 1;
     seg \<leftarrow> aset seg tile row;
     ver \<leftarrow> aset (tile_ver b) seg_id seg;
     Some (b\<lparr>tile_ver := ver\<rparr>)
   }"

definition update_tile_version :: "Buffer \<Rightarrow> int \<Rightarrow> int \<Rightarrow> int \<Rightarrow> Buffer option" where
  "update_tile_version b seg_id face_id layerId =
     (if face_id = 0
      then for_each (\<lambda>i. set_layer seg_id i 0) [0..bf_NO_TILE b - 1] b
      else set_layer seg_id (face_id - 1) layerId b)"

section \<open>Well-formed buffers\<close>

definition buffer_wf :: "Buffer \<Rightarrow> bool" where
  "buffer_wf b \<longleftrightarrow>
     length (tile_ver b) = nat (bf_NO_SEG b) \<and>
     (\<forall>seg \<in> set (tile_ver b). length seg = nat (bf_NO_TILE b) \<and>
        (\<forall>row \<in> set seg. length row = nat (bf_NO_LAYER b)))"

definition dims :: "Buffer \<Rightarrow> int \<times> int \<times> int" where
  "dims b = (bf_NO_SEG b, bf_NO_TILE b, bf_NO_LAYER b)"

definition slot :: "int \<times> int \<times> int \<Rightarrow> int \<Rightarrow> int \<Rightarrow> bool" where
  "slot = (\<lambda>(S, T, L) s t. 0 \<le> s \<and> s < S \<and> 0 \<le> t \<and> t < T)"

definition layers_of :: "Buffer \<Rightarrow> int \<Rightarrow> int \<Rightarrow> int list" where
  "layers_of b s t = tile_ver b ! nat s ! nat t"

text \<open>The number of usable layers: the received layers from the base on without a gap.\<close>

definition usable :: "Buffer \<Rightarrow> int \<Rightarrow> int \<Rightarrow> nat" where
  "usable b s t = length (takeWhile (\<lambda>v. v \<noteq> -1) (layers_of b s t))"

lemma buffer_wf_init: "buffer_wf (buffer_init S T L)"
  by (auto simp: buffer_wf_def buffer_init_def)

lemma usable_init: "slot (S, T, L) s t \<Longrightarrow> usable (buffer_init S T L) s t = 0"
  by (cases "nat L") (auto simp: slot_def dims_def usable_def layers_of_def buffer_init_def)

lemma slot_reads:
  assumes "buffer_wf b" "slot (dims b) s t"
  shows "\<exists>seg. aget (tile_ver b) s = Some seg \<and> aget seg t = Some (layers_of b s t) \<and>
           length seg = nat (bf_NO_TILE b) \<and> length (layers_of b s t) = nat (bf_NO_LAYER b)"
proof -
  have s: "nat s < length (tile_ver b)" "0 \<le> s" using assms by (auto simp: buffer_wf_def slot_def dims_def)
  let ?seg = "tile_ver b ! nat s"
  have seg: "?seg \<in> set (tile_ver b)" using s by simp
  have t: "nat t < length ?seg" "0 \<le> t" using assms seg by (auto simp: buffer_wf_def slot_def dims_def)
  have row: "layers_of b s t \<in> set ?seg" using t by (simp add: layers_of_def)
  have "length ?seg = nat (bf_NO_TILE b)" "length (layers_of b s t) = nat (bf_NO_LAYER b)"
    using assms(1) seg row by (auto simp: buffer_wf_def)
  moreover have "aget (tile_ver b) s = Some ?seg" "aget ?seg t = Some (layers_of b s t)"
    using s t by (simp_all add: aget_in layers_of_def)
  ultimately show ?thesis by blast
qed

lemma set_layer_step:
  assumes "buffer_wf b" "slot (dims b) s t" "0 \<le> l" "l < bf_NO_LAYER b"
  shows "\<exists>b'. set_layer s t l b = Some b' \<and> buffer_wf b' \<and> dims b' = dims b \<and>
    (\<forall>s' t'. slot (dims b) s' t' \<longrightarrow> layers_of b' s' t' =
       (if (s', t') = (s, t) then (layers_of b s t)[nat l := 1] else layers_of b s' t'))"
proof -
  obtain seg where seg: "aget (tile_ver b) s = Some seg" "aget seg t = Some (layers_of b s t)"
      "length seg = nat (bf_NO_TILE b)" "length (layers_of b s t) = nat (bf_NO_LAYER b)"
    using slot_reads [OF assms(1,2)] by blast
  have s: "0 \<le> s" "nat s < length (tile_ver b)" "seg = tile_ver b ! nat s"
    and t: "0 \<le> t" "nat t < length seg"
    using seg assms by (auto simp: aget_Some_iff slot_def dims_def)
  let ?row = "(layers_of b s t)[nat l := 1]"
  let ?b = "b\<lparr>tile_ver := (tile_ver b)[nat s := seg[nat t := ?row]]\<rparr>"
  have run: "set_layer s t l b = Some ?b"
    using seg s t assms by (simp add: set_layer_def aset_def)
  have wf_seg: "length x = nat (bf_NO_TILE b) \<and> (\<forall>row \<in> set x. length row = nat (bf_NO_LAYER b))"
    if "x \<in> set (tile_ver b)" for x
    using assms(1) that by (auto simp: buffer_wf_def)
  have seg_rows: "\<forall>row \<in> set (seg[nat t := ?row]). length row = nat (bf_NO_LAYER b)"
  proof
    fix row
    assume "row \<in> set (seg[nat t := ?row])"
    then have "row = ?row \<or> row \<in> set seg" using set_update_subset_insert [of seg "nat t" ?row] by blast
    moreover have "seg \<in> set (tile_ver b)" using s by simp
    ultimately show "length row = nat (bf_NO_LAYER b)" using wf_seg seg(4) by auto
  qed
  have "buffer_wf ?b"
    unfolding buffer_wf_def
  proof (intro conjI ballI)
    show "length (tile_ver ?b) = nat (bf_NO_SEG ?b)" using assms(1) by (simp add: buffer_wf_def)
  next
    fix x
    assume "x \<in> set (tile_ver ?b)"
    then have x: "x = seg[nat t := ?row] \<or> x \<in> set (tile_ver b)"
      using set_update_subset_insert [of "tile_ver b" "nat s" "seg[nat t := ?row]"] by auto
    then show "length x = nat (bf_NO_TILE ?b)" using wf_seg seg(3) by auto
    fix row
    assume "row \<in> set x"
    with x show "length row = nat (bf_NO_LAYER ?b)" using wf_seg seg_rows by auto
  qed
  moreover have "layers_of ?b s' t' =
      (if (s', t') = (s, t) then ?row else layers_of b s' t')" if "slot (dims b) s' t'" for s' t'
  proof -
    have "nat s' < length (tile_ver b)" "0 \<le> s'" "0 \<le> t'"
      using that assms(1) by (auto simp: slot_def dims_def buffer_wf_def)
    with s t show ?thesis by (auto simp: layers_of_def nth_list_update nat_eq_iff2)
  qed
  ultimately show ?thesis using run by (auto simp: dims_def)
qed

text \<open>The scan computes the number of usable layers.\<close>

lemma version_scan_eq:
  assumes "k \<le> length row"
  shows "version_scan row [int k..int (length row) - 1] r =
    Some (let n = length (takeWhile (\<lambda>v. v \<noteq> -1) (drop k row)) in
          if n = 0 then r else Some (int (k + n) - 1))"
  using assms
proof (induction "length row - k" arbitrary: k r)
  case 0
  then show ?case by simp
next
  case (Suc d)
  then have k: "k < length row" by simp
  then have l: "[int k..int (length row) - 1] = int k # [int (Suc k)..int (length row) - 1]"
    by (subst upto_rec1) (auto simp: add.commute)
  have dr: "drop k row = row ! k # drop (Suc k) row" using k by (rule Cons_nth_drop_Suc [symmetric])
  have IH: "version_scan row [int (Suc k)..int (length row) - 1] (Some (int k)) =
      Some (let n = length (takeWhile (\<lambda>v. v \<noteq> -1) (drop (Suc k) row)) in
          if n = 0 then Some (int k) else Some (int (Suc k + n) - 1))"
    using Suc k by (intro Suc.hyps) auto
  show ?case
    unfolding l version_scan.simps using k
    by (simp add: aget_in dr IH Let_def del: of_nat_Suc)
qed

lemma get_tile_version_usable:
  assumes "buffer_wf b" "0 \<le> s" "s < bf_NO_SEG b" "0 \<le> bf_NO_LAYER b"
  shows "get_tile_version b s =
    Some (map (\<lambda>t. if usable b s t = 0 then None else Some (int (usable b s t) - 1))
           [0..bf_NO_TILE b - 1])"
  unfolding get_tile_version_def
proof (rule those_map_Some)
  fix t
  assume "t \<in> set [0..bf_NO_TILE b - 1]"
  then have "slot (dims b) s t" using assms by (auto simp: slot_def dims_def)
  then obtain seg where seg: "aget (tile_ver b) s = Some seg" "aget seg t = Some (layers_of b s t)"
      "length (layers_of b s t) = nat (bf_NO_LAYER b)"
    using slot_reads [OF assms(1)] by blast
  have L: "bf_NO_LAYER b = int (length (layers_of b s t))" using seg(3) assms(4) by simp
  show "do { seg \<leftarrow> aget (tile_ver b) s; row \<leftarrow> aget seg t;
             version_scan row [0..bf_NO_LAYER b - 1] None }
      = Some (if usable b s t = 0 then None else Some (int (usable b s t) - 1))"
    using version_scan_eq [of 0 "layers_of b s t" None] seg unfolding L
    by (simp add: usable_def Let_def)
qed


section \<open>The interface of the buffer\<close>

text \<open>
  \<open>held b s t\<close> are the layers of tile \<open>t\<close> of segment \<open>s\<close> that have arrived; a delivery
  \<open>(s, x)\<close> adds the layers \<open>covers x t\<close> to every tile \<open>t\<close> of its segment and nothing else; the
  usable layers are those below the first gap.
\<close>

locale layer_store =
  fixes ok :: "'b \<Rightarrow> bool"
    and shape :: "'b \<Rightarrow> 'h"
    and place :: "'h \<Rightarrow> int \<Rightarrow> int \<Rightarrow> bool"
    and held :: "'b \<Rightarrow> int \<Rightarrow> int \<Rightarrow> int set"
    and level :: "'b \<Rightarrow> int \<Rightarrow> int \<Rightarrow> nat"
    and valid :: "'h \<Rightarrow> int \<Rightarrow> 'x \<Rightarrow> bool"
    and covers :: "'x \<Rightarrow> int \<Rightarrow> int set"
    and store :: "'b \<Rightarrow> int \<Rightarrow> 'x \<Rightarrow> 'b option"
  assumes store_total: "ok b \<Longrightarrow> valid (shape b) s x \<Longrightarrow> \<exists>b'. store b s x = Some b'"
    and store_ok: "ok b \<Longrightarrow> valid (shape b) s x \<Longrightarrow> store b s x = Some b' \<Longrightarrow> ok b'"
    and store_shape: "ok b \<Longrightarrow> valid (shape b) s x \<Longrightarrow> store b s x = Some b' \<Longrightarrow> shape b' = shape b"
    and store_held: "ok b \<Longrightarrow> valid (shape b) s x \<Longrightarrow> store b s x = Some b' \<Longrightarrow> place (shape b) s' t \<Longrightarrow>
          held b' s' t = held b s' t \<union> (if s' = s then covers x t else {})"
    and level_iff: "ok b \<Longrightarrow> place (shape b) s t \<Longrightarrow>
          k < level b s t \<longleftrightarrow> (\<forall>j \<le> k. int j \<in> held b s t)"
begin

text \<open>A sequence of deliveries, in any order, leaves exactly what was there and what it brought.\<close>

lemma deliveries:
  assumes "ok b" "\<forall>(s, x) \<in> set ds. valid (shape b) s x"
  shows "\<exists>b'. for_each (\<lambda>(s, x) b. store b s x) ds b = Some b' \<and> ok b' \<and> shape b' = shape b \<and>
    (\<forall>s t. place (shape b) s t \<longrightarrow>
       held b' s t = held b s t \<union> (\<Union>x \<in> {x. (s, x) \<in> set ds}. covers x t))"
  using assms
proof (induction ds arbitrary: b)
  case (Cons d ds)
  obtain s x where d: "d = (s, x)" by fastforce
  with Cons.prems have v: "valid (shape b) s x" by auto
  obtain b1 where b1: "store b s x = Some b1" using store_total [OF Cons.prems(1) v] by blast
  note law = Cons.prems(1) v b1
  have sh: "shape b1 = shape b" by (rule store_shape [OF law])
  have "\<forall>(s, x) \<in> set ds. valid (shape b1) s x" using Cons.prems(2) sh by auto
  from Cons.IH [OF store_ok [OF law] this] obtain b' where b':
      "for_each (\<lambda>(s, x) b. store b s x) ds b1 = Some b'" "ok b'" "shape b' = shape b"
      "\<And>s t. place (shape b) s t \<Longrightarrow>
         held b' s t = held b1 s t \<union> (\<Union>x \<in> {x. (s, x) \<in> set ds}. covers x t)"
    unfolding sh by blast
  have "held b' s' t = held b s' t \<union> (\<Union>y \<in> {y. (s', y) \<in> set (d # ds)}. covers y t)"
    if "place (shape b) s' t" for s' t
    using b'(4) [OF that] store_held [OF law that] d by auto
  with b'(1-3) b1 d show ?case by auto
qed simp

text \<open>
  So the level of a tile depends on what was delivered, not on the order, and further deliveries
  never lower it.
\<close>

lemma level_deliveries:
  assumes "ok b" "\<forall>(s, x) \<in> set ds. valid (shape b) s x" "place (shape b) s t" "held b s t = {}"
    and "for_each (\<lambda>(s, x) b. store b s x) ds b = Some b'"
  shows "k < level b' s t \<longleftrightarrow> (\<forall>j \<le> k. \<exists>x. (s, x) \<in> set ds \<and> int j \<in> covers x t)"
proof -
  obtain "ok b'" "shape b' = shape b" "held b' s t = (\<Union>x \<in> {x. (s, x) \<in> set ds}. covers x t)"
    using deliveries [OF assms(1,2)] assms(3-5) by auto
  then show ?thesis using level_iff [of b' s t k] assms(3) by auto
qed

lemma level_mono:
  assumes "ok b" "\<forall>(s, x) \<in> set ds. valid (shape b) s x" "place (shape b) s t"
    and "for_each (\<lambda>(s, x) b. store b s x) ds b = Some b'"
  shows "level b s t \<le> level b' s t"
proof (rule ccontr)
  assume "\<not> level b s t \<le> level b' s t"
  then have "\<forall>j \<le> level b' s t. int j \<in> held b s t"
    using level_iff [OF assms(1,3), of "level b' s t"] by (simp only: not_le)
  moreover obtain "ok b'" "shape b' = shape b" "held b s t \<subseteq> held b' s t"
    using deliveries [OF assms(1,2)] assms(3,4) by auto
  ultimately have "ok b'" "place (shape b') s t" "\<forall>j \<le> level b' s t. int j \<in> held b' s t"
    using assms(3) by (simp_all add: subset_iff)
  then have "level b' s t < level b' s t" using level_iff [of b' s t] by blast
  then show False by simp
qed

end

section \<open>The code's buffer provides the interface\<close>

definition held_layers :: "Buffer \<Rightarrow> int \<Rightarrow> int \<Rightarrow> int set" where
  "held_layers b s t = {l. 0 \<le> l \<and> l < int (length (layers_of b s t)) \<and> layers_of b s t ! nat l \<noteq> -1}"

definition valid_delivery :: "int \<times> int \<times> int \<Rightarrow> int \<Rightarrow> int \<times> int \<Rightarrow> bool" where
  "valid_delivery = (\<lambda>(S, T, L) s (face_id, layerId).
     0 \<le> s \<and> s < S \<and> 1 \<le> L \<and> 0 \<le> face_id \<and> face_id \<le> T \<and>
     (face_id \<noteq> 0 \<longrightarrow> 0 \<le> layerId \<and> layerId < L))"

definition delivery_covers :: "int \<times> int \<Rightarrow> int \<Rightarrow> int set" where
  "delivery_covers = (\<lambda>(face_id, layerId) t.
     if face_id = 0 then {0} else if t = face_id - 1 then {layerId} else {})"

definition deliver :: "Buffer \<Rightarrow> int \<Rightarrow> int \<times> int \<Rightarrow> Buffer option" where
  "deliver b s = (\<lambda>(face_id, layerId). update_tile_version b s face_id layerId)"

lemma usable_iff_held:
  "k < usable b s t \<longleftrightarrow> (\<forall>j \<le> k. int j \<in> held_layers b s t)"
proof -
  let ?row = "layers_of b s t"
  have "k < usable b s t \<longleftrightarrow> (\<forall>j \<le> k. j < length ?row \<and> ?row ! j \<noteq> -1)"
  proof
    assume "k < usable b s t"
    then show "\<forall>j \<le> k. j < length ?row \<and> ?row ! j \<noteq> -1"
      unfolding usable_def
      by (metis (mono_tags, lifting) length_takeWhile_le nth_mem order.strict_trans2 order_le_less_trans
          set_takeWhileD takeWhile_nth)
  next
    assume all: "\<forall>j \<le> k. j < length ?row \<and> ?row ! j \<noteq> -1"
    show "k < usable b s t"
    proof (rule ccontr)
      assume "\<not> k < usable b s t"
      then have le: "usable b s t \<le> k" by simp
      with all have "usable b s t < length ?row" by blast
      then have "\<not> ?row ! usable b s t \<noteq> -1" unfolding usable_def by (rule nth_length_takeWhile)
      with all le show False by blast
    qed
  qed
  then show ?thesis by (simp add: held_layers_def)
qed

lemma set_layer_held:
  assumes "buffer_wf b" "slot (dims b) s t" "0 \<le> l" "l < bf_NO_LAYER b"
  shows "\<exists>b'. set_layer s t l b = Some b' \<and> buffer_wf b' \<and> dims b' = dims b \<and>
    (\<forall>s' t'. slot (dims b) s' t' \<longrightarrow> held_layers b' s' t' =
       held_layers b s' t' \<union> (if (s', t') = (s, t) then {l} else {}))"
proof -
  obtain b' where b': "set_layer s t l b = Some b'" "buffer_wf b'" "dims b' = dims b"
      "\<forall>s' t'. slot (dims b) s' t' \<longrightarrow> layers_of b' s' t' =
         (if (s', t') = (s, t) then (layers_of b s t)[nat l := 1] else layers_of b s' t')"
    using set_layer_step [OF assms] by blast
  have "length (layers_of b s t) = nat (bf_NO_LAYER b)" using slot_reads [OF assms(1,2)] by blast
  then have "nat l < length (layers_of b s t)" using assms by simp
  then have "{k. 0 \<le> k \<and> k < int (length (layers_of b s t)) \<and> (layers_of b s t)[nat l := 1] ! nat k \<noteq> -1}
      = held_layers b s t \<union> {l}"
    using assms(3) by (auto simp: held_layers_def nth_list_update)
  with b' show ?thesis by (auto simp: held_layers_def)
qed

lemma deliver_base:
  assumes "buffer_wf b" "0 \<le> s" "s < bf_NO_SEG b" "1 \<le> bf_NO_LAYER b"
  shows "\<exists>b'. for_each (\<lambda>i. set_layer s i 0) [0..bf_NO_TILE b - 1] b = Some b' \<and>
    buffer_wf b' \<and> dims b' = dims b \<and>
    (\<forall>s' t'. slot (dims b) s' t' \<longrightarrow> held_layers b' s' t' =
       held_layers b s' t' \<union> (if s' = s \<and> t' \<in> set [0..bf_NO_TILE b - 1] then {0} else {}))"
proof -
  define I where "I ds b' \<longleftrightarrow> buffer_wf b' \<and> dims b' = dims b \<and>
      (\<forall>s' t'. slot (dims b) s' t' \<longrightarrow> held_layers b' s' t' =
         held_layers b s' t' \<union> (if s' = s \<and> t' \<in> set ds then {0} else {}))" for ds b'
  have "\<exists>b'. for_each (\<lambda>i. set_layer s i 0) [0..bf_NO_TILE b - 1] b = Some b' \<and> I [0..bf_NO_TILE b - 1] b'"
  proof (rule for_each_rule)
    show "I [] b" using assms by (simp add: I_def dims_def)
  next
    fix ds i rest b1
    assume split: "[0..bf_NO_TILE b - 1] = ds @ i # rest" and inv: "I ds b1"
    have "i \<in> set [0..bf_NO_TILE b - 1]" unfolding split by simp
    then have i: "0 \<le> i" "i < bf_NO_TILE b" by simp_all
    have b1: "buffer_wf b1" "dims b1 = dims b" "slot (dims b1) s i" "0 < bf_NO_LAYER b1"
        "\<And>s' t'. slot (dims b1) s' t' \<longleftrightarrow> slot (dims b) s' t'"
      using inv assms i by (auto simp: I_def dims_def slot_def dims_def)
    obtain b2 where b2: "set_layer s i 0 b1 = Some b2" "buffer_wf b2" "dims b2 = dims b1"
        "\<forall>s' t'. slot (dims b) s' t' \<longrightarrow> held_layers b2 s' t' =
           held_layers b1 s' t' \<union> (if (s', t') = (s, i) then {0} else {})"
      using set_layer_held [OF b1(1,3) _ b1(4)] b1(5) by auto
    have "I (ds @ [i]) b2"
      unfolding I_def
    proof (intro conjI allI impI)
      show "dims b2 = dims b" using b1(2) b2(3) by (simp add: dims_def)
      fix s' t'
      assume "slot (dims b) s' t'"
      with b2(4) inv show "held_layers b2 s' t' =
          held_layers b s' t' \<union> (if s' = s \<and> t' \<in> set (ds @ [i]) then {0} else {})"
        by (auto simp: I_def)
    qed (rule b2(2))
    with b2(1) show "\<exists>b2. set_layer s i 0 b1 = Some b2 \<and> I (ds @ [i]) b2" by blast
  qed
  then show ?thesis unfolding I_def by blast
qed

lemma deliver_step:
  assumes "buffer_wf b" "valid_delivery (dims b) s x"
  shows "\<exists>b'. deliver b s x = Some b' \<and> buffer_wf b' \<and> dims b' = dims b \<and>
    (\<forall>s' t'. slot (dims b) s' t' \<longrightarrow> held_layers b' s' t' =
       held_layers b s' t' \<union> (if s' = s then delivery_covers x t' else {}))"
proof -
  obtain f l where x: "x = (f, l)" by fastforce
  note v = assms(2) [unfolded x valid_delivery_def dims_def prod.case]
  show ?thesis
  proof (cases "f = 0")
    case True
    obtain b' where b': "for_each (\<lambda>i. set_layer s i 0) [0..bf_NO_TILE b - 1] b = Some b'"
        "buffer_wf b'" "dims b' = dims b"
        "\<forall>s' t'. slot (dims b) s' t' \<longrightarrow> held_layers b' s' t' =
           held_layers b s' t' \<union> (if s' = s \<and> t' \<in> set [0..bf_NO_TILE b - 1] then {0} else {})"
      using deliver_base [of b s] assms(1) v by blast
    with True x show ?thesis
      by (auto simp: deliver_def update_tile_version_def delivery_covers_def slot_def dims_def)
  next
    case False
    have "slot (dims b) s (f - 1)" using v False by (simp add: slot_def dims_def)
    from set_layer_held [OF assms(1) this] v False obtain b' where
        "set_layer s (f - 1) l b = Some b'" "buffer_wf b'" "dims b' = dims b"
        "\<forall>s' t'. slot (dims b) s' t' \<longrightarrow> held_layers b' s' t' =
           held_layers b s' t' \<union> (if (s', t') = (s, f - 1) then {l} else {})"
      by blast
    with False x show ?thesis by (auto simp: deliver_def update_tile_version_def delivery_covers_def)
  qed
qed

interpretation bufs: layer_store buffer_wf dims slot held_layers usable valid_delivery delivery_covers deliver
proof (unfold_locales, goal_cases)
  case (1 b s x) then show ?case using deliver_step by blast
next
  case (2 b s x b') then show ?case using deliver_step by fastforce
next
  case (3 b s x b') then show ?case using deliver_step by fastforce
next
  case (4 b s x b' s' t) then show ?case using deliver_step by fastforce
next
  case (5 b s t k) show ?case by (rule usable_iff_held)
qed

lemma held_layers_init: "slot (S, T, L) s t \<Longrightarrow> held_layers (buffer_init S T L) s t = {}"
  by (auto simp: slot_def held_layers_def layers_of_def buffer_init_def)

lemma dims_init [simp]: "dims (buffer_init S T L) = (S, T, L)"
  by (simp add: dims_def buffer_init_def)

text \<open>
  C17: Starting from an empty buffer, whatever the order in which deliveries arrive (base layers as
  face 0, enhancement layers per tile, of any segments), every update stays inside the arrays and
  \<open>get_tile_version\<close> then reports for each tile of a segment the highest layer such that it and
  all lower layers were delivered; an entry is left unassigned exactly when its base layer is
  missing.
\<close>

theorem tile_version_after_deliveries:
  assumes "1 \<le> L" "0 \<le> s" "s < S" "\<forall>(s', x) \<in> set ds. valid_delivery (S, T, L) s' x"
  shows "\<exists>b vs. for_each (\<lambda>(s', f, l) b. update_tile_version b s' f l) ds (buffer_init S T L) = Some b \<and>
    get_tile_version b s = Some vs \<and> length vs = nat T \<and>
    (\<forall>t < nat T. \<forall>k. (\<exists>v. vs ! t = Some v \<and> int k \<le> v) \<longleftrightarrow>
       (\<forall>j \<le> k. \<exists>x. (s, x) \<in> set ds \<and> int j \<in> delivery_covers x (int t)))"
proof -
  let ?b0 = "buffer_init S T L"
  have loop: "for_each (\<lambda>(s', f, l) b. update_tile_version b s' f l) ds = for_each (\<lambda>(s, x) b. deliver b s x) ds"
    by (simp add: deliver_def case_prod_unfold)
  have valid: "\<forall>(s', x) \<in> set ds. valid_delivery (dims ?b0) s' x" using assms(4) by simp
  obtain b where b: "for_each (\<lambda>(s, x) b. deliver b s x) ds ?b0 = Some b" "buffer_wf b"
      "dims b = (S, T, L)"
    using bufs.deliveries [OF buffer_wf_init valid] by auto
  then have d: "bf_NO_SEG b = S" "bf_NO_TILE b = T" "bf_NO_LAYER b = L" by (simp_all add: dims_def)
  let ?vs = "map (\<lambda>t. if usable b s t = 0 then None else Some (int (usable b s t) - 1)) [0..T - 1]"
  have get: "get_tile_version b s = Some ?vs"
    using get_tile_version_usable [OF b(2), of s] assms d by simp
  have "(\<exists>v. ?vs ! t = Some v \<and> int k \<le> v) \<longleftrightarrow>
      (\<forall>j \<le> k. \<exists>x. (s, x) \<in> set ds \<and> int j \<in> delivery_covers x (int t))" if t: "t < nat T" for t k
  proof -
    have place: "slot (dims ?b0) s (int t)" using t assms by (simp add: slot_def)
    have "k < usable b s (int t) \<longleftrightarrow>
        (\<forall>j \<le> k. \<exists>x. (s, x) \<in> set ds \<and> int j \<in> delivery_covers x (int t))"
      using place held_layers_init [of S T L]
      by (intro bufs.level_deliveries [OF buffer_wf_init valid place _ b(1)]) simp
    moreover have "(\<exists>v. ?vs ! t = Some v \<and> int k \<le> v) \<longleftrightarrow> k < usable b s (int t)"
      using t by auto
    ultimately show ?thesis by simp
  qed
  then have spec: "\<forall>t < nat T. \<forall>k. (\<exists>v. ?vs ! t = Some v \<and> int k \<le> v) \<longleftrightarrow>
      (\<forall>j \<le> k. \<exists>x. (s, x) \<in> set ds \<and> int j \<in> delivery_covers x (int t))" by blast
  have "length ?vs = nat T" by simp
  with b(1) get spec show ?thesis unfolding loop by blast
qed

theorem tile_version_after_deliveries_witness:
  "\<exists>b vs. for_each (\<lambda>(s', f, l) b. update_tile_version b s' f l)
      [(0, 2, 2), (0, 2, 1), (1, 0, 0), (0, 0, 0)] (buffer_init 2 3 3) = Some b \<and>
     get_tile_version b 0 = Some vs \<and> length vs = 3"
  using tile_version_after_deliveries [of 3 0 2 "[(0, 2, 2), (0, 2, 1), (1, 0, 0), (0, 0, 0)]" 3]
  by (auto simp: valid_delivery_def)

end
