(* ===== verification/Playback.thy ===== *)
theory Playback
  imports Complex_Main Segment_Buffer
begin

text \<open>
  Class \<^verbatim>\<open>Player\<close> of \<^verbatim>\<open>duc_metric.h\<close>: the playback thread \<^verbatim>\<open>start_playback\<close> as a state machine
  that samples the buffer every \<open>INTER\<close> milliseconds, and the operations by which the network
  thread fills the buffer.

  \<^item> \<open>STATE\<close> is 0 (initial buffering), 1 (playing) or 2 (re-buffering). Buffer level and play
    time are doubles in the code to which only integers are added; they are integers here.
  \<^item> The clock readings of one pass of the loop are the arguments of \<open>tick\<close>, in milliseconds.
  \<^item> An array entry or variable that has not been assigned is \<open>None\<close>.
  \<^item> \<open>calc_metric\<close> writes only result arrays that the machine never reads, so the machine is
    modelled in two layers. Here its calls are logged in \<open>calc_calls\<close> with their arguments, and a
    pass says what happens to the player's own state; theory \<open>Metric_Calls\<close> runs the logged calls
    with the body of \<open>calc_metric\<close> (\<open>metric_pass\<close>), where a pass is undefined when a call it makes is.
\<close>

definition INTER :: int where "INTER = 100"

record Player =
  buff :: Buffer
  base_layer_buff :: int
  played :: int
  playing_seg_id :: int
  BASE_LAYER_BUFF_SIZE :: int
  VIDEO_LEN :: int
  SD :: int
  NO_SEG :: int
  NO_TILE :: int
  NO_LAYER :: int
  STATE :: int
  seg_tile_version :: "int option list option list"
  seg_playback_time :: "rat option list"
  buff_size :: "int option list"
  seg_stall_time :: "int list"
  seg_playback_deadline :: "rat option list"
  timeoffset :: "int option"
  calc_calls :: "(int \<times> int option list) list"

text \<open>The constructor, with the times in seconds; \<open>NO_SEG\<close> is an integer division.\<close>

definition player_init :: "int \<Rightarrow> int \<Rightarrow> int \<Rightarrow> int \<Rightarrow> int \<Rightarrow> Player option" where
  "player_init base_buff_size video_len sd no_tile el_ver_num =
     (if sd = 0 then None else
      let seg = video_len sdiv sd in
      Some \<lparr>buff = buffer_init seg no_tile (el_ver_num + 1),
        base_layer_buff = 0, played = 0, playing_seg_id = -1,
        BASE_LAYER_BUFF_SIZE = base_buff_size * 1000,
        VIDEO_LEN = video_len * 1000, SD = sd * 1000,
        NO_SEG = seg, NO_TILE = no_tile, NO_LAYER = el_ver_num + 1, STATE = 0,
        seg_tile_version = replicate (nat seg) None,
        seg_playback_time = replicate (nat seg) None,
        buff_size = replicate (nat seg) None,
        seg_stall_time = replicate (nat seg) 0,
        seg_playback_deadline = replicate (nat seg) None,
        timeoffset = None, calc_calls = []\<rparr>)"

section \<open>The operations\<close>

definition incre_buff_size :: "int \<Rightarrow> Player \<Rightarrow> Player" where
  "incre_buff_size amount p = p\<lparr>base_layer_buff := base_layer_buff p + amount\<rparr>"

definition decre_buff_size :: "int \<Rightarrow> Player \<Rightarrow> Player" where
  "decre_buff_size amount p = p\<lparr>base_layer_buff := base_layer_buff p - amount\<rparr>"

definition incre_play_time :: "int \<Rightarrow> Player \<Rightarrow> Player option" where
  "incre_play_time amount p =
     (if SD p = 0 then None
      else let t = played p + amount in Some (p\<lparr>played := t, playing_seg_id := t sdiv SD p\<rparr>))"

text \<open>The three stores for a segment that starts: its tiles' versions, the time, the buffer level.\<close>

definition record_segment :: "rat \<Rightarrow> Player \<Rightarrow> Player option" where
  "record_segment now p = do {
     vs \<leftarrow> get_tile_version (buff p) (playing_seg_id p);
     tv \<leftarrow> aset (seg_tile_version p) (playing_seg_id p) (Some vs);
     pt \<leftarrow> aset (seg_playback_time p) (playing_seg_id p) (Some now);
     bs \<leftarrow> aset (buff_size p) (playing_seg_id p) (Some (base_layer_buff p));
     Some (p\<lparr>seg_tile_version := tv, seg_playback_time := pt, buff_size := bs\<rparr>)
   }"

text \<open>The deadline of the current segment is now, the later ones follow \<open>SD\<close> apart.\<close>

definition update_deadlines :: "rat \<Rightarrow> Player \<Rightarrow> Player option" where
  "update_deadlines now p = do {
     dl \<leftarrow> aset (seg_playback_deadline p) (playing_seg_id p) (Some now);
     dl \<leftarrow> for_each (\<lambda>i dl. do {
              prev \<leftarrow> aget dl (i - 1);
              d \<leftarrow> prev;
              aset dl i (Some (d + of_int (SD p)))
            }) [playing_seg_id p + 1..NO_SEG p - 1] dl;
     Some (p\<lparr>seg_playback_deadline := dl\<rparr>)
   }"

text \<open>
  The call of \<^verbatim>\<open>calc_metric\<close>: the pointer \<^verbatim>\<open>seg_tile_version[seg]\<close> is read and passed. The body, which
  \<open>metric_pass\<close> runs, reads the versions it points to.
\<close>

definition log_calc_metric :: "int \<Rightarrow> Player \<Rightarrow> Player option" where
  "log_calc_metric seg p = do {
     cell \<leftarrow> aget (seg_tile_version p) seg;
     vs \<leftarrow> cell;
     Some (p\<lparr>calc_calls := calc_calls p @ [(seg, vs)]\<rparr>)
   }"

text \<open>One pass of the loop, by state.\<close>

definition tick_initial :: "rat \<Rightarrow> rat \<Rightarrow> Player \<Rightarrow> Player option" where
  "tick_initial now1 now2 p =
     (if base_layer_buff p = SD p
      then do {
        p \<leftarrow> record_segment now1 (p\<lparr>STATE := 1, playing_seg_id := 0\<rparr>);
        p \<leftarrow> update_deadlines now2 p;
        Some (if playing_seg_id p = 0 then p\<lparr>timeoffset := Some (trunc now2)\<rparr> else p)
      }
      else Some p)"

definition tick_playing :: "rat \<Rightarrow> Player \<Rightarrow> Player option" where
  "tick_playing now p = do {
     p \<leftarrow> incre_play_time INTER (decre_buff_size INTER p);
     p \<leftarrow> (if played p = playing_seg_id p * SD p
           then do {
             p \<leftarrow> log_calc_metric (playing_seg_id p - 1) p;
             if base_layer_buff p \<noteq> 0 then record_segment now p else Some p
           }
           else Some p);
     Some (if base_layer_buff p = 0 then p\<lparr>STATE := 2\<rparr> else p)
   }"

definition tick_rebuffering :: "rat \<Rightarrow> rat \<Rightarrow> Player \<Rightarrow> Player option" where
  "tick_rebuffering now1 now2 p = do {
     st \<leftarrow> aget (seg_stall_time p) (playing_seg_id p);
     sts \<leftarrow> aset (seg_stall_time p) (playing_seg_id p) (st + INTER);
     let p = p\<lparr>seg_stall_time := sts\<rparr>;
     if base_layer_buff p = SD p
     then do {
       p \<leftarrow> record_segment now1 (p\<lparr>STATE := 1\<rparr>);
       update_deadlines now2 p
     }
     else Some p
   }"

definition tick :: "rat \<Rightarrow> rat \<Rightarrow> Player \<Rightarrow> Player option" where
  "tick now1 now2 p =
     (if STATE p = 0 then tick_initial now1 now2 p
      else if STATE p = 1 then tick_playing now1 p
      else if STATE p = 2 then tick_rebuffering now1 now2 p
      else Some p)"

text \<open>
  The loop alone, given the clock readings of its passes; what follows the loop when the video has
  been played is \<open>final_metrics\<close> of theory \<open>Metric_Calls\<close>.
\<close>

definition playback :: "(rat \<times> rat) list \<Rightarrow> Player \<Rightarrow> Player option" where
  "playback = for_each (\<lambda>(now1, now2) p.
     if played p < VIDEO_LEN p then tick now1 now2 p else Some p)"

section \<open>Steps and reachable states\<close>

text \<open>
  The two threads interleave between passes of the loop: a pass, the arrival of a base-layer
  segment, a layer entered into the buffer. \<open>player_reach p0 n p\<close>: \<open>p\<close> is reached from \<open>p0\<close>
  with \<open>n\<close> arrivals.
\<close>

inductive player_step :: "Player \<Rightarrow> nat \<Rightarrow> Player \<Rightarrow> bool" where
  pass: "played p < VIDEO_LEN p \<Longrightarrow> tick now1 now2 p = Some p' \<Longrightarrow> player_step p 0 p'"
| arrive: "player_step p 1 (incre_buff_size (SD p) p)"
| layer: "update_tile_version (buff p) s f l = Some b \<Longrightarrow> buffer_wf b \<Longrightarrow> dims b = dims (buff p) \<Longrightarrow>
    player_step p 0 (p\<lparr>buff := b\<rparr>)"

inductive player_reach :: "Player \<Rightarrow> nat \<Rightarrow> Player \<Rightarrow> bool" where
  refl: "player_reach p 0 p"
| step: "player_reach p n q \<Longrightarrow> player_step q m r \<Longrightarrow> player_reach p (n + m) r"

inductive_cases player_stepE: "player_step p n q"

definition player_ready :: "Player \<Rightarrow> bool" where
  "player_ready p \<longleftrightarrow>
     buffer_wf (buff p) \<and> dims (buff p) = (NO_SEG p, NO_TILE p, NO_LAYER p) \<and> 1 \<le> NO_LAYER p \<and>
     0 < SD p \<and> INTER dvd SD p \<and> VIDEO_LEN p = NO_SEG p * SD p \<and> 0 < NO_SEG p \<and>
     length (seg_tile_version p) = nat (NO_SEG p) \<and>
     length (seg_playback_time p) = nat (NO_SEG p) \<and>
     length (buff_size p) = nat (NO_SEG p) \<and>
     length (seg_stall_time p) = nat (NO_SEG p) \<and>
     length (seg_playback_deadline p) = nat (NO_SEG p)"

definition versions_known :: "Player \<Rightarrow> int \<Rightarrow> bool" where
  "versions_known p k \<longleftrightarrow> (\<forall>i. 0 \<le> i \<and> i < k \<longrightarrow> seg_tile_version p ! nat i \<noteq> None)"

text \<open>
  The invariant: play time and buffer level account for every arrival, neither is negative, and
  every state knows the versions of the segments it has started.
\<close>

definition player_inv :: "nat \<Rightarrow> Player \<Rightarrow> bool" where
  "player_inv n p \<longleftrightarrow> player_ready p \<and>
     base_layer_buff p + played p = int n * SD p \<and> 0 \<le> base_layer_buff p \<and> 0 \<le> played p \<and>
     played p \<le> VIDEO_LEN p \<and> INTER dvd played p \<and>
     (if STATE p = 0 then played p = 0
      else if STATE p = 1
      then 0 < base_layer_buff p \<and> played p div SD p = playing_seg_id p \<and>
           versions_known p (playing_seg_id p + 1)
      else STATE p = 2 \<and> playing_seg_id p * SD p = played p \<and> versions_known p (playing_seg_id p))"


lemma player_inv_playingD:
  assumes "player_inv n p" "STATE p = 1"
  shows "0 < base_layer_buff p" "playing_seg_id p = played p div SD p"
    and "versions_known p (playing_seg_id p + 1)"
  using assms by (simp_all add: player_inv_def)

lemma player_inv_stalledD:
  assumes "player_inv n p" "STATE p = 2"
  shows "played p = playing_seg_id p * SD p" "versions_known p (playing_seg_id p)"
  using assms by (simp_all add: player_inv_def)

lemma player_inv_allD:
  assumes "player_inv n p"
  shows "player_ready p" "base_layer_buff p + played p = int n * SD p" "0 \<le> base_layer_buff p"
    and "0 \<le> played p" "played p \<le> VIDEO_LEN p" "INTER dvd played p"
    and "0 < SD p" "INTER dvd SD p" "VIDEO_LEN p = NO_SEG p * SD p" "0 < NO_SEG p"
proof -
  show r: "player_ready p" "base_layer_buff p + played p = int n * SD p" "0 \<le> base_layer_buff p"
      "0 \<le> played p" "played p \<le> VIDEO_LEN p" "INTER dvd played p"
    using assms unfolding player_inv_def by blast+
  show "0 < SD p" "INTER dvd SD p" "VIDEO_LEN p = NO_SEG p * SD p" "0 < NO_SEG p"
    using r(1) unfolding player_ready_def by blast+
qed

lemma player_inv_playingI:
  assumes "player_ready p" "base_layer_buff p + played p = int n * SD p" "0 < base_layer_buff p"
    and "0 \<le> played p" "played p \<le> VIDEO_LEN p" "INTER dvd played p"
    and "STATE p = 1" "playing_seg_id p = played p div SD p" "versions_known p (playing_seg_id p + 1)"
  shows "player_inv n p"
  unfolding player_inv_def assms(8) using assms(1-7) assms(9) [unfolded assms(8)] by simp

lemma player_inv_stalledI:
  assumes "player_ready p" "base_layer_buff p + played p = int n * SD p" "0 \<le> base_layer_buff p"
    and "0 \<le> played p" "played p \<le> VIDEO_LEN p" "INTER dvd played p"
    and "STATE p = 2" "played p = playing_seg_id p * SD p" "versions_known p (playing_seg_id p)"
  shows "player_inv n p"
  unfolding player_inv_def using assms(1-7,9) assms(8) [symmetric] by simp

section \<open>What one pass does\<close>

lemma player_ready_bufferD:
  assumes "player_ready p" "0 \<le> k" "k < NO_SEG p"
  shows "\<exists>vs. get_tile_version (buff p) k = Some vs"
  using get_tile_version_usable [of "buff p" k] assms by (auto simp: player_ready_def dims_def)

lemma record_segment_ok:
  assumes "player_ready p" "0 \<le> playing_seg_id p" "playing_seg_id p < NO_SEG p"
  obtains vs where "get_tile_version (buff p) (playing_seg_id p) = Some vs"
    and "record_segment now p = Some (p\<lparr>
      seg_tile_version := (seg_tile_version p)[nat (playing_seg_id p) := Some vs],
      seg_playback_time := (seg_playback_time p)[nat (playing_seg_id p) := Some now],
      buff_size := (buff_size p)[nat (playing_seg_id p) := Some (base_layer_buff p)]\<rparr>)"
  using player_ready_bufferD [OF assms] assms
  by (auto simp: record_segment_def aset_def player_ready_def)

lemma record_segment_out:
  assumes "player_ready p" "NO_SEG p \<le> playing_seg_id p"
  shows "record_segment now p = None"
  using assms by (auto simp: record_segment_def aset_def player_ready_def split: option.splits bind_splits)

text \<open>The deadlines are one segment duration apart from the current segment on.\<close>

definition deadlines_from :: "int \<Rightarrow> int \<Rightarrow> rat \<Rightarrow> int \<Rightarrow> rat option list \<Rightarrow> bool" where
  "deadlines_from N k now sd dl \<longleftrightarrow>
     (\<forall>i. k \<le> i \<and> i < N \<longrightarrow> dl ! nat i = Some (now + of_int ((i - k) * sd)))"

lemma update_deadlines_ok:
  assumes "player_ready p" "0 \<le> playing_seg_id p" "playing_seg_id p < NO_SEG p"
  shows "\<exists>dl. update_deadlines now p = Some (p\<lparr>seg_playback_deadline := dl\<rparr>) \<and>
    length dl = nat (NO_SEG p) \<and> deadlines_from (NO_SEG p) (playing_seg_id p) now (SD p) dl \<and>
    (\<forall>i. 0 \<le> i \<and> i < playing_seg_id p \<longrightarrow> dl ! nat i = seg_playback_deadline p ! nat i)"
proof -
  let ?k = "playing_seg_id p" and ?N = "NO_SEG p"
  let ?dl0 = "(seg_playback_deadline p)[nat ?k := Some now]"
  let ?body = "\<lambda>i dl. do { prev \<leftarrow> aget dl (i - 1); d \<leftarrow> prev; aset dl i (Some (d + of_int (SD p))) }"
  have len0: "length ?dl0 = nat ?N" using assms by (simp add: player_ready_def)
  define I where "I ds dl \<longleftrightarrow> length dl = nat ?N \<and>
      deadlines_from (?k + 1 + int (length ds)) ?k now (SD p) dl \<and>
      (\<forall>i. 0 \<le> i \<and> i < ?k \<longrightarrow> dl ! nat i = seg_playback_deadline p ! nat i)"
    for ds :: "int list" and dl
  have "\<exists>dl. for_each ?body [?k + 1..?N - 1] ?dl0 = Some dl \<and> I [?k + 1..?N - 1] dl"
  proof (rule for_each_rule)
    have "dl = ?k" if "?k \<le> dl" "dl < ?k + 1" for dl :: int using that by simp
    then show "I [] ?dl0"
      using assms len0 by (auto simp: I_def deadlines_from_def player_ready_def)
  next
    fix ds i rest dl
    assume split: "[?k + 1..?N - 1] = ds @ i # rest" and inv: "I ds dl"
    have i: "i = ?k + 1 + int (length ds)"
    proof -
      have "length ds < length [?k + 1..?N - 1]" unfolding split by simp
      then have "[?k + 1..?N - 1] ! length ds = ?k + 1 + int (length ds)" by simp
      then show ?thesis unfolding split by simp
    qed
    have "i \<in> set [?k + 1..?N - 1]" unfolding split by simp
    then have iN: "i < ?N" by simp
    have len: "length dl = nat ?N" using inv by (simp add: I_def)
    have "dl ! nat (i - 1) = Some (now + of_int ((i - 1 - ?k) * SD p))"
      using inv i by (simp add: I_def deadlines_from_def)
    then have prev: "aget dl (i - 1) = Some (Some (now + of_int ((i - 1 - ?k) * SD p)))"
      using i iN len assms(2) by (simp add: aget_in)
    let ?dl = "dl[nat i := Some (now + of_int ((i - ?k) * SD p))]"
    have next_deadline: "now + of_int ((i - 1 - ?k) * SD p) + of_int (SD p) = now + of_int ((i - ?k) * SD p)"
      by (simp add: algebra_simps)
    have "?body i dl = aset dl i (Some (now + of_int ((i - 1 - ?k) * SD p) + of_int (SD p)))"
      unfolding prev by (simp only: bind.bind_lunit Option.bind.simps)
    also have "\<dots> = Some ?dl"
      unfolding next_deadline using i iN len assms(2) by (intro aset_in) simp_all
    finally have run: "?body i dl = Some ?dl" .
    have "I (ds @ [i]) ?dl"
      using inv i iN len assms(2)
      by (auto simp: I_def deadlines_from_def nth_list_update nat_eq_iff2)
    with run show "\<exists>dl'. ?body i dl = Some dl' \<and> I (ds @ [i]) dl'" by blast
  qed
  then obtain dl where dl: "for_each ?body [?k + 1..?N - 1] ?dl0 = Some dl" "I [?k + 1..?N - 1] dl"
    by blast
  have "aset (seg_playback_deadline p) ?k (Some now) = Some ?dl0"
    using assms by (simp add: aset_in player_ready_def)
  moreover have "?k + 1 + int (length [?k + 1..?N - 1]) = ?N" using assms(3) by simp
  ultimately show ?thesis using dl by (auto simp: update_deadlines_def I_def)
qed

lemma INTER_dvd_less:
  assumes "INTER dvd a" "INTER dvd b" "a < b"
  shows "a + INTER \<le> b"
  using assms by (auto simp: INTER_def dvd_def)

text \<open>A pass in each state, on the invariant.\<close>

lemma player_inv_stall:
  "length x = length (seg_stall_time p) \<Longrightarrow> player_inv n (p\<lparr>seg_stall_time := x\<rparr>) \<longleftrightarrow> player_inv n p"
  by (simp add: player_inv_def player_ready_def versions_known_def)

lemma tick_initial_inv:
  assumes inv: "player_inv n p" and st: "STATE p = 0"
  shows "\<exists>p'. tick_initial now1 now2 p = Some p' \<and> player_inv n p'"
proof (cases "base_layer_buff p = SD p")
  case False
  then show ?thesis using inv by (simp add: tick_initial_def)
next
  case True
  let ?q = "p\<lparr>STATE := 1, playing_seg_id := 0\<rparr>"
  note i = player_inv_allD [OF inv]
  have p0: "played p = 0" using inv st by (simp add: player_inv_def)
  have r: "player_ready ?q" using i by (simp add: player_ready_def)
  have k: "0 \<le> playing_seg_id ?q" "playing_seg_id ?q < NO_SEG ?q" using i by (simp_all add: player_ready_def)
  obtain vs where rec: "record_segment now1 ?q = Some (?q\<lparr>
      seg_tile_version := (seg_tile_version ?q)[nat (playing_seg_id ?q) := Some vs],
      seg_playback_time := (seg_playback_time ?q)[nat (playing_seg_id ?q) := Some now1],
      buff_size := (buff_size ?q)[nat (playing_seg_id ?q) := Some (base_layer_buff ?q)]\<rparr>)" (is "_ = Some ?r")
    by (rule record_segment_ok [OF r k])
  have r': "player_ready ?r" using r by (simp add: player_ready_def)
  obtain dl where dl: "update_deadlines now2 ?r = Some (?r\<lparr>seg_playback_deadline := dl\<rparr>)"
      "length dl = nat (NO_SEG p)"
    using update_deadlines_ok [OF r', of now2] k by auto
  let ?s = "?r\<lparr>seg_playback_deadline := dl, timeoffset := Some (trunc now2)\<rparr>"
  have run: "tick_initial now1 now2 p = Some ?s"
    using True rec dl(1) by (simp add: tick_initial_def)
  have "seg_tile_version p \<noteq> []" using i(1,10) by (auto simp: player_ready_def)
  then have known: "versions_known ?s 1" by (auto simp: versions_known_def)
  have "player_ready ?s" using r' dl(2) by (simp add: player_ready_def)
  with known True i p0 have "player_inv n ?s" by (intro player_inv_playingI) simp_all
  with run show ?thesis by blast
qed

lemma tick_rebuffering_inv:
  assumes inv: "player_inv n p" and st: "STATE p = 2" and running: "played p < VIDEO_LEN p"
  shows "\<exists>p'. tick_rebuffering now1 now2 p = Some p' \<and> player_inv n p'"
proof -
  note i = player_inv_allD [OF inv]
  note ready = i(1) [unfolded player_ready_def]
  note stalled = player_inv_stalledD [OF inv st]
  let ?k = "playing_seg_id p"
  have sd: "0 < SD p" by (rule i(7))
  have pk: "played p = ?k * SD p" "0 \<le> played p" "VIDEO_LEN p = NO_SEG p * SD p"
    using stalled(1) i(4,9) by simp_all
  have k0: "0 \<le> ?k" using pk sd by (simp add: zero_le_mult_iff)
  have kN: "?k < NO_SEG p" using pk running sd by (simp add: mult_less_cancel_right)
  let ?q = "p\<lparr>seg_stall_time := (seg_stall_time p)[nat ?k := seg_stall_time p ! nat ?k + INTER]\<rparr>"
  have stall: "aget (seg_stall_time p) ?k = Some (seg_stall_time p ! nat ?k)"
      "aset (seg_stall_time p) ?k (seg_stall_time p ! nat ?k + INTER) = Some (seg_stall_time ?q)"
    using ready k0 kN by (simp_all add: aget_in aset_in)
  have iq: "player_inv n ?q" using inv by (simp add: player_inv_stall)
  show ?thesis
  proof (cases "base_layer_buff p = SD p")
    case False
    with stall iq show ?thesis by (simp add: tick_rebuffering_def)
  next
    case True
    let ?q1 = "?q\<lparr>STATE := 1\<rparr>"
    have r: "player_ready ?q1" using iq by (simp add: player_ready_def player_inv_def)
    have k: "0 \<le> playing_seg_id ?q1" "playing_seg_id ?q1 < NO_SEG ?q1" using k0 kN by simp_all
    obtain vs where rec: "record_segment now1 ?q1 = Some (?q1\<lparr>
        seg_tile_version := (seg_tile_version ?q1)[nat (playing_seg_id ?q1) := Some vs],
        seg_playback_time := (seg_playback_time ?q1)[nat (playing_seg_id ?q1) := Some now1],
        buff_size := (buff_size ?q1)[nat (playing_seg_id ?q1) := Some (base_layer_buff ?q1)]\<rparr>)" (is "_ = Some ?r")
      by (rule record_segment_ok [OF r k])
    have r': "player_ready ?r" using r by (simp add: player_ready_def)
    obtain dl where dl: "update_deadlines now2 ?r = Some (?r\<lparr>seg_playback_deadline := dl\<rparr>)"
        "length dl = nat (NO_SEG p)"
      using update_deadlines_ok [OF r', of now2] k by auto
    let ?s = "?r\<lparr>seg_playback_deadline := dl\<rparr>"
    have run: "tick_rebuffering now1 now2 p = Some ?s"
      using True stall rec dl(1) by (simp add: tick_rebuffering_def)
    have len: "length (seg_tile_version p) = nat (NO_SEG p)" using ready by simp
    have known: "versions_known ?s (?k + 1)"
      using stalled(2) k0 kN len by (auto simp: versions_known_def nth_list_update)
    have ready: "player_ready ?s" using r' dl(2) by (simp add: player_ready_def)
    have "?k = played p div SD p" using pk(1) sd by simp
    with ready known True i sd have "player_inv n ?s" by (intro player_inv_playingI) simp_all
    with run show ?thesis by blast
  qed
qed

text \<open>
  A pass while playing is undefined in one case: the last segment ends and the buffer is not
  empty, so that the code starts segment \<open>NO_SEG\<close>, one past the end of its arrays.
\<close>

lemma tick_playing_inv:
  assumes inv: "player_inv n p" and st: "STATE p = 1" and running: "played p < VIDEO_LEN p"
  shows "if played p + INTER = VIDEO_LEN p \<and> NO_SEG p < int n then tick_playing now p = None
         else \<exists>p'. tick_playing now p = Some p' \<and> player_inv n p'"
proof -
  note i = player_inv_allD [OF inv]
  note playing = player_inv_playingD [OF inv st]
  let ?t = "played p + INTER" and ?b = "base_layer_buff p - INTER"
  let ?k = "?t div SD p"
  have sd: "0 < SD p" "INTER dvd SD p" and len: "VIDEO_LEN p = NO_SEG p * SD p"
    by (rule i(7) i(8) i(9))+
  have I0: "0 < INTER" by (simp add: INTER_def)
  have t0: "0 < ?t" using i(4) I0 by linarith
  have sum: "?b + ?t = int n * SD p" using i(2) by simp
  have "INTER dvd int n * SD p" using sd by simp
  then have "INTER dvd base_layer_buff p"
    using i(2,6) by (metis add_diff_cancel_right' dvd_diff)
  then have b0: "0 \<le> ?b" using INTER_dvd_less [of 0 "base_layer_buff p"] playing(1) by simp
  have tV: "?t \<le> VIDEO_LEN p" using INTER_dvd_less [of "played p" "VIDEO_LEN p"] i(6) running len sd by simp
  have dvdt: "INTER dvd ?t" using i(6) by simp
  have k0: "0 \<le> ?k" using t0 sd by (simp add: pos_imp_zdiv_nonneg_iff)
  let ?q = "p\<lparr>base_layer_buff := ?b, played := ?t, playing_seg_id := ?k\<rparr>"
  have step: "incre_play_time INTER (decre_buff_size INTER p) = Some ?q"
    using sd t0 by (simp add: incre_play_time_def decre_buff_size_def Let_def)
  have rq: "player_ready ?q" using i(1) by (simp add: player_ready_def)
  note known = playing(3) and old = playing(2)
  show ?thesis
  proof (cases "?t = ?k * SD p")
    case False
    have tN: "?t \<noteq> VIDEO_LEN p" using False len sd by auto
    have bn: "?b \<noteq> 0"
    proof
      assume "?b = 0"
      then have "?t = int n * SD p" using sum by simp
      then have "?k = int n" using sd by (metis nonzero_mult_div_cancel_right order_less_irrefl)
      with False \<open>?t = int n * SD p\<close> show False by metis
    qed
    have same: "?k = playing_seg_id p"
    proof -
      have "?k * SD p + ?t mod SD p = ?t" "0 \<le> ?t mod SD p" using sd by simp_all
      with False have "?k * SD p < ?t" by linarith
      moreover have "INTER dvd ?k * SD p" using sd by simp
      ultimately have "?k * SD p + INTER \<le> ?t" using INTER_dvd_less dvdt by blast
      then have "?k * SD p \<le> played p" by simp
      then have "?k \<le> played p div SD p" using sd by (metis nonzero_mult_div_cancel_right
          order_less_irrefl zdiv_mono1)
      moreover have "played p div SD p \<le> ?k" using sd I0 by (intro zdiv_mono1) auto
      ultimately show ?thesis using old by simp
    qed
    have run: "tick_playing now p = Some ?q"
      using step False bn by (simp add: tick_playing_def)
    have "versions_known ?q (?k + 1)" using known same by (simp add: versions_known_def)
    with rq sum b0 t0 tV dvdt bn st have "player_inv n ?q" by (intro player_inv_playingI) simp_all
    with run tN show ?thesis by simp
  next
    case True
    have I_SD: "INTER \<le> SD p" using zdvd_imp_le [OF sd(2) sd(1)] .
    have k1: "1 \<le> ?k"
    proof -
      have "?k \<noteq> 0" using True t0 by auto
      with k0 show ?thesis by linarith
    qed
    have kN: "?k \<le> NO_SEG p" using True tV len sd by (metis mult_le_cancel_right_pos)
    have prev: "playing_seg_id p = ?k - 1"
    proof -
      have "(?k - 1) * SD p \<le> played p" "played p < ?k * SD p"
        using True I_SD I0 by (simp_all add: algebra_simps)
      then have "?k - 1 \<le> played p div SD p" "played p div SD p < ?k"
        using sd zdiv_mono1 [of "(?k - 1) * SD p" "played p" "SD p"] div_mult_bounds(2) [of "played p" ?k "SD p"]
          i(4) by simp_all
      with old show ?thesis by linarith
    qed
    have tlen: "length (seg_tile_version p) = nat (NO_SEG p)" using i(1) by (simp add: player_ready_def)
    obtain vs where vs: "seg_tile_version p ! nat (?k - 1) = Some vs"
      using known k1 prev unfolding versions_known_def by (metis diff_add_cancel diff_ge_0_iff_ge
          less_add_one not_Some_eq)
    let ?q2 = "?q\<lparr>calc_calls := calc_calls p @ [(?k - 1, vs)]\<rparr>"
    have log: "log_calc_metric (?k - 1) ?q = Some ?q2"
      using vs k1 kN tlen by (simp add: log_calc_metric_def aget_in)
    have r2: "player_ready ?q2" using rq by (simp add: player_ready_def)
    have kn: "versions_known p ?k" using known prev by simp
    show ?thesis
    proof (cases "?b = 0")
      case zero: True
      let ?s = "?q2\<lparr>STATE := 2\<rparr>"
      have run: "tick_playing now p = Some ?s"
        using step True log zero by (simp add: tick_playing_def)
      have rs: "player_ready ?s" using r2 by (simp add: player_ready_def)
      have "versions_known ?s ?k" using kn by (simp add: versions_known_def)
      with rs sum zero t0 tV dvdt True have "player_inv n ?s" by (intro player_inv_stalledI) simp_all
      moreover have "\<not> (?t = VIDEO_LEN p \<and> NO_SEG p < int n)"
        using sum zero len sd by auto
      ultimately show ?thesis using run by simp
    next
      case pos: False
      show ?thesis
      proof (cases "?k < NO_SEG p")
        case inside: True
        have k: "0 \<le> playing_seg_id ?q2" "playing_seg_id ?q2 < NO_SEG ?q2" using k1 inside by simp_all
        obtain vs' where rec: "record_segment now ?q2 = Some (?q2\<lparr>
            seg_tile_version := (seg_tile_version ?q2)[nat (playing_seg_id ?q2) := Some vs'],
            seg_playback_time := (seg_playback_time ?q2)[nat (playing_seg_id ?q2) := Some now],
            buff_size := (buff_size ?q2)[nat (playing_seg_id ?q2) := Some (base_layer_buff ?q2)]\<rparr>)"
            (is "_ = Some ?s")
          by (rule record_segment_ok [OF r2 k])
        have run: "tick_playing now p = Some ?s"
          using step True log pos rec by (simp add: tick_playing_def)
        have rs: "player_ready ?s" using r2 by (simp add: player_ready_def)
        have kn': "versions_known ?s (?k + 1)"
          using kn k1 inside tlen by (auto simp: versions_known_def nth_list_update)
        from rs sum b0 pos t0 tV dvdt st kn' have "player_inv n ?s"
          by (intro player_inv_playingI) simp_all
        moreover have "?t \<noteq> VIDEO_LEN p" using True inside len sd by auto
        ultimately show ?thesis using run by simp
      next
        case False
        then have kN': "?k = NO_SEG p" using kN by simp
        have none: "record_segment now ?q2 = None" using record_segment_out [OF r2] kN' by simp
        then have run: "tick_playing now p = None"
          using step True log pos by (simp add: tick_playing_def)
        have tV': "?t = VIDEO_LEN p" using True kN' len by simp
        have "NO_SEG p * SD p < int n * SD p" using sum pos b0 tV' len by linarith
        then have "NO_SEG p < int n" using sd by (simp add: mult_less_cancel_right)
        with run tV' show ?thesis by simp
      qed
    qed
  qed
qed

lemma tick_inv:
  assumes "player_inv n p" "played p < VIDEO_LEN p"
  shows "if STATE p = 1 \<and> played p + INTER = VIDEO_LEN p \<and> NO_SEG p < int n then tick now1 now2 p = None
         else \<exists>p'. tick now1 now2 p = Some p' \<and> player_inv n p'"
proof -
  have "STATE p = 0 \<or> STATE p = 1 \<or> STATE p = 2"
    using assms(1) by (auto simp: player_inv_def split: if_splits)
  then show ?thesis
    using tick_initial_inv [OF assms(1), of now1 now2] tick_playing_inv [OF assms(1) _ assms(2), of now1]
      tick_rebuffering_inv [OF assms(1) _ assms(2), of now1 now2]
    by (elim disjE) (simp_all add: tick_def split: if_splits)
qed

lemma player_step_inv:
  assumes "player_step p m q" "player_inv n p"
  shows "player_inv (n + m) q"
  using assms(1)
proof (cases rule: player_step.cases)
  case (pass now1 now2)
  then show ?thesis using tick_inv [OF assms(2), of now1 now2] by (auto split: if_splits)
next
  case arrive
  have sum: "base_layer_buff p + SD p + played p = int (Suc n) * SD p" "0 < SD p"
    using assms(2) by (simp_all add: player_inv_def player_ready_def algebra_simps)
  have "player_ready q = player_ready p" "versions_known q = versions_known p"
      "base_layer_buff q = base_layer_buff p + SD p"
    using arrive by (simp_all add: player_ready_def incre_buff_size_def versions_known_def fun_eq_iff)
  then show ?thesis
    using assms(2) sum arrive unfolding player_inv_def by (simp add: incre_buff_size_def)
next
  case (layer s f l b)
  have "player_ready q" using layer player_inv_allD(1) [OF assms(2)] by (simp add: player_ready_def)
  moreover have "versions_known q = versions_known p"
    using layer by (simp add: versions_known_def fun_eq_iff)
  ultimately show ?thesis
    using assms(2) layer unfolding player_inv_def by simp
qed

lemma player_init_inv:
  assumes "player_init B V sd T E = Some p" "0 < sd" "0 < V" "sd dvd V" "0 \<le> E"
  shows "player_inv 0 p"
proof -
  obtain m where m: "V = sd * m" using assms(4) by blast
  then have m0: "0 < m" using assms(2,3) by (simp add: zero_less_mult_iff)
  have v: "V sdiv sd = m" using assms(2,3) m by simp
  have dvd: "INTER dvd sd * 1000" by (simp add: INTER_def dvd_mult)
  have f: "buff p = buffer_init m T (E + 1)" "base_layer_buff p = 0" "played p = 0" "STATE p = 0"
      "VIDEO_LEN p = V * 1000" "SD p = sd * 1000" "NO_SEG p = m" "NO_TILE p = T" "NO_LAYER p = E + 1"
      "length (seg_tile_version p) = nat m" "length (seg_playback_time p) = nat m"
      "length (buff_size p) = nat m" "length (seg_stall_time p) = nat m"
      "length (seg_playback_deadline p) = nat m"
    using assms(1,2) unfolding player_init_def v Let_def by auto
  have len: "V * 1000 = m * (sd * 1000)" using m by simp
  have "player_ready p"
    unfolding player_ready_def f
    using buffer_wf_init dvd len m0 assms(2,5) by simp
  then show ?thesis using f assms(3) by (simp add: player_inv_def)
qed

lemma player_reach_inv:
  assumes "player_reach p0 n p" "player_inv 0 p0"
  shows "player_inv n p"
  using assms
proof (induction rule: player_reach.induct)
  case (step p n q m r)
  then show ?case using player_step_inv by blast
qed simp


section \<open>Properties of the machine\<close>

text \<open>
  However the two threads interleave, from the constructed player on, no play time is lost or
  invented: the buffer level plus the time played is the duration of the segments that have
  arrived, the buffer level is never negative, and the time played never exceeds the video.
\<close>

theorem player_conservation:
  assumes "player_init B V sd T E = Some p0" "0 < sd" "0 < V" "sd dvd V" "0 \<le> E"
    and "player_reach p0 n p"
  shows "base_layer_buff p + played p = int n * SD p \<and> 0 \<le> base_layer_buff p \<and> played p \<le> VIDEO_LEN p"
  using player_reach_inv [OF assms(6) player_init_inv [OF assms(1-5)]] player_inv_allD by blast

theorem player_conservation_witness:
  "\<exists>p0. player_init 4 60 1 24 5 = Some p0 \<and>
     base_layer_buff (incre_buff_size (SD p0) p0) + played (incre_buff_size (SD p0) p0) = 1000"
proof -
  obtain p0 where p0: "player_init 4 60 1 24 5 = Some p0" "SD p0 = 1000"
    by (simp add: player_init_def Let_def)
  have "player_reach p0 (0 + 1) (incre_buff_size (SD p0) p0)"
    by (rule player_reach.step [OF player_reach.refl player_step.arrive])
  from player_conservation [OF p0(1) _ _ _ _ this] p0 show ?thesis
    by (auto simp: incre_buff_size_def)
qed

text \<open>
  As long as no more segments arrive than the video has, every pass of the playback loop is
  defined: no array is indexed outside its bounds and no unassigned segment entry is read. With
  more arrivals there is exactly one pass that is not: the one that ends the last segment, which
  starts segment \<open>NO_SEG\<close>.
\<close>

theorem player_pass_defined_iff:
  assumes "player_init B V sd T E = Some p0" "0 < sd" "0 < V" "sd dvd V" "0 \<le> E"
    and "player_reach p0 n p" "played p < VIDEO_LEN p"
  shows "tick now1 now2 p \<noteq> None \<longleftrightarrow>
    \<not> (NO_SEG p < int n \<and> STATE p = 1 \<and> played p + INTER = VIDEO_LEN p)"
  using tick_inv [OF player_reach_inv [OF assms(6) player_init_inv [OF assms(1-5)]] assms(7), of now1 now2]
  by (auto split: if_splits)

theorem player_pass_defined_iff_witness:
  "\<exists>p0. player_init 4 60 1 24 5 = Some p0 \<and> tick 7 8 p0 \<noteq> None"
proof -
  obtain p0 where p0: "player_init 4 60 1 24 5 = Some p0" "STATE p0 = 0" "played p0 < VIDEO_LEN p0"
    by (simp add: player_init_def Let_def)
  from player_pass_defined_iff [OF p0(1) _ _ _ _ player_reach.refl p0(3), of 7 8] p0(1,2)
  show ?thesis by auto
qed

text \<open>Waiting states leave only when the buffer holds exactly one segment.\<close>

lemma waiting_step:
  assumes "player_step p n q" "player_inv m p" "STATE p = 0 \<or> STATE p = 2" "SD p < base_layer_buff p"
  shows "STATE q = STATE p \<and> played q = played p \<and> SD q = SD p \<and> base_layer_buff p \<le> base_layer_buff q"
proof -
  have sd: "0 < SD p" by (rule player_inv_allD(7) [OF assms(2)])
  from assms(1) show ?thesis
  proof (rule player_stepE)
    fix now1 now2
    assume "tick now1 now2 p = Some q"
    then show ?thesis
      using assms(3,4)
      by (auto simp: tick_def tick_initial_def tick_rebuffering_def split: if_splits bind_splits)
  qed (use sd in \<open>simp_all add: incre_buff_size_def\<close>)
qed

lemma waiting_reach:
  assumes "player_reach p n q" "player_inv m p" "STATE p = 0 \<or> STATE p = 2" "SD p < base_layer_buff p"
  shows "player_inv (m + n) q \<and> STATE q = STATE p \<and> played q = played p \<and> SD q = SD p \<and>
    base_layer_buff p \<le> base_layer_buff q"
  using assms
proof (induction rule: player_reach.induct)
  case (step p n q k r)
  then have q: "player_inv (m + n) q" "STATE q = STATE p" "played q = played p" "SD q = SD p"
      "base_layer_buff p \<le> base_layer_buff q"
    by blast+
  then have "STATE q = 0 \<or> STATE q = 2" "SD q < base_layer_buff q" using step.prems by auto
  from waiting_step [OF step.hyps(2) q(1) this] player_step_inv [OF step.hyps(2) q(1)] q
  show ?case by (auto simp: add.assoc)
qed simp

text \<open>
  The thresholds of the waiting states are equalities. Once the player waits (initially or
  re-buffering) with more than one segment in the buffer, no continuation of the run ever plays
  again: state and play time stay what they are, however many segments arrive.
\<close>

theorem player_stuck:
  assumes "player_reach p n q" "player_inv m p" "STATE p = 0 \<or> STATE p = 2" "SD p < base_layer_buff p"
  shows "STATE q = STATE p \<and> played q = played p"
  using waiting_reach [OF assms] by blast

theorem player_stuck_witness:
  "\<exists>p0 p. player_init 4 60 1 24 5 = Some p0 \<and> player_reach p0 2 p \<and>
     (\<forall>n q. player_reach p n q \<longrightarrow> STATE q = 0 \<and> played q = 0)"
proof -
  obtain p0 where p0: "player_init 4 60 1 24 5 = Some p0" "STATE p0 = 0" "played p0 = 0"
      "base_layer_buff p0 = 0" "SD p0 = 1000"
    by (simp add: player_init_def Let_def)
  let ?p1 = "incre_buff_size (SD p0) p0"
  let ?p2 = "incre_buff_size (SD ?p1) ?p1"
  have one: "player_reach p0 (0 + 1) ?p1"
    by (rule player_reach.step [OF player_reach.refl player_step.arrive])
  have two: "player_reach p0 (0 + 1 + 1) ?p2"
    by (rule player_reach.step [OF one player_step.arrive])
  have "player_inv (0 + 1 + 1) ?p2"
    by (rule player_reach_inv [OF two player_init_inv [OF p0(1)]]) simp_all
  then have "STATE q = 0 \<and> played q = 0" if "player_reach ?p2 n q" for n q
    using player_stuck [OF that] p0 by (simp add: incre_buff_size_def)
  moreover have "player_reach p0 2 ?p2" using two by (simp add: numeral_2_eq_2)
  ultimately show ?thesis using p0(1) by blast
qed


section \<open>Runs without arrivals\<close>

lemma tick_playing_effect:
  assumes "tick_playing now p = Some q"
  shows "played q = played p + INTER \<and> base_layer_buff q = base_layer_buff p - INTER \<and>
    STATE q = (if base_layer_buff p = INTER then 2 else STATE p) \<and>
    seg_stall_time q = seg_stall_time p \<and> VIDEO_LEN q = VIDEO_LEN p \<and> NO_SEG q = NO_SEG p"
  using assms
  by (auto simp: tick_playing_def incre_play_time_def decre_buff_size_def record_segment_def
      log_calc_metric_def Let_def split: if_splits bind_splits)

lemma playing_pass:
  assumes "player_inv n p" "STATE p = 1" "int n \<le> NO_SEG p"
  shows "\<exists>q. played p < VIDEO_LEN p \<and> tick now1 now2 p = Some q \<and> player_inv n q \<and>
    played q = played p + INTER \<and> base_layer_buff q = base_layer_buff p - INTER \<and>
    STATE q = (if base_layer_buff p = INTER then 2 else 1) \<and>
    seg_stall_time q = seg_stall_time p \<and> VIDEO_LEN q = VIDEO_LEN p \<and> NO_SEG q = NO_SEG p"
proof -
  note i = player_inv_allD [OF assms(1)]
  have "int n * SD p \<le> NO_SEG p * SD p" using assms(3) i(7) by (intro mult_right_mono) simp_all
  then have run: "played p < VIDEO_LEN p"
    using i(2,9) player_inv_playingD(1) [OF assms(1,2)] by linarith
  from tick_inv [OF assms(1) run, of now1 now2] assms(3) obtain q where
      q: "tick now1 now2 p = Some q" "player_inv n q"
    by auto
  then have "tick_playing now1 p = Some q" using assms(2) by (simp add: tick_def)
  from tick_playing_effect [OF this] run q assms(2) show ?thesis by auto
qed

text \<open>
  C32: While nothing arrives, a playing player plays exactly what its buffer holds: every pass
  plays one interval without stalling, and the pass that empties the buffer, and no earlier one,
  ends in re-buffering.
\<close>

theorem player_plays_buffer:
  assumes "player_inv n p" "STATE p = 1" "int n \<le> NO_SEG p"
    and "int (length clocks) * INTER \<le> base_layer_buff p"
  shows "\<exists>q. playback clocks p = Some q \<and> played q = played p + int (length clocks) * INTER \<and>
    base_layer_buff q = base_layer_buff p - int (length clocks) * INTER \<and>
    STATE q = (if base_layer_buff q = 0 then 2 else 1) \<and> seg_stall_time q = seg_stall_time p"
  using assms
proof (induction clocks arbitrary: p)
  case Nil
  then show ?case using player_inv_playingD(1) [OF Nil(1,2)] by (auto simp: playback_def)
next
  case (Cons c clocks)
  obtain now1 now2 where c: "c = (now1, now2)" by fastforce
  obtain q where q: "played p < VIDEO_LEN p" "tick now1 now2 p = Some q" "player_inv n q"
      "played q = played p + INTER" "base_layer_buff q = base_layer_buff p - INTER"
      "STATE q = (if base_layer_buff p = INTER then 2 else 1)"
      "seg_stall_time q = seg_stall_time p" "NO_SEG q = NO_SEG p"
    using playing_pass [OF Cons.prems(1-3)] by blast
  have I0: "0 < INTER" by (simp add: INTER_def)
  have step: "playback (c # clocks) p = playback clocks q"
    using q(1,2) c by (simp add: playback_def)
  show ?case
  proof (cases "base_layer_buff p = INTER")
    case True
    then have "int (length clocks) * INTER \<le> 0" using Cons.prems(4) by (simp add: algebra_simps)
    then have "clocks = []" using I0 by (auto simp: mult_le_0_iff)
    with q step True show ?thesis by (simp add: playback_def)
  next
    case False
    then have "STATE q = 1" "int n \<le> NO_SEG q" using q Cons.prems by simp_all
    moreover have "int (length clocks) * INTER \<le> base_layer_buff q"
      using q(5) Cons.prems(4) by (simp add: algebra_simps)
    ultimately obtain r where "playback clocks q = Some r"
        "played r = played q + int (length clocks) * INTER"
        "base_layer_buff r = base_layer_buff q - int (length clocks) * INTER"
        "STATE r = (if base_layer_buff r = 0 then 2 else 1)" "seg_stall_time r = seg_stall_time q"
      using Cons.IH [OF q(3)] by blast
    with step q show ?thesis by (auto simp: algebra_simps)
  qed
qed

text \<open>A player that has just started with one segment, for the concrete runs.\<close>

definition demo_player :: "Player option" where
  "demo_player = do { p \<leftarrow> player_init 4 3 1 2 1; tick 5 5 (incre_buff_size 1000 p) }"

lemma demo_player_playing:
  "\<exists>p. demo_player = Some p \<and> player_inv 1 p \<and> STATE p = 1 \<and> int 1 \<le> NO_SEG p \<and>
     base_layer_buff p = 1000 \<and> played p = 0"
proof -
  obtain p0 where p0: "player_init 4 3 1 2 1 = Some p0" "SD p0 = 1000" "played p0 = 0" "STATE p0 = 0"
      "VIDEO_LEN p0 = 3000" "NO_SEG p0 = 3" "base_layer_buff p0 = 0"
    by (simp add: player_init_def Let_def)
  have i0: "player_inv 0 p0" by (rule player_init_inv [OF p0(1)]) simp_all
  let ?p1 = "incre_buff_size (SD p0) p0"
  have i1: "player_inv 1 ?p1" using player_step_inv [OF player_step.arrive i0] by simp
  obtain p where p: "tick 5 5 ?p1 = Some p" "player_inv 1 p"
    using tick_inv [OF i1, of 5 5] p0 by (auto simp: incre_buff_size_def)
  then have "tick_initial 5 5 ?p1 = Some p" using p0 by (simp add: tick_def incre_buff_size_def)
  then have "STATE p = 1" "base_layer_buff p = 1000" "NO_SEG p = 3" "played p = 0"
    using p0 by (auto simp: tick_initial_def incre_buff_size_def record_segment_def
        update_deadlines_def split: if_splits bind_splits)
  with p p0 show ?thesis by (simp add: demo_player_def)
qed

theorem player_plays_buffer_witness:
  "\<exists>p q. demo_player = Some p \<and> playback (replicate 10 (0, 0)) p = Some q \<and> played q = 1000 \<and> STATE q = 2"
proof -
  obtain p where p: "demo_player = Some p" "player_inv 1 p" "STATE p = 1" "int 1 \<le> NO_SEG p"
      "base_layer_buff p = 1000" "played p = 0"
    using demo_player_playing by blast
  have "int (length (replicate 10 (0 :: rat, 0 :: rat))) * INTER \<le> base_layer_buff p"
    using p by (simp add: INTER_def)
  from player_plays_buffer [OF p(2-4) this] p show ?thesis by (auto simp: INTER_def)
qed

text \<open>
  While a re-buffering player waits with an empty buffer, each pass adds one interval to the
  stall time of the segment it waits for and changes nothing else.
\<close>

theorem player_stall_accounting:
  assumes "player_inv n p" "STATE p = 2" "base_layer_buff p = 0" "played p < VIDEO_LEN p"
  shows "playback clocks p = Some (p\<lparr>seg_stall_time := (seg_stall_time p)
    [nat (playing_seg_id p) := seg_stall_time p ! nat (playing_seg_id p) + int (length clocks) * INTER]\<rparr>)"
  using assms
proof (induction clocks arbitrary: p)
  case Nil
  then show ?case by (simp add: playback_def)
next
  case (Cons c clocks)
  let ?k = "playing_seg_id p"
  let ?q = "p\<lparr>seg_stall_time := (seg_stall_time p)[nat ?k := seg_stall_time p ! nat ?k + INTER]\<rparr>"
  note i = player_inv_allD [OF Cons.prems(1)]
  have pk: "played p = ?k * SD p" by (rule player_inv_stalledD [OF Cons.prems(1,2)])
  have k: "0 \<le> ?k" "?k < NO_SEG p"
    using pk i(4,7,9) Cons.prems(4) by (simp_all add: zero_le_mult_iff mult_less_cancel_right)
  have len: "length (seg_stall_time p) = nat (NO_SEG p)" using i(1) by (simp add: player_ready_def)
  have "tick (fst c) (snd c) p = Some ?q"
    using Cons.prems i(7) k len by (simp add: tick_def tick_rebuffering_def aget_in aset_in)
  then have step: "playback (c # clocks) p = playback clocks ?q"
    using Cons.prems(4) by (simp add: playback_def case_prod_unfold)
  have "player_inv n ?q" using Cons.prems(1) by (simp add: player_inv_stall)
  from Cons.IH [OF this] Cons.prems have "playback clocks ?q = Some (?q\<lparr>seg_stall_time :=
      (seg_stall_time ?q)[nat ?k := seg_stall_time ?q ! nat ?k + int (length clocks) * INTER]\<rparr>)"
    by simp
  with step k len show ?case by (simp add: algebra_simps)
qed

theorem player_stall_accounting_witness:
  "\<exists>p0 q. player_init 4 3 1 2 1 = Some p0 \<and>
     playback (replicate 7 (0, 0)) (p0\<lparr>STATE := 2, playing_seg_id := 0\<rparr>) = Some q \<and>
     seg_stall_time q = [700, 0, 0]"
proof -
  obtain p0 where p0: "player_init 4 3 1 2 1 = Some p0" "played p0 = 0" "VIDEO_LEN p0 = 3000"
      "base_layer_buff p0 = 0" "seg_stall_time p0 = [0, 0, 0]"
    by (simp add: player_init_def Let_def numeral_3_eq_3)
  let ?p = "p0\<lparr>STATE := 2, playing_seg_id := 0\<rparr>"
  have "player_inv 0 p0" by (rule player_init_inv [OF p0(1)]) simp_all
  note i = player_inv_allD [OF this]
  have "player_ready ?p" using i(1) by (simp add: player_ready_def)
  then have "player_inv 0 ?p"
    using p0 i by (intro player_inv_stalledI) (auto simp: versions_known_def)
  from player_stall_accounting [OF this, of "replicate 7 (0, 0)"] p0
  show ?thesis by (simp add: INTER_def)
qed

end
