(* ===== verification/Stream_Close.thy ===== *)
theory Stream_Close
  imports Playback Engine_Bookkeeping
begin

text \<open>
  The callback \<^verbatim>\<open>on_stream_close_callback\<close> of \<^verbatim>\<open>nghttp.cc\<close>: it enters what arrived into the
  player's buffer, ends a round when its last stream closes, and starts the next decision. Two
  methods of class \<^verbatim>\<open>Metric\<close> belong to the same cycle, the throughput estimate and the smoothed
  bitrate of an iteration.

  The HTTP/2 library calls the callback. Whether it knows the request and its time stamps are the
  event \<open>Close\<close>; so is the outcome of comparing the arrival time with a playback deadline that has
  not been assigned (\<open>late_if_unassigned\<close>). The deadlines are allocated with \<^verbatim>\<open>new double[NO_SEG]\<close> and
  assigned when playback starts, so every session begins with such comparisons: taking them as
  undefined would leave no session to speak of. The memory may hold any bits, a NaN included, so the outcome
  is free, and every theorem holds for both. The arrays \<open>face_dow_data\<close> and \<open>iter_re_decide\<close> are never
  initialised by the code: they are total, with arbitrary contents at the start. Logging, the request and
  download times that are only printed and the library's own bookkeeping are left out.
\<close>

record Close =
  has_req :: bool
  end_time :: rat
  start_time :: rat
  now_time :: rat
  late_if_unassigned :: bool

record Session =
  client :: Client
  player :: Player
  face_end_time :: "rat cell3"
  face_size :: "rat cell3"
  iter_sam_thrp :: "int \<Rightarrow> rat"
  iter_base_buff :: "int \<Rightarrow> rat"
  base_buf_sec :: "int \<Rightarrow> rat"
  pushStreamInfo :: "int \<Rightarrow> StreamInfo option"
  iter_push_stream_fin :: "int \<Rightarrow> int list"
  face_dow_data :: "int \<times> int \<times> int \<Rightarrow> rat"
  iter_down_data_frame :: "int \<Rightarrow> rat"
  iter_re_decide :: "int \<Rightarrow> bool"
  face_push_stream_id :: "int cell3"
  iter_push_stream :: "int \<Rightarrow> int list"
  path_cache :: "string list"
  success :: int

section \<open>The estimates of an iteration\<close>

text \<open>The mean of the samples of the last three iterations, or of as many as there are.\<close>

definition est_iter_thrp :: "rat list \<Rightarrow> int \<Rightarrow> rat option" where
  "est_iter_thrp sam it =
     (if it = 0 then Some 0
      else do {
        let no_samp = (if it < 3 then it else 3);
        xs \<leftarrow> those (map (aget sam) (rev [it - no_samp..it - 1]));
        Some (sum_list xs / of_int no_samp)
      })"

definition cal_smooth_bitrate :: "rat list \<Rightarrow> rat \<Rightarrow> int \<Rightarrow> rat \<Rightarrow> rat list option" where
  "cal_smooth_bitrate smooth est it step = do {
     prev \<leftarrow> aget smooth (it - 1);
     aset smooth it (if est < prev - step then prev - step
                     else if est > prev + step then prev + step
                     else est)
   }"

section \<open>The callback\<close>

definition get_cur_buff_size_second :: "Player \<Rightarrow> rat" where
  "get_cur_buff_size_second p = of_int (base_layer_buff p) / 1000"

text \<open>
  The arrival is late when it ends after the deadline of its segment; the outcome is free when that
  is not assigned. An index outside the array is undefined.
\<close>

definition is_late :: "Close \<Rightarrow> Player \<Rightarrow> int \<Rightarrow> bool option" where
  "is_late ev p sid = do {
     d \<leftarrow> aget (seg_playback_deadline p) sid;
     Some (case d of None \<Rightarrow> late_if_unassigned ev | Some d \<Rightarrow> end_time ev > d)
   }"

definition cell_bit :: "bool \<Rightarrow> int" where
  "cell_bit b = (if b then 1 else 0)"

text \<open>The first part: the metrics of the stream and the version of its tile.\<close>

definition record_stream :: "Manifest \<Rightarrow> Close \<Rightarrow> int \<Rightarrow> StreamInfo \<Rightarrow> Session \<Rightarrow> Session option" where
  "record_stream m ev stream_id info st = do {
     let c = client st;
     let i = (si_sid info, si_fid info, si_lid info);
     fin \<leftarrow> push_iter m (iter_req_stream_fin c) (iter_id c) stream_id;
     et \<leftarrow> set3 m (face_end_time st) i (end_time ev);
     fs \<leftarrow> set3 m (face_size st) i (face_dow_data st i);
     let cancelled = (stream_id \<in> set (cancelled_request_stream c));
     fc \<leftarrow> set3 m (face_cancel c) i (cell_bit cancelled);
     late \<leftarrow> is_late ev (player st) (si_sid info);
     fl \<leftarrow> set3 m (face_late c) i (cell_bit late);
     b \<leftarrow> (if \<not> late \<and> \<not> cancelled
           then update_tile_version (buff (player st)) (si_sid info) (si_fid info) (si_lid info)
           else Some (buff (player st)));
     Some (st\<lparr>client := c\<lparr>iter_req_stream_fin := fin, face_cancel := fc, face_late := fl,
                fin_s_num := fin_s_num c + 1,
                iter_down_data := (iter_down_data c)(iter_id c := iter_down_data c (iter_id c) + face_dow_data st i)\<rparr>,
              player := (player st)\<lparr>buff := b\<rparr>, face_end_time := et, face_size := fs\<rparr>)
   }"

text \<open>The end of a round.\<close>

definition end_round :: "Manifest \<Rightarrow> Close \<Rightarrow> StreamInfo \<Rightarrow> Session \<Rightarrow> Session option" where
  "end_round m ev info st = do {
     let c = client st;
     let p = player st;
     let down_time = now_time ev - start_time ev;
     done \<leftarrow> (if si_fid info > 0 then aset (seg_EL_download c) (si_sid info) True
              else Some (seg_EL_download c));
     (p, bbs, bl) \<leftarrow>
       (if si_fid info = 0
        then let p = incre_buff_size (mf_SD m * 1000) p
             in if 0 \<le> BL_seg_id c \<and> BL_seg_id c < mf_NO_SEG m
                then Some (p, (base_buf_sec st)(BL_seg_id c := get_cur_buff_size_second p), BL_seg_id c + 1)
                else None
        else Some (p, base_buf_sec st, BL_seg_id c));
     if down_time \<le> 0 \<or> \<not> in_iters m (iter_id c) then None
     else Some (st\<lparr>
       client := c\<lparr>seg_EL_download := done, BL_seg_id := bl,
                   iter_end := (iter_end c)(iter_id c := True), iter_id := iter_id c + 1\<rparr>,
       player := p, base_buf_sec := bbs,
       iter_sam_thrp := (iter_sam_thrp st)(iter_id c := iter_down_data c (iter_id c) / (down_time / 1000)),
       iter_base_buff := (iter_base_buff st)(iter_id c := get_cur_buff_size_second p)\<rparr>)
   }"

text \<open>
  The bookkeeping of a closed stream; the flag says that its round is over, so that the callback
  goes on to the next decision.
\<close>

definition close_stream :: "Manifest \<Rightarrow> Close \<Rightarrow> int \<Rightarrow> Session \<Rightarrow> (Session \<times> bool) option" where
  "close_stream m ev stream_id st =
     (case RequestStreamInfo (client st) stream_id of
        None \<Rightarrow> Some (st, False)
      | Some info \<Rightarrow> do {
          st \<leftarrow> record_stream m ev stream_id info st;
          if fin_s_num (client st) = req_s_num (client st)
          then do { st \<leftarrow> end_round m ev info st; Some (st, True) }
          else Some (st, False)
        })"

text \<open>The next decision; with its requests it also resets the data counted frame by frame.\<close>

definition run_engine :: "Manifest \<Rightarrow> Sense list \<Rightarrow> Session \<Rightarrow> Session option" where
  "run_engine m ss st = do {
     (d, c) \<leftarrow> decide (engine_for m (iter_id (client st))) ss (client st);
     let st = st\<lparr>client := c\<rparr>;
     Some (if d = Requested
           then st\<lparr>iter_down_data_frame := (iter_down_data_frame st)(iter_id (client st) := 0)\<rparr> else st)
   }"

definition INI_STREAM_ID :: int where "INI_STREAM_ID = 13"

definition on_stream_close :: "Manifest \<Rightarrow> Sense list \<Rightarrow> Close \<Rightarrow> int \<Rightarrow> Session \<Rightarrow> Session option" where
  "on_stream_close m ss ev stream_id st =
     (if \<not> has_req ev then Some st
      else do {
        st \<leftarrow> (if stream_id = INI_STREAM_ID
              then run_engine m ss (st\<lparr>client := (client st)\<lparr>cur_req_stream_id := stream_id, BL_seg_id := 0\<rparr>\<rparr>)
              else Some st);
        st \<leftarrow> (case pushStreamInfo st stream_id of
                None \<Rightarrow> Some st
              | Some _ \<Rightarrow> do {
                  fin \<leftarrow> push_iter m (iter_push_stream_fin st) (iter_id (client st)) stream_id;
                  Some (st\<lparr>iter_push_stream_fin := fin\<rparr>)
                });
        (st, over) \<leftarrow> close_stream m ev stream_id st;
        (if over then run_engine m ss st else Some st)
      })"


section \<open>A stream closes\<close>

definition session_shape :: "Manifest \<Rightarrow> Session \<Rightarrow> bool" where
  "session_shape m st \<longleftrightarrow> buffer_wf (buff (player st)) \<and>
     dims (buff (player st)) = (mf_NO_SEG m, mf_NO_TILE m, mf_EL_VER_NUM m + 1) \<and>
     0 \<le> mf_EL_VER_NUM m \<and> mf_NO_FACE m \<le> mf_NO_TILE m + 1 \<and>
     int (length (seg_playback_deadline (player st))) = mf_NO_SEG m \<and>
     int (length (seg_EL_download (client st))) = mf_NO_SEG m"

definition session_ok :: "Manifest \<Rightarrow> Session \<Rightarrow> bool" where
  "session_ok m st \<longleftrightarrow> session_shape m st \<and> in_iters m (iter_id (client st))"

lemmas session_defs = session_ok_def session_shape_def

text \<open>What recording a stream leaves alone.\<close>

definition close_rest where
  "close_rest st = (req_s_num (client st), RequestStreamInfo (client st), cancelled_request_stream (client st),
     iter_id (client st), BL_seg_id (client st), seg_EL_download (client st), iter_end (client st),
     base_layer_buff (player st), seg_playback_deadline (player st))"

definition cell_of :: "StreamInfo \<Rightarrow> int \<times> int \<times> int" where
  "cell_of info = (si_sid info, si_fid info, si_lid info)"

definition in_time :: "Session \<Rightarrow> Close \<Rightarrow> int \<Rightarrow> bool" where
  "in_time st ev stream_id \<longleftrightarrow> (case RequestStreamInfo (client st) stream_id of
      None \<Rightarrow> False
    | Some info \<Rightarrow> is_late ev (player st) (si_sid info) = Some False \<and>
        stream_id \<notin> set (cancelled_request_stream (client st)))"

definition delivers :: "Session \<Rightarrow> (Close \<times> int) list \<Rightarrow> (int \<times> int \<times> int) list" where
  "delivers st xs = map (\<lambda>(ev, i). cell_of (the (RequestStreamInfo (client st) i)))
     (filter (\<lambda>(ev, i). in_time st ev i) xs)"

lemma record_stream_ok:
  assumes "session_ok m st" "RequestStreamInfo (client st) i = Some info" "in_cells m (cell_of info)"
  shows "\<exists>st'. record_stream m ev i info st = Some st' \<and> session_ok m st' \<and> close_rest st' = close_rest st \<and>
    fin_s_num (client st') = fin_s_num (client st) + 1 \<and>
    for_each (\<lambda>(s, f, l) b. update_tile_version b s f l) (delivers st [(ev, i)]) (buff (player st))
      = Some (buff (player st'))"
proof -
  have cell: "in_cells m (si_sid info, si_fid info, si_lid info)" using assms(3) by (simp add: cell_of_def)
  have it: "in_iters m (iter_id (client st))" using assms(1) by (simp add: session_defs)
  have sid: "0 \<le> si_sid info" "si_sid info < int (length (seg_playback_deadline (player st)))"
    using cell assms(1) by (auto simp: in_cells_def session_defs)
  then obtain late where late: "is_late ev (player st) (si_sid info) = Some late"
    by (simp add: is_late_def aget_in)
  have "valid_delivery (dims (buff (player st))) (si_sid info) (si_fid info, si_lid info)"
    using cell assms(1) by (auto simp: valid_delivery_def in_cells_def session_defs)
  then obtain b where b: "update_tile_version (buff (player st)) (si_sid info) (si_fid info) (si_lid info) = Some b"
    "buffer_wf b" "dims b = dims (buff (player st))"
    using deliver_step assms(1) by (fastforce simp: deliver_def session_defs)
  have "in_time st ev i \<longleftrightarrow> \<not> late \<and> i \<notin> set (cancelled_request_stream (client st))"
    using assms(2) late by (simp add: in_time_def)
  then show ?thesis
    using cell it late b assms(1,2)
    by (auto simp: record_stream_def push_iter_def set3_def Let_def session_defs close_rest_def delivers_def
        cell_of_def)
qed

lemma end_round_ok:
  assumes "session_ok m st" "in_cells m (cell_of info)" "start_time ev < now_time ev"
    "si_fid info = 0 \<Longrightarrow> 0 \<le> BL_seg_id (client st) \<and> BL_seg_id (client st) < mf_NO_SEG m"
  shows "\<exists>st'. end_round m ev info st = Some st' \<and> iter_id (client st') = iter_id (client st) + 1 \<and>
    iter_end (client st') = (iter_end (client st))(iter_id (client st) := True) \<and>
    BL_seg_id (client st') = BL_seg_id (client st) + (if si_fid info = 0 then 1 else 0) \<and>
    base_layer_buff (player st') = base_layer_buff (player st) + (if si_fid info = 0 then mf_SD m * 1000 else 0) \<and>
    seg_EL_download (client st') = (if si_fid info = 0 then seg_EL_download (client st)
       else (seg_EL_download (client st))[nat (si_sid info) := True]) \<and>
    buff (player st') = buff (player st)"
  using assms
  by (auto simp: end_round_def session_defs in_cells_def cell_of_def aset_in incre_buff_size_def Let_def)

fun closes :: "Manifest \<Rightarrow> (Close \<times> int) list \<Rightarrow> Session \<Rightarrow> (Session \<times> bool list) option" where
  "closes m [] st = Some (st, [])"
| "closes m ((ev, i) # xs) st = do {
     (st, over) \<leftarrow> close_stream m ev i st;
     (st, overs) \<leftarrow> closes m xs st;
     Some (st, over # overs)
   }"

definition known_streams :: "Manifest \<Rightarrow> Session \<Rightarrow> (Close \<times> int) list \<Rightarrow> bool" where
  "known_streams m st xs \<longleftrightarrow> (\<forall>(ev, i) \<in> set xs. start_time ev < now_time ev \<and>
     (\<exists>info. RequestStreamInfo (client st) i = Some info \<and> in_cells m (cell_of info)))"

lemma delivers_rest:
  assumes "close_rest st' = close_rest st"
  shows "delivers st' xs = delivers st xs"
proof -
  have "seg_playback_deadline (player st') = seg_playback_deadline (player st)"
    and same: "RequestStreamInfo (client st') = RequestStreamInfo (client st)"
      "cancelled_request_stream (client st') = cancelled_request_stream (client st)"
    using assms by (simp_all add: close_rest_def)
  then have "is_late ev (player st') sid = is_late ev (player st) sid" for ev sid
    by (simp add: is_late_def)
  then have "in_time st' = in_time st" by (intro ext) (simp add: in_time_def same split: option.split)
  then show ?thesis by (simp add: delivers_def same)
qed

lemma delivers_Cons: "delivers st (x # xs) = delivers st [x] @ delivers st xs"
  by (simp add: delivers_def)

lemma known_rest: "close_rest st' = close_rest st \<Longrightarrow> known_streams m st' xs = known_streams m st xs"
  by (simp add: known_streams_def close_rest_def)

text \<open>All but the last stream of a round: nothing is decided.\<close>

lemma closes_prefix:
  assumes "session_ok m st" "known_streams m st xs"
    "fin_s_num (client st) + int (length xs) < req_s_num (client st)"
  shows "\<exists>st'. closes m xs st = Some (st', replicate (length xs) False) \<and> session_ok m st' \<and>
    close_rest st' = close_rest st \<and> fin_s_num (client st') = fin_s_num (client st) + int (length xs) \<and>
    for_each (\<lambda>(s, f, l) b. update_tile_version b s f l) (delivers st xs) (buff (player st)) = Some (buff (player st'))"
  using assms
proof (induction xs arbitrary: st)
  case Nil
  then show ?case by (simp add: delivers_def)
next
  case (Cons x xs)
  obtain ev i where x: "x = (ev, i)" by fastforce
  obtain info where info: "RequestStreamInfo (client st) i = Some info" "in_cells m (cell_of info)"
    using Cons.prems(2) x by (auto simp: known_streams_def)
  from record_stream_ok [OF Cons.prems(1) info] obtain st1 where
    st1: "record_stream m ev i info st = Some st1" "session_ok m st1" "close_rest st1 = close_rest st"
      "fin_s_num (client st1) = fin_s_num (client st) + 1"
      "for_each (\<lambda>(s, f, l) b. update_tile_version b s f l) (delivers st [(ev, i)]) (buff (player st)) = Some (buff (player st1))"
    by blast
  have req: "req_s_num (client st1) = req_s_num (client st)" using st1(3) by (simp add: close_rest_def)
  have close: "close_stream m ev i st = Some (st1, False)"
    using Cons.prems(3) st1(1,4) req info(1) by (simp add: close_stream_def)
  have "known_streams m st1 xs" using Cons.prems(2) known_rest [OF st1(3)] by (simp add: known_streams_def)
  moreover have "fin_s_num (client st1) + int (length xs) < req_s_num (client st1)"
    using Cons.prems(3) st1(4) req by simp
  ultimately obtain st' where "closes m xs st1 = Some (st', replicate (length xs) False)" "session_ok m st'"
    "close_rest st' = close_rest st1" "fin_s_num (client st') = fin_s_num (client st1) + int (length xs)"
    "for_each (\<lambda>(s, f, l) b. update_tile_version b s f l) (delivers st1 xs) (buff (player st1)) = Some (buff (player st'))"
    using Cons.IH [OF st1(2)] by blast
  moreover from this(5) have "for_each (\<lambda>(s, f, l) b. update_tile_version b s f l) (delivers st (x # xs)) (buff (player st))
      = Some (buff (player st'))"
    using st1(5) by (simp only: x delivers_Cons [of st "(ev, i)" xs] for_each_append delivers_rest [OF st1(3)]) simp
  moreover have "closes m (x # xs) st = Some (st', replicate (length (x # xs)) False)"
    using close calculation(1) by (simp add: x)
  ultimately show ?case using st1(3,4) by auto
qed


lemma closes_append:
  "closes m (xs @ ys) st = do {
     (st, a) \<leftarrow> closes m xs st;
     (st, b) \<leftarrow> closes m ys st;
     Some (st, a @ b)
   }"
  by (induction m xs st rule: closes.induct) (auto split: bind_splits prod.splits)

lemma delivers_append: "delivers st (xs @ ys) = delivers st xs @ delivers st ys"
  by (simp add: delivers_def)

lemma round_closes_run:
  assumes "session_ok m st" "known_streams m st (xs @ [(ev, i)])"
    and "fin_s_num (client st) + int (length xs) + 1 = req_s_num (client st)"
    and "RequestStreamInfo (client st) i = Some info"
    and "si_fid info = 0 \<Longrightarrow> 0 \<le> BL_seg_id (client st) \<and> BL_seg_id (client st) < mf_NO_SEG m"
  shows "\<exists>st'. closes m (xs @ [(ev, i)]) st = Some (st', replicate (length xs) False @ [True]) \<and>
    iter_id (client st') = iter_id (client st) + 1 \<and>
    BL_seg_id (client st') = BL_seg_id (client st) + (if si_fid info = 0 then 1 else 0) \<and>
    base_layer_buff (player st') = base_layer_buff (player st) + (if si_fid info = 0 then mf_SD m * 1000 else 0) \<and>
    seg_EL_download (client st') = (if si_fid info = 0 then seg_EL_download (client st)
       else (seg_EL_download (client st))[nat (si_sid info) := True]) \<and>
    for_each (\<lambda>(s, f, l) b. update_tile_version b s f l) (delivers st (xs @ [(ev, i)])) (buff (player st))
      = Some (buff (player st'))"
proof -
  have known: "known_streams m st xs" and cell: "in_cells m (cell_of info)" and tm: "start_time ev < now_time ev"
    using assms(2,4) by (auto simp: known_streams_def)
  obtain st1 where st1: "closes m xs st = Some (st1, replicate (length xs) False)" "session_ok m st1"
    "close_rest st1 = close_rest st" "fin_s_num (client st1) = fin_s_num (client st) + int (length xs)"
    "for_each (\<lambda>(s, f, l) b. update_tile_version b s f l) (delivers st xs) (buff (player st)) = Some (buff (player st1))"
    using closes_prefix [OF assms(1) known] assms(3) by auto
  have info: "RequestStreamInfo (client st1) i = Some info" using st1(3) assms(4) by (simp add: close_rest_def)
  from record_stream_ok [OF st1(2) info cell] obtain st2 where
    st2: "record_stream m ev i info st1 = Some st2" "session_ok m st2" "close_rest st2 = close_rest st1"
      "fin_s_num (client st2) = fin_s_num (client st1) + 1"
      "for_each (\<lambda>(s, f, l) b. update_tile_version b s f l) (delivers st1 [(ev, i)]) (buff (player st1)) = Some (buff (player st2))"
    by blast
  have same: "close_rest st2 = close_rest st" using st1(3) st2(3) by simp
  then have bl: "si_fid info = 0 \<Longrightarrow> 0 \<le> BL_seg_id (client st2) \<and> BL_seg_id (client st2) < mf_NO_SEG m"
    using assms(5) by (simp add: close_rest_def)
  from end_round_ok [OF st2(2) cell tm bl] obtain st3 where
    st3: "end_round m ev info st2 = Some st3" "iter_id (client st3) = iter_id (client st2) + 1"
    "BL_seg_id (client st3) = BL_seg_id (client st2) + (if si_fid info = 0 then 1 else 0)"
    "base_layer_buff (player st3) = base_layer_buff (player st2) + (if si_fid info = 0 then mf_SD m * 1000 else 0)"
    "seg_EL_download (client st3) = (if si_fid info = 0 then seg_EL_download (client st2)
       else (seg_EL_download (client st2))[nat (si_sid info) := True])"
    "buff (player st3) = buff (player st2)"
    by blast
  have "fin_s_num (client st2) = req_s_num (client st2)"
    using st1(4) st2(4) assms(3) same by (simp add: close_rest_def)
  then have "closes m (xs @ [(ev, i)]) st = Some (st3, replicate (length xs) False @ [True])"
    using st1(1) st2(1) st3(1) info by (simp add: closes_append close_stream_def)
  moreover have "for_each (\<lambda>(s, f, l) b. update_tile_version b s f l) (delivers st (xs @ [(ev, i)])) (buff (player st))
      = Some (buff (player st3))"
    using st1(5) st2(5) st3(6) by (simp add: delivers_append for_each_append delivers_rest [OF st1(3)])
  ultimately show ?thesis using st3 same by (auto simp: close_rest_def)
qed

section \<open>Rounds\<close>

text \<open>
  C20: When the streams of a round close, in whatever order, the round ends with the last one and
  not before: the next iteration starts, a base layer advances \<^verbatim>\<open>BL_seg_id\<close> and the buffer level by
  one segment, enhancement layers mark their segment as done, and exactly the deliveries that were
  neither late nor cancelled have been entered into the buffer, in order.
\<close>

theorem round_closes:
  assumes "session_ok m st" "known_streams m st (xs @ [(ev, i)])"
    and "fin_s_num (client st) = 0" "req_s_num (client st) = int (length xs) + 1"
    and "RequestStreamInfo (client st) i = Some info"
    and "si_fid info = 0 \<Longrightarrow> 0 \<le> BL_seg_id (client st) \<and> BL_seg_id (client st) < mf_NO_SEG m"
  shows "\<exists>st'. closes m (xs @ [(ev, i)]) st = Some (st', replicate (length xs) False @ [True]) \<and>
    iter_id (client st') = iter_id (client st) + 1 \<and>
    BL_seg_id (client st') = BL_seg_id (client st) + (if si_fid info = 0 then 1 else 0) \<and>
    base_layer_buff (player st') = base_layer_buff (player st) + (if si_fid info = 0 then mf_SD m * 1000 else 0) \<and>
    seg_EL_download (client st') = (if si_fid info = 0 then seg_EL_download (client st)
       else (seg_EL_download (client st))[nat (si_sid info) := True]) \<and>
    for_each (\<lambda>(s, f, l) b. update_tile_version b s f l) (delivers st (xs @ [(ev, i)])) (buff (player st))
      = Some (buff (player st'))"
  using assms by (intro round_closes_run) simp_all


definition demo_close :: "rat \<Rightarrow> Close" where
  "demo_close t = \<lparr>has_req = True, end_time = t, start_time = 0, now_time = t + 1,
     late_if_unassigned = False\<rparr>"

definition demo_session :: "Client \<Rightarrow> Session" where
  "demo_session c = \<lparr>client = c,
     player = (the (player_init 2 20 1 6 3))\<lparr>seg_playback_deadline := replicate 20 (Some 5000)\<rparr>,
     face_end_time = \<lambda>_. None, face_size = \<lambda>_. None, iter_sam_thrp = \<lambda>_. 0, iter_base_buff = \<lambda>_. 0,
     base_buf_sec = \<lambda>_. 0, pushStreamInfo = \<lambda>_. None, iter_push_stream_fin = \<lambda>_. [],
     face_dow_data = \<lambda>_. 0, iter_down_data_frame = \<lambda>_. 0, iter_re_decide = \<lambda>_. False,
     face_push_stream_id = \<lambda>_. None, iter_push_stream = \<lambda>_. [], path_cache = [], success = 0\<rparr>"

definition demo_base_round :: Client where
  "demo_base_round = demo_client\<lparr>cur_req_stream_id := 15, req_s_num := 1, iter_req_stream := (\<lambda>_. [])(0 := [15]),
     RequestStreamInfo := [15 \<mapsto> \<lparr>si_sid = 0, si_fid = 0, si_lid = 0\<rparr>]\<rparr>"

lemma demo_base_round_ok:
  "session_ok (demo_manifest 5) (demo_session demo_base_round) \<and>
   fin_s_num (client (demo_session demo_base_round)) = 0 \<and> req_s_num (client (demo_session demo_base_round)) = 1 \<and>
   RequestStreamInfo (client (demo_session demo_base_round)) 15 = Some \<lparr>si_sid = 0, si_fid = 0, si_lid = 0\<rparr> \<and>
   BL_seg_id (client (demo_session demo_base_round)) = 0 \<and> iter_id (client (demo_session demo_base_round)) = 0 \<and>
   base_layer_buff (player (demo_session demo_base_round)) = 0"
  by code_simp

lemma demo_base_round_known:
  "start_time ev < now_time ev \<Longrightarrow> known_streams (demo_manifest 5) (demo_session demo_base_round) [(ev, 15)]"
  by (simp add: known_streams_def demo_session_def demo_base_round_def in_cells_def cell_of_def demo_manifest_def)

theorem round_closes_witness:
  "\<exists>st'. closes (demo_manifest 5) [(demo_close 900, 15)] (demo_session demo_base_round) = Some (st', [True]) \<and>
     iter_id (client st') = 1 \<and> BL_seg_id (client st') = 1 \<and> base_layer_buff (player st') = 1000"
  using round_closes [of "demo_manifest 5" "demo_session demo_base_round" "[]" "demo_close 900" 15]
    demo_base_round_ok demo_base_round_known [of "demo_close 900"]
  by (auto simp: demo_close_def demo_manifest_def)

text \<open>
  A base layer that arrives after the deadline of its segment, as the one that ends a stall
  does, advances the buffer level and \<^verbatim>\<open>BL_seg_id\<close> but is not entered into the buffer: with no other
  layer of that segment there, the version of every tile of the segment stays unassigned.
\<close>

theorem late_base_layer_lost:
  assumes "session_ok m st" "fin_s_num (client st) = 0" "req_s_num (client st) = 1"
    and "RequestStreamInfo (client st) i = Some \<lparr>si_sid = sid, si_fid = 0, si_lid = 0\<rparr>"
    and "in_cells m (sid, 0, 0)" "start_time ev < now_time ev"
    and "0 \<le> BL_seg_id (client st)" "BL_seg_id (client st) < mf_NO_SEG m"
    and "is_late ev (player st) sid = Some True"
    and "get_tile_version (buff (player st)) sid = Some vs" "set vs \<subseteq> {None}"
  shows "\<exists>st'. close_stream m ev i st = Some (st', True) \<and>
    base_layer_buff (player st') = base_layer_buff (player st) + mf_SD m * 1000 \<and>
    BL_seg_id (client st') = BL_seg_id (client st) + 1 \<and>
    get_tile_version (buff (player st')) sid = Some (replicate (length vs) None)"
proof -
  have known: "known_streams m st ([] @ [(ev, i)])"
    using assms(4-6) by (simp add: known_streams_def cell_of_def)
  have none: "delivers st [(ev, i)] = []"
    using assms(4,9) by (simp add: delivers_def in_time_def)
  obtain st' where st': "closes m ([] @ [(ev, i)]) st = Some (st', replicate 0 False @ [True])"
    "BL_seg_id (client st') = BL_seg_id (client st) + 1"
    "base_layer_buff (player st') = base_layer_buff (player st) + mf_SD m * 1000"
    "for_each (\<lambda>(s, f, l) b. update_tile_version b s f l) (delivers st [(ev, i)]) (buff (player st)) = Some (buff (player st'))"
    using round_closes_run [OF assms(1) known _ assms(4)] assms(2,3,7,8) by auto
  have same: "buff (player st') = buff (player st)" using st'(4) unfolding none by simp
  have "vs = replicate (length vs) None" using assms(11) by (intro replicate_eqI) auto
  then have "get_tile_version (buff (player st')) sid = Some (replicate (length vs) None)"
    using assms(10) same by simp
  moreover have "close_stream m ev i st = Some (st', True)"
    using st'(1) by (auto split: bind_splits prod.splits)
  ultimately show ?thesis using st'(2,3) by blast
qed

theorem late_base_layer_lost_witness:
  "\<exists>st'. close_stream (demo_manifest 5) (demo_close 6000) 15 (demo_session demo_base_round) = Some (st', True) \<and>
     base_layer_buff (player st') = 1000 \<and> get_tile_version (buff (player st')) 0 = Some (replicate 6 None)"
proof -
  have "is_late (demo_close 6000) (player (demo_session demo_base_round)) 0 = Some True \<and>
      get_tile_version (buff (player (demo_session demo_base_round))) 0 = Some (replicate 6 None)"
    by code_simp
  then show ?thesis
    using late_base_layer_lost [of "demo_manifest 5" "demo_session demo_base_round" 15 0 "demo_close 6000" "replicate 6 None"]
      demo_base_round_ok
    by (auto simp: demo_close_def demo_manifest_def in_cells_def)
qed

section \<open>The smoothed bitrate\<close>

text \<open>
  The smoothed bitrate of an iteration moves from that of the last one towards the estimate by
  at most one step, so that its distance to the estimate shrinks by the step until it is zero.
\<close>

theorem smooth_bitrate_approaches:
  assumes "0 \<le> step" "1 \<le> it" "it < int (length smooth)"
  shows "\<exists>smooth' prev new. cal_smooth_bitrate smooth est it step = Some smooth' \<and>
    aget smooth (it - 1) = Some prev \<and> aget smooth' it = Some new \<and>
    \<bar>new - prev\<bar> \<le> step \<and> \<bar>new - est\<bar> = max 0 (\<bar>prev - est\<bar> - step) \<and>
    (\<forall>j. j \<noteq> it \<longrightarrow> aget smooth' j = aget smooth j)"
proof -
  define prev where "prev = smooth ! nat (it - 1)"
  define new where "new = (if est < prev - step then prev - step else if est > prev + step then prev + step else est)"
  have run: "aget smooth (it - 1) = Some prev" "aset smooth it new = Some (smooth[nat it := new])"
    using assms(2,3) by (simp_all add: prev_def aget_in aset_in)
  moreover have "\<bar>new - prev\<bar> \<le> step" "\<bar>new - est\<bar> = max 0 (\<bar>prev - est\<bar> - step)"
    using assms(1) by (auto simp: new_def)
  ultimately show ?thesis
    by (intro exI [of _ "smooth[nat it := new]"] exI [of _ prev] exI [of _ new])
      (auto simp: cal_smooth_bitrate_def new_def aget_aset [OF run(2) [unfolded new_def]])
qed

theorem smooth_bitrate_approaches_witness:
  "\<exists>smooth' new. cal_smooth_bitrate [1000, 0] 1500 1 200 = Some smooth' \<and> aget smooth' 1 = Some new \<and>
     \<bar>new - 1500\<bar> = (300 :: rat)"
proof -
  obtain smooth' prev new where r: "cal_smooth_bitrate [1000, 0] 1500 1 200 = Some smooth'"
    "aget [1000, 0] ((1 :: int) - 1) = Some prev" "aget smooth' 1 = Some new"
    "\<bar>new - 1500\<bar> = max 0 (\<bar>prev - 1500\<bar> - (200 :: rat))"
    using smooth_bitrate_approaches [of 200 1 "[1000, 0]" 1500] by auto
  moreover have "prev = 1000" using r(2) by (simp add: aget_def)
  ultimately show ?thesis by auto
qed

text \<open>
  The throughput estimate of an iteration is 0 for the first one and then lies between the
  least and the greatest of the samples of the last three iterations.
\<close>

theorem est_iter_thrp_between:
  assumes "0 < it" "it \<le> int (length sam)"
    and "\<forall>j. 0 \<le> j \<and> it - 3 \<le> j \<and> j < it \<longrightarrow> lo \<le> sam ! nat j \<and> sam ! nat j \<le> hi"
  shows "\<exists>e. est_iter_thrp sam it = Some e \<and> lo \<le> e \<and> e \<le> hi"
proof -
  define n where "n = (if it < 3 then it else 3)"
  let ?is = "rev [it - n..it - 1]" and ?f = "\<lambda>j. sam ! nat j"
  have n: "0 < n" "it - n \<ge> 0" "n \<le> 3" "n \<le> it" using assms(1) by (auto simp: n_def)
  have "those (map (aget sam) ?is) = Some (map ?f ?is)"
    using n assms(2) by (intro those_map_Some) (auto simp: aget_in)
  moreover have len: "of_int n = (of_nat (length ?is) :: rat)"
  proof -
    have "int (length ?is) = n" using n by simp
    then show ?thesis by (metis of_int_of_nat_eq)
  qed
  have b: "\<forall>j \<in> set ?is. lo \<le> ?f j \<and> ?f j \<le> hi" using n assms(3) by auto
  have "of_nat (length xs) * lo \<le> sum_list (map ?f xs) \<and> sum_list (map ?f xs) \<le> of_nat (length xs) * hi"
    if "\<forall>j \<in> set xs. lo \<le> ?f j \<and> ?f j \<le> hi" for xs
    using that by (induction xs) (auto simp: algebra_simps intro: add_mono)
  from this [OF b] have "of_int n * lo \<le> sum_list (map ?f ?is)" "sum_list (map ?f ?is) \<le> of_int n * hi"
    unfolding len by blast+
  ultimately show ?thesis
    using n(1) assms(1) by (simp add: est_iter_thrp_def Let_def n_def [symmetric] pos_le_divide_eq pos_divide_le_eq mult.commute)
qed

theorem est_iter_thrp_between_witness:
  "\<exists>e. est_iter_thrp [100, 900, 1000, 1100] 4 = Some e \<and> 900 \<le> e \<and> e \<le> (1100 :: rat)"
proof (rule est_iter_thrp_between)
  show "\<forall>j. 0 \<le> j \<and> 4 - 3 \<le> j \<and> j < (4::int) \<longrightarrow>
      (900 :: rat) \<le> [100, 900, 1000, 1100] ! nat j \<and> [100, 900, 1000, 1100] ! nat j \<le> (1100 :: rat)"
  proof (intro allI impI)
    fix j :: int
    assume "0 \<le> j \<and> 4 - 3 \<le> j \<and> j < 4"
    then have "j = 1 \<or> j = 2 \<or> j = 3" by auto
    then show "(900 :: rat) \<le> [100, 900, 1000, 1100] ! nat j \<and> [100, 900, 1000, 1100] ! nat j \<le> (1100 :: rat)" by auto
  qed
qed simp_all

end
