(* ===== verification/Data_Frames.thy ===== *)
theory Data_Frames
  imports Stream_Close
begin

text \<open>
  The callback \<^verbatim>\<open>on_frame_recv_callback2\<close> of \<^verbatim>\<open>nghttp.cc\<close>, which the HTTP/2 library calls for every
  frame. While a round downloads it accounts for the data of each tile; past the deadline of the
  segment it resets the streams still open; and once per iteration, when half of the time budget
  is over, it decides again (\<^verbatim>\<open>trung_adaptation\<close>): tiles that left the viewport are given up, tiles
  that entered it are requested. The branch for pushes keeps the tables of promised streams.

  The library supplies the event: a \<open>Frame\<close> carries what it knows of a data frame, the clock, the
  viewport sensed at that time, and the two figures the engine left for the iteration, its
  estimated throughput and its time budget. A \<open>Promise\<close> carries the headers of a push and whether
  the URI parser accepts them. Resetting a stream is queued (\<open>rst_streams\<close>): its close callback
  follows later. The branches for response headers and settings concern the library's own
  protocol and are left out, as is console output: what a print reads past an array is not a step of the
  operations here; \<open>print_layer_br\<close> is the one such read. The deadline of a segment that has not
  started may not be assigned yet; the comparison with it then has whatever outcome the memory
  gives, which the event supplies (\<open>fr_past_if_unassigned\<close>).
\<close>

record Frame =
  fr_req :: bool
  fr_length :: int
  fr_end_stream :: bool
  fr_now :: rat
  fr_elapsed :: rat
  fr_past_if_unassigned :: bool
  fr_viewport :: "int list"
  fr_est_thrp :: rat
  fr_time_budget :: rat

section \<open>Deciding again\<close>

text \<open>The tiles that entered the viewport, and those that left it.\<close>

definition new_tiles :: "int list \<Rightarrow> int list \<Rightarrow> int list" where
  "new_tiles viewport_tile tile_list = filter (\<lambda>t. t \<notin> set tile_list) viewport_tile"

definition old_tiles :: "int list \<Rightarrow> int list \<Rightarrow> int list" where
  "old_tiles viewport_tile tile_list = filter (\<lambda>t. t \<notin> set viewport_tile) tile_list"

text \<open>One stream of the round: reset when it is open, for an old tile, and has brought nothing.\<close>

definition drop_stream ::
  "Manifest \<Rightarrow> (int \<times> int \<times> int \<Rightarrow> rat) \<Rightarrow> int list \<Rightarrow> int \<Rightarrow> int \<Rightarrow> Client \<times> int \<Rightarrow> (Client \<times> int) option" where
  "drop_stream m dow old it i = (\<lambda>(c, total_br_remain_stream). do {
     info \<leftarrow> RequestStreamInfo c i;
     if i \<notin> set (iter_req_stream_fin c it)
     then if \<not> in_cells m (cell_of info) then None
          else if si_fid info \<in> set old \<and> dow (cell_of info) = 0
          then do {
            stream \<leftarrow> face_stream_ID c (cell_of info);
            br \<leftarrow> aget (mf_enha_layer_br m) (si_lid info);
            Some (c\<lparr>rst_streams := rst_streams c @ [stream]\<rparr>, total_br_remain_stream + br)
          }
          else Some (c, total_br_remain_stream)
     else Some (c, total_br_remain_stream)
   })"

text \<open>The largest number of layers that fits for all new tiles.\<close>

fun fit_layers :: "int list \<Rightarrow> int \<Rightarrow> int \<Rightarrow> int \<Rightarrow> rat \<Rightarrow> int \<Rightarrow> nat \<Rightarrow> nat" where
  "fit_layers [] n remain sd capacity EL_br_tmp l = l"
| "fit_layers (br # brs) n remain sd capacity EL_br_tmp l =
     (if of_int (((EL_br_tmp + br) * n + remain) * sd) > capacity then l
      else fit_layers brs n remain sd capacity (EL_br_tmp + br) (Suc l))"

text \<open>
  The layers 1 to \<open>l\<close> of one new tile. Before each request the bitrate of the next layer is printed,
  which for the highest layer is read past the end.
\<close>

definition print_layer_br :: "Manifest \<Rightarrow> int \<Rightarrow> int option" where
  "print_layer_br m layerId = aget (mf_enha_layer_br m) layerId"

definition request_new_tile :: "Manifest \<Rightarrow> int \<Rightarrow> nat \<Rightarrow> int \<Rightarrow> Client \<Rightarrow> Client option" where
  "request_new_tile m it l t c = do {
     c \<leftarrow> for_each (\<lambda>layerId c. do {
            br \<leftarrow> aget (mf_enha_layer_br m) (layerId - 1);
            (c, stream_id) \<leftarrow> request_layer m it (EL_seg_id c) 10 t layerId br 0 c;
            Some c
          }) [1..int l] c;
     note_tile m it t c
   }"

definition trung_adaptation ::
  "Manifest \<Rightarrow> Frame \<Rightarrow> int \<Rightarrow> (int \<times> int \<times> int \<Rightarrow> rat) \<Rightarrow> Client \<Rightarrow> Client option" where
  "trung_adaptation m fr it dow c = do {
     let new = new_tiles (fr_viewport fr) (iter_tile_list c it);
     let old = old_tiles (fr_viewport fr) (iter_tile_list c it);
     (c, remain) \<leftarrow> (if new \<noteq> [] then for_each (drop_stream m dow old it) (iter_req_stream c it) (c, 0)
                    else Some (c, 0));
     let brs = take (nat (mf_EL_VER_NUM m)) (mf_enha_layer_br m);
     let l = fit_layers brs (int (length new)) remain (mf_SD m)
       (fr_est_thrp fr * (fr_time_budget fr - fr_elapsed fr) / 1000) 0 0;
     if l = length brs \<and> int (length brs) < mf_EL_VER_NUM m then None
     else if l > 0 then for_each (request_new_tile m it l) new c
     else Some c
   }"

section \<open>Data frames\<close>

text \<open>The streams of the iteration that have not closed are all given up.\<close>

definition open_streams :: "int \<Rightarrow> Client \<Rightarrow> int list" where
  "open_streams it c = filter (\<lambda>i. i \<notin> set (iter_req_stream_fin c it)) (iter_req_stream c it)"

definition cancel_round :: "int \<Rightarrow> Client \<Rightarrow> Client" where
  "cancel_round it c = c\<lparr>cancelled_request_stream := cancelled_request_stream c @ open_streams it c,
     rst_streams := rst_streams c @ open_streams it c\<rparr>"

text \<open>An unassigned deadline holds any bits, a NaN included: the outcome of the comparison is free.\<close>

definition past_deadline :: "Frame \<Rightarrow> Player \<Rightarrow> int \<Rightarrow> bool option" where
  "past_deadline fr p sid = do {
     d \<leftarrow> aget (seg_playback_deadline p) sid;
     Some (case d of None \<Rightarrow> fr_past_if_unassigned fr | Some d \<Rightarrow> fr_now fr \<ge> d)
   }"

definition count_success :: "Session \<Rightarrow> Session" where
  "count_success st = st\<lparr>success := success st + 1\<rparr>"

text \<open>The data of the frame, in kilobits: of the iteration, and of the tile's layer.\<close>

definition add_iter_data :: "Manifest \<Rightarrow> Frame \<Rightarrow> Session \<Rightarrow> Session option" where
  "add_iter_data m fr st =
     (let it = iter_id (client st)
      in if in_iters m it
         then Some (st\<lparr>iter_down_data_frame := (iter_down_data_frame st)
                (it := iter_down_data_frame st it + of_int (fr_length fr) * 8 / 1000)\<rparr>)
         else None)"

definition add_tile_data :: "Manifest \<Rightarrow> Frame \<Rightarrow> StreamInfo \<Rightarrow> Session \<Rightarrow> Session option" where
  "add_tile_data m fr info st =
     (if in_cells m (cell_of info)
      then Some (st\<lparr>face_dow_data := (face_dow_data st)
             (cell_of info := face_dow_data st (cell_of info) + of_int (fr_length fr) * 8 / 1000)\<rparr>)
      else None)"

definition end_late :: "Manifest \<Rightarrow> Frame \<Rightarrow> StreamInfo \<Rightarrow> Session \<Rightarrow> Session option" where
  "end_late m fr info st = do {
     past \<leftarrow> past_deadline fr (player st) (si_sid info);
     if mf_ALG m \<in> {2, 3, 4, 5, 6, 7, 8, 9, 10, 11, 12, 13} \<and> si_sid info > 0 \<and> si_fid info > 0 \<and> past
     then if fr_end_stream fr then Some (count_success st)
          else Some (st\<lparr>client := cancel_round (iter_id (client st)) (client st)\<rparr>)
     else Some st
   }"

definition redecide :: "Manifest \<Rightarrow> Frame \<Rightarrow> StreamInfo \<Rightarrow> Session \<Rightarrow> Session option" where
  "redecide m fr info st =
     (let c = client st; it = iter_id c
      in if mf_ALG m \<in> {5, 6, 7, 8, 9, 10, 11, 12, 13} \<and> fin_s_num c \<noteq> req_s_num c \<and>
            si_sid info > 0 \<and> si_fid info > 0 \<and> fr_elapsed fr > 1 / 2 * fr_time_budget fr \<and>
            \<not> iter_re_decide st it \<and> cancelled_request_stream c = []
         then do {
           c \<leftarrow> trung_adaptation m fr it (face_dow_data st) c;
           Some (st\<lparr>client := c, iter_re_decide := (iter_re_decide st)(it := True)\<rparr>)
         }
         else Some st)"

definition recv_data :: "Manifest \<Rightarrow> Frame \<Rightarrow> int \<Rightarrow> Session \<Rightarrow> Session option" where
  "recv_data m fr stream_id st =
     (if \<not> fr_req fr then Some st
      else do {
        let st = (if fr_end_stream fr then count_success st else st);
        if fr_length fr \<ge> 0
        then do {
          st \<leftarrow> add_iter_data m fr st;
          (case RequestStreamInfo (client st) stream_id of
             None \<Rightarrow> Some st
           | Some info \<Rightarrow> do {
               st \<leftarrow> add_tile_data m fr info st;
               st \<leftarrow> end_late m fr info st;
               redecide m fr info st
             })
        }
        else Some st
      })"

section \<open>Push promises\<close>

record Promise =
  pp_req :: bool
  pp_scheme :: string
  pp_authority :: string
  pp_path :: string
  pp_parses :: bool

definition note_promise :: "Manifest \<Rightarrow> int \<Rightarrow> StreamInfo \<Rightarrow> Session \<Rightarrow> Session option" where
  "note_promise m promised info st = do {
     pushed \<leftarrow> push_iter m (iter_push_stream st) (iter_id (client st)) promised;
     ids \<leftarrow> set3 m (face_push_stream_id st) (cell_of info) promised;
     Some (st\<lparr>iter_push_stream := pushed, face_push_stream_id := ids,
             pushStreamInfo := map_insert (pushStreamInfo st) promised info,
             face_dow_data := (face_dow_data st)(cell_of info := 0)\<rparr>)
   }"

definition refuse :: "int \<Rightarrow> Session \<Rightarrow> Session" where
  "refuse promised st = st\<lparr>client := (client st)\<lparr>rst_streams := rst_streams (client st) @ [promised]\<rparr>\<rparr>"

definition push_uri :: "Promise \<Rightarrow> string" where
  "push_uri pp = pp_scheme pp @ ''://'' @ pp_authority pp @ pp_path pp"

definition recv_push_promise :: "Manifest \<Rightarrow> bool \<Rightarrow> Promise \<Rightarrow> int \<Rightarrow> int \<Rightarrow> Session \<Rightarrow> Session option" where
  "recv_push_promise m multiply_1 pp stream_id promised st =
     (if \<not> pp_req pp then Some st
      else do {
        st \<leftarrow> (case RequestStreamInfo (client st) stream_id of
                None \<Rightarrow> Some st
              | Some info \<Rightarrow> note_promise m promised info st);
        Some (if take 1 (pp_path pp) \<noteq> ''/'' then refuse promised st
              else if \<not> pp_parses pp then refuse promised st
              else if push_uri pp \<in> set (path_cache st) then refuse promised st
              else if multiply_1 then st\<lparr>path_cache := push_uri pp # path_cache st\<rparr>
              else st)
      })"

end
