(* ===== verification/Redecision.thy ===== *)
theory Redecision
  imports Data_Frames
begin

text \<open>
  What the data frames of a round do. Deciding again resets the open streams of the tiles that left
  the viewport and requests the layers that fit for the tiles that entered it, with the bookkeeping
  of the round kept (locale \<open>frame_invariant\<close>); it happens once per iteration. A round that runs
  past its deadline is given up: whatever closes later is not entered into the buffer. But a stream
  that the second decision reset is entered, although nothing of it arrived.
\<close>

section \<open>What deciding again keeps\<close>

locale frame_invariant =
  fixes m :: Manifest and it :: int and T :: "int set" and P :: "Client \<Rightarrow> bool"
  assumes P_request: "t \<in> T \<Longrightarrow> request_layer m it (EL_seg_id c) 10 t l br 0 c = Some (c', i) \<Longrightarrow> P c \<Longrightarrow> P c'"
    and P_tiles: "P c \<Longrightarrow> P (c\<lparr>iter_tile_list := tls\<rparr>)"
    and P_rst: "P c \<Longrightarrow> P (c\<lparr>rst_streams := rs\<rparr>)"
begin

lemma drop_stream_P: "drop_stream m dow old it i s = Some s' \<Longrightarrow> P (fst s) \<Longrightarrow> P (fst s')"
  by (cases s) (auto simp: drop_stream_def split: if_splits bind_splits intro: P_rst)

lemma note_tile_P: "note_tile m it t c = Some c' \<Longrightarrow> P c \<Longrightarrow> P c'"
  by (auto simp: note_tile_def split: bind_splits intro: P_tiles)

lemma request_new_tile_P:
  assumes "request_new_tile m it l t c = Some c'" "t \<in> T" "P c"
  shows "P c'"
proof -
  have "P c1" if "for_each (\<lambda>layerId c. do {
            br \<leftarrow> aget (mf_enha_layer_br m) (layerId - 1);
            (c, stream_id) \<leftarrow> request_layer m it (EL_seg_id c) 10 t layerId br 0 c;
            Some c
          }) ls c = Some c1" for ls c1
    using _ that assms(3) by (rule for_each_preserves)
      (auto split: bind_splits prod.splits dest: P_request [OF assms(2)])
  with assms(1) show ?thesis
    by (auto simp: request_new_tile_def split: bind_splits dest: note_tile_P)
qed

lemma trung_P:
  assumes "trung_adaptation m fr it dow c = Some c'" "set (fr_viewport fr) \<subseteq> T" "P c"
  shows "P c'"
proof -
  have "P (fst s')" if "for_each (drop_stream m dow old it) is s = Some s'" "P (fst s)" for old "is" s s'
    using _ that by (rule for_each_preserves [where P = "\<lambda>s. P (fst s)"]) (rule drop_stream_P)
  moreover have "P c2" if "for_each (request_new_tile m it l) ts c1 = Some c2" "P c1" "set ts \<subseteq> T" for l ts c1 c2
    using _ that(1,2) by (rule for_each_preserves) (use that(3) in \<open>blast intro: request_new_tile_P\<close>)
  moreover have "set (new_tiles (fr_viewport fr) tls) \<subseteq> T" for tls
    using assms(2) by (auto simp: new_tiles_def)
  ultimately show ?thesis
    using assms(1,3) by (fastforce simp: trung_adaptation_def Let_def split: if_splits bind_splits)
qed

end

section \<open>The number of layers that fits\<close>

lemma fit_layers_spec:
  assumes "l = fit_layers brs n r sd cap b k"
  shows "k \<le> l \<and> l \<le> k + length brs \<and>
    (\<forall>j. 0 < j \<and> j \<le> l - k \<longrightarrow> of_int (((b + sum_list (take j brs)) * n + r) * sd) \<le> cap) \<and>
    (l < k + length brs \<longrightarrow> of_int (((b + sum_list (take (l - k + 1) brs)) * n + r) * sd) > cap)"
  using assms
proof (induction brs n r sd cap b k rule: fit_layers.induct)
  case (2 br brs n r sd cap b k)
  show ?case
  proof (cases "of_int (((b + br) * n + r) * sd) > cap")
    case True
    with 2(2) show ?thesis by simp
  next
    case False
    with 2 have IH: "Suc k \<le> l \<and> l \<le> Suc k + length brs \<and>
      (\<forall>j. 0 < j \<and> j \<le> l - Suc k \<longrightarrow> of_int (((b + br + sum_list (take j brs)) * n + r) * sd) \<le> cap) \<and>
      (l < Suc k + length brs \<longrightarrow> of_int (((b + br + sum_list (take (l - Suc k + 1) brs)) * n + r) * sd) > cap)"
      by simp
    have "of_int (((b + sum_list (take j (br # brs))) * n + r) * sd) \<le> cap" if "0 < j" "j \<le> l - k" for j
    proof (cases "j = 1")
      case True
      with False show ?thesis by simp
    next
      case nj: False
      then have "1 < j" using that(1) by simp
      then obtain i where i: "j = Suc i" "0 < i" by (cases j) auto
      then have "of_int (((b + br + sum_list (take i brs)) * n + r) * sd) \<le> cap" using IH that by auto
      then show ?thesis by (simp add: i(1) add.assoc)
    qed
    moreover have "Suc k \<le> l" using IH by (rule conjunct1)
    moreover from this have "take (l - k + 1) (br # brs) = br # take (l - Suc k + 1) brs"
      by (simp add: Suc_diff_Suc Suc_le_eq)
    ultimately show ?thesis using IH by (simp add: add.assoc)
  qed
qed simp

section \<open>What deciding again does\<close>

text \<open>
  The streams of the iteration are known, each under the cell its request was stored in. The
  streams to drop: open, of an old tile, and without data.
\<close>

definition round_streams :: "Manifest \<Rightarrow> int \<Rightarrow> Client \<Rightarrow> bool" where
  "round_streams m it c \<longleftrightarrow> (\<forall>i \<in> set (iter_req_stream c it). \<exists>info. RequestStreamInfo c i = Some info \<and>
     in_cells m (cell_of info) \<and> face_stream_ID c (cell_of info) = Some i)"

definition given_up :: "(int \<times> int \<times> int \<Rightarrow> rat) \<Rightarrow> int list \<Rightarrow> Client \<Rightarrow> int \<Rightarrow> bool" where
  "given_up dow old c i \<longleftrightarrow> (case RequestStreamInfo c i of None \<Rightarrow> False
     | Some info \<Rightarrow> si_fid info \<in> set old \<and> dow (cell_of info) = 0)"

definition drops :: "(int \<times> int \<times> int \<Rightarrow> rat) \<Rightarrow> int list \<Rightarrow> int \<Rightarrow> Client \<Rightarrow> int list" where
  "drops dow old it c = filter (given_up dow old c) (open_streams it c)"

definition layer_br :: "Manifest \<Rightarrow> Client \<Rightarrow> int \<Rightarrow> int" where
  "layer_br m c i = mf_enha_layer_br m ! nat (si_lid (the (RequestStreamInfo c i)))"

lemma drop_streams_run:
  fixes dow :: "int \<times> int \<times> int \<Rightarrow> rat" and old :: "int list" and it :: int
  defines "sel c \<equiv> filter (\<lambda>i. i \<notin> set (iter_req_stream_fin c it) \<and> given_up dow old c i)"
  assumes "\<forall>i \<in> set is. \<exists>info. RequestStreamInfo c i = Some info \<and> in_cells m (cell_of info) \<and>
      face_stream_ID c (cell_of info) = Some i"
    and "\<forall>i \<in> set (sel c is). nat (si_lid (the (RequestStreamInfo c i))) < length (mf_enha_layer_br m)"
  shows "for_each (drop_stream m dow old it) is (c, r) =
    Some (c\<lparr>rst_streams := rst_streams c @ sel c is\<rparr>, r + sum_list (map (layer_br m c) (sel c is)))"
  using assms(2,3)
proof (induction "is" arbitrary: c r)
  case Nil
  then show ?case by (simp add: sel_def)
next
  case (Cons i "is")
  obtain info where info: "RequestStreamInfo c i = Some info" "in_cells m (cell_of info)"
      "face_stream_ID c (cell_of info) = Some i"
    using Cons.prems(1) by auto
  have lid: "0 \<le> si_lid info" using info(2) by (simp add: cell_of_def in_cells_def)
  have sel: "sel (c\<lparr>rst_streams := x\<rparr>) = sel c" "layer_br m (c\<lparr>rst_streams := x\<rparr>) = layer_br m c" for x
    by (auto simp: sel_def given_up_def layer_br_def cong: option.case_cong)
  show ?case
  proof (cases "i \<notin> set (iter_req_stream_fin c it) \<and> given_up dow old c i")
    case True
    then have "si_fid info \<in> set old \<and> dow (cell_of info) = 0" by (simp add: given_up_def info)
    moreover have "aget (mf_enha_layer_br m) (si_lid info) = Some (layer_br m c i)"
      using Cons.prems(2) True lid info(1) by (auto simp: sel_def layer_br_def aget_def)
    ultimately have "drop_stream m dow old it i (c, r) =
        Some (c\<lparr>rst_streams := rst_streams c @ [i]\<rparr>, r + layer_br m c i)"
      using True by (simp add: drop_stream_def info)
    moreover have "for_each (drop_stream m dow old it) is (c\<lparr>rst_streams := rst_streams c @ [i]\<rparr>, r + layer_br m c i)
        = Some (c\<lparr>rst_streams := rst_streams c @ i # sel c is\<rparr>, r + layer_br m c i + sum_list (map (layer_br m c) (sel c is)))"
    proof -
      let ?c = "c\<lparr>rst_streams := rst_streams c @ [i]\<rparr>"
      have "\<forall>i \<in> set is. \<exists>info. RequestStreamInfo ?c i = Some info \<and> in_cells m (cell_of info) \<and>
          face_stream_ID ?c (cell_of info) = Some i"
        and "\<forall>i \<in> set (sel ?c is). nat (si_lid (the (RequestStreamInfo ?c i))) < length (mf_enha_layer_br m)"
        using Cons.prems by (simp_all add: sel(1)) (simp add: sel_def)
      from Cons.IH [OF this] show ?thesis by (simp add: sel)
    qed
    ultimately show ?thesis using True by (simp add: sel_def)
  next
    case False
    then have "drop_stream m dow old it i (c, r) = Some (c, r)"
      by (auto simp: drop_stream_def info given_up_def)
    moreover have "sel c (i # is) = sel c is" using False by (auto simp: sel_def)
    ultimately show ?thesis using Cons by simp
  qed
qed

lemma request_new_tile_run:
  assumes "streams_inv c" "in_iters m it" "l \<le> length (mf_enha_layer_br m)"
    and "\<forall>k \<in> {1..int l}. in_cells m (EL_seg_id c, t, k)"
  shows "\<exists>c'. request_new_tile m it l t c = Some c' \<and> streams_inv c' \<and>
    requests_of c' it = requests_of c it @ map (stream_info (EL_seg_id c) t) [1..int l] \<and>
    req_s_num c' = req_s_num c + int l \<and> rst_streams c' = rst_streams c \<and>
    engine_rest c' = engine_rest (c\<lparr>iter_tile_list := (iter_tile_list c)(it := iter_tile_list c it @ [t])\<rparr>)"
proof -
  let ?body = "\<lambda>layerId c. do {
            br \<leftarrow> aget (mf_enha_layer_br m) (layerId - 1);
            (c, stream_id) \<leftarrow> request_layer m it (EL_seg_id c) 10 t layerId br 0 c;
            Some c
          }"
  have rst: "rst_streams b = rst_streams a" if "request_layer m it sid w f k br dep a = Some (b, i)" for sid w f k br dep a b i
    using that by (cases "uri_ok a")
      (auto simp: request_layer_def send_get_request_def Let_def split: bind_splits)
  have "\<exists>c'. for_each ?body [1..int l] c = Some c' \<and> streams_inv c' \<and> engine_rest c' = engine_rest c \<and>
      requests_of c' it = requests_of c it @ map (stream_info (EL_seg_id c) t) [1..int l] \<and>
      req_s_num c' = req_s_num c + int (length [1..int l]) \<and> rst_streams c' = rst_streams c"
  proof (rule for_each_rule [where I = "\<lambda>ls c'. streams_inv c' \<and> engine_rest c' = engine_rest c \<and>
      requests_of c' it = requests_of c it @ map (stream_info (EL_seg_id c) t) ls \<and>
      req_s_num c' = req_s_num c + int (length ls) \<and> rst_streams c' = rst_streams c"])
    show "streams_inv c \<and> engine_rest c = engine_rest c \<and>
        requests_of c it = requests_of c it @ map (stream_info (EL_seg_id c) t) [] \<and>
        req_s_num c = req_s_num c + int (length ([] :: int list)) \<and> rst_streams c = rst_streams c"
      using assms(1) by simp
  next
    fix ks k rest s
    assume ls: "[1..int l] = ks @ k # rest" and
      I: "streams_inv s \<and> engine_rest s = engine_rest c \<and>
        requests_of s it = requests_of c it @ map (stream_info (EL_seg_id c) t) ks \<and>
        req_s_num s = req_s_num c + int (length ks) \<and> rst_streams s = rst_streams c"
    have "k \<in> set [1..int l]" unfolding ls by simp
    then have k: "1 \<le> k" "k \<le> int l" by simp_all
    have seg: "EL_seg_id s = EL_seg_id c" using I by (simp add: engine_rest_def)
    have cell: "in_cells m (EL_seg_id s, t, k)" using assms(4) k seg by simp
    have br: "aget (mf_enha_layer_br m) (k - 1) = Some (mf_enha_layer_br m ! nat (k - 1))"
      using k assms(3) by (intro aget_in) auto
    obtain s' where s': "request_layer m it (EL_seg_id s) 10 t k (mf_enha_layer_br m ! nat (k - 1)) 0 s = Some (s', cur_req_stream_id s + 2)"
      "streams_inv s'" "requests_of s' it = requests_of s it @ [stream_info (EL_seg_id s) t k]"
      "req_s_num s' = req_s_num s + 1"
      using request_layer_ok [OF _ cell assms(2), where w = 10 and br = "mf_enha_layer_br m ! nat (k - 1)" and dep = 0] I seg
      by blast
    show "\<exists>s'. ?body k s = Some s' \<and> streams_inv s' \<and> engine_rest s' = engine_rest c \<and>
        requests_of s' it = requests_of c it @ map (stream_info (EL_seg_id c) t) (ks @ [k]) \<and>
        req_s_num s' = req_s_num c + int (length (ks @ [k])) \<and> rst_streams s' = rst_streams c"
      using s' br I seg request_layer_rest [OF s'(1)] rst [OF s'(1)] by (intro exI [of _ s']) simp
  qed
  then obtain c1 where c1: "for_each ?body [1..int l] c = Some c1" "streams_inv c1" "engine_rest c1 = engine_rest c"
    "requests_of c1 it = requests_of c it @ map (stream_info (EL_seg_id c) t) [1..int l]"
    "req_s_num c1 = req_s_num c + int l" "rst_streams c1 = rst_streams c"
    by auto
  let ?c' = "c1\<lparr>iter_tile_list := (iter_tile_list c1)(it := iter_tile_list c1 it @ [t])\<rparr>"
  have "request_new_tile m it l t c = Some ?c'"
    using c1(1) assms(2) by (simp add: request_new_tile_def note_tile_def push_iter_def)
  then show ?thesis using c1(2-)
    by (intro exI [of _ ?c']) (simp add: streams_inv_def requests_of_def engine_rest_def)
qed

lemma request_new_tiles_run:
  assumes "streams_inv c" "in_iters m it" "l \<le> length (mf_enha_layer_br m)"
    and "\<forall>t \<in> set ts. \<forall>k \<in> {1..int l}. in_cells m (EL_seg_id c, t, k)"
  shows "\<exists>c'. for_each (request_new_tile m it l) ts c = Some c' \<and> streams_inv c' \<and>
    requests_of c' it = requests_of c it @ concat (map (\<lambda>t. map (stream_info (EL_seg_id c) t) [1..int l]) ts) \<and>
    req_s_num c' = req_s_num c + int (length ts * l) \<and> rst_streams c' = rst_streams c \<and>
    engine_rest c' = engine_rest (c\<lparr>iter_tile_list := (iter_tile_list c)(it := iter_tile_list c it @ ts)\<rparr>)"
  using assms
proof (induction ts arbitrary: c)
  case Nil
  then show ?case by (simp add: engine_rest_def)
next
  case (Cons t ts)
  from Cons.prems obtain c1 where c1: "request_new_tile m it l t c = Some c1" "streams_inv c1"
    "requests_of c1 it = requests_of c it @ map (stream_info (EL_seg_id c) t) [1..int l]"
    "req_s_num c1 = req_s_num c + int l" "rst_streams c1 = rst_streams c"
    "engine_rest c1 = engine_rest (c\<lparr>iter_tile_list := (iter_tile_list c)(it := iter_tile_list c it @ [t])\<rparr>)"
    using request_new_tile_run [of c m it l t] by auto
  have seg: "EL_seg_id c1 = EL_seg_id c" using c1(6) by (simp add: engine_rest_def)
  have cells: "\<forall>t \<in> set ts. \<forall>k \<in> {1..int l}. in_cells m (EL_seg_id c1, t, k)" using Cons.prems(4) seg by simp
  from Cons.IH [OF c1(2) Cons.prems(2,3) cells] obtain c' where
    "for_each (request_new_tile m it l) ts c1 = Some c'" "streams_inv c'"
    "requests_of c' it = requests_of c1 it @ concat (map (\<lambda>t. map (stream_info (EL_seg_id c1) t) [1..int l]) ts)"
    "req_s_num c' = req_s_num c1 + int (length ts * l)" "rst_streams c' = rst_streams c1"
    "engine_rest c' = engine_rest (c1\<lparr>iter_tile_list := (iter_tile_list c1)(it := iter_tile_list c1 it @ ts)\<rparr>)"
    by blast
  with c1 seg show ?case
    by (intro exI [of _ c']) (simp add: engine_rest_def algebra_simps fun_eq_iff)
qed

lemma for_each_None:
  assumes "x \<in> set xs" "I s" "\<And>y s s'. body y s = Some s' \<Longrightarrow> I s \<Longrightarrow> I s'" "\<And>s. I s \<Longrightarrow> body x s = None"
  shows "for_each body xs s = None"
  using assms(1,2)
proof (induction xs arbitrary: s)
  case (Cons y ys)
  then show ?case using assms(3,4) by (cases "body y s") auto
qed simp

lemma drop_streams_None:
  assumes "i \<in> set is" "i \<notin> set (iter_req_stream_fin c it)" "given_up dow old c i"
    and "length (mf_enha_layer_br m) \<le> nat (si_lid (the (RequestStreamInfo c i)))"
  shows "for_each (drop_stream m dow old it) is (c, r) = None"
proof (rule for_each_None [where I = "\<lambda>(b, _). RequestStreamInfo b = RequestStreamInfo c \<and>
      iter_req_stream_fin b = iter_req_stream_fin c"])
  fix s :: "Client \<times> int"
  assume "case s of (b, _) \<Rightarrow> RequestStreamInfo b = RequestStreamInfo c \<and> iter_req_stream_fin b = iter_req_stream_fin c"
  then show "drop_stream m dow old it i s = None"
    using assms by (cases s) (auto simp: drop_stream_def given_up_def aget_def split: option.splits bind_splits)
qed (use assms(1) in \<open>auto simp: drop_stream_def split: if_splits bind_splits\<close>)

text \<open>
  The bitrate of a stream that is reset is read at the position of the next layer: when it is
  one of the highest layer, deciding again reads past the end of the bitrates.
\<close>

theorem redecision_top_layer_undefined:
  assumes "new_tiles (fr_viewport fr) (iter_tile_list c it) \<noteq> []"
    and "i \<in> set (drops dow (old_tiles (fr_viewport fr) (iter_tile_list c it)) it c)"
    and "int (length (mf_enha_layer_br m)) = mf_EL_VER_NUM m"
    and "si_lid (the (RequestStreamInfo c i)) = mf_EL_VER_NUM m"
  shows "trung_adaptation m fr it dow c = None"
proof -
  have "i \<in> set (iter_req_stream c it)" "i \<notin> set (iter_req_stream_fin c it)"
    "given_up dow (old_tiles (fr_viewport fr) (iter_tile_list c it)) c i"
    using assms(2) by (auto simp: drops_def open_streams_def)
  from drop_streams_None [OF this] assms(1,3,4) show ?thesis
    by (simp add: trung_adaptation_def Let_def)
qed

text \<open>Deciding again, when no stream of the highest layer is reset.\<close>

lemma trung_run:
  assumes "round_streams m it c" "int (length (mf_enha_layer_br m)) = mf_EL_VER_NUM m"
    and "new = new_tiles (fr_viewport fr) (iter_tile_list c it)"
    and "gone = (if new = [] then [] else drops dow (old_tiles (fr_viewport fr) (iter_tile_list c it)) it c)"
    and "\<not> (\<exists>i \<in> set gone. si_lid (the (RequestStreamInfo c i)) = mf_EL_VER_NUM m)"
    and "l = fit_layers (mf_enha_layer_br m) (int (length new)) (sum_list (map (layer_br m c) gone)) (mf_SD m)
       (fr_est_thrp fr * (fr_time_budget fr - fr_elapsed fr) / 1000) 0 0"
  shows "trung_adaptation m fr it dow c =
    (if l > 0 then for_each (request_new_tile m it l) new (c\<lparr>rst_streams := rst_streams c @ gone\<rparr>)
     else Some (c\<lparr>rst_streams := rst_streams c @ gone\<rparr>))"
proof -
  let ?brs = "mf_enha_layer_br m" and ?old = "old_tiles (fr_viewport fr) (iter_tile_list c it)"
  have gone: "gone = filter (\<lambda>i. i \<notin> set (iter_req_stream_fin c it) \<and> given_up dow ?old c i) (iter_req_stream c it)"
    if "new \<noteq> []"
    using that by (simp add: assms(4) drops_def open_streams_def conj_commute)
  have sub: "set gone \<subseteq> set (iter_req_stream c it)" using gone by (cases "new = []") (auto simp: assms(4))
  have ok: "\<forall>i \<in> set (iter_req_stream c it). \<exists>info. RequestStreamInfo c i = Some info \<and> in_cells m (cell_of info) \<and>
      face_stream_ID c (cell_of info) = Some i"
    using assms(1) by (simp add: round_streams_def)
  have "nat (si_lid (the (RequestStreamInfo c i))) < length ?brs" if i: "i \<in> set gone" for i
  proof -
    obtain info where info: "RequestStreamInfo c i = Some info" "in_cells m (cell_of info)"
      using ok sub i by blast
    then have "0 \<le> si_lid info" "si_lid info \<le> mf_EL_VER_NUM m" by (simp_all add: in_cells_def cell_of_def)
    moreover have "si_lid info \<noteq> mf_EL_VER_NUM m" using assms(5) i info(1) by auto
    ultimately show ?thesis using assms(2) info(1) by simp
  qed
  then have "(if new \<noteq> [] then for_each (drop_stream m dow ?old it) (iter_req_stream c it) (c, 0) else Some (c, 0)) =
      Some (c\<lparr>rst_streams := rst_streams c @ gone\<rparr>, sum_list (map (layer_br m c) gone))"
    using drop_streams_run [OF ok, where dow = dow and old = ?old and r = 0] gone by (cases "new = []") (auto simp: assms(4))
  moreover have take: "take (nat (mf_EL_VER_NUM m)) ?brs = ?brs" using assms(2) by simp
  ultimately show ?thesis
    using assms(2) by (simp add: trung_adaptation_def Let_def assms(3) [symmetric] assms(6))
qed

lemma redecision_fits:
  assumes "streams_inv c" "in_iters m it" "round_streams m it c"
    and "int (length (mf_enha_layer_br m)) = mf_EL_VER_NUM m"
    and "\<forall>t \<in> set (fr_viewport fr). 0 \<le> t \<and> t < mf_NO_FACE m" "0 \<le> EL_seg_id c" "EL_seg_id c < mf_NO_SEG m"
    and "new = new_tiles (fr_viewport fr) (iter_tile_list c it)"
    and "gone = (if new = [] then [] else drops dow (old_tiles (fr_viewport fr) (iter_tile_list c it)) it c)"
    and "fits = (\<lambda>l. of_int ((sum_list (take l (mf_enha_layer_br m)) * int (length new)
           + sum_list (map (layer_br m c) gone)) * mf_SD m)
         \<le> fr_est_thrp fr * (fr_time_budget fr - fr_elapsed fr) / 1000)"
    and "\<not> (\<exists>i \<in> set gone. si_lid (the (RequestStreamInfo c i)) = mf_EL_VER_NUM m)"
  shows "\<exists>c' l. trung_adaptation m fr it dow c = Some c' \<and> streams_inv c' \<and>
      requests_of c' it = requests_of c it @ concat (map (\<lambda>t. map (stream_info (EL_seg_id c) t) [1..int l]) new) \<and>
      rst_streams c' = rst_streams c @ gone \<and> cancelled_request_stream c' = cancelled_request_stream c \<and>
      req_s_num c' = req_s_num c + int (length new * l) \<and>
      int l \<le> mf_EL_VER_NUM m \<and> (\<forall>j. 0 < j \<and> j \<le> l \<longrightarrow> fits j) \<and> (int l < mf_EL_VER_NUM m \<longrightarrow> \<not> fits (l + 1)) \<and>
      iter_tile_list c' it = iter_tile_list c it @ (if l > 0 then new else []) \<and>
      ((\<exists>k \<in> {1..int l}. print_layer_br m k = None) \<longleftrightarrow> 0 < l \<and> int l = mf_EL_VER_NUM m)"
proof -
  let ?brs = "mf_enha_layer_br m" and ?c1 = "c\<lparr>rst_streams := rst_streams c @ gone\<rparr>"
  define l where "l = fit_layers ?brs (int (length new)) (sum_list (map (layer_br m c) gone)) (mf_SD m)
       (fr_est_thrp fr * (fr_time_budget fr - fr_elapsed fr) / 1000) 0 0"
  note run = trung_run [OF assms(3,4,8,9,11) l_def]
  have l: "l \<le> length ?brs" "\<forall>j. 0 < j \<and> j \<le> l \<longrightarrow> fits j" "l < length ?brs \<longrightarrow> \<not> fits (l + 1)"
    using fit_layers_spec [OF l_def] by (simp_all add: assms(10) not_le)
  have cells: "\<forall>t \<in> set new. \<forall>k \<in> {1..int l}. in_cells m (EL_seg_id ?c1, t, k)"
    using assms(4-8) l(1) by (auto simp: new_tiles_def in_cells_def)
  have "streams_inv ?c1" using assms(1) by (simp add: streams_inv_def)
  from request_new_tiles_run [OF this assms(2) l(1) cells] obtain c' where
    c': "for_each (request_new_tile m it l) new ?c1 = Some c'" "streams_inv c'"
      "requests_of c' it = requests_of ?c1 it @ concat (map (\<lambda>t. map (stream_info (EL_seg_id c) t) [1..int l]) new)"
      "req_s_num c' = req_s_num c + int (length new * l)" "rst_streams c' = rst_streams c @ gone"
      "engine_rest c' = engine_rest (?c1\<lparr>iter_tile_list := (iter_tile_list c)(it := iter_tile_list c it @ new)\<rparr>)"
    by auto
  have print: "(\<exists>k \<in> {1..int l}. print_layer_br m k = None) \<longleftrightarrow> 0 < l \<and> int l = mf_EL_VER_NUM m"
    using l(1) assms(4) by (auto simp: print_layer_br_def aget_def intro: bexI [of _ "int l"])
  show ?thesis
  proof (cases "l > 0")
    case True
    then show ?thesis using run c' l print assms(4)
      by (intro exI [of _ c'] exI [of _ l]) (auto simp: engine_rest_def requests_of_def)
  next
    case False
    then show ?thesis using run \<open>streams_inv ?c1\<close> l print assms(4)
      by (intro exI [of _ ?c1] exI [of _ 0]) (auto simp: requests_of_def)
  qed
qed

text \<open>
  C14: Deciding again, in a round whose streams are known. If no tile entered the viewport nothing is reset or
  requested. If one entered, every open stream of a tile that left the viewport and that has brought no
  data is reset; is one of these of the highest layer, the code reads past the end of the bitrates. Otherwise
  the layers 1 to \<open>l\<close> of the tiles that entered are requested, tile by tile; all of this fits the
  bandwidth that is left, together with the bitrates that are added up for the streams just reset (of each
  the one after its own layer's), and one layer more would not. Nothing is listed as cancelled, and
  \<^verbatim>\<open>req_s_num\<close> grows by the number of requests. All this is up to console output, which reads past
  the end exactly if the highest layer is among the requests.
\<close>

theorem redecision_requests:
  assumes "streams_inv c" "in_iters m it" "round_streams m it c"
    and "int (length (mf_enha_layer_br m)) = mf_EL_VER_NUM m"
    and "\<forall>t \<in> set (fr_viewport fr). 0 \<le> t \<and> t < mf_NO_FACE m" "0 \<le> EL_seg_id c" "EL_seg_id c < mf_NO_SEG m"
    and "new = new_tiles (fr_viewport fr) (iter_tile_list c it)"
    and "gone = (if new = [] then [] else drops dow (old_tiles (fr_viewport fr) (iter_tile_list c it)) it c)"
    and "fits = (\<lambda>l. of_int ((sum_list (take l (mf_enha_layer_br m)) * int (length new)
           + sum_list (map (layer_br m c) gone)) * mf_SD m)
         \<le> fr_est_thrp fr * (fr_time_budget fr - fr_elapsed fr) / 1000)"
  shows "if \<exists>i \<in> set gone. si_lid (the (RequestStreamInfo c i)) = mf_EL_VER_NUM m
    then trung_adaptation m fr it dow c = None
    else \<exists>c' l. trung_adaptation m fr it dow c = Some c' \<and> streams_inv c' \<and>
      requests_of c' it = requests_of c it @ concat (map (\<lambda>t. map (stream_info (EL_seg_id c) t) [1..int l]) new) \<and>
      rst_streams c' = rst_streams c @ gone \<and> cancelled_request_stream c' = cancelled_request_stream c \<and>
      req_s_num c' = req_s_num c + int (length new * l) \<and>
      int l \<le> mf_EL_VER_NUM m \<and> (\<forall>j. 0 < j \<and> j \<le> l \<longrightarrow> fits j) \<and> (int l < mf_EL_VER_NUM m \<longrightarrow> \<not> fits (l + 1)) \<and>
      iter_tile_list c' it = iter_tile_list c it @ (if l > 0 then new else []) \<and>
      ((\<exists>k \<in> {1..int l}. print_layer_br m k = None) \<longleftrightarrow> 0 < l \<and> int l = mf_EL_VER_NUM m)"
proof (cases "\<exists>i \<in> set gone. si_lid (the (RequestStreamInfo c i)) = mf_EL_VER_NUM m")
  case True
  then obtain i where i: "i \<in> set gone" "si_lid (the (RequestStreamInfo c i)) = mf_EL_VER_NUM m" by blast
  then have "new \<noteq> []" "i \<in> set (drops dow (old_tiles (fr_viewport fr) (iter_tile_list c it)) it c)"
    using assms(9) by (auto split: if_splits)
  with redecision_top_layer_undefined [of fr c it i dow m] i assms(4,8) True show ?thesis by simp
next
  case False
  from redecision_fits [OF assms False] False show ?thesis by (simp only: if_False)
qed

section \<open>What deciding again leaves alone and gets wrong\<close>

definition frame_rest where
  "frame_rest c = engine_rest (c\<lparr>iter_tile_list := \<lambda>_. []\<rparr>)"

interpretation rest: frame_invariant m it UNIV "\<lambda>c. frame_rest c = K" for m it K
proof (unfold_locales, goal_cases)
  case (1 t c l br c' i)
  then show ?case using request_layer_rest [OF 1(2)] by (simp add: frame_rest_def engine_rest_def)
qed (simp_all add: frame_rest_def engine_rest_def)




section \<open>Frames of a round\<close>

fun recv_frames :: "Manifest \<Rightarrow> (Frame \<times> int) list \<Rightarrow> Session \<Rightarrow> Session option" where
  "recv_frames m [] st = Some st"
| "recv_frames m ((fr, i) # xs) st = do { st \<leftarrow> recv_data m fr i st; recv_frames m xs st }"

text \<open>The parts of a data frame, and what each of them leaves alone.\<close>

lemma add_data_frame:
  "add_iter_data m fr st = Some st' \<Longrightarrow> client st' = client st \<and> player st' = player st \<and>
     iter_re_decide st' = iter_re_decide st \<and> face_dow_data st' = face_dow_data st"
  "add_tile_data m fr info st = Some st' \<Longrightarrow> client st' = client st \<and> player st' = player st \<and>
     iter_re_decide st' = iter_re_decide st \<and> face_dow_data st' = (face_dow_data st)(cell_of info :=
       face_dow_data st (cell_of info) + of_int (fr_length fr) * 8 / 1000)"
  by (auto simp: add_iter_data_def add_tile_data_def Let_def split: if_splits)

lemma count_success_simps [simp]:
  "client (count_success st) = client st" "player (count_success st) = player st"
  "iter_re_decide (count_success st) = iter_re_decide st" "face_dow_data (count_success st) = face_dow_data st"
  by (simp_all add: count_success_def)

lemma end_late_frame:
  "end_late m fr info st = Some st' \<Longrightarrow>
     (client st' = client st \<or> client st' = cancel_round (iter_id (client st)) (client st)) \<and>
     player st' = player st \<and> iter_re_decide st' = iter_re_decide st \<and> face_dow_data st' = face_dow_data st"
  by (auto simp: end_late_def split: if_splits bind_splits)

lemma redecide_frame:
  "redecide m fr info st = Some st' \<Longrightarrow> player st' = player st \<and> face_dow_data st' = face_dow_data st \<and>
     (st' = st \<or> \<not> iter_re_decide st (iter_id (client st)) \<and> iter_re_decide st' (iter_id (client st)) \<and>
        cancelled_request_stream (client st) = [] \<and> fr_elapsed fr > 1 / 2 * fr_time_budget fr \<and>
        fin_s_num (client st) \<noteq> req_s_num (client st) \<and>
        trung_adaptation m fr (iter_id (client st)) (face_dow_data st) (client st) = Some (client st'))"
  by (auto simp: redecide_def Let_def split: if_splits bind_splits)

lemma recv_data_cases:
  assumes "recv_data m fr i st = Some st'"
  obtains (none) "client st' = client st" "player st' = player st" "iter_re_decide st' = iter_re_decide st"
      "face_dow_data st' = face_dow_data st"
      "\<not> fr_req fr \<or> fr_length fr < 0 \<or> RequestStreamInfo (client st) i = None"
  | (tile) info st1 st2 where "RequestStreamInfo (client st) i = Some info" "fr_req fr" "0 \<le> fr_length fr"
      "client st1 = client st" "player st1 = player st" "iter_re_decide st1 = iter_re_decide st"
      "face_dow_data st1 = (face_dow_data st)(cell_of info :=
         face_dow_data st (cell_of info) + of_int (fr_length fr) * 8 / 1000)"
      "end_late m fr info st1 = Some st2" "redecide m fr info st2 = Some st'"
proof (cases "fr_req fr \<and> 0 \<le> fr_length fr")
  case False
  with assms none show thesis by (auto simp: recv_data_def Let_def split: if_splits)
next
  case True
  let ?st = "if fr_end_stream fr then count_success st else st"
  obtain st1 where st1: "add_iter_data m fr ?st = Some st1"
    and rest: "(case RequestStreamInfo (client st1) i of None \<Rightarrow> Some st1
       | Some info \<Rightarrow> do {
           st \<leftarrow> add_tile_data m fr info st1;
           st \<leftarrow> end_late m fr info st;
           redecide m fr info st
         }) = Some st'"
    using assms True by (auto simp: recv_data_def Let_def split: bind_splits if_splits)
  have same: "client st1 = client st" "player st1 = player st" "iter_re_decide st1 = iter_re_decide st"
      "face_dow_data st1 = face_dow_data st"
    using add_data_frame(1) [OF st1] by auto
  show thesis
  proof (cases "RequestStreamInfo (client st) i")
    case None
    with rest same none show thesis by simp
  next
    case (Some info)
    with rest same obtain st2 st3 where s: "add_tile_data m fr info st1 = Some st2"
        "end_late m fr info st2 = Some st3" "redecide m fr info st3 = Some st'"
      by (auto split: bind_splits)
    note add = add_data_frame(2) [OF s(1)]
    show thesis
      by (rule tile [OF Some _ _ _ _ _ _ s(2,3)]) (use True add same in simp_all)
  qed
qed

lemma recv_data_iter:
  assumes "recv_data m f j a = Some b"
  shows "iter_id (client b) = iter_id (client a)"
  using assms
proof (cases rule: recv_data_cases)
  case (tile info s1 s2)
  have "iter_id (client s2) = iter_id (client a)"
    using end_late_frame [OF tile(8)] tile(4) by (auto simp: cancel_round_def)
  moreover have "iter_id (client b) = iter_id (client s2)"
    using redecide_frame [OF tile(9)] rest.trung_P [OF _ subset_UNIV HOL.refl]
    by (auto simp: frame_rest_def engine_rest_def)
  ultimately show ?thesis by simp
qed simp

lemma recv_data_decided:
  assumes "recv_data m f j a = Some b" "iter_re_decide a (iter_id (client a))"
  shows "iter_req_stream (client b) = iter_req_stream (client a) \<and> iter_re_decide b (iter_id (client b))"
  using assms(1)
proof (cases rule: recv_data_cases)
  case none
  then show ?thesis using assms(2) by simp
next
  case (tile info s1 s2)
  have s2: "iter_req_stream (client s2) = iter_req_stream (client a)" "iter_re_decide s2 = iter_re_decide a"
      "iter_id (client s2) = iter_id (client a)"
    using end_late_frame [OF tile(8)] tile(4,6) by (auto simp: cancel_round_def)
  with redecide_frame [OF tile(9)] assms(2) have "b = s2" by auto
  with s2 assms(2) show ?thesis by simp
qed

lemma recv_frames_decided:
  assumes "recv_frames m ys a = Some b" "iter_re_decide a (iter_id (client a))"
  shows "iter_req_stream (client b) = iter_req_stream (client a) \<and> iter_id (client b) = iter_id (client a)"
  using assms
proof (induction ys arbitrary: a)
  case (Cons y ys)
  obtain f j where y: "y = (f, j)" by fastforce
  with Cons.prems(1) obtain a1 where a1: "recv_data m f j a = Some a1" "recv_frames m ys a1 = Some b"
    by (auto split: bind_splits)
  from Cons.IH [OF a1(2)] recv_data_decided [OF a1(1) Cons.prems(2)] recv_data_iter [OF a1(1)]
  show ?case by simp
qed simp

text \<open>
  A round decides again at most once: a frame that requests more streams does so past half of
  the time budget, with no stream cancelled and for the first time in the iteration; no data frame
  after it requests another stream in that iteration.
\<close>

theorem decides_again_once:
  assumes "recv_data m fr i st = Some st1" "iter_req_stream (client st1) \<noteq> iter_req_stream (client st)"
    and "recv_frames m xs st1 = Some st2"
  shows "iter_req_stream (client st2) = iter_req_stream (client st1) \<and> iter_id (client st2) = iter_id (client st) \<and>
    \<not> iter_re_decide st (iter_id (client st)) \<and> cancelled_request_stream (client st) = [] \<and>
    fr_elapsed fr > 1 / 2 * fr_time_budget fr"
proof -
  have "iter_re_decide st1 (iter_id (client st1)) \<and> \<not> iter_re_decide st (iter_id (client st)) \<and>
      cancelled_request_stream (client st) = [] \<and> fr_elapsed fr > 1 / 2 * fr_time_budget fr"
    using assms(1)
  proof (cases rule: recv_data_cases)
    case none
    with assms(2) show ?thesis by simp
  next
    case (tile info s1 s2)
    note late = end_late_frame [OF tile(8)] and re = redecide_frame [OF tile(9)]
    have s2: "iter_req_stream (client s2) = iter_req_stream (client st)" "iter_re_decide s2 = iter_re_decide st"
        "iter_id (client s2) = iter_id (client st)"
        "cancelled_request_stream (client s2) = [] \<Longrightarrow> cancelled_request_stream (client st) = []"
      using late tile(4,6) by (auto simp: cancel_round_def)
    with re assms(2) recv_data_iter [OF assms(1)] show ?thesis by auto
  qed
  with recv_frames_decided [OF assms(3)] recv_data_iter [OF assms(1)] show ?thesis by simp
qed

lemma late_frame_cancels:
  assumes "recv_data m fr k st = Some st1" "fr_req fr" "\<not> fr_end_stream fr" "0 \<le> fr_length fr"
    and "mf_ALG m \<in> {2, 3, 4, 5, 6, 7, 8, 9, 10, 11, 12, 13}"
    and "RequestStreamInfo (client st) k = Some info" "si_sid info > 0" "si_fid info > 0"
    and "past_deadline fr (player st) (si_sid info) = Some True" "open_streams (iter_id (client st)) (client st) \<noteq> []"
  shows "client st1 = cancel_round (iter_id (client st)) (client st) \<and> player st1 = player st"
  using assms(1)
proof (cases rule: recv_data_cases)
  case none
  with assms(2,4,6) show ?thesis by auto
next
  case (tile info' s1 s2)
  have "past_deadline fr (player s1) (si_sid info') = Some True" "info' = info"
    using tile(1,5) assms(6,9) by simp_all
  then have s2: "client s2 = cancel_round (iter_id (client st)) (client st)" "player s2 = player st"
    using tile(4,5,8) assms(3,5,7,8) by (auto simp: end_late_def split: bind_splits)
  then have "cancelled_request_stream (client s2) \<noteq> []" using assms(10) by (simp add: cancel_round_def)
  then have "st1 = s2" using redecide_frame [OF tile(9)] by blast
  with s2 show ?thesis by simp
qed

text \<open>
  C15: Under an algorithm from 2 to 13: when data of an enhancement layer, of a segment after the first, arrive
  past the deadline of the segment in a frame that does not end its stream, every stream of
  the round that is still open is reset and listed as cancelled. However these streams then close,
  the round ends with the last of them, its segment is marked as done, and the player's buffer is
  what it was: nothing of the rest of the round is entered. (A late frame that ends its stream cancels
  nothing.)
\<close>

theorem late_round_discarded:
  assumes "session_ok m st" "recv_data m fr k st = Some st1" "fr_req fr" "\<not> fr_end_stream fr" "0 \<le> fr_length fr"
    and "mf_ALG m \<in> {2, 3, 4, 5, 6, 7, 8, 9, 10, 11, 12, 13}"
    and "RequestStreamInfo (client st) k = Some info" "si_sid info > 0" "si_fid info > 0"
    and "past_deadline fr (player st) (si_sid info) = Some True"
    and "known_streams m st (xs @ [(ev, i)])"
    and "set (map snd (xs @ [(ev, i)])) \<subseteq> set (open_streams (iter_id (client st)) (client st))"
    and "fin_s_num (client st) + int (length xs) + 1 = req_s_num (client st)"
    and "RequestStreamInfo (client st) i = Some linfo" "si_fid linfo > 0"
  shows "rst_streams (client st1) = rst_streams (client st) @ open_streams (iter_id (client st)) (client st) \<and>
    (\<exists>st2. closes m (xs @ [(ev, i)]) st1 = Some (st2, replicate (length xs) False @ [True]) \<and>
       iter_id (client st2) = iter_id (client st) + 1 \<and> buff (player st2) = buff (player st) \<and>
       seg_EL_download (client st2) = (seg_EL_download (client st))[nat (si_sid linfo) := True])"
proof -
  let ?it = "iter_id (client st)"
  have ne: "open_streams ?it (client st) \<noteq> []" using assms(12) by auto
  have st1: "client st1 = cancel_round ?it (client st)" "player st1 = player st"
    using late_frame_cancels [OF assms(2-10) ne] by simp_all
  have ok: "session_ok m st1" using assms(1) st1 by (simp add: session_defs cancel_round_def)
  have known: "known_streams m st1 (xs @ [(ev, i)])"
    using assms(11) st1 by (simp add: known_streams_def cancel_round_def)
  have "delivers st1 (xs @ [(ev, i)]) = []"
    using assms(12) st1
    by (auto simp: delivers_def in_time_def cancel_round_def filter_empty_conv split: option.splits)
  moreover have "fin_s_num (client st1) + int (length xs) + 1 = req_s_num (client st1)"
    "RequestStreamInfo (client st1) i = Some linfo"
    using assms(13,14) st1 by (simp_all add: cancel_round_def)
  ultimately obtain st2 where "closes m (xs @ [(ev, i)]) st1 = Some (st2, replicate (length xs) False @ [True])"
    "iter_id (client st2) = iter_id (client st1) + 1" "buff (player st2) = buff (player st1)"
    "seg_EL_download (client st2) = (seg_EL_download (client st1))[nat (si_sid linfo) := True]"
    using round_closes_run [OF ok known] assms(15) by fastforce
  with st1 show ?thesis by (auto simp: cancel_round_def)
qed

section \<open>Accounting\<close>

text \<open>A stream that is known stays known, with the same tile.\<close>

interpretation known: frame_invariant m it UNIV "\<lambda>c. RequestStreamInfo c i = Some info" for m it i info
proof (unfold_locales, goal_cases)
  case (1 t c l br c' j)
  then show ?case
    by (cases "uri_ok c")
      (auto simp: request_layer_def send_get_request_def map_insert_def Let_def split: bind_splits)
qed simp_all

lemma recv_data_known:
  assumes "recv_data m f j a = Some b" "RequestStreamInfo (client a) i = Some info"
  shows "RequestStreamInfo (client b) i = Some info"
  using assms(1)
proof (cases rule: recv_data_cases)
  case (tile info' s1 s2)
  have "RequestStreamInfo (client s2) i = Some info"
    using end_late_frame [OF tile(8)] tile(4) assms(2) by (auto simp: cancel_round_def)
  with redecide_frame [OF tile(9)] show ?thesis by (auto dest: known.trung_P [OF _ subset_UNIV])
qed (simp add: assms(2))

definition kbits_for :: "(int \<Rightarrow> StreamInfo option) \<Rightarrow> int \<times> int \<times> int \<Rightarrow> (Frame \<times> int) list \<Rightarrow> rat" where
  "kbits_for infos cell xs = sum_list (map (\<lambda>(fr, i). of_int (fr_length fr) * 8 / 1000)
     (filter (\<lambda>(fr, i). map_option cell_of (infos i) = Some cell) xs))"

lemma recv_frames_data:
  assumes "recv_frames m xs st = Some st'"
    and "\<forall>(fr, i) \<in> set xs. fr_req fr \<and> 0 \<le> fr_length fr \<and> infos i \<noteq> None"
    and "\<forall>i info. infos i = Some info \<longrightarrow> RequestStreamInfo (client st) i = Some info"
  shows "face_dow_data st' cell = face_dow_data st cell + kbits_for infos cell xs"
  using assms
proof (induction xs arbitrary: st)
  case Nil
  then show ?case by (simp add: kbits_for_def)
next
  case (Cons x xs)
  obtain fr i where x: "x = (fr, i)" by fastforce
  with Cons.prems(1) obtain st1 where st1: "recv_data m fr i st = Some st1" "recv_frames m xs st1 = Some st'"
    by (auto split: bind_splits)
  obtain info where info: "infos i = Some info" "RequestStreamInfo (client st) i = Some info"
    using Cons.prems(2,3) x by auto
  have "face_dow_data st1 = (face_dow_data st)(cell_of info :=
      face_dow_data st (cell_of info) + of_int (fr_length fr) * 8 / 1000)"
    using st1(1)
  proof (cases rule: recv_data_cases)
    case none
    with Cons.prems(2) x info show ?thesis by auto
  next
    case (tile info' s1 s2)
    then show ?thesis using end_late_frame [OF tile(8)] redecide_frame [OF tile(9)] info by simp
  qed
  moreover have "\<forall>i info. infos i = Some info \<longrightarrow> RequestStreamInfo (client st1) i = Some info"
    using Cons.prems(3) recv_data_known [OF st1(1)] by blast
  then have "face_dow_data st' cell = face_dow_data st1 cell + kbits_for infos cell xs"
    using Cons.IH [OF st1(2)] Cons.prems(2) by simp
  ultimately show ?case using info by (simp add: x kbits_for_def)
qed

text \<open>
  What is recorded as the size of a tile's layer when its stream closes is the data of the
  frames that arrived for it, in kilobits, on top of what the array held before the first of them
  (nothing ever initialises it), whatever else the frames of the round set off.
\<close>

theorem tile_data_accounted:
  assumes "recv_frames m xs st = Some st1"
    and "\<forall>(fr, j) \<in> set xs. fr_req fr \<and> 0 \<le> fr_length fr \<and> RequestStreamInfo (client st) j \<noteq> None"
    and "RequestStreamInfo (client st) i = Some info" "record_stream m ev i info st1 = Some st2"
  shows "face_size st2 (cell_of info) = Some (face_dow_data st (cell_of info) +
      kbits_for (RequestStreamInfo (client st)) (cell_of info) xs) \<and>
    iter_down_data (client st2) (iter_id (client st1)) = iter_down_data (client st1) (iter_id (client st1)) +
      face_dow_data st (cell_of info) + kbits_for (RequestStreamInfo (client st)) (cell_of info) xs"
proof -
  have "face_dow_data st1 (cell_of info) = face_dow_data st (cell_of info) +
      kbits_for (RequestStreamInfo (client st)) (cell_of info) xs"
    using recv_frames_data [OF assms(1), of "RequestStreamInfo (client st)"] assms(2) by simp
  with assms(4) show ?thesis
    by (auto simp: record_stream_def set3_def cell_of_def Let_def split: if_splits bind_splits)
qed

section \<open>A round decided again\<close>

text \<open>
  A round of algorithm 5 for the tiles 2, 3 and 1: six streams, 15 to 25. Frames bring 8 kilobits
  each; by then the viewport has moved to the tiles 2, 3 and 4.
\<close>

definition demo_round :: Client where
  "demo_round = (case MMSP (demo_manifest 5) 0 (demo_sense 3 4 2000) (demo_client\<lparr>LAST_ITER_MASK := 0\<rparr>) of
     None \<Rightarrow> demo_client | Some (_, c) \<Rightarrow> c)"

definition demo_frame :: "rat \<Rightarrow> rat \<Rightarrow> Frame" where
  "demo_frame now elapsed = \<lparr>fr_req = True, fr_length = 1000, fr_end_stream = False, fr_now = now,
     fr_elapsed = elapsed, fr_past_if_unassigned = False, fr_viewport = [2, 3, 4], fr_est_thrp = 2000,
     fr_time_budget = 900\<rparr>"

lemma round_streams_list_all:
  "round_streams m it c \<longleftrightarrow> list_all (\<lambda>i. case RequestStreamInfo c i of None \<Rightarrow> False
     | Some info \<Rightarrow> in_cells m (cell_of info) \<and> face_stream_ID c (cell_of info) = Some i) (iter_req_stream c it)"
  by (auto simp: round_streams_def list_all_iff split: option.splits)

lemma demo_round_streams: "round_streams (demo_manifest 5) 0 demo_round"
  unfolding round_streams_list_all by code_simp

lemma demo_round_inv: "streams_inv demo_round"
proof -
  have "map_option fst (MMSP (demo_manifest 5) 0 (demo_sense 3 4 2000) (demo_client\<lparr>LAST_ITER_MASK := 0\<rparr>)) = Some Requested"
    by code_simp
  then obtain d c where r: "MMSP (demo_manifest 5) 0 (demo_sense 3 4 2000) (demo_client\<lparr>LAST_ITER_MASK := 0\<rparr>) = Some (d, c)"
    by auto
  have "decided 0 c \<and> (d = Requested \<longleftrightarrow> req_s_num c > 0)"
    by (rule MMSP_decided [OF r]) (simp_all add: streams_inv_def demo_client_def demo_manifest_def)
  then show ?thesis using r by (auto simp: demo_round_def decided_def booked_def)
qed

lemma demo_round_values:
  "new_tiles [2, 3, 4] (iter_tile_list demo_round 0) = [4]"
  "drops (\<lambda>_. 0) (old_tiles [2, 3, 4] (iter_tile_list demo_round 0)) 0 demo_round = [19, 25]"
  "iter_id demo_round = 0" "EL_seg_id demo_round = 5" "req_s_num demo_round = 6" "fin_s_num demo_round = 0"
  "cancelled_request_stream demo_round = []" "rst_streams demo_round = []"
  "iter_req_stream demo_round 0 = [15, 17, 19, 21, 23, 25]"
  "open_streams 0 demo_round = [15, 17, 19, 21, 23, 25]"
  "RequestStreamInfo demo_round 15 = Some (stream_info 5 2 1)"
  "RequestStreamInfo demo_round 19 = Some (stream_info 5 1 1)"
  "RequestStreamInfo demo_round 25 = Some (stream_info 5 1 2)"
  "length (seg_EL_download demo_round) = 20"
  by code_simp+

theorem redecision_requests_witness:
  "\<exists>c' l. trung_adaptation (demo_manifest 5) (demo_frame 100 500) 0 (\<lambda>_. 0) demo_round = Some c' \<and>
     rst_streams c' = [19, 25] \<and> cancelled_request_stream c' = [] \<and> req_s_num c' = 6 + int l \<and> l \<le> 3"
  using redecision_requests [OF demo_round_inv _ demo_round_streams _ _ _ _ HOL.refl HOL.refl HOL.refl,
      of "demo_frame 100 500" "\<lambda>_. 0"] demo_round_values
  by (auto simp: demo_frame_def demo_manifest_def in_iters_def)

theorem redecision_top_layer_undefined_witness:
  "trung_adaptation ((demo_manifest 5)\<lparr>mf_EL_VER_NUM := 2, mf_enha_layer_br := [100, 150]\<rparr>) (demo_frame 100 500) 0
     (\<lambda>_. 0) demo_round = None"
  by (rule redecision_top_layer_undefined [where i = 25])
    (simp_all add: demo_frame_def demo_round_values demo_manifest_def)

lemma demo_session_ok: "session_ok (demo_manifest 5) (demo_session demo_round)"
  using demo_base_round_ok demo_round_values
  by (simp add: session_defs demo_session_def demo_manifest_def in_iters_def)



theorem decides_again_once_witness:
  "\<exists>st1 st2. recv_data (demo_manifest 5) (demo_frame 100 500) 15 (demo_session demo_round) = Some st1 \<and>
     length (iter_req_stream (client st1) 0) = 9 \<and>
     recv_frames (demo_manifest 5) [(demo_frame 100 600, 17), (demo_frame 100 700, 17)] st1 = Some st2 \<and>
     iter_req_stream (client st2) = iter_req_stream (client st1)"
proof -
  have "map_option (\<lambda>st. (length (iter_req_stream (client st) 0),
      recv_frames (demo_manifest 5) [(demo_frame 100 600, 17), (demo_frame 100 700, 17)] st = None))
      (recv_data (demo_manifest 5) (demo_frame 100 500) 15 (demo_session demo_round)) = Some (9, False)"
    by code_simp
  then obtain st1 st2 where r: "recv_data (demo_manifest 5) (demo_frame 100 500) 15 (demo_session demo_round) = Some st1"
      "length (iter_req_stream (client st1) 0) = 9"
      "recv_frames (demo_manifest 5) [(demo_frame 100 600, 17), (demo_frame 100 700, 17)] st1 = Some st2"
    by auto
  have "iter_req_stream (client st1) \<noteq> iter_req_stream (client (demo_session demo_round))"
    using r(2) demo_round_values(9) by (auto simp: demo_session_def)
  with decides_again_once [OF r(1) this r(3)] r show ?thesis by blast
qed

lemma demo_round_known:
  "known_streams (demo_manifest 5) (demo_session demo_round) (map (\<lambda>i. (demo_close 900, i)) [25, 15, 23, 17, 21, 19])"
proof -
  have "list_all (\<lambda>i. case RequestStreamInfo demo_round i of None \<Rightarrow> False
      | Some info \<Rightarrow> in_cells (demo_manifest 5) (cell_of info)) [25, 15, 23, 17, 21, 19]"
    by code_simp
  then show ?thesis
    by (auto simp: known_streams_def demo_session_def demo_close_def split: option.splits)
qed

theorem late_round_discarded_witness:
  "\<exists>st1 st2. recv_data (demo_manifest 5) (demo_frame 5100 500) 15 (demo_session demo_round) = Some st1 \<and>
     rst_streams (client st1) = [15, 17, 19, 21, 23, 25] \<and>
     closes (demo_manifest 5) (map (\<lambda>i. (demo_close 900, i)) [25, 15, 23, 17, 21, 19]) st1 = Some (st2, [False, False, False, False, False, True]) \<and>
     buff (player st2) = buff (player (demo_session demo_round))"
proof -
  have "recv_data (demo_manifest 5) (demo_frame 5100 500) 15 (demo_session demo_round) \<noteq> None" by code_simp
  then obtain st1 where r: "recv_data (demo_manifest 5) (demo_frame 5100 500) 15 (demo_session demo_round) = Some st1"
    by auto
  have past: "past_deadline (demo_frame 5100 500) (player (demo_session demo_round)) 5 = Some True" by code_simp
  let ?xs = "map (\<lambda>i. (demo_close 900, i)) [25 :: int, 15, 23, 17, 21]"
  have "rst_streams (client st1) = rst_streams (client (demo_session demo_round)) @
      open_streams (iter_id (client (demo_session demo_round))) (client (demo_session demo_round)) \<and>
    (\<exists>st2. closes (demo_manifest 5) (?xs @ [(demo_close 900, 19)]) st1 = Some (st2, replicate (length ?xs) False @ [True]) \<and>
       iter_id (client st2) = iter_id (client (demo_session demo_round)) + 1 \<and>
       buff (player st2) = buff (player (demo_session demo_round)) \<and>
       seg_EL_download (client st2) = (seg_EL_download (client (demo_session demo_round)))[nat (si_sid (stream_info 5 1 1)) := True])"
    by (rule late_round_discarded [OF demo_session_ok r, where info = "stream_info 5 2 1"])
      (use demo_round_known past in \<open>simp_all add: demo_frame_def demo_manifest_def demo_session_def demo_round_values\<close>)
  with r show ?thesis by (auto simp: demo_session_def demo_round_values)
qed

theorem tile_data_accounted_witness:
  "\<exists>st1 st2. recv_frames (demo_manifest 5) [(demo_frame 100 200, 15), (demo_frame 100 200, 17), (demo_frame 100 500, 15)]
       (demo_session demo_round) = Some st1 \<and>
     record_stream (demo_manifest 5) (demo_close 900) 15 (stream_info 5 2 1) st1 = Some st2 \<and>
     face_size st2 (5, 2, 1) = Some 16"
proof -
  let ?xs = "[(demo_frame 100 200, 15), (demo_frame 100 200, 17), (demo_frame 100 500, 15)]"
  have "map_option (\<lambda>st. record_stream (demo_manifest 5) (demo_close 900) 15 (stream_info 5 2 1) st = None)
      (recv_frames (demo_manifest 5) ?xs (demo_session demo_round)) = Some False"
    by code_simp
  then obtain st1 st2 where r: "recv_frames (demo_manifest 5) ?xs (demo_session demo_round) = Some st1"
      "record_stream (demo_manifest 5) (demo_close 900) 15 (stream_info 5 2 1) st1 = Some st2"
    by auto
  have i: "RequestStreamInfo demo_round 15 = Some (stream_info 5 2 1)" "RequestStreamInfo demo_round 17 = Some (stream_info 5 3 1)"
    by code_simp+
  from tile_data_accounted [OF r(1) _ _ r(2)] i have "face_size st2 (5, 2, 1) = Some 16"
    by (simp add: demo_session_def demo_frame_def kbits_for_def cell_of_def)
  with r show ?thesis by blast
qed

end
