(* ===== verification/Client_Session.thy ===== *)
theory Client_Session
  imports Redecision
begin

text \<open>
  The client as a whole: the playback thread and the callbacks of the network thread, interleaved.
  A session starts when the initial stream closes; from then on passes of the playback loop, data
  frames and closing streams of the current round, promises of pushes and their closing streams
  follow in any order. The HTTP/2 library closes each stream once, and its data come before. The invariant ties the two threads together: the segments the player has received are the
  base layers the network thread has counted.
\<close>

definition outstanding :: "Session \<Rightarrow> int set" where
  "outstanding st = set (iter_req_stream (client st) (iter_id (client st)))
     - set (iter_req_stream_fin (client st) (iter_id (client st)))"

text \<open>The state before the session: nothing requested, nothing received.\<close>

definition fresh_session :: "Manifest \<Rightarrow> int \<Rightarrow> Session \<Rightarrow> bool" where
  "fresh_session m b st \<longleftrightarrow> 0 < mf_NO_SEG m \<and> 0 < mf_SD m \<and> 0 \<le> mf_EL_VER_NUM m \<and>
     mf_NO_FACE m = mf_NO_TILE m + 1 \<and>
     player_init b (mf_NO_SEG m * mf_SD m) (mf_SD m) (mf_NO_TILE m) (mf_EL_VER_NUM m) = Some (player st) \<and>
     seg_EL_download (client st) = replicate (nat (mf_NO_SEG m)) False \<and> iter_id (client st) = 0 \<and>
     RequestStreamInfo (client st) = (\<lambda>_. None) \<and> iter_req_stream (client st) = (\<lambda>_. []) \<and>
     iter_req_stream_fin (client st) = (\<lambda>_. [])"

text \<open>What the engines sense, whenever they are asked: tiles count from 1.\<close>

definition senses_ok :: "Sense list \<Rightarrow> bool" where
  "senses_ok ss \<longleftrightarrow> ss \<noteq> [] \<and> (\<forall>s \<in> set ss. senses_in {0<..} s)"

lemma senses_ne: "senses_ok ss \<Longrightarrow> ss \<noteq> []"
  by (simp add: senses_ok_def)

inductive session_step :: "Manifest \<Rightarrow> Session \<Rightarrow> Session \<Rightarrow> bool" for m where
  pass: "played (player st) < VIDEO_LEN (player st) \<Longrightarrow> tick now1 now2 (player st) = Some p \<Longrightarrow>
    session_step m st (st\<lparr>player := p\<rparr>)"
| closed: "i \<in> outstanding st \<Longrightarrow> has_req ev \<Longrightarrow> senses_ok ss \<Longrightarrow> on_stream_close m ss ev i st = Some st' \<Longrightarrow>
    session_step m st st'"
| frame: "i \<in> outstanding st \<Longrightarrow> set (fr_viewport fr) \<subseteq> {0<..} \<Longrightarrow> recv_data m fr i st = Some st' \<Longrightarrow>
    session_step m st st'"
| promise: "recv_push_promise m multiply_1 pp i promised st = Some st' \<Longrightarrow> session_step m st st'"
| pushed: "RequestStreamInfo (client st) i = None \<Longrightarrow> i \<noteq> INI_STREAM_ID \<Longrightarrow> on_stream_close m ss ev i st = Some st' \<Longrightarrow>
    session_step m st st'"

inductive session_reach :: "Manifest \<Rightarrow> Session \<Rightarrow> bool" for m where
  start: "fresh_session m b st \<Longrightarrow> has_req ev \<Longrightarrow> senses_ok ss \<Longrightarrow>
    on_stream_close m ss ev INI_STREAM_ID st = Some st' \<Longrightarrow> session_reach m st'"
| step: "session_reach m st \<Longrightarrow> session_step m st st' \<Longrightarrow> session_reach m st'"

abbreviation session_steps :: "Manifest \<Rightarrow> Session \<Rightarrow> Session \<Rightarrow> bool" where
  "session_steps m \<equiv> (session_step m)\<^sup>*\<^sup>*"

lemmas session_reach_step = session_reach.step [OF _ session_step.pass] session_reach.step [OF _ session_step.closed]

lemma session_reach_steps: "session_steps m st st' \<Longrightarrow> session_reach m st \<Longrightarrow> session_reach m st'"
  by (induction rule: rtranclp_induct) (auto intro: session_reach.step)

section \<open>The invariant\<close>

definition later_empty :: "Client \<Rightarrow> bool" where
  "later_empty c \<longleftrightarrow> (\<forall>k > iter_id c. iter_req_stream c k = [] \<and> iter_req_stream_fin c k = [])"

definition ids_above :: "Client \<Rightarrow> bool" where
  "ids_above c \<longleftrightarrow> INI_STREAM_ID \<le> cur_req_stream_id c \<and>
     (\<forall>i. RequestStreamInfo c i \<noteq> None \<longrightarrow> INI_STREAM_ID < i)"

definition round_open :: "Client \<Rightarrow> bool" where
  "round_open c \<longleftrightarrow> req_s_num c = int (length (iter_req_stream c (iter_id c))) \<and>
     (req_s_num c \<noteq> 0 \<longrightarrow> fin_s_num c = int (length (iter_req_stream_fin c (iter_id c))) \<and>
        fin_s_num c < req_s_num c)"

definition session_inv :: "Manifest \<Rightarrow> Session \<Rightarrow> bool" where
  "session_inv m st \<longleftrightarrow> session_shape m st \<and> 0 \<le> BL_seg_id (client st) \<and>
     player_inv (nat (BL_seg_id (client st))) (player st) \<and> SD (player st) = mf_SD m * 1000 \<and>
     streams_inv (client st) \<and> ids_above (client st) \<and> later_empty (client st) \<and> round_open (client st)"

subsection \<open>Decisions\<close>

lemma request_layer_ids:
  assumes "request_layer m it sid w fid l br dep c = Some (c', i)" "ids_above c"
  shows "ids_above c'"
  using assms
  by (cases "uri_ok c") (auto simp: request_layer_def ids_above_def send_get_request_def map_insert_def INI_STREAM_ID_def Let_def
      split: bind_splits if_splits)

interpretation ids: decision_invariant m it UNIV ids_above for m it
proof (unfold_locales, goal_cases)
  case (1 t l br dep c c' i)
  then show ?case by (simp add: el_request_def request_layer_ids)
next
  case (8 c c')
  then show ?case
    by (auto simp: request_base_def set_tile_version_def split: if_splits bind_splits dest!: request_layer_ids)
      (simp_all add: ids_above_def)
qed (simp_all add: ids_above_def reset_round_def)

text \<open>A decision at the start of an iteration opens its round.\<close>

lemma run_engine_inv:
  assumes "run_engine m ss st = Some st'" "ss \<noteq> []"
    and "session_shape m st" "0 \<le> BL_seg_id (client st)"
    and "player_inv (nat (BL_seg_id (client st))) (player st)" "SD (player st) = mf_SD m * 1000"
    and "streams_inv (client st)" "ids_above (client st)" "later_empty (client st)"
    and "iter_req_stream (client st) (iter_id (client st)) = []"
    and "iter_req_stream_fin (client st) (iter_id (client st)) = []"
  shows "session_inv m st'"
proof -
  let ?c = "client st" and ?it = "iter_id (client st)"
  obtain d c where r: "decide (engine_for m ?it) ss ?c = Some (d, c)" and st': "client st' = c" "player st' = player st"
    using assms(1) by (auto simp: run_engine_def Let_def split: bind_splits prod.splits)
  have "kept ?it c = kept ?it ?c" by (rule kept.decide_P [OF r senses_in_UNIV HOL.refl])
  then have k: "BL_seg_id c = BL_seg_id ?c" "iter_id c = ?it" "seg_EL_download c = seg_EL_download ?c"
    "iter_req_stream_fin c = iter_req_stream_fin ?c"
    "\<And>j. j \<noteq> ?it \<Longrightarrow> iter_req_stream c j = iter_req_stream ?c j"
    by (auto simp: kept_def fun_eq_iff split: if_splits)
  have ids: "ids_above c" by (rule ids.decide_P [OF r senses_in_UNIV assms(8)])
  have "decided ?it c \<and> (d = Requested \<longleftrightarrow> req_s_num c > 0)"
    by (rule decide_decided [OF r assms(7,10)]) (use assms(2) in simp)
  then obtain sid where b: "booked ?it sid c" "req_s_num c = 0 \<or> fin_s_num c = 0" by (auto simp: decided_def)
  have "round_open c"
    using b k(2,4) assms(11) by (auto simp: round_open_def booked_def)
  moreover have "later_empty c" using assms(9) k by (auto simp: later_empty_def)
  ultimately show ?thesis
    using assms(3-6) b(1) ids k(1,3) by (simp add: st' session_inv_def session_shape_def booked_def)
qed

subsection \<open>Passes of the playback loop\<close>

lemma record_segment_frame:
  "record_segment now p = Some q \<Longrightarrow> buff q = buff p \<and> SD q = SD p \<and> NO_SEG q = NO_SEG p"
  by (auto simp: record_segment_def split: bind_splits)

lemma update_deadlines_frame:
  "update_deadlines now p = Some q \<Longrightarrow> buff q = buff p \<and> SD q = SD p \<and> NO_SEG q = NO_SEG p"
  by (auto simp: update_deadlines_def split: bind_splits)

lemma tick_frame:
  "tick now1 now2 p = Some q \<Longrightarrow> buff q = buff p \<and> SD q = SD p \<and> NO_SEG q = NO_SEG p"
  by (auto simp: tick_def tick_initial_def tick_playing_def tick_rebuffering_def incre_play_time_def
      decre_buff_size_def log_calc_metric_def Let_def split: if_splits bind_splits
      dest!: record_segment_frame update_deadlines_frame)

lemma pass_inv:
  assumes "session_inv m st" "played (player st) < VIDEO_LEN (player st)"
    "tick now1 now2 (player st) = Some p"
  shows "session_inv m (st\<lparr>player := p\<rparr>)"
proof -
  note f = tick_frame [OF assms(3)]
  have i: "player_inv (nat (BL_seg_id (client st))) (player st)" using assms(1) by (simp add: session_inv_def)
  have "player_inv (nat (BL_seg_id (client st)) + 0) p"
    using player_step.pass [OF assms(2,3)] i by (rule player_step_inv)
  then have p: "player_inv (nat (BL_seg_id (client st))) p" by simp
  have "length (seg_playback_deadline p) = nat (NO_SEG p)" "NO_SEG p = mf_NO_SEG m"
    using player_inv_allD(1) [OF p] player_inv_allD(1) [OF i] f assms(1)
    by (auto simp: player_ready_def session_inv_def session_shape_def)
  moreover have "0 < mf_NO_SEG m" using player_inv_allD(10) [OF p] calculation(2) by simp
  ultimately show ?thesis
    using assms(1) f p by (simp add: session_inv_def session_shape_def)
qed


subsection \<open>Closing streams\<close>

lemma record_stream_frame:
  assumes "record_stream m ev i info st = Some st'"
  shows "iter_req_stream (client st') = iter_req_stream (client st) \<and>
    cur_req_stream_id (client st') = cur_req_stream_id (client st) \<and>
    iter_req_stream_fin (client st') = (iter_req_stream_fin (client st))(iter_id (client st) :=
      iter_req_stream_fin (client st) (iter_id (client st)) @ [i]) \<and>
    (\<exists>b. player st' = (player st)\<lparr>buff := b\<rparr> \<and> (b = buff (player st) \<or>
       update_tile_version (buff (player st)) (si_sid info) (si_fid info) (si_lid info) = Some b))"
  using assms
  by (auto simp: record_stream_def push_iter_def Let_def split: if_splits bind_splits
      intro!: exI [of _ "buff (player st')"])

lemma record_stream_inv:
  assumes "record_stream m ev i info st = Some st'" "session_inv m st"
    and "i \<in> outstanding st" "RequestStreamInfo (client st) i = Some info"
  shows "session_shape m st' \<and> player_inv (nat (BL_seg_id (client st))) (player st') \<and>
    SD (player st') = mf_SD m * 1000 \<and> BL_seg_id (client st') = BL_seg_id (client st) \<and>
    iter_id (client st') = iter_id (client st) \<and> streams_inv (client st') \<and> ids_above (client st') \<and>
    later_empty (client st') \<and> req_s_num (client st') = req_s_num (client st) \<and>
    iter_req_stream (client st') = iter_req_stream (client st) \<and>
    fin_s_num (client st') = int (length (iter_req_stream_fin (client st') (iter_id (client st)))) \<and>
    fin_s_num (client st') \<le> req_s_num (client st) \<and> in_iters m (iter_id (client st)) \<and> in_cells m (cell_of info)"
proof -
  let ?c = "client st" and ?it = "iter_id (client st)"
  have it: "in_iters m ?it" and cell: "in_cells m (cell_of info)"
    using assms(1) by (auto simp: record_stream_def push_iter_def set3_def cell_of_def Let_def split: if_splits bind_splits)
  have sh: "session_shape m st" and op: "round_open ?c" and sv: "streams_inv ?c" and la: "later_empty ?c"
    and ia: "ids_above ?c" and pi: "player_inv (nat (BL_seg_id ?c)) (player st)" and sd: "SD (player st) = mf_SD m * 1000"
    using assms(2) by (simp_all add: session_inv_def)
  then have "session_ok m st" using it by (simp add: session_ok_def)
  from record_stream_ok [OF this assms(4) cell, of ev] assms(1) have
    ok: "session_ok m st'" "close_rest st' = close_rest st" "fin_s_num (client st') = fin_s_num ?c + 1"
    by auto
  note frame = record_stream_frame [OF assms(1)]
  obtain b where st': "player st' = (player st)\<lparr>buff := b\<rparr>"
    and b: "b = buff (player st) \<or> update_tile_version (buff (player st)) (si_sid info) (si_fid info) (si_lid info) = Some b"
    using frame by blast
  have wf: "buffer_wf b" "dims b = dims (buff (player st))"
    using ok(1) sh st' by (simp_all add: session_defs)
  have "player_inv (nat (BL_seg_id ?c)) (player st')"
  proof (cases "b = buff (player st)")
    case True
    then show ?thesis using pi st' by simp
  next
    case False
    with b have "player_step (player st) 0 (player st')"
      unfolding st' using wf by (auto intro: player_step.layer)
    from player_step_inv [OF this pi] show ?thesis by simp
  qed
  moreover have "SD (player st') = mf_SD m * 1000" using st' sd by simp
  moreover have same: "req_s_num (client st') = req_s_num ?c" "BL_seg_id (client st') = BL_seg_id ?c"
    "iter_id (client st') = ?it" "RequestStreamInfo (client st') = RequestStreamInfo ?c"
    using ok(2) by (simp_all add: close_rest_def)
  moreover have lists: "iter_req_stream (client st') = iter_req_stream ?c" "cur_req_stream_id (client st') = cur_req_stream_id ?c"
    "iter_req_stream_fin (client st') = (iter_req_stream_fin ?c)(?it := iter_req_stream_fin ?c ?it @ [i])"
    using frame by blast+
  moreover have "iter_req_stream ?c ?it \<noteq> []" using assms(3) by (auto simp: outstanding_def)
  then have "fin_s_num ?c = int (length (iter_req_stream_fin ?c ?it))" "fin_s_num ?c < req_s_num ?c"
    using op by (auto simp: round_open_def)
  ultimately show ?thesis
    using ok(1,3) sv ia la it cell
    by (auto simp: session_ok_def streams_inv_def ids_above_def later_empty_def)
qed

lemma end_round_inv:
  assumes "end_round m ev info st = Some st'" "session_shape m st" "0 \<le> BL_seg_id (client st)"
    and "player_inv (nat (BL_seg_id (client st))) (player st)" "SD (player st) = mf_SD m * 1000"
    and "streams_inv (client st)" "ids_above (client st)" "later_empty (client st)"
  shows "session_shape m st' \<and> 0 \<le> BL_seg_id (client st') \<and>
    player_inv (nat (BL_seg_id (client st'))) (player st') \<and> SD (player st') = mf_SD m * 1000 \<and>
    streams_inv (client st') \<and> ids_above (client st') \<and> later_empty (client st') \<and>
    iter_req_stream (client st') (iter_id (client st')) = [] \<and>
    iter_req_stream_fin (client st') (iter_id (client st')) = []"
proof -
  let ?c = "client st"
  have f: "iter_id (client st') = iter_id ?c + 1" "iter_req_stream (client st') = iter_req_stream ?c"
    "iter_req_stream_fin (client st') = iter_req_stream_fin ?c" "cur_req_stream_id (client st') = cur_req_stream_id ?c"
    "RequestStreamInfo (client st') = RequestStreamInfo ?c"
    "length (seg_EL_download (client st')) = length (seg_EL_download ?c)"
    "BL_seg_id (client st') = BL_seg_id ?c + (if si_fid info = 0 then 1 else 0)"
    "player st' = (if si_fid info = 0 then incre_buff_size (SD (player st)) (player st) else player st)"
    using assms(1,5) by (auto simp: end_round_def Let_def aset_length split: if_splits bind_splits)
  have "player_inv (nat (BL_seg_id (client st'))) (player st')"
  proof (cases "si_fid info = 0")
    case True
    have "player_inv (nat (BL_seg_id ?c) + 1) (incre_buff_size (SD (player st)) (player st))"
      by (rule player_step_inv [OF player_step.arrive assms(4)])
    moreover have "nat (BL_seg_id ?c + 1) = nat (BL_seg_id ?c) + 1" using assms(3) by simp
    ultimately show ?thesis using True f(7,8) by simp
  next
    case False
    then show ?thesis using f(7,8) assms(4) by simp
  qed
  moreover have "buff (player st') = buff (player st)" "seg_playback_deadline (player st') = seg_playback_deadline (player st)"
    "SD (player st') = SD (player st)"
    using f(8) by (auto simp: incre_buff_size_def)
  ultimately show ?thesis
    using assms(2,3,5-8) f
    by (auto simp: session_shape_def streams_inv_def ids_above_def later_empty_def)
qed

lemma outstanding_known:
  assumes "session_inv m st" "i \<in> outstanding st"
  shows "\<exists>info. RequestStreamInfo (client st) i = Some info" "i \<noteq> INI_STREAM_ID"
proof -
  have "RequestStreamInfo (client st) i \<noteq> None"
    using assms by (auto simp: session_inv_def streams_inv_def outstanding_def)
  then show "\<exists>info. RequestStreamInfo (client st) i = Some info" "i \<noteq> INI_STREAM_ID"
    using assms(1) by (auto simp: session_inv_def ids_above_def)
qed

text \<open>A stream of the round closes: the round goes on, or it ends and the next decision starts.\<close>

lemma on_stream_close_cases:
  assumes "session_inv m st" "i \<in> outstanding st" "on_stream_close m ss ev i st = Some st'"
  obtains (ignored) "\<not> has_req ev" "st' = st"
  | (open_round) info s0 where "session_inv m s0" "i \<in> outstanding s0" "client s0 = client st" "player s0 = player st"
      "RequestStreamInfo (client st) i = Some info" "record_stream m ev i info s0 = Some st'"
      "fin_s_num (client st') \<noteq> req_s_num (client st')"
  | (end_of_round) info s0 s1 s2 where "session_inv m s0" "i \<in> outstanding s0" "client s0 = client st" "player s0 = player st"
      "RequestStreamInfo (client st) i = Some info" "record_stream m ev i info s0 = Some s1"
      "end_round m ev info s1 = Some s2" "run_engine m ss s2 = Some st'"
proof (cases "has_req ev")
  case False
  with assms(3) ignored show thesis by (simp add: on_stream_close_def)
next
  case True
  obtain info where info: "RequestStreamInfo (client st) i = Some info"
    using outstanding_known(1) [OF assms(1,2)] by blast
  have "i \<noteq> INI_STREAM_ID" by (rule outstanding_known(2) [OF assms(1,2)])
  obtain s0 where s0: "s0 = st \<or> (\<exists>fin. s0 = st\<lparr>iter_push_stream_fin := fin\<rparr>)"
    and r: "do {
        (st, over) \<leftarrow> close_stream m ev i s0;
        (if over then run_engine m ss st else Some st)
      } = Some st'"
  proof (cases "pushStreamInfo st i")
    case None
    with True assms(3) \<open>i \<noteq> INI_STREAM_ID\<close> that [of st] show ?thesis by (simp add: on_stream_close_def)
  next
    case (Some info)
    with True assms(3) \<open>i \<noteq> INI_STREAM_ID\<close> obtain fin where "do {
        (st, over) \<leftarrow> close_stream m ev i (st\<lparr>iter_push_stream_fin := fin\<rparr>);
        (if over then run_engine m ss st else Some st)
      } = Some st'"
      by (cases "push_iter m (iter_push_stream_fin st) (iter_id (client st)) i") (auto simp: on_stream_close_def)
    then show ?thesis using that [of "st\<lparr>iter_push_stream_fin := fin\<rparr>"] by blast
  qed
  have same: "client s0 = client st" "player s0 = player st" using s0 by auto
  have inv: "session_inv m s0" "i \<in> outstanding s0"
    using s0 assms(1,2) by (auto simp: session_inv_def session_shape_def outstanding_def)
  from r same info obtain s1 where s1: "record_stream m ev i info s0 = Some s1"
    and rest: "(if fin_s_num (client s1) = req_s_num (client s1)
      then do { s2 \<leftarrow> end_round m ev info s1; run_engine m ss s2 } else Some s1) = Some st'"
    by (auto simp: close_stream_def split: bind_splits if_splits)
  show thesis
  proof (cases "fin_s_num (client s1) = req_s_num (client s1)")
    case False
    with rest s1 open_round [OF inv same info] show thesis by simp
  next
    case True
    with rest obtain s2 where "end_round m ev info s1 = Some s2" "run_engine m ss s2 = Some st'"
      by (auto split: bind_splits)
    with end_of_round [OF inv same info s1] show thesis by blast
  qed
qed

lemma close_inv:
  assumes "session_inv m st" "i \<in> outstanding st" "ss \<noteq> []" "on_stream_close m ss ev i st = Some st'"
  shows "session_inv m st'"
  using assms(1,2,4)
proof (cases rule: on_stream_close_cases)
  case ignored
  with assms(1) show ?thesis by simp
next
  case (open_round info s0)
  have "RequestStreamInfo (client s0) i = Some info" using open_round by simp
  note rec = record_stream_inv [OF open_round(6,1,2) this]
  have "0 \<le> BL_seg_id (client st')" using rec open_round(1) by (simp add: session_inv_def)
  moreover have "round_open (client st')"
    using rec open_round(1,7) by (auto simp: session_inv_def round_open_def)
  ultimately show ?thesis using rec by (simp add: session_inv_def)
next
  case (end_of_round info s0 s1 s2)
  have "RequestStreamInfo (client s0) i = Some info" using end_of_round by simp
  note rec = record_stream_inv [OF end_of_round(6,1,2) this]
  have "0 \<le> BL_seg_id (client s1)" using rec end_of_round(1) by (simp add: session_inv_def)
  with rec end_round_inv [OF end_of_round(7)] show ?thesis
    by (intro run_engine_inv [OF end_of_round(8) assms(3)]) simp_all
qed

subsection \<open>Data frames and pushes\<close>

text \<open>An open round, with at least \<open>n\<close> requests, in which only the requests of the iteration change.\<close>

definition growing where
  "growing it n K c \<longleftrightarrow> streams_inv c \<and> ids_above c \<and> req_s_num c = int (length (iter_req_stream c it)) \<and>
     n \<le> req_s_num c \<and> kept it c = K"

lemma request_layer_growing:
  assumes "request_layer m it sid w t l br dep c = Some (c', i)" "growing it n K c"
  shows "growing it n K c'"
proof -
  have "in_cells m (sid, t, l)" "in_iters m it"
    using assms(1) by (auto simp: request_layer_def set3_def push_iter_def split: if_splits bind_splits prod.splits)
  from request_layer_ok [OF _ this, of c w br dep] assms obtain
    "streams_inv c'" "iter_req_stream c' = (iter_req_stream c)(it := iter_req_stream c it @ [cur_req_stream_id c + 2])"
    "req_s_num c' = req_s_num c + 1"
    by (auto simp: growing_def)
  with assms request_layer_ids [OF assms(1)] request_layer_kept [OF assms(1)] show ?thesis
    by (simp add: growing_def)
qed

interpretation growing: frame_invariant m it UNIV "growing it n K" for m it n K
  by unfold_locales (simp_all add: request_layer_growing,
    simp_all add: growing_def streams_inv_def ids_above_def kept_def)

lemma session_inv_cong:
  "session_inv m st \<Longrightarrow> client st' = client st \<Longrightarrow> player st' = player st \<Longrightarrow> session_inv m st'"
  by (simp add: session_inv_def session_shape_def)

lemma frame_inv:
  assumes "session_inv m st" "i \<in> outstanding st" "recv_data m fr i st = Some st'"
  shows "session_inv m st'"
  using assms(3)
proof (cases rule: recv_data_cases)
  case none
  with assms(1) show ?thesis by (simp add: session_inv_cong)
next
  case (tile info s1 s2)
  have unfinished: "0 < req_s_num (client st)" "fin_s_num (client st) < req_s_num (client st)"
    using assms(1,2) by (auto simp: session_inv_def round_open_def outstanding_def)
  have s2: "session_inv m s2" "fin_s_num (client s2) = fin_s_num (client st)" "req_s_num (client s2) = req_s_num (client st)"
    using end_late_frame [OF tile(8)] tile(4,5) assms(1)
    by (auto simp: session_inv_def session_shape_def cancel_round_def streams_inv_def ids_above_def later_empty_def
        round_open_def)
  note re = redecide_frame [OF tile(9)]
  show ?thesis
  proof (cases "st' = s2")
    case True
    with s2 show ?thesis by simp
  next
    case False
    let ?it = "iter_id (client s2)" and ?c = "client s2" and ?c' = "client st'"
    from False re have tr: "trung_adaptation m fr ?it (face_dow_data s2) ?c = Some ?c'" and p: "player st' = player s2"
      by blast+
    have "growing ?it (req_s_num ?c) (kept ?it ?c) ?c"
      using s2(1) by (simp add: growing_def session_inv_def round_open_def)
    from growing.trung_P [OF tr subset_UNIV this] have g: "growing ?it (req_s_num ?c) (kept ?it ?c) ?c'" .
    then have k: "BL_seg_id ?c' = BL_seg_id ?c" "iter_id ?c' = ?it" "seg_EL_download ?c' = seg_EL_download ?c"
      "iter_req_stream_fin ?c' = iter_req_stream_fin ?c" "\<And>j. j \<noteq> ?it \<Longrightarrow> iter_req_stream ?c' j = iter_req_stream ?c j"
      by (auto simp: growing_def kept_def fun_eq_iff split: if_splits)
    have "fin_s_num ?c' = fin_s_num ?c"
      using rest.trung_P [OF tr subset_UNIV HOL.refl] by (simp add: frame_rest_def engine_rest_def)
    with g k s2 unfinished have "round_open ?c'"
      by (auto simp: growing_def round_open_def session_inv_def)
    with g k s2(1) p show ?thesis
      by (simp add: session_inv_def session_shape_def growing_def later_empty_def)
  qed
qed

lemma promise_frame:
  assumes "recv_push_promise m multiply_1 pp i promised st = Some st'"
  shows "(\<exists>rs. client st' = (client st)\<lparr>rst_streams := rs\<rparr>) \<and> player st' = player st"
  using assms
  by (auto simp: recv_push_promise_def note_promise_def refuse_def split: if_splits bind_splits option.splits
      intro: exI [of _ "rst_streams (client st)"])

lemma promise_inv:
  assumes "session_inv m st" "recv_push_promise m multiply_1 pp i promised st = Some st'"
  shows "session_inv m st'"
  using promise_frame [OF assms(2)] assms(1)
  by (auto simp: session_inv_def session_shape_def streams_inv_def ids_above_def later_empty_def round_open_def)

lemma pushed_frame:
  assumes "on_stream_close m ss ev i st = Some st'" "RequestStreamInfo (client st) i = None" "i \<noteq> INI_STREAM_ID"
  shows "client st' = client st" "player st' = player st"
  using assms by (auto simp: on_stream_close_def close_stream_def split: if_splits bind_splits option.splits)

lemma pushed_inv:
  assumes "session_inv m st" "RequestStreamInfo (client st) i = None" "i \<noteq> INI_STREAM_ID"
    "on_stream_close m ss ev i st = Some st'"
  shows "session_inv m st'"
  using assms(1) pushed_frame [OF assms(4,2,3)] by (rule session_inv_cong)

subsection \<open>The start\<close>

lemma start_run:
  assumes "fresh_session m b st" "has_req ev" "senses_ok ss" "on_stream_close m ss ev INI_STREAM_ID st = Some st'"
  obtains s1 where
    "run_engine m ss (st\<lparr>client := (client st)\<lparr>cur_req_stream_id := INI_STREAM_ID, BL_seg_id := 0\<rparr>\<rparr>) = Some s1"
    "session_inv m s1" "client st' = client s1" "player st' = player s1"
proof -
  let ?st = "st\<lparr>client := (client st)\<lparr>cur_req_stream_id := INI_STREAM_ID, BL_seg_id := 0\<rparr>\<rparr>"
  note fr = assms(1) [unfolded fresh_session_def]
  have p: "player_inv 0 (player st)"
    using fr by (intro player_init_inv [of b "mf_NO_SEG m * mf_SD m" "mf_SD m" "mf_NO_TILE m" "mf_EL_VER_NUM m"]) auto
  have div: "(mf_NO_SEG m * mf_SD m) sdiv mf_SD m = mf_NO_SEG m"
    using fr by simp
  have f: "buff (player st) = buffer_init (mf_NO_SEG m) (mf_NO_TILE m) (mf_EL_VER_NUM m + 1)"
    "SD (player st) = mf_SD m * 1000" "length (seg_playback_deadline (player st)) = nat (mf_NO_SEG m)"
  proof -
    have "\<exists>q. player_init b (mf_NO_SEG m * mf_SD m) (mf_SD m) (mf_NO_TILE m) (mf_EL_VER_NUM m) = Some q \<and>
        buff q = buffer_init (mf_NO_SEG m) (mf_NO_TILE m) (mf_EL_VER_NUM m + 1) \<and> SD q = mf_SD m * 1000 \<and>
        length (seg_playback_deadline q) = nat (mf_NO_SEG m)"
      using fr by (simp add: player_init_def Let_def div)
    then show "buff (player st) = buffer_init (mf_NO_SEG m) (mf_NO_TILE m) (mf_EL_VER_NUM m + 1)"
      "SD (player st) = mf_SD m * 1000" "length (seg_playback_deadline (player st)) = nat (mf_NO_SEG m)"
      using fr by auto
  qed
  obtain s1 where s1: "run_engine m ss ?st = Some s1"
    using assms(2,4) by (auto simp: on_stream_close_def split: bind_splits)
  have inv: "session_inv m s1"
    using fr f p by (intro run_engine_inv [OF s1 senses_ne [OF assms(3)]])
      (simp_all add: session_shape_def buffer_wf_init streams_inv_def ids_above_def later_empty_def)
  then have "RequestStreamInfo (client s1) INI_STREAM_ID = None"
    by (auto simp: session_inv_def ids_above_def)
  with assms(2,4) s1 have "st' = s1 \<or> (\<exists>fin. st' = s1\<lparr>iter_push_stream_fin := fin\<rparr>)"
    by (auto simp: on_stream_close_def close_stream_def split: bind_splits option.splits)
  then have "client st' = client s1" "player st' = player s1" by auto
  then show thesis by (rule that [OF s1 inv])
qed

lemma start_inv:
  assumes "fresh_session m b st" "has_req ev" "senses_ok ss" "on_stream_close m ss ev INI_STREAM_ID st = Some st'"
  shows "session_inv m st'"
  using assms by (rule start_run) (rule session_inv_cong)

lemma session_step_inv: "session_step m st st' \<Longrightarrow> session_inv m st \<Longrightarrow> session_inv m st'"
proof (induction rule: session_step.induct)
  case (closed i st ev ss st')
  then show ?case using close_inv [OF _ _ senses_ne] by blast
qed (auto intro: pass_inv frame_inv promise_inv pushed_inv)

theorem session_reach_inv: "session_reach m st \<Longrightarrow> session_inv m st"
  by (induction rule: session_reach.induct) (auto intro: start_inv session_step_inv)

definition demo_fresh :: Session where
  "demo_fresh = (demo_session demo_client)\<lparr>player := the (player_init 2 20 1 6 3)\<rparr>"

lemma demo_fresh_ok: "fresh_session (demo_manifest 5) 2 demo_fresh"
proof -
  have "\<exists>p. player_init 2 20 1 6 3 = Some p" by (simp add: player_init_def Let_def)
  then show ?thesis
    by (auto simp: fresh_session_def demo_fresh_def demo_session_def demo_client_def demo_manifest_def)
qed

text \<open>A session in which the first base layer has arrived and the second is requested.\<close>

lemma demo_session_reach:
  "\<exists>st. session_reach (demo_manifest 5) st \<and> BL_seg_id (client st) = 1 \<and> iter_id (client st) = 1 \<and>
     req_s_num (client st) = 1 \<and> requests_of (client st) 1 = [stream_info 1 0 0] \<and> 17 \<in> outstanding st \<and>
     played (player st) < VIDEO_LEN (player st)"
proof -
  let ?m = "demo_manifest 5" and ?s = "demo_sense 0 (- 1) 0"
  have "map_option (\<lambda>st. (15 \<in> outstanding st, map_option (\<lambda>st. (BL_seg_id (client st), iter_id (client st),
      req_s_num (client st), requests_of (client st) 1, 17 \<in> outstanding st, played (player st) < VIDEO_LEN (player st)))
      (on_stream_close ?m [?s] (demo_close 900) 15 st)))
      (on_stream_close ?m [?s] (demo_close 1) INI_STREAM_ID demo_fresh)
    = Some (True, Some (1, 1, 1, [stream_info 1 0 0], True, True))"
    by code_simp
  then obtain s1 s2 where s: "on_stream_close ?m [?s] (demo_close 1) INI_STREAM_ID demo_fresh = Some s1"
    "15 \<in> outstanding s1" "on_stream_close ?m [?s] (demo_close 900) 15 s1 = Some s2"
    "BL_seg_id (client s2) = 1" "iter_id (client s2) = 1" "req_s_num (client s2) = 1"
    "requests_of (client s2) 1 = [stream_info 1 0 0]" "17 \<in> outstanding s2"
    "played (player s2) < VIDEO_LEN (player s2)"
    by auto
  have "session_reach ?m s1"
    by (rule session_reach.start [OF demo_fresh_ok _ _ s(1)])
      (simp_all add: demo_close_def senses_ok_def senses_in_def demo_sense_def)
  then have "session_reach ?m s2"
    by (rule session_reach_step(2) [OF _ s(2) _ _ s(3)])
      (simp_all add: demo_close_def senses_ok_def senses_in_def demo_sense_def)
  with s show ?thesis by blast
qed

section \<open>What follows for every session\<close>

text \<open>
  C8: However the playback thread, data frames, second decisions, pushes and closing streams
  interleave, the buffer level plus the time played is the duration of the base layers the network thread has counted, and the buffer
  level is never negative: the two threads never disagree on what has arrived.
\<close>

theorem session_conservation:
  assumes "session_reach m st"
  shows "base_layer_buff (player st) + played (player st) = BL_seg_id (client st) * (mf_SD m * 1000) \<and>
    0 \<le> base_layer_buff (player st) \<and> played (player st) \<le> VIDEO_LEN (player st)"
proof -
  from session_reach_inv [OF assms] have "player_inv (nat (BL_seg_id (client st))) (player st)"
    "0 \<le> BL_seg_id (client st)" "SD (player st) = mf_SD m * 1000"
    by (simp_all add: session_inv_def)
  from player_inv_allD(2,3,5) [OF this(1)] this(2,3) show ?thesis by simp
qed

theorem session_conservation_witness:
  "\<exists>st. session_reach (demo_manifest 5) st \<and> base_layer_buff (player st) + played (player st) = 1000"
proof -
  obtain st where "session_reach (demo_manifest 5) st" "BL_seg_id (client st) = 1"
    using demo_session_reach by blast
  with session_conservation [OF this(1)] show ?thesis by (auto simp: demo_manifest_def)
qed

text \<open>
  In every state of a session the round is open, also when data frames make it decide again and
  grow: no more streams have been reported closed than
  requested, the difference is what the round still waits for, and no stream is listed for an
  iteration to come. So a decision is made only when every stream of the round before has closed.
\<close>

theorem session_round_open:
  assumes "session_reach m st"
  shows "req_s_num (client st) = int (length (iter_req_stream (client st) (iter_id (client st)))) \<and>
    (req_s_num (client st) = 0 \<or>
      fin_s_num (client st) = int (length (iter_req_stream_fin (client st) (iter_id (client st)))) \<and>
      fin_s_num (client st) < req_s_num (client st)) \<and>
    iter_req_stream (client st) (iter_id (client st) + 1) = []"
  using session_reach_inv [OF assms] by (auto simp: session_inv_def round_open_def later_empty_def)


theorem session_round_open_witness:
  "\<exists>st. session_reach (demo_manifest 5) st \<and> req_s_num (client st) = 1 \<and> fin_s_num (client st) < 1 \<and>
     length (iter_req_stream (client st) 1) = 1"
proof -
  obtain st where "session_reach (demo_manifest 5) st" "iter_id (client st) = 1" "req_s_num (client st) = 1"
    using demo_session_reach by blast
  with session_round_open [OF this(1)] show ?thesis by (intro exI [of _ st]) auto
qed

end
