(* ===== verification/Session_Player.thy ===== *)
theory Session_Player
  imports Client_Session
begin

text \<open>
  The player of a session is a run of the state machine of theory \<open>Playback\<close>: every step of a session
  is a sequence of its steps, with as many arrivals as base layers the network thread counts. So what
  holds of every run of the player holds in every session, also that a player that waits with more
  than one segment never plays again.
\<close>

lemma player_reach_trans: "player_reach q k r \<Longrightarrow> player_reach p n q \<Longrightarrow> player_reach p (n + k) r"
proof (induction rule: player_reach.induct)
  case (step q k r l u)
  from player_reach.step [OF step.IH [OF step.prems] step.hyps(2)] show ?case by (simp add: add.assoc)
qed simp

lemma player_reach_step: "player_step p n q \<Longrightarrow> player_reach p n q"
  using player_reach.step [OF player_reach.refl] by simp

section \<open>The steps of a session\<close>

lemma record_stream_player:
  assumes "record_stream m ev i info st = Some st'" "session_inv m st" "i \<in> outstanding st"
    "RequestStreamInfo (client st) i = Some info"
  shows "player_reach (player st) 0 (player st')"
proof -
  obtain b where st': "player st' = (player st)\<lparr>buff := b\<rparr>"
    and b: "b = buff (player st) \<or> update_tile_version (buff (player st)) (si_sid info) (si_fid info) (si_lid info) = Some b"
    using record_stream_frame [OF assms(1)] by blast
  have "session_shape m st'" "session_shape m st"
    using record_stream_inv [OF assms] assms(2) by (simp_all add: session_inv_def)
  then have wf: "buffer_wf b" "dims b = dims (buff (player st))" by (simp_all add: session_shape_def st')
  show ?thesis
  proof (cases "b = buff (player st)")
    case True
    then show ?thesis using player_reach.refl [of "player st"] by (simp add: st')
  next
    case False
    with b wf show ?thesis unfolding st' by (blast intro: player_reach_step player_step.layer)
  qed
qed

lemma end_round_player:
  assumes "end_round m ev info st = Some st'" "SD (player st) = mf_SD m * 1000"
  shows "\<exists>n. player_reach (player st) n (player st') \<and> BL_seg_id (client st') = BL_seg_id (client st) + int n"
proof -
  have f: "BL_seg_id (client st') = BL_seg_id (client st) + (if si_fid info = 0 then 1 else 0)"
    "player st' = (if si_fid info = 0 then incre_buff_size (SD (player st)) (player st) else player st)"
    using assms by (auto simp: end_round_def Let_def split: if_splits bind_splits)
  show ?thesis
  proof (cases "si_fid info = 0")
    case True
    then show ?thesis using player_reach_step [OF player_step.arrive] f by (intro exI [of _ 1]) simp
  next
    case False
    then show ?thesis using player_reach.refl f by (intro exI [of _ 0]) simp
  qed
qed

lemma run_engine_player:
  assumes "run_engine m ss st = Some st'"
  shows "player st' = player st \<and> BL_seg_id (client st') = BL_seg_id (client st)"
proof -
  obtain d c where r: "decide (engine_for m (iter_id (client st))) ss (client st) = Some (d, c)"
    and st': "client st' = c" "player st' = player st"
    using assms by (auto simp: run_engine_def Let_def split: bind_splits prod.splits)
  from kept.decide_P [OF r senses_in_UNIV HOL.refl] st' show ?thesis by (simp add: kept_def)
qed

lemma record_stream_BL: "record_stream m ev i info st = Some st' \<Longrightarrow> BL_seg_id (client st') = BL_seg_id (client st)"
  by (auto simp: record_stream_def Let_def split: if_splits bind_splits)

lemma recv_data_player:
  assumes "recv_data m fr i st = Some st'"
  shows "player st' = player st \<and> BL_seg_id (client st') = BL_seg_id (client st)"
  using assms
proof (cases rule: recv_data_cases)
  case (tile info s1 s2)
  have "player s2 = player st \<and> BL_seg_id (client s2) = BL_seg_id (client st)"
    using end_late_frame [OF tile(8)] tile(4,5) by (auto simp: cancel_round_def)
  moreover have "player st' = player s2 \<and> BL_seg_id (client st') = BL_seg_id (client s2)"
    using redecide_frame [OF tile(9)] rest.trung_P [OF _ subset_UNIV HOL.refl]
    by (auto simp: frame_rest_def engine_rest_def)
  ultimately show ?thesis by simp
qed simp

lemma session_step_player:
  "session_step m st st' \<Longrightarrow> session_inv m st \<Longrightarrow>
    \<exists>n. player_reach (player st) n (player st') \<and> BL_seg_id (client st') = BL_seg_id (client st) + int n"
proof (induction rule: session_step.induct)
  case (pass st now1 now2 p)
  then show ?case by (intro exI [of _ 0]) (simp add: player_reach_step player_step.pass)
next
  case (closed i st ev ss st')
  from closed(5,1,4) show ?case
  proof (cases rule: on_stream_close_cases)
    case ignored
    then show ?thesis by (intro exI [of _ 0]) (simp add: player_reach.refl)
  next
    case (open_round info s0)
    then show ?thesis
      using record_stream_player [OF open_round(6,1,2)] record_stream_BL [OF open_round(6)]
      by (intro exI [of _ 0]) simp
  next
    case (end_of_round info s0 s1 s2)
    have info: "RequestStreamInfo (client s0) i = Some info" using end_of_round by simp
    note rec = record_stream_player [OF end_of_round(6,1,2) info]
    have "SD (player s1) = mf_SD m * 1000" using record_stream_inv [OF end_of_round(6,1,2) info] by simp
    from end_round_player [OF end_of_round(7) this] obtain n where
      "player_reach (player s1) n (player s2)" "BL_seg_id (client s2) = BL_seg_id (client s1) + int n" by blast
    with player_reach_trans [OF _ rec] show ?thesis
      using end_of_round(3,4) run_engine_player [OF end_of_round(8)] record_stream_BL [OF end_of_round(6)]
      by (intro exI [of _ n]) auto
  qed
next
  case (frame i st fr st')
  with recv_data_player [OF frame(3)] show ?case by (intro exI [of _ 0]) (simp add: player_reach.refl)
next
  case (promise multiply_1 pp i promised st st')
  with promise_frame [OF promise(1)] show ?case by (intro exI [of _ 0]) (auto simp: player_reach.refl)
next
  case (pushed st i ss ev st')
  with pushed_frame [OF pushed(3,1,2)] show ?case by (intro exI [of _ 0]) (simp add: player_reach.refl)
qed

lemma session_steps_player:
  assumes "session_steps m st st'" "session_reach m st"
  shows "\<exists>n. player_reach (player st) n (player st') \<and> BL_seg_id (client st') = BL_seg_id (client st) + int n"
  using assms
proof (induction rule: rtranclp_induct)
  case base
  show ?case by (rule exI [of _ 0]) (simp add: player_reach.refl)
next
  case (step st1 st2)
  then obtain n where n: "player_reach (player st) n (player st1)" "BL_seg_id (client st1) = BL_seg_id (client st) + int n"
    by blast
  have "session_inv m st1" by (rule session_reach_inv [OF session_reach_steps [OF step(1,4)]])
  from session_step_player [OF step(2) this] obtain k where
    "player_reach (player st1) k (player st2)" "BL_seg_id (client st2) = BL_seg_id (client st1) + int k" by blast
  with player_reach_trans [OF _ n(1)] n(2) show ?case by (intro exI [of _ "n + k"]) auto
qed

text \<open>
  C9: Seen from the player, a session is a run of the playback state machine: whatever the network
  thread does in between, the player passes, takes layers into its buffer, and receives exactly as
  many segments as base layers are counted.
\<close>

theorem session_refines_player:
  assumes "session_reach m st" "session_steps m st st'"
  shows "player_reach (player st) (nat (BL_seg_id (client st') - BL_seg_id (client st))) (player st')"
  using session_steps_player [OF assms(2,1)] by auto

section \<open>A session that never plays\<close>

text \<open>
  C11: When two base layers arrive before the playback thread looks, which only waits for a level of
  exactly one segment, the session never plays: no sequence of steps, of either thread, changes the
  play time any more.
\<close>

theorem session_stuck:
  assumes "session_reach m st" "STATE (player st) = 0 \<or> STATE (player st) = 2"
    "SD (player st) < base_layer_buff (player st)" "session_steps m st st'"
  shows "STATE (player st') = STATE (player st) \<and> played (player st') = played (player st) \<and>
    SD (player st') < base_layer_buff (player st')"
proof -
  obtain n where "player_reach (player st) n (player st')" using session_steps_player [OF assms(4,1)] by blast
  moreover have "player_inv (nat (BL_seg_id (client st))) (player st)"
    using session_reach_inv [OF assms(1)] by (simp add: session_inv_def)
  ultimately show ?thesis using waiting_reach assms(2,3) by fastforce
qed

section \<open>Witnesses\<close>

text \<open>The second base layer arrives before the playback thread has made a pass.\<close>

lemma demo_two_layers:
  "\<exists>st st'. session_reach (demo_manifest 5) st \<and> session_steps (demo_manifest 5) st st' \<and>
     BL_seg_id (client st) = 1 \<and> BL_seg_id (client st') = 2 \<and>
     STATE (player st') = 0 \<and> played (player st') = 0 \<and> SD (player st') < base_layer_buff (player st')"
proof -
  let ?m = "demo_manifest 5" and ?s = "demo_sense 0 (- 1) 0"
  have "map_option (\<lambda>st. (15 \<in> outstanding st, map_option (\<lambda>st. (BL_seg_id (client st), 17 \<in> outstanding st,
      map_option (\<lambda>st. (BL_seg_id (client st), STATE (player st), played (player st),
        SD (player st) < base_layer_buff (player st)))
      (on_stream_close ?m [?s] (demo_close 900) 17 st)))
      (on_stream_close ?m [?s] (demo_close 900) 15 st)))
      (on_stream_close ?m [?s] (demo_close 1) INI_STREAM_ID demo_fresh)
    = Some (True, Some (1, True, Some (2, 0, 0, True)))"
    by code_simp
  then obtain s1 s2 s3 where s: "on_stream_close ?m [?s] (demo_close 1) INI_STREAM_ID demo_fresh = Some s1"
    "15 \<in> outstanding s1" "on_stream_close ?m [?s] (demo_close 900) 15 s1 = Some s2" "BL_seg_id (client s2) = 1"
    "17 \<in> outstanding s2" "on_stream_close ?m [?s] (demo_close 900) 17 s2 = Some s3"
    "BL_seg_id (client s3) = 2" "STATE (player s3) = 0" "played (player s3) = 0"
    "SD (player s3) < base_layer_buff (player s3)"
    by auto
  have ok: "has_req (demo_close t)" "senses_ok [?s]" for t
    by (simp_all add: demo_close_def senses_ok_def senses_in_def demo_sense_def)
  have 1: "session_reach ?m s1" by (rule session_reach.start [OF demo_fresh_ok _ _ s(1)]) (rule ok)+
  have 2: "session_reach ?m s2" by (rule session_reach_step(2) [OF 1 s(2) _ _ s(3)]) (rule ok)+
  have "session_step ?m s2 s3" by (rule session_step.closed [OF s(5) _ _ s(6)]) (rule ok)+
  with 2 s show ?thesis by blast
qed

theorem session_refines_player_witness:
  "\<exists>st st'. session_reach (demo_manifest 5) st \<and> session_steps (demo_manifest 5) st st' \<and>
     player_reach (player st) 1 (player st')"
proof -
  obtain st st' where st: "session_reach (demo_manifest 5) st" "session_steps (demo_manifest 5) st st'"
    "BL_seg_id (client st) = 1" "BL_seg_id (client st') = 2"
    using demo_two_layers by blast
  from session_refines_player [OF st(1,2)] st show ?thesis by auto
qed

theorem session_stuck_witness:
  "\<exists>st. session_reach (demo_manifest 5) st \<and> played (player st) < VIDEO_LEN (player st) \<and>
     (\<forall>st'. session_steps (demo_manifest 5) st st' \<longrightarrow> played (player st') = 0)"
proof -
  obtain s st where s: "session_reach (demo_manifest 5) s" "session_steps (demo_manifest 5) s st"
    and st: "STATE (player st) = 0" "played (player st) = 0" "SD (player st) < base_layer_buff (player st)"
    using demo_two_layers by blast
  have r: "session_reach (demo_manifest 5) st" by (rule session_reach_steps [OF s(2,1)])
  have "0 < VIDEO_LEN (player st)"
  proof -
    have "player_inv (nat (BL_seg_id (client st))) (player st)"
      using session_reach_inv [OF r] by (simp add: session_inv_def)
    from player_inv_allD(7,9,10) [OF this] show ?thesis by simp
  qed
  moreover have "played (player st') = 0" if "session_steps (demo_manifest 5) st st'" for st'
    using session_stuck [OF r _ st(3) that] st by simp
  ultimately show ?thesis using r st(2) by auto
qed

end
