(* ===== verification/Visible_Tiles.thy ===== *)
theory Visible_Tiles
  imports Vmask_Ext
begin

text \<open>
  Classes \<^verbatim>\<open>VisibleMask\<close> and \<^verbatim>\<open>Headtrace\<close> of \<^verbatim>\<open>duc_metric.h\<close>: which tiles a viewer sees from a
  viewing angle, and where the viewer of a recorded session looked in each frame. Both are loaded
  from text files of numbers; a file is the list of its lines here and a line the list of the
  numbers \<^verbatim>\<open>operator>>\<close> extracts from it. The arrays are partial maps on the checked indices, a
  cell being unassigned until it is stored.
\<close>

section \<open>The code\<close>

text \<open>
  \<^verbatim>\<open>import_matrix_from_txt_file\<close>: all numbers of the lines in one vector, the number of lines, and
  the length of the last line as the number of columns.
\<close>

definition import_matrix :: "rat list list \<Rightarrow> rat list \<times> int \<times> int" where
  "import_matrix lines =
     (let line = (case lines of [] \<Rightarrow> [] | l # _ \<Rightarrow> l) in
      fold (\<lambda>line (v, rows, cols). (v @ line, rows + 1, int (length line))) (tl lines)
        (line, if line \<noteq> [] then 1 else 0, int (length line)))"

subsection \<open>The visible mask\<close>

record VisibleMask =
  vm_vmask :: "int \<times> int \<times> int \<Rightarrow> int option"
  vm_pixel :: "int \<times> int \<times> int \<Rightarrow> int option"
  vm_NO_TILE :: int

definition in_angles :: "int \<Rightarrow> int \<Rightarrow> bool" where
  "in_angles phi theta \<longleftrightarrow> 0 \<le> phi \<and> phi < 360 \<and> 0 \<le> theta \<and> theta < 181"

definition load_cell :: "rat list \<Rightarrow> int \<Rightarrow> int \<Rightarrow> int \<Rightarrow> VisibleMask \<Rightarrow> VisibleMask option" where
  "load_cell v cols i j vm = do {
     a \<leftarrow> aget v (i * cols);
     b \<leftarrow> aget v (i * cols + 1);
     x \<leftarrow> aget v (i * cols + 2 + j);
     let p = (trunc a, trunc b + 90, j);
     if in_angles (trunc a) (trunc b + 90) \<and> 0 \<le> j \<and> j < vm_NO_TILE vm
     then Some (vm\<lparr>vm_pixel := (vm_pixel vm)(p \<mapsto> trunc x),
       vm_vmask := (vm_vmask vm)(p \<mapsto> if trunc x > 0 then 1 else 0)\<rparr>)
     else None
   }"

definition load_row :: "rat list \<Rightarrow> int \<Rightarrow> int \<Rightarrow> VisibleMask \<Rightarrow> VisibleMask option" where
  "load_row v cols i vm = for_each (load_cell v cols i) [0..vm_NO_TILE vm - 1] vm"

definition load_vmask :: "rat list list \<Rightarrow> int \<Rightarrow> VisibleMask option" where
  "load_vmask lines NO_TILE =
     (case import_matrix lines of (v, rows, cols) \<Rightarrow>
        for_each (load_row v cols) [0..rows - 1]
          \<lparr>vm_vmask = Map.empty, vm_pixel = Map.empty, vm_NO_TILE = NO_TILE\<rparr>)"

text \<open>A row of one of the two arrays: a negative longitude is turned by 360 degrees.\<close>

definition angle_row ::
  "(VisibleMask \<Rightarrow> int \<times> int \<times> int \<Rightarrow> int option) \<Rightarrow> VisibleMask \<Rightarrow> int \<times> int \<Rightarrow> (int \<Rightarrow> int option) option" where
  "angle_row arr vm vp_pos =
     (let tmp_phi = (if fst vp_pos < 0 then fst vp_pos + 360 else fst vp_pos); theta = snd vp_pos + 90 in
      if in_angles tmp_phi theta
      then Some (\<lambda>j. if 0 \<le> j \<and> j < vm_NO_TILE vm then arr vm (tmp_phi, theta, j) else None)
      else None)"

definition get_vmask :: "VisibleMask \<Rightarrow> int \<times> int \<Rightarrow> (int \<Rightarrow> int option) option" where
  "get_vmask = angle_row vm_vmask"

definition get_pixel :: "VisibleMask \<Rightarrow> int \<times> int \<Rightarrow> (int \<Rightarrow> int option) option" where
  "get_pixel = angle_row vm_pixel"

text \<open>The ids, from 1, of the tiles whose entry of a row is \<open>k\<close>.\<close>

definition select_tiles :: "(int \<Rightarrow> int option) \<Rightarrow> int \<Rightarrow> int \<Rightarrow> int list option" where
  "select_tiles row k NO_TILE =
     for_each (\<lambda>i visible_tile. do {
       x \<leftarrow> row i;
       Some (if x = k then visible_tile @ [i + 1] else visible_tile)
     }) [0..NO_TILE - 1] []"

definition get_visible_tile :: "VisibleMask \<Rightarrow> int \<times> int \<Rightarrow> int list option" where
  "get_visible_tile vm vp_pos = do {
     vmask \<leftarrow> get_vmask vm vp_pos;
     select_tiles vmask 1 (vm_NO_TILE vm)
   }"

text \<open>\<^verbatim>\<open>extVmask\<close> reads the 24 entries of six faces of two by two tiles.\<close>

definition get_adjacent_tile :: "VisibleMask \<Rightarrow> int \<times> int \<Rightarrow> int \<Rightarrow> int list option" where
  "get_adjacent_tile vm vp_pos ext_width = do {
     row \<leftarrow> get_vmask vm vp_pos;
     vmask \<leftarrow> those (map row [0..23]);
     vmask_ext \<leftarrow> extVmask vmask 6 2 2 ext_width;
     select_tiles (aget vmask_ext) 2 (vm_NO_TILE vm)
   }"

subsection \<open>The head trace\<close>

record Headtrace =
  ht_vp_pos :: "int \<times> int \<Rightarrow> int option"
  ht_NO_FRAME :: int
  ht_FPS :: int

definition load_frame_cell :: "rat list \<Rightarrow> int \<Rightarrow> int \<Rightarrow> int \<Rightarrow> Headtrace \<Rightarrow> Headtrace option" where
  "load_frame_cell v cols i j ht = do {
     x \<leftarrow> aget v ((i + 1) * cols + j);
     if 0 \<le> j \<and> j < 2 then Some (ht\<lparr>ht_vp_pos := (ht_vp_pos ht)((i, j) \<mapsto> trunc x)\<rparr>) else None
   }"

definition load_headtrace :: "rat list list \<Rightarrow> int \<Rightarrow> int \<Rightarrow> Headtrace option" where
  "load_headtrace lines NO_FRAME FPS =
     (case import_matrix lines of (v, rows, cols) \<Rightarrow>
        for_each (\<lambda>i. for_each (load_frame_cell v cols i) [0..cols - 1]) [0..NO_FRAME - 1]
          \<lparr>ht_vp_pos = Map.empty, ht_NO_FRAME = NO_FRAME, ht_FPS = FPS\<rparr>)"

definition get_vp_pos_byFrameId :: "Headtrace \<Rightarrow> int \<Rightarrow> (int \<times> int) option" where
  "get_vp_pos_byFrameId ht frame_id =
     (if 0 \<le> frame_id \<and> frame_id < ht_NO_FRAME ht
      then do {
        phi \<leftarrow> ht_vp_pos ht (frame_id, 0);
        theta \<leftarrow> ht_vp_pos ht (frame_id, 1);
        Some (phi, theta)
      }
      else None)"

definition get_vp_pos :: "Headtrace \<Rightarrow> rat \<Rightarrow> (int \<times> int) option" where
  "get_vp_pos ht time = get_vp_pos_byFrameId ht (trunc (time / (1000 / of_int (ht_FPS ht))))"

section \<open>Files with lines of one length\<close>

text \<open>Every line has the same number of columns; then the vector is the matrix in row-major order.\<close>

definition rectangular :: "int \<Rightarrow> rat list list \<Rightarrow> bool" where
  "rectangular cols lines \<longleftrightarrow> 0 < cols \<and> lines \<noteq> [] \<and> (\<forall>l \<in> set lines. int (length l) = cols)"

lemma import_lines:
  "fold (\<lambda>line (v, rows, cols). (v @ line, rows + 1, int (length line))) ls (v, rows, cols) =
     (v @ concat ls, rows + int (length ls), if ls = [] then cols else int (length (last ls)))"
  by (induction ls arbitrary: v rows cols) auto

lemma import_matrix_rectangular:
  assumes "rectangular cols lines"
  shows "import_matrix lines = (concat lines, int (length lines), cols)"
proof -
  obtain l ls where f: "lines = l # ls" using assms by (cases lines) (auto simp: rectangular_def)
  moreover have "int (length l) = cols" "ls \<noteq> [] \<longrightarrow> int (length (last ls)) = cols" "l \<noteq> []"
    using assms f by (auto simp: rectangular_def)
  ultimately show ?thesis by (simp add: import_matrix_def import_lines)
qed

lemma concat_nth:
  assumes "\<forall>l \<in> set lines. length l = n" "i < length lines" "j < n"
  shows "i * n + j < length (concat lines) \<and> concat lines ! (i * n + j) = lines ! i ! j"
  using assms
proof (induction lines arbitrary: i)
  case (Cons l ls)
  then show ?case by (cases i) (auto simp: nth_append)
qed simp

lemma matrix_cell:
  assumes "rectangular cols lines" "0 \<le> i" "i < int (length lines)" "0 \<le> j" "j < cols"
  shows "aget (concat lines) (i * cols + j) = Some (lines ! nat i ! nat j)"
proof -
  have "nat (i * cols + j) = nat i * nat cols + nat j"
    using assms by (simp add: nat_add_distrib nat_mult_distrib rectangular_def)
  moreover have "\<forall>l \<in> set lines. length l = nat cols" using assms(1) by (auto simp: rectangular_def)
  from concat_nth [OF this, of "nat i" "nat j"] assms have
    "nat i * nat cols + nat j < length (concat lines)"
    "concat lines ! (nat i * nat cols + nat j) = lines ! nat i ! nat j"
    by auto
  moreover have "0 \<le> i * cols + j" using assms by (simp add: rectangular_def)
  moreover have "i * cols + j < int (length (concat lines))"
    using calculation(1,2) nat_less_iff [OF calculation(4)] by metis
  ultimately show ?thesis by (simp add: aget_def)
qed

section \<open>What is loaded\<close>

text \<open>The entry of an angle file for an angle is its last line for that angle.\<close>

definition angle_of :: "rat list \<Rightarrow> int \<times> int" where
  "angle_of l = (trunc (l ! 0), trunc (l ! 1) + 90)"

definition pixels_of :: "rat list \<Rightarrow> int \<Rightarrow> int" where
  "pixels_of l j = trunc (l ! nat (2 + j))"

definition line_at :: "rat list list \<Rightarrow> int \<times> int \<Rightarrow> rat list option" where
  "line_at lines p = find (\<lambda>l. angle_of l = p) (rev lines)"

definition angle_file :: "int \<Rightarrow> rat list list \<Rightarrow> bool" where
  "angle_file n lines \<longleftrightarrow> 0 \<le> n \<and> rectangular (n + 2) lines \<and>
     (\<forall>l \<in> set lines. in_angles (fst (angle_of l)) (snd (angle_of l)))"

definition loaded :: "int \<Rightarrow> rat list list \<Rightarrow> VisibleMask \<Rightarrow> bool" where
  "loaded n lines vm \<longleftrightarrow> vm_NO_TILE vm = n \<and>
     (\<forall>p j. 0 \<le> j \<and> j < n \<longrightarrow>
        vm_pixel vm (fst p, snd p, j) = map_option (\<lambda>l. pixels_of l j) (line_at lines p) \<and>
        vm_vmask vm (fst p, snd p, j) = map_option (\<lambda>l. if pixels_of l j > 0 then 1 else 0) (line_at lines p))"

lemma line_at_snoc: "line_at (ls @ [l]) p = (if angle_of l = p then Some l else line_at ls p)"
  by (simp add: line_at_def)

lemma line_at_SomeD: "line_at lines p = Some l \<Longrightarrow> l \<in> set lines \<and> angle_of l = p"
  by (auto simp: line_at_def find_Some_iff in_set_conv_nth) (metis diff_Suc_less length_rev nth_mem set_rev in_set_conv_nth)

lemma load_row_loaded:
  assumes "angle_file n lines" "i < length lines" "vm_NO_TILE vm = n"
  shows "\<exists>vm'. load_row (concat lines) (n + 2) (int i) vm = Some vm' \<and> vm_NO_TILE vm' = n \<and>
    (\<forall>p j. 0 \<le> j \<and> j < n \<longrightarrow>
       vm_pixel vm' (fst p, snd p, j) =
         (if angle_of (lines ! i) = p then Some (pixels_of (lines ! i) j) else vm_pixel vm (fst p, snd p, j)) \<and>
       vm_vmask vm' (fst p, snd p, j) =
         (if angle_of (lines ! i) = p then Some (if pixels_of (lines ! i) j > 0 then 1 else 0)
          else vm_vmask vm (fst p, snd p, j)))"
proof -
  let ?l = "lines ! i"
  let ?I = "\<lambda>js (vm' :: VisibleMask). vm_NO_TILE vm' = n \<and>
    (\<forall>p j. vm_pixel vm' (fst p, snd p, j) =
         (if angle_of ?l = p \<and> j \<in> set js then Some (pixels_of ?l j) else vm_pixel vm (fst p, snd p, j)) \<and>
       vm_vmask vm' (fst p, snd p, j) =
         (if angle_of ?l = p \<and> j \<in> set js then Some (if pixels_of ?l j > 0 then 1 else 0)
          else vm_vmask vm (fst p, snd p, j)))"
  have rect: "rectangular (n + 2) lines" and ang: "in_angles (fst (angle_of ?l)) (snd (angle_of ?l))"
    using assms by (auto simp: angle_file_def)
  note cell = matrix_cell [OF rect, of "int i"]
  have "\<exists>vm'. for_each (load_cell (concat lines) (n + 2) (int i)) [0..n - 1] vm = Some vm' \<and> ?I [0..n - 1] vm'"
  proof (rule for_each_rule)
    show "?I [] vm" using assms(3) by simp
    fix js j rest vm'
    assume js: "[0..n - 1] = js @ j # rest" "?I js vm'"
    then have j: "0 \<le> j" "j < n" by (metis atLeastAtMost_iff in_set_conv_decomp set_upto zle_diff1_eq)+
    have "aget (concat lines) (int i * (n + 2)) = Some (?l ! 0)" "aget (concat lines) (int i * (n + 2) + 1) = Some (?l ! 1)"
      "aget (concat lines) (int i * (n + 2) + 2 + j) = Some (?l ! nat (2 + j))"
      using cell [of 0] cell [of 1] cell [of "2 + j"] assms(2) j by (simp_all add: add.assoc)
    then have "load_cell (concat lines) (n + 2) (int i) j vm' = Some (vm'
        \<lparr>vm_pixel := (vm_pixel vm')((fst (angle_of ?l), snd (angle_of ?l), j) \<mapsto> pixels_of ?l j),
         vm_vmask := (vm_vmask vm')((fst (angle_of ?l), snd (angle_of ?l), j) \<mapsto> if pixels_of ?l j > 0 then 1 else 0)\<rparr>)"
      using j js(2) ang by (simp add: load_cell_def angle_of_def pixels_of_def Let_def)
    moreover have "?I (js @ [j]) (vm'
        \<lparr>vm_pixel := (vm_pixel vm')((fst (angle_of ?l), snd (angle_of ?l), j) \<mapsto> pixels_of ?l j),
         vm_vmask := (vm_vmask vm')((fst (angle_of ?l), snd (angle_of ?l), j) \<mapsto> if pixels_of ?l j > 0 then 1 else 0)\<rparr>)"
      using js(2) by (auto simp: prod_eq_iff)
    ultimately show "\<exists>vm''. load_cell (concat lines) (n + 2) (int i) j vm' = Some vm'' \<and> ?I (js @ [j]) vm''"
      by blast
  qed
  then show ?thesis by (fastforce simp: load_row_def assms(3))
qed

lemma load_vmask_loaded:
  assumes "angle_file n lines"
  shows "\<exists>vm. load_vmask lines n = Some vm \<and> loaded n lines vm"
proof -
  have rect: "rectangular (n + 2) lines" using assms by (simp add: angle_file_def)
  let ?I = "\<lambda>ks. loaded n (take (length ks) lines)"
  have "\<exists>vm. for_each (load_row (concat lines) (n + 2)) [0..int (length lines) - 1]
      \<lparr>vm_vmask = Map.empty, vm_pixel = Map.empty, vm_NO_TILE = n\<rparr> = Some vm \<and> ?I [0..int (length lines) - 1] vm"
  proof (rule for_each_rule)
    show "?I [] \<lparr>vm_vmask = Map.empty, vm_pixel = Map.empty, vm_NO_TILE = n\<rparr>"
      by (simp add: loaded_def line_at_def)
    fix ks i rest vm
    assume s: "[0..int (length lines) - 1] = ks @ i # rest" "?I ks vm"
    have "[0..int (length lines) - 1] ! length ks = i" "length ks < length [0..int (length lines) - 1]"
      using s(1) by (metis nth_append_length, simp)
    then have i: "i = int (length ks)" "length ks < length lines" by auto
    obtain vm' where "load_row (concat lines) (n + 2) i vm = Some vm'" "vm_NO_TILE vm' = n"
      "\<forall>p j. 0 \<le> j \<and> j < n \<longrightarrow>
       vm_pixel vm' (fst p, snd p, j) =
         (if angle_of (lines ! length ks) = p then Some (pixels_of (lines ! length ks) j) else vm_pixel vm (fst p, snd p, j)) \<and>
       vm_vmask vm' (fst p, snd p, j) =
         (if angle_of (lines ! length ks) = p then Some (if pixels_of (lines ! length ks) j > 0 then 1 else 0)
          else vm_vmask vm (fst p, snd p, j))"
      using load_row_loaded [OF assms i(2), of vm] s(2) i(1) by (auto simp: loaded_def)
    then show "\<exists>vm'. load_row (concat lines) (n + 2) i vm = Some vm' \<and> ?I (ks @ [i]) vm'"
      using s(2) i(2) by (auto simp: loaded_def take_Suc_conv_app_nth line_at_snoc)
  qed
  then show ?thesis by (auto simp: load_vmask_def import_matrix_rectangular [OF rect])
qed

section \<open>Visible tiles\<close>

definition turned :: "int \<times> int \<Rightarrow> int \<times> int" where
  "turned pos = (if fst pos < 0 then fst pos + 360 else fst pos, snd pos + 90)"

lemma for_each_filter:
  assumes "\<And>i. i \<in> set is \<Longrightarrow> row i = Some (f i)"
  shows "for_each (\<lambda>i acc. do { x \<leftarrow> row i; Some (if x = k then acc @ [g i] else acc) }) is acc =
    Some (acc @ map g (filter (\<lambda>i. f i = k) is))"
  using assms by (induction "is" arbitrary: acc) auto

lemma select_tiles_eq:
  assumes "\<And>i. 0 \<le> i \<Longrightarrow> i < n \<Longrightarrow> row i = Some (f i)"
  shows "select_tiles row k n = Some (map (\<lambda>i. i + 1) (filter (\<lambda>i. f i = k) [0..n - 1]))"
  using for_each_filter [of "[0..n - 1]" row f k "\<lambda>i. i + 1"] assms by (simp add: select_tiles_def)

lemma angle_row_loaded:
  assumes "angle_file n lines" "loaded n lines vm" "line_at lines (turned pos) = Some l"
  shows "\<exists>row. get_pixel vm pos = Some row \<and> (\<forall>j. 0 \<le> j \<and> j < n \<longrightarrow> row j = Some (pixels_of l j))"
    and "\<exists>row. get_vmask vm pos = Some row \<and>
      (\<forall>j. 0 \<le> j \<and> j < n \<longrightarrow> row j = Some (if pixels_of l j > 0 then 1 else 0))"
proof -
  have "in_angles (fst (turned pos)) (snd (turned pos))"
    using line_at_SomeD [OF assms(3)] assms(1) by (auto simp: angle_file_def)
  moreover have "vm_pixel vm (fst (turned pos), snd (turned pos), j) = Some (pixels_of l j)"
    "vm_vmask vm (fst (turned pos), snd (turned pos), j) = Some (if pixels_of l j > 0 then 1 else 0)"
    if "0 \<le> j" "j < n" for j
    using assms(2,3) that by (auto simp: loaded_def)
  ultimately show "\<exists>row. get_pixel vm pos = Some row \<and> (\<forall>j. 0 \<le> j \<and> j < n \<longrightarrow> row j = Some (pixels_of l j))"
    "\<exists>row. get_vmask vm pos = Some row \<and>
      (\<forall>j. 0 \<le> j \<and> j < n \<longrightarrow> row j = Some (if pixels_of l j > 0 then 1 else 0))"
    using assms(2) by (auto simp: get_pixel_def get_vmask_def angle_row_def turned_def loaded_def Let_def split: if_splits)
qed

definition visible_tiles :: "int \<Rightarrow> rat list \<Rightarrow> int list" where
  "visible_tiles n l = map (\<lambda>j. j + 1) (filter (\<lambda>j. pixels_of l j > 0) [0..n - 1])"

lemma visible_tiles_sorted: "sorted_wrt (<) (visible_tiles n l)"
proof -
  have "sorted_wrt (<) (filter (\<lambda>j. pixels_of l j > 0) [0..n - 1])"
    by (rule sorted_wrt_filter) simp
  then show ?thesis by (simp add: visible_tiles_def sorted_wrt_map zless_add1_eq [symmetric] less_le [symmetric] add1_zle_eq)
qed

lemma visible_tiles_range: "t \<in> set (visible_tiles n l) \<longleftrightarrow> 1 \<le> t \<and> t \<le> n \<and> pixels_of l (t - 1) > 0"
  by (auto simp: visible_tiles_def image_iff intro!: exI [of _ "t - 1"])

lemma get_visible_tile_loaded:
  assumes "angle_file n lines" "loaded n lines vm" "line_at lines (turned pos) = Some l"
  shows "get_visible_tile vm pos = Some (visible_tiles n l)"
proof -
  obtain row where row: "get_vmask vm pos = Some row"
    "\<forall>j. 0 \<le> j \<and> j < n \<longrightarrow> row j = Some (if pixels_of l j > 0 then 1 else 0)"
    using angle_row_loaded(2) [OF assms] by blast
  have "select_tiles row 1 n = Some (map (\<lambda>i. i + 1)
      (filter (\<lambda>j. (if pixels_of l j > 0 then 1 else 0 :: int) = 1) [0..n - 1]))"
    by (rule select_tiles_eq) (use row(2) in simp)
  then show ?thesis
    using row(1) assms(2) by (simp add: get_visible_tile_def visible_tiles_def loaded_def if_distrib cong: if_cong)
qed

text \<open>
  Loading a file of visible pixels, one line per viewing angle, makes the tables answer every
  angle of the file with its last line: the visible tiles of the angle are the tiles with a positive
  number of pixels, numbered from 1, and a negative longitude means the angle 360 degrees further.
\<close>

theorem visible_tiles_of_file:
  assumes "angle_file n lines" "line_at lines (turned pos) = Some l"
  shows "\<exists>vm row. load_vmask lines n = Some vm \<and>
    get_visible_tile vm pos = Some (visible_tiles n l) \<and>
    get_pixel vm pos = Some row \<and> (\<forall>j. 0 \<le> j \<and> j < n \<longrightarrow> row j = Some (pixels_of l j))"
proof -
  obtain vm where vm: "load_vmask lines n = Some vm" "loaded n lines vm"
    using load_vmask_loaded [OF assms(1)] by blast
  with get_visible_tile_loaded [OF assms(1) vm(2) assms(2)] angle_row_loaded(1) [OF assms(1) vm(2) assms(2)]
  show ?thesis by blast
qed

definition demo_angles :: "rat list list" where
  "demo_angles = [[0, 0] @ [40, 0, 0, 30] @ replicate 20 0, [350, - 10] @ replicate 23 0 @ [7]]"

lemma demo_angle_file: "angle_file 24 demo_angles"
  by (simp add: angle_file_def rectangular_def demo_angles_def in_angles_def angle_of_def numeral_eq_Suc)

theorem visible_tiles_of_file_witness:
  "\<exists>vm row. load_vmask demo_angles 24 = Some vm \<and>
     get_visible_tile vm (- 10, - 10) = Some (visible_tiles 24 (demo_angles ! 1)) \<and>
     get_pixel vm (- 10, - 10) = Some row \<and> (\<forall>j. 0 \<le> j \<and> j < 24 \<longrightarrow> row j = Some (pixels_of (demo_angles ! 1) j))"
  by (rule visible_tiles_of_file [OF demo_angle_file])
    (simp add: line_at_def demo_angles_def turned_def angle_of_def)

section \<open>Tiles around the viewport\<close>

lemma label_2:
  assumes "ring_labelled adjf V k ext" "1 \<le> k" "t < length ext"
  shows "ext ! t = 2 \<longleftrightarrow> int t \<in> rings adjf 1 V \<and> int t \<notin> V"
proof -
  from assms(1,3) have "(ext ! t = 0 \<and> int t \<notin> rings adjf k V) \<or>
      (\<exists>j \<le> k. ext ! t = int j + 1 \<and> int t \<in> rings adjf j V \<and> (\<forall>i < j. int t \<notin> rings adjf i V))"
    by (simp add: ring_labelled_def)
  then show ?thesis
  proof (elim disjE exE conjE)
    assume "ext ! t = 0" "int t \<notin> rings adjf k V"
    then show ?thesis using within_mono [OF assms(2), of adjf V] by auto
  next
    fix j
    assume j: "j \<le> k" "ext ! t = int j + 1" "int t \<in> rings adjf j V" "\<forall>i < j. int t \<notin> rings adjf i V"
    consider "j = 0" | "j = 1" | "1 < j" by linarith
    then show ?thesis using j by cases auto
  qed
qed

text \<open>The invisible tiles next to a visible one, on the cube of two by two tiles per face.\<close>

definition next_to_visible :: "rat list \<Rightarrow> int \<Rightarrow> bool" where
  "next_to_visible l t \<longleftrightarrow> pixels_of l t \<le> 0 \<and>
     (\<exists>u \<in> set [0..23]. pixels_of l u > 0 \<and> t \<in> set (the (getAdjacentTile 6 2 2 u)))"

lemma get_adjacent_tile_loaded:
  assumes "angle_file 24 lines" "loaded 24 lines vm" "line_at lines (turned pos) = Some l" "1 \<le> w"
  shows "get_adjacent_tile vm pos w = Some (map (\<lambda>t. t + 1) (filter (next_to_visible l) [0..23]))"
proof -
  obtain row where row: "get_vmask vm pos = Some row"
    "\<forall>j. 0 \<le> j \<and> j < 24 \<longrightarrow> row j = Some (if pixels_of l j > 0 then 1 else 0)"
    using angle_row_loaded(2) [OF assms(1-3)] by blast
  let ?m = "map (\<lambda>j. if pixels_of l j > 0 then 1 else 0) [0..23] :: int list"
  let ?adj = "getAdjacentTile 6 2 2"
  have m: "those (map row [0..23]) = Some ?m"
    by (rule those_map_Some) (use row(2) in auto)
  have V: "visible ?m = {u. 0 \<le> u \<and> u < 24 \<and> pixels_of l u > 0}"
    by (auto simp: visible_def split: if_splits)
  have "length ?m = nat 24" "set ?m \<subseteq> {0, 1}" by auto
  from cube2.ext_rings [OF this, of "nat w"] assms(4) obtain ext where
    ext: "extVmask ?m 6 2 2 w = Some ext" "length ext = 24" "ring_labelled ?adj (visible ?m) (nat w) ext"
    by (auto simp: extVmask_def Let_def)
  have label: "ext ! nat t = 2 \<longleftrightarrow> next_to_visible l t" if t: "0 \<le> t" "t < 24" for t
  proof -
    have "ext ! nat t = 2 \<longleftrightarrow> t \<in> rings ?adj 1 (visible ?m) \<and> t \<notin> visible ?m"
      using label_2 [OF ext(3), of "nat t"] ext(2) t assms(4) by simp
    moreover have "(t \<in> (case ?adj u of None \<Rightarrow> {} | Some us \<Rightarrow> set us)) = (t \<in> set (the (?adj u)))"
      if "u \<in> visible ?m" for u
      using cube2.adj_total [of u] that V by auto
    ultimately show ?thesis using t V by (auto simp: next_to_visible_def not_less)
  qed
  have "select_tiles (aget ext) 2 24 = Some (map (\<lambda>i. i + 1) (filter (\<lambda>i. ext ! nat i = 2) [0..24 - 1]))"
    by (rule select_tiles_eq) (use ext(2) in \<open>simp add: aget_def\<close>)
  also have "filter (\<lambda>i. ext ! nat i = 2) [0..24 - 1] = filter (next_to_visible l) [0..23]"
    using label by (intro filter_cong) auto
  finally show ?thesis
    using row(1) m ext(1) assms(2) by (simp add: get_adjacent_tile_def loaded_def)
qed

text \<open>
  The tiles around the viewport do not depend on the extension width asked for: for any
  width from 1 on the client gets the invisible tiles that are neighbours of a visible one. Widths 2
  and 3, which the algorithms ask for when the viewport error is larger, widen nothing.
\<close>

theorem adjacent_tiles_any_width:
  assumes "angle_file 24 lines" "line_at lines (turned pos) = Some l"
  shows "\<exists>vm. load_vmask lines 24 = Some vm \<and>
    (\<forall>w \<ge> 1. get_adjacent_tile vm pos w = Some (map (\<lambda>t. t + 1) (filter (next_to_visible l) [0..23])))"
  using load_vmask_loaded [OF assms(1)] get_adjacent_tile_loaded [OF assms(1) _ assms(2)] by blast

theorem adjacent_tiles_any_width_witness:
  "\<exists>vm. load_vmask demo_angles 24 = Some vm \<and> get_adjacent_tile vm (- 10, - 10) 1 = get_adjacent_tile vm (- 10, - 10) 3"
proof -
  have "line_at demo_angles (turned (- 10, - 10)) = Some (demo_angles ! 1)"
    by (simp add: line_at_def demo_angles_def turned_def angle_of_def)
  from adjacent_tiles_any_width [OF demo_angle_file this] show ?thesis by auto
qed

section \<open>The head trace\<close>

text \<open>A head trace has two columns and, after its first line, a line for each frame.\<close>

definition trace_file :: "int \<Rightarrow> rat list list \<Rightarrow> bool" where
  "trace_file NO_FRAME lines \<longleftrightarrow> 0 \<le> NO_FRAME \<and> rectangular 2 lines \<and> NO_FRAME < int (length lines)"

definition frame_line :: "rat list list \<Rightarrow> int \<Rightarrow> int \<times> int" where
  "frame_line lines i = (trunc (lines ! nat (i + 1) ! 0), trunc (lines ! nat (i + 1) ! 1))"

lemma load_headtrace_frames:
  assumes "trace_file NO_FRAME lines"
  shows "\<exists>ht. load_headtrace lines NO_FRAME FPS = Some ht \<and> ht_NO_FRAME ht = NO_FRAME \<and> ht_FPS ht = FPS \<and>
    (\<forall>i. 0 \<le> i \<and> i < NO_FRAME \<longrightarrow> get_vp_pos_byFrameId ht i = Some (frame_line lines i))"
proof -
  have rect: "rectangular 2 lines" using assms by (simp add: trace_file_def)
  let ?I = "\<lambda>is (ht :: Headtrace). ht_NO_FRAME ht = NO_FRAME \<and> ht_FPS ht = FPS \<and>
    (\<forall>i \<in> set is. ht_vp_pos ht (i, 0) = Some (fst (frame_line lines i)) \<and>
       ht_vp_pos ht (i, 1) = Some (snd (frame_line lines i)))"
  let ?ini = "\<lparr>ht_vp_pos = Map.empty, ht_NO_FRAME = NO_FRAME, ht_FPS = FPS\<rparr>"
  have "\<exists>ht. for_each (\<lambda>i. for_each (load_frame_cell (concat lines) 2 i) [0..2 - 1]) [0..NO_FRAME - 1] ?ini = Some ht
      \<and> ?I [0..NO_FRAME - 1] ht"
  proof (rule for_each_rule)
    show "?I [] ?ini" by simp
    fix ks i rest and ht :: Headtrace
    assume s: "[0..NO_FRAME - 1] = ks @ i # rest" "?I ks ht"
    then have "i \<in> set [0..NO_FRAME - 1]" by (metis in_set_conv_decomp)
    then have i: "0 \<le> i" "i < NO_FRAME" by auto
    have "aget (concat lines) ((i + 1) * 2) = Some (lines ! nat (i + 1) ! 0)"
      "aget (concat lines) ((i + 1) * 2 + 1) = Some (lines ! nat (i + 1) ! 1)"
      using matrix_cell [OF rect, of "i + 1" 0] matrix_cell [OF rect, of "i + 1" 1] i assms
      by (simp_all add: trace_file_def)
    then have "for_each (load_frame_cell (concat lines) 2 i) [0..2 - 1] ht = Some (ht\<lparr>ht_vp_pos :=
        (ht_vp_pos ht)((i, 0) \<mapsto> fst (frame_line lines i), (i, 1) \<mapsto> snd (frame_line lines i))\<rparr>)"
      by (simp add: load_frame_cell_def frame_line_def upto.simps)
    with s(2) show "\<exists>ht'. for_each (load_frame_cell (concat lines) 2 i) [0..2 - 1] ht = Some ht' \<and> ?I (ks @ [i]) ht'"
      by auto
  qed
  then show ?thesis
    by (auto simp: load_headtrace_def import_matrix_rectangular [OF rect] get_vp_pos_byFrameId_def)
qed

lemma frame_of_time:
  fixes t :: rat
  assumes "0 \<le> t" "0 < FPS"
  shows "trunc (t / (1000 / of_int FPS)) = \<lfloor>t * of_int FPS / 1000\<rfloor>" "0 \<le> trunc (t / (1000 / of_int FPS))"
  using assms by (simp_all add: trunc_def)

text \<open>
  The head trace answers a play time in milliseconds with the line of the frame shown then, after
  the first line of the file, and is read out of bounds exactly from the end of the last frame on.
\<close>

theorem head_position_at:
  assumes "trace_file NO_FRAME lines" "0 < FPS" "0 \<le> t"
  shows "\<exists>ht. load_headtrace lines NO_FRAME FPS = Some ht \<and>
    get_vp_pos ht t = (if t < of_int NO_FRAME * 1000 / of_int FPS
      then Some (frame_line lines \<lfloor>t * of_int FPS / 1000\<rfloor>) else None)"
proof -
  obtain ht where ht: "load_headtrace lines NO_FRAME FPS = Some ht" "ht_NO_FRAME ht = NO_FRAME" "ht_FPS ht = FPS"
    "\<forall>i. 0 \<le> i \<and> i < NO_FRAME \<longrightarrow> get_vp_pos_byFrameId ht i = Some (frame_line lines i)"
    using load_headtrace_frames [OF assms(1)] by blast
  have "t < of_int NO_FRAME * 1000 / of_int FPS \<longleftrightarrow> t * of_int FPS / 1000 < of_int NO_FRAME"
    using assms(2) by (simp add: field_simps)
  also have "\<dots> \<longleftrightarrow> \<lfloor>t * of_int FPS / 1000\<rfloor> < NO_FRAME" by (simp add: floor_less_iff)
  finally have "t < of_int NO_FRAME * 1000 / of_int FPS \<longleftrightarrow> \<lfloor>t * of_int FPS / 1000\<rfloor> < NO_FRAME" .
  moreover have "0 \<le> \<lfloor>t * of_int FPS / 1000\<rfloor>" using assms by simp
  ultimately show ?thesis
    using ht frame_of_time [OF assms(3,2)] by (auto simp: get_vp_pos_def get_vp_pos_byFrameId_def)
qed

theorem head_position_at_witness:
  "\<exists>ht. load_headtrace [[0, 0], [5, 10], [6, - 20]] 2 30 = Some ht \<and> get_vp_pos ht 40 = Some (6, - 20)"
proof -
  have floor_eq: "\<lfloor>6 / 5 :: rat\<rfloor> = 1" by (simp add: floor_eq_iff)
  have "trace_file 2 [[0, 0], [5, 10], [6, - 20]]" by (simp add: trace_file_def rectangular_def)
  from head_position_at [OF this, of 30 40] show ?thesis by (simp add: frame_line_def floor_eq)
qed

end
