(* ===== verification/Segment_Quality.thy ===== *)
theory Segment_Quality
  imports Visible_Tiles
begin

text \<open>
  The quality the player reports for a segment it has played (\<^verbatim>\<open>Player::calc_metric\<close>,
  \<^verbatim>\<open>calc_vp_diff\<close>, \<^verbatim>\<open>calc_vp_diff_tile\<close> of \<^verbatim>\<open>duc_metric.h\<close>): quality and bitrate of the visible
  tiles, averaged over the frames of the segment, and the error of the viewport prediction, which
  steers the adaptation algorithms.

  While the loop over the frames runs, the cells of the segment in the seven arrays per segment are
  the record \<open>SegSums\<close>; they are stored at the end. The five arrays per frame, which have the same
  length, are one array of records. The constructor initialises all arrays that are read except
  \<open>seg_vp_err_tile\<close>, whose first content is arbitrary and an argument of \<open>quality_init\<close>.
  A division by the number of visible tiles when there is none gives no number in the code and
  \<open>None\<close> here. The console output is left out.
\<close>

section \<open>The code\<close>

definition FPS :: int where "FPS = 30"
definition VP_SIZE :: int where "VP_SIZE = 960 * 960"
definition TILE_SIZE :: int where "TILE_SIZE = 480 * 480"

text \<open>The bitrate of a tile up to each layer, as the constructor of \<^verbatim>\<open>Player\<close> fills \<^verbatim>\<open>tile_br\<close>.\<close>

definition tile_bitrates :: "int \<Rightarrow> int \<Rightarrow> int \<Rightarrow> int list \<Rightarrow> int list option" where
  "tile_bitrates base_layer_br NO_TILE EL_VER_NUM enha_layer_br =
     (if NO_TILE = 0 \<or> EL_VER_NUM < 0 then None else
      for_each (\<lambda>i tile_br. do {
        prev \<leftarrow> aget tile_br (i - 1);
        e \<leftarrow> aget enha_layer_br (i - 1);
        Some (tile_br @ [prev + e])
      }) [1..EL_VER_NUM] [base_layer_br sdiv NO_TILE])"

text \<open>\<^verbatim>\<open>std::set_difference\<close> on two sorted ranges.\<close>

fun set_difference :: "int list \<Rightarrow> int list \<Rightarrow> int list" where
  "set_difference [] ys = []"
| "set_difference xs [] = xs"
| "set_difference (x # xs) (y # ys) =
     (if x < y then x # set_difference xs (y # ys)
      else if y < x then set_difference (x # xs) ys
      else set_difference xs ys)"

text \<open>The tiles visible from \<open>realVP\<close> and not from \<open>estVP\<close>.\<close>

definition diff_tiles :: "VisibleMask \<Rightarrow> int \<times> int \<Rightarrow> int \<times> int \<Rightarrow> int \<Rightarrow> int list option" where
  "diff_tiles vm realVP estVP NO_TILE = do {
     vmask_real \<leftarrow> get_visible_tile vm realVP;
     vmask_est \<leftarrow> get_visible_tile vm estVP;
     push_cells (nat NO_TILE) (set_difference (sort vmask_real) (sort vmask_est)) []
   }"

definition calc_vp_diff :: "VisibleMask \<Rightarrow> int \<times> int \<Rightarrow> (int \<times> int) option \<Rightarrow> int \<Rightarrow> int option" where
  "calc_vp_diff vm realVP estVP NO_TILE =
     (case estVP of None \<Rightarrow> Some (- 1) | Some est \<Rightarrow> do {
        pixelRealVP \<leftarrow> get_pixel vm realVP;
        pixelEstVP \<leftarrow> get_pixel vm est;
        diff_tile \<leftarrow> diff_tiles vm realVP est NO_TILE;
        for_each (\<lambda>it diff_pixel_num. do {
          px \<leftarrow> pixelRealVP (it - 1);
          Some (diff_pixel_num + px)
        }) diff_tile 0
      })"

definition calc_vp_diff_tile :: "VisibleMask \<Rightarrow> int \<times> int \<Rightarrow> (int \<times> int) option \<Rightarrow> int \<Rightarrow> int option" where
  "calc_vp_diff_tile vm realVP estVP NO_TILE =
     (case estVP of None \<Rightarrow> Some (- 1) | Some est \<Rightarrow> do {
        pixelRealVP \<leftarrow> get_pixel vm realVP;
        pixelEstVP \<leftarrow> get_pixel vm est;
        diff_tile \<leftarrow> diff_tiles vm realVP est NO_TILE;
        Some (int (length diff_tile))
      })"

record SegSums =
  avg_qual :: rat
  avg_qual_w :: rat
  avg_bitrate :: rat
  avg_bitrate_w :: rat
  std_bitrate :: real
  vp_err :: rat
  vp_err_tile :: rat

record FrameQuality =
  fr_viewport_bitrate :: rat
  fr_vp_pos :: "int \<times> int"
  fr_vtile_num :: int
  fr_vp_err :: rat
  fr_vp_err_tile :: int

record Quality =
  q_avg_qual :: "rat option list"
  q_avg_qual_w :: "rat option list"
  q_avg_bitrate :: "rat option list"
  q_avg_bitrate_w :: "rat option list"
  q_std_bitrate :: "real option list"
  q_vp_err :: "rat list"
  q_vp_err_tile :: "rat list"
  q_smooth_vp_err :: "rat list"
  q_smooth_vp_err_adapt :: "rat list"
  q_est_vp :: "(int \<times> int) list"
  q_frames :: "FrameQuality option list"

definition quality_init :: "int \<Rightarrow> rat list \<Rightarrow> Quality" where
  "quality_init NO_SEG memory =
     (let n = nat NO_SEG in
      \<lparr>q_avg_qual = replicate n None, q_avg_qual_w = replicate n None, q_avg_bitrate = replicate n None,
       q_avg_bitrate_w = replicate n None, q_std_bitrate = replicate n None, q_vp_err = replicate n 0,
       q_vp_err_tile = memory, q_smooth_vp_err = replicate n 0, q_smooth_vp_err_adapt = replicate n 0,
       q_est_vp = replicate n (0, 0), q_frames = replicate (nat (NO_SEG * FPS)) None\<rparr>)"

text \<open>What the player has for its metrics: the mask, the trace, the tiles and their bitrates.\<close>

record Video =
  vid_vmask :: VisibleMask
  vid_htrace :: Headtrace
  vid_NO_TILE :: int
  vid_tile_br :: "int list"

text \<open>The first loop over the tiles; \<open>n\<close> is \<^verbatim>\<open>visiMask.size()\<close>. Version and bitrate of a tile are read as needed.\<close>

definition tile_rate :: "Video \<Rightarrow> int option list \<Rightarrow> int \<Rightarrow> (int \<times> int) option" where
  "tile_rate e tile_ver tileId = do {
     cell \<leftarrow> aget tile_ver tileId;
     v \<leftarrow> cell;
     br \<leftarrow> aget (vid_tile_br e) v;
     Some (v, br)
   }"

definition metric_tile ::
  "Video \<Rightarrow> int option list \<Rightarrow> (int \<Rightarrow> int option) \<Rightarrow> int \<Rightarrow> int \<Rightarrow> SegSums \<times> rat \<times> rat \<Rightarrow> (SegSums \<times> rat \<times> rat) option" where
  "metric_tile e tile_ver pixel n tileId = (\<lambda>(q, seg_avg_tmp, frame_br). do {
     px \<leftarrow> pixel tileId;
     (v, br) \<leftarrow> tile_rate e tile_ver tileId;
     (q, seg_avg_tmp) \<leftarrow>
       (if px > 0
        then if n = 0 then None
          else Some (q\<lparr>avg_qual := avg_qual q + of_int (v + 1) / of_int n,
                 avg_bitrate := avg_bitrate q + of_int br / of_int n\<rparr>, seg_avg_tmp + of_int br / of_int n)
        else Some (q, seg_avg_tmp));
     Some (q\<lparr>avg_qual_w := avg_qual_w q + of_int ((v + 1) * px),
       avg_bitrate_w := avg_bitrate_w q + of_int (br * px)\<rparr>, seg_avg_tmp,
       frame_br + of_int (br * px) / of_int TILE_SIZE)
   })"

definition deviation_tile ::
  "Video \<Rightarrow> int option list \<Rightarrow> (int \<Rightarrow> int option) \<Rightarrow> rat \<Rightarrow> int \<Rightarrow> rat \<Rightarrow> rat option" where
  "deviation_tile e tile_ver pixel seg_avg_tmp tileId seg_std_tmp = do {
     px \<leftarrow> pixel tileId;
     if px > 0 then do {
       (v, br) \<leftarrow> tile_rate e tile_ver tileId;
       Some (seg_std_tmp + (of_int br - seg_avg_tmp) * (of_int br - seg_avg_tmp))
     } else Some seg_std_tmp
   }"

definition metric_frame ::
  "Video \<Rightarrow> int option list \<Rightarrow> int \<times> int \<Rightarrow> int \<Rightarrow> SegSums \<times> FrameQuality option list
    \<Rightarrow> (SegSums \<times> FrameQuality option list) option" where
  "metric_frame e tile_ver est frameId = (\<lambda>(q, frames). do {
     vpPos \<leftarrow> get_vp_pos_byFrameId (vid_htrace e) frameId;
     visiMask \<leftarrow> get_visible_tile (vid_vmask e) vpPos;
     pixel \<leftarrow> get_pixel (vid_vmask e) vpPos;
     d \<leftarrow> calc_vp_diff (vid_vmask e) vpPos (Some est) (vid_NO_TILE e);
     dt \<leftarrow> calc_vp_diff_tile (vid_vmask e) vpPos (Some est) (vid_NO_TILE e);
     let n = int (length visiMask);
     let err = of_int d / of_int VP_SIZE * 100;
     let q = q\<lparr>vp_err := vp_err q + err / of_int FPS, vp_err_tile := vp_err_tile q + of_int dt / of_int FPS\<rparr>;
     (q, seg_avg_tmp, frame_br) \<leftarrow> for_each (metric_tile e tile_ver pixel n) [0..vid_NO_TILE e - 1] (q, 0, 0);
     seg_std_tmp \<leftarrow> for_each (deviation_tile e tile_ver pixel seg_avg_tmp) [0..vid_NO_TILE e - 1] 0;
     frames \<leftarrow> aset frames frameId (Some \<lparr>fr_viewport_bitrate = frame_br, fr_vp_pos = vpPos,
       fr_vtile_num = n, fr_vp_err = err, fr_vp_err_tile = dt\<rparr>);
     if n = 0 then None
     else Some (q\<lparr>std_bitrate := std_bitrate q + sqrt (of_rat (seg_std_tmp / of_int n))\<rparr>, frames)
   })"

definition per_frame :: "SegSums \<Rightarrow> SegSums" where
  "per_frame q = q\<lparr>std_bitrate := std_bitrate q / of_int FPS, avg_qual := avg_qual q / of_int FPS,
     avg_bitrate := avg_bitrate q / of_int FPS, avg_qual_w := avg_qual_w q / of_int (FPS * TILE_SIZE),
     avg_bitrate_w := avg_bitrate_w q / of_int (FPS * TILE_SIZE)\<rparr>"

definition store_segment :: "int \<Rightarrow> SegSums \<Rightarrow> FrameQuality option list \<Rightarrow> Quality \<Rightarrow> Quality option" where
  "store_segment seg s frames q = do {
     a \<leftarrow> aset (q_avg_qual q) seg (Some (avg_qual s));
     aw \<leftarrow> aset (q_avg_qual_w q) seg (Some (avg_qual_w s));
     b \<leftarrow> aset (q_avg_bitrate q) seg (Some (avg_bitrate s));
     bw \<leftarrow> aset (q_avg_bitrate_w q) seg (Some (avg_bitrate_w s));
     sd \<leftarrow> aset (q_std_bitrate q) seg (Some (std_bitrate s));
     ve \<leftarrow> aset (q_vp_err q) seg (vp_err s);
     vt \<leftarrow> aset (q_vp_err_tile q) seg (vp_err_tile s);
     Some (q\<lparr>q_avg_qual := a, q_avg_qual_w := aw, q_avg_bitrate := b, q_avg_bitrate_w := bw,
       q_std_bitrate := sd, q_vp_err := ve, q_vp_err_tile := vt, q_frames := frames\<rparr>)
   }"

text \<open>The two smoothed errors; in the second one the weight depends on the last rise of the error.\<close>

definition smooth_value :: "rat list \<Rightarrow> rat list \<Rightarrow> rat \<Rightarrow> int \<Rightarrow> rat option" where
  "smooth_value errs smooth a seg =
     (if seg = 0 then Some 0
      else if seg < 6 then aget errs (seg - 1)
      else do {
        s \<leftarrow> aget smooth (seg - 1);
        e \<leftarrow> aget errs seg;
        Some (a * s + (1 - a) * e)
      })"

definition adapt_weight :: "rat list \<Rightarrow> int \<Rightarrow> rat option" where
  "adapt_weight errs seg =
     (if seg < 6 then Some (8 / 10) else do {
        e1 \<leftarrow> aget errs (seg - 1);
        e2 \<leftarrow> aget errs (seg - 2);
        Some (if e1 - e2 > 30 then 2 / 10 else 8 / 10)
      })"

definition smooth_errors :: "int \<Rightarrow> Quality \<Rightarrow> Quality option" where
  "smooth_errors seg q = do {
     s \<leftarrow> smooth_value (q_vp_err q) (q_smooth_vp_err q) (8 / 10) seg;
     sm \<leftarrow> aset (q_smooth_vp_err q) seg s;
     w \<leftarrow> adapt_weight (q_vp_err q) seg;
     a \<leftarrow> smooth_value (q_vp_err q) (q_smooth_vp_err_adapt q) w seg;
     ad \<leftarrow> aset (q_smooth_vp_err_adapt q) seg a;
     Some (q\<lparr>q_smooth_vp_err := sm, q_smooth_vp_err_adapt := ad\<rparr>)
   }"

definition calc_metric :: "Video \<Rightarrow> int option list \<Rightarrow> int \<Rightarrow> Quality \<Rightarrow> Quality option" where
  "calc_metric e tile_ver seg q = do {
     est \<leftarrow> aget (q_est_vp q) seg;
     vt \<leftarrow> aget (q_vp_err_tile q) seg;
     (s, frames) \<leftarrow> for_each (metric_frame e tile_ver est) [seg * FPS..(seg + 1) * FPS - 1]
       (\<lparr>avg_qual = 0, avg_qual_w = 0, avg_bitrate = 0, avg_bitrate_w = 0, std_bitrate = 0, vp_err = 0,
         vp_err_tile = vt\<rparr>, q_frames q);
     q \<leftarrow> store_segment seg (per_frame s) frames q;
     smooth_errors seg q
   }"

section \<open>The prediction error\<close>

lemma set_difference_filter:
  "sorted_wrt (<) xs \<Longrightarrow> sorted_wrt (<) ys \<Longrightarrow> set_difference xs ys = filter (\<lambda>x. x \<notin> set ys) xs"
proof (induction xs ys rule: set_difference.induct)
  case (3 x xs y ys)
  consider "x < y" | "y < x" | "x = y" by linarith
  then show ?case
  proof cases
    case 1
    then have "x \<notin> set (y # ys)" using 3(5) by auto
    with 1 3 show ?thesis by simp
  next
    case 2
    then have "filter (\<lambda>a. a \<notin> set (y # ys)) (x # xs) = filter (\<lambda>a. a \<notin> set ys) (x # xs)"
      using 3(4) by (intro filter_cong) auto
    with 2 3 show ?thesis by simp
  next
    case 3
    then have "filter (\<lambda>a. a \<notin> set (y # ys)) (x # xs) = filter (\<lambda>a. a \<notin> set ys) xs"
      using "3.prems"(1) by (auto intro!: filter_cong)
    moreover have "filter (\<lambda>a. a \<notin> set ys) xs = filter (\<lambda>a. a \<notin> set (y # ys)) xs"
      using "3.prems"(1) 3 by (intro filter_cong) auto
    ultimately show ?thesis
      using 3 "3.IH"(3) "3.prems" by simp
  qed
qed simp_all

text \<open>The tiles the viewer sees and the prediction missed.\<close>

definition missed :: "int \<Rightarrow> rat list \<Rightarrow> rat list \<Rightarrow> int list" where
  "missed n l est = filter (\<lambda>t. t \<notin> set (visible_tiles n est)) (visible_tiles n l)"

definition view :: "VisibleMask \<Rightarrow> int \<Rightarrow> rat list list \<Rightarrow> int \<times> int \<Rightarrow> rat list \<Rightarrow> bool" where
  "view vm n lines pos l \<longleftrightarrow> angle_file n lines \<and> loaded n lines vm \<and> line_at lines (turned pos) = Some l"

lemma view_visible: "view vm n lines pos l \<Longrightarrow> get_visible_tile vm pos = Some (visible_tiles n l)"
  unfolding view_def by (blast intro: get_visible_tile_loaded)

lemma view_pixel:
  "view vm n lines pos l \<Longrightarrow>
    \<exists>row. get_pixel vm pos = Some row \<and> (\<forall>j. 0 \<le> j \<and> j < n \<longrightarrow> row j = Some (pixels_of l j))"
  unfolding view_def by (blast intro: angle_row_loaded(1))

lemma diff_tiles_missed:
  assumes "view vm n lines pos l" "view vm n lines pos' l'"
  shows "diff_tiles vm pos pos' n = Some (missed n l l')"
proof -
  have s: "sort (visible_tiles n k) = visible_tiles n k" for k
    using visible_tiles_sorted [of n k] by (simp add: sorted_sort_id strict_sorted_iff)
  have "length (missed n l l') \<le> length [0..n - 1]"
    unfolding missed_def visible_tiles_def by (simp add: le_trans [OF length_filter_le])
  moreover have "set_difference (visible_tiles n l) (visible_tiles n l') = missed n l l'"
    by (simp add: set_difference_filter visible_tiles_sorted missed_def)
  ultimately show ?thesis
    by (simp add: diff_tiles_def view_visible [OF assms(1)] view_visible [OF assms(2)] s push_cells_eq)
qed

lemma for_each_sum:
  fixes g :: "'x \<Rightarrow> 'n :: comm_monoid_add"
  assumes "\<And>x. x \<in> set xs \<Longrightarrow> f x = Some (g x)"
  shows "for_each (\<lambda>x n. do { y \<leftarrow> f x; Some (n + y) }) xs a = Some (a + sum_list (map g xs))"
  using assms by (induction xs arbitrary: a) (simp_all add: add.assoc)

lemma calc_vp_diff_view:
  assumes "view vm n lines pos l" "view vm n lines pos' l'"
  shows "calc_vp_diff vm pos (Some pos') n = Some (\<Sum>t \<leftarrow> missed n l l'. pixels_of l (t - 1))"
    and "calc_vp_diff_tile vm pos (Some pos') n = Some (int (length (missed n l l')))"
proof -
  obtain row row' where row: "get_pixel vm pos = Some row" "\<forall>j. 0 \<le> j \<and> j < n \<longrightarrow> row j = Some (pixels_of l j)"
    "get_pixel vm pos' = Some row'"
    using view_pixel [OF assms(1)] view_pixel [OF assms(2)] by blast
  have px: "row (t - 1) = Some (pixels_of l (t - 1))" if "t \<in> set (missed n l l')" for t
    using that row(2) by (auto simp: missed_def visible_tiles_range)
  show "calc_vp_diff vm pos (Some pos') n = Some (\<Sum>t \<leftarrow> missed n l l'. pixels_of l (t - 1))"
    using for_each_sum [of "missed n l l'" "\<lambda>t. row (t - 1)" "\<lambda>t. pixels_of l (t - 1)" 0] px row
    by (simp add: calc_vp_diff_def diff_tiles_missed [OF assms])
  show "calc_vp_diff_tile vm pos (Some pos') n = Some (int (length (missed n l l')))"
    using row by (simp add: calc_vp_diff_tile_def diff_tiles_missed [OF assms])
qed

text \<open>
  The error of a prediction is the number of pixels the viewer sees in tiles that the predicted
  position does not show. It is never negative, at most all the pixels seen, and 0 exactly when
  every tile the viewer sees was predicted.
\<close>

theorem prediction_error:
  assumes "angle_file n lines" "line_at lines (turned pos) = Some l" "line_at lines (turned pos') = Some l'"
  shows "\<exists>vm d. load_vmask lines n = Some vm \<and> calc_vp_diff vm pos (Some pos') n = Some d \<and>
    d = (\<Sum>t \<leftarrow> missed n l l'. pixels_of l (t - 1)) \<and>
    0 \<le> d \<and> d \<le> (\<Sum>t \<leftarrow> visible_tiles n l. pixels_of l (t - 1)) \<and>
    (d = 0 \<longleftrightarrow> set (visible_tiles n l) \<subseteq> set (visible_tiles n l'))"
proof -
  obtain vm where vm: "load_vmask lines n = Some vm" "loaded n lines vm"
    using load_vmask_loaded [OF assms(1)] by blast
  let ?px = "\<lambda>t. pixels_of l (t - 1)"
  let ?d = "\<Sum>t \<leftarrow> missed n l l'. ?px t"
  have pos: "0 < ?px t" if "t \<in> set (visible_tiles n l)" for t
    using that by (simp add: visible_tiles_range)
  have sums: "ts \<noteq> [] \<Longrightarrow> 0 < sum_list (map ?px ts)" if "\<forall>t \<in> set ts. 0 < ?px t" for ts
    using that
  proof (induction ts)
    case (Cons t ts)
    then show ?case by (cases ts) (auto simp: add_pos_pos)
  qed simp
  have "\<forall>t \<in> set (missed n l l'). 0 < ?px t" using pos by (auto simp: missed_def)
  with sums [of "missed n l l'"] have "?d = 0 \<longleftrightarrow> missed n l l' = []"
    by (cases "missed n l l' = []") auto
  moreover have "missed n l l' = [] \<longleftrightarrow> set (visible_tiles n l) \<subseteq> set (visible_tiles n l')"
    by (auto simp: missed_def filter_empty_conv)
  moreover have "0 \<le> ?d" by (rule sum_list_nonneg) (use pos in \<open>force simp: missed_def\<close>)
  moreover have "?d \<le> (\<Sum>t \<leftarrow> visible_tiles n l. ?px t)"
  proof -
    have "sum_list (map ?px (filter P ts)) \<le> sum_list (map ?px ts)" if "\<forall>t \<in> set ts. 0 < ?px t" for P ts
      using that by (induction ts) auto
    then show ?thesis using pos by (simp add: missed_def)
  qed
  moreover have "calc_vp_diff vm pos (Some pos') n = Some ?d"
    by (rule calc_vp_diff_view) (use assms vm in \<open>simp_all add: view_def\<close>)
  ultimately show ?thesis using vm by blast
qed

theorem prediction_error_witness:
  "\<exists>vm d. load_vmask demo_angles 24 = Some vm \<and> calc_vp_diff vm (0, 0) (Some (- 10, - 10)) 24 = Some d \<and> 0 < d"
proof -
  have l: "line_at demo_angles (turned (0, 0)) = Some (demo_angles ! 0)"
    "line_at demo_angles (turned (- 10, - 10)) = Some (demo_angles ! 1)"
    by (simp_all add: line_at_def demo_angles_def turned_def angle_of_def)
  have "1 \<in> set (visible_tiles 24 (demo_angles ! 0))" "1 \<notin> set (visible_tiles 24 (demo_angles ! 1))"
    by (simp_all add: visible_tiles_range pixels_of_def demo_angles_def nth_append)
  then have "\<not> set (visible_tiles 24 (demo_angles ! 0)) \<subseteq> set (visible_tiles 24 (demo_angles ! 1))" by blast
  with prediction_error [OF demo_angle_file l] show ?thesis by (metis less_le)
qed

section \<open>The quality of a segment\<close>

text \<open>Means over the tiles a line shows, and the deviation from it.\<close>

definition tile_mean :: "int \<Rightarrow> rat list \<Rightarrow> (int \<Rightarrow> rat) \<Rightarrow> rat" where
  "tile_mean n l g = (\<Sum>t \<leftarrow> visible_tiles n l. g t) / of_nat (length (visible_tiles n l))"

definition tile_deviation :: "int \<Rightarrow> rat list \<Rightarrow> (int \<Rightarrow> rat) \<Rightarrow> real" where
  "tile_deviation n l g = sqrt (of_rat (tile_mean n l (\<lambda>t. (g t - tile_mean n l g)\<^sup>2)))"

lemma sum_list_divide:
  fixes g :: "'x \<Rightarrow> rat"
  shows "(\<Sum>x \<leftarrow> xs. g x / c) = (\<Sum>x \<leftarrow> xs. g x) / c"
  by (induction xs) (simp_all add: add_divide_distrib)

lemma sum_visible: "(\<Sum>t \<leftarrow> visible_tiles n l. g t) = (\<Sum>j \<leftarrow> filter (\<lambda>j. pixels_of l j > 0) [0..n - 1]. g (j + 1))"
  by (simp add: visible_tiles_def comp_def)

text \<open>The pictures the metric needs: every frame of the segment shows something known.\<close>

definition video_ok :: "Video \<Rightarrow> rat list list \<Rightarrow> bool" where
  "video_ok e lines \<longleftrightarrow> angle_file (vid_NO_TILE e) lines \<and> loaded (vid_NO_TILE e) lines (vid_vmask e)"

definition frame_shows :: "Video \<Rightarrow> rat list list \<Rightarrow> int \<Rightarrow> rat list \<Rightarrow> bool" where
  "frame_shows e lines f l \<longleftrightarrow> (\<exists>pos. get_vp_pos_byFrameId (vid_htrace e) f = Some pos \<and>
     line_at lines (turned pos) = Some l) \<and> visible_tiles (vid_NO_TILE e) l \<noteq> []"

definition versions_ok :: "Video \<Rightarrow> int list \<Rightarrow> bool" where
  "versions_ok e vs \<longleftrightarrow> int (length vs) = vid_NO_TILE e \<and> (\<forall>v \<in> set vs. 0 \<le> v \<and> v < int (length (vid_tile_br e)))"

definition version_of :: "int list \<Rightarrow> int \<Rightarrow> rat" where
  "version_of vs t = of_int (vs ! nat (t - 1) + 1)"

definition bitrate_of :: "Video \<Rightarrow> int list \<Rightarrow> int \<Rightarrow> rat" where
  "bitrate_of e vs t = of_int (vid_tile_br e ! nat (vs ! nat (t - 1)))"

lemma tile_rate_ok:
  assumes "versions_ok e vs" "0 \<le> j" "j < vid_NO_TILE e"
  shows "tile_rate e (map Some vs) j = Some (vs ! nat j, vid_tile_br e ! nat (vs ! nat j))"
proof -
  have "nat j < length vs" using assms by (simp add: versions_ok_def nat_less_iff)
  moreover from this have "0 \<le> vs ! nat j" "vs ! nat j < int (length (vid_tile_br e))"
    using assms(1) by (auto simp: versions_ok_def)
  ultimately show ?thesis using assms(2) by (simp add: tile_rate_def aget_def nat_less_iff)
qed

lemma metric_tiles:
  fixes q :: SegSums
  assumes v: "versions_ok e vs" and px: "\<forall>j. 0 \<le> j \<and> j < vid_NO_TILE e \<longrightarrow> pixel j = Some (pixels_of l j)"
    and "visible_tiles (vid_NO_TILE e) l \<noteq> []"
  shows "\<exists>q' a b. for_each (metric_tile e (map Some vs) pixel (int (length (visible_tiles (vid_NO_TILE e) l))))
      [0..vid_NO_TILE e - 1] (q, 0, 0) = Some (q', a, b) \<and>
    a = tile_mean (vid_NO_TILE e) l (bitrate_of e vs) \<and>
    avg_qual q' = avg_qual q + tile_mean (vid_NO_TILE e) l (version_of vs) \<and>
    avg_bitrate q' = avg_bitrate q + tile_mean (vid_NO_TILE e) l (bitrate_of e vs) \<and>
    std_bitrate q' = std_bitrate q \<and> vp_err q' = vp_err q \<and> vp_err_tile q' = vp_err_tile q"
proof -
  let ?n = "vid_NO_TILE e" and ?N = "length (visible_tiles (vid_NO_TILE e) l)"
  let ?S = "\<lambda>js g. \<Sum>j \<leftarrow> filter (\<lambda>j. pixels_of l j > 0) js. g (j + 1) / of_nat ?N"
  let ?I = "\<lambda>js (q' :: SegSums, a, b :: rat). a = ?S js (bitrate_of e vs) \<and>
    avg_qual q' = avg_qual q + ?S js (version_of vs) \<and> avg_bitrate q' = avg_bitrate q + ?S js (bitrate_of e vs) \<and>
    std_bitrate q' = std_bitrate q \<and> vp_err q' = vp_err q \<and> vp_err_tile q' = vp_err_tile q"
  have "\<exists>r. for_each (metric_tile e (map Some vs) pixel (int ?N)) [0..?n - 1] (q, 0, 0) = Some r \<and> ?I [0..?n - 1] r"
  proof (rule for_each_rule)
    show "?I [] (q, 0, 0)" by simp
    fix js j rest and r :: "SegSums \<times> rat \<times> rat"
    assume js: "[0..?n - 1] = js @ j # rest" "?I js r"
    then have "j \<in> set [0..?n - 1]" by (metis in_set_conv_decomp)
    then have j: "0 \<le> j" "j < ?n" by auto
    obtain q' a b where r: "r = (q', a, b)" by (cases r) auto
    show "\<exists>r'. metric_tile e (map Some vs) pixel (int ?N) j r = Some r' \<and> ?I (js @ [j]) r'"
      using js(2) px j tile_rate_ok [OF v j] assms(3)
      by (auto simp: r metric_tile_def version_of_def bitrate_of_def Let_def)
  qed
  moreover have "?S [0..?n - 1] g = tile_mean ?n l g" for g
    by (simp add: tile_mean_def sum_visible sum_list_divide)
  ultimately show ?thesis by auto
qed

lemma deviation_tiles:
  assumes v: "versions_ok e vs" and px: "\<forall>j. 0 \<le> j \<and> j < vid_NO_TILE e \<longrightarrow> pixel j = Some (pixels_of l j)"
  shows "for_each (deviation_tile e (map Some vs) pixel m) [0..vid_NO_TILE e - 1] 0 =
    Some (\<Sum>t \<leftarrow> visible_tiles (vid_NO_TILE e) l. (bitrate_of e vs t - m)\<^sup>2)"
proof -
  let ?n = "vid_NO_TILE e"
  have "for_each (deviation_tile e (map Some vs) pixel m) js a =
      Some (a + (\<Sum>j \<leftarrow> filter (\<lambda>j. pixels_of l j > 0) js. (bitrate_of e vs (j + 1) - m)\<^sup>2))"
    if "set js \<subseteq> {0..<?n}" for js a
    using that
  proof (induction js arbitrary: a)
    case (Cons j js)
    then have j: "0 \<le> j" "j < ?n" by auto
    with px tile_rate_ok [OF v j] have "deviation_tile e (map Some vs) pixel m j a =
        Some (a + (if pixels_of l j > 0 then (bitrate_of e vs (j + 1) - m)\<^sup>2 else 0))"
      by (simp add: deviation_tile_def bitrate_of_def power2_eq_square)
    with Cons show ?case by (simp add: add.assoc)
  qed simp
  from this [of "[0..?n - 1]" 0] show ?thesis by (simp add: sum_visible subset_iff)
qed

lemma frame_quality:
  fixes q :: SegSums
  assumes e: "video_ok e lines" "versions_ok e vs"
    and f: "get_vp_pos_byFrameId (vid_htrace e) f = Some pos" "line_at lines (turned pos) = Some l"
      "visible_tiles (vid_NO_TILE e) l \<noteq> []"
    and est: "line_at lines (turned est) = Some le" and "0 \<le> f" "f < int (length frames)"
  shows "\<exists>q' frames'. metric_frame e (map Some vs) est f (q, frames) = Some (q', frames') \<and>
    length frames' = length frames \<and>
    avg_qual q' = avg_qual q + tile_mean (vid_NO_TILE e) l (version_of vs) \<and>
    avg_bitrate q' = avg_bitrate q + tile_mean (vid_NO_TILE e) l (bitrate_of e vs) \<and>
    std_bitrate q' = std_bitrate q + tile_deviation (vid_NO_TILE e) l (bitrate_of e vs) \<and>
    vp_err q' = vp_err q + of_int (\<Sum>t \<leftarrow> missed (vid_NO_TILE e) l le. pixels_of l (t - 1)) / of_int VP_SIZE * 100 / of_int FPS \<and>
    vp_err_tile q' = vp_err_tile q + of_int (int (length (missed (vid_NO_TILE e) l le))) / of_int FPS"
proof -
  let ?n = "vid_NO_TILE e"
  let ?d = "\<Sum>t \<leftarrow> missed ?n l le. pixels_of l (t - 1)"
  let ?q = "q\<lparr>vp_err := vp_err q + of_int ?d / of_int VP_SIZE * 100 / of_int FPS,
    vp_err_tile := vp_err_tile q + of_int (int (length (missed ?n l le))) / of_int FPS\<rparr>"
  have view: "view (vid_vmask e) ?n lines pos l" "view (vid_vmask e) ?n lines est le"
    using e(1) f est by (simp_all add: video_ok_def view_def)
  obtain pixel where px: "get_pixel (vid_vmask e) pos = Some pixel"
    "\<forall>j. 0 \<le> j \<and> j < ?n \<longrightarrow> pixel j = Some (pixels_of l j)"
    using view_pixel [OF view(1)] by blast
  obtain q' a b where q': "for_each (metric_tile e (map Some vs) pixel (int (length (visible_tiles ?n l))))
      [0..?n - 1] (?q, 0, 0) = Some (q', a, b)"
    "a = tile_mean ?n l (bitrate_of e vs)"
    "avg_qual q' = avg_qual ?q + tile_mean ?n l (version_of vs)"
    "avg_bitrate q' = avg_bitrate ?q + tile_mean ?n l (bitrate_of e vs)"
    "std_bitrate q' = std_bitrate ?q" "vp_err q' = vp_err ?q" "vp_err_tile q' = vp_err_tile ?q"
    using metric_tiles [OF e(2) px(2) f(3), of ?q] by blast
  show ?thesis
    using f q' px(1) assms(7,8) view_visible [OF view(1)] deviation_tiles [OF e(2) px(2)]
    by (auto simp: metric_frame_def calc_vp_diff_view [OF view] Let_def aset_in tile_deviation_def
        tile_mean_def [of _ _ "\<lambda>t. (bitrate_of e vs t - tile_mean _ _ _)\<^sup>2"])
qed

text \<open>The arrays as the constructor allocates them.\<close>

definition quality_shape :: "int \<Rightarrow> Quality \<Rightarrow> bool" where
  "quality_shape N q \<longleftrightarrow> int (length (q_frames q)) = N * FPS \<and>
     (\<forall>n \<in> {length (q_avg_qual q), length (q_avg_qual_w q), length (q_avg_bitrate q), length (q_avg_bitrate_w q),
        length (q_std_bitrate q), length (q_vp_err q), length (q_vp_err_tile q), length (q_smooth_vp_err q),
        length (q_smooth_vp_err_adapt q), length (q_est_vp q)}. int n = N)"

definition frames_of :: "int \<Rightarrow> int list" where
  "frames_of seg = [seg * FPS..(seg + 1) * FPS - 1]"

text \<open>Means over the frames of a segment whose frame \<open>f\<close> shows the line \<open>pic f\<close>.\<close>

definition frame_mean :: "int \<Rightarrow> (int \<Rightarrow> rat) \<Rightarrow> rat" where
  "frame_mean seg g = (\<Sum>f \<leftarrow> frames_of seg. g f) / of_int FPS"

definition missed_pixels :: "int \<Rightarrow> rat list \<Rightarrow> rat list \<Rightarrow> rat" where
  "missed_pixels n l le = of_int (\<Sum>t \<leftarrow> missed n l le. pixels_of l (t - 1)) / of_int VP_SIZE * 100"

lemma segment_frames:
  fixes q :: SegSums
  assumes e: "video_ok e lines" "versions_ok e vs"
    and pics: "\<forall>f \<in> set fs. frame_shows e lines f (pic f) \<and> 0 \<le> f \<and> f < int (length frames)"
    and est: "line_at lines (turned est) = Some le"
  shows "\<exists>q' frames'. for_each (metric_frame e (map Some vs) est) fs (q, frames) = Some (q', frames') \<and>
    length frames' = length frames \<and>
    avg_qual q' = avg_qual q + (\<Sum>f \<leftarrow> fs. tile_mean (vid_NO_TILE e) (pic f) (version_of vs)) \<and>
    avg_bitrate q' = avg_bitrate q + (\<Sum>f \<leftarrow> fs. tile_mean (vid_NO_TILE e) (pic f) (bitrate_of e vs)) \<and>
    std_bitrate q' = std_bitrate q + (\<Sum>f \<leftarrow> fs. tile_deviation (vid_NO_TILE e) (pic f) (bitrate_of e vs)) \<and>
    vp_err q' = vp_err q + (\<Sum>f \<leftarrow> fs. missed_pixels (vid_NO_TILE e) (pic f) le) / of_int FPS \<and>
    vp_err_tile q' = vp_err_tile q + (\<Sum>f \<leftarrow> fs. of_nat (length (missed (vid_NO_TILE e) (pic f) le))) / of_int FPS"
  using pics
proof (induction fs arbitrary: q frames)
  case (Cons f fs)
  then obtain pos where "get_vp_pos_byFrameId (vid_htrace e) f = Some pos" "line_at lines (turned pos) = Some (pic f)"
    "visible_tiles (vid_NO_TILE e) (pic f) \<noteq> []" "0 \<le> f" "f < int (length frames)"
    by (auto simp: frame_shows_def)
  from frame_quality [OF e this(1-3) est this(4,5), of q] obtain q1 frames1 where
    1: "metric_frame e (map Some vs) est f (q, frames) = Some (q1, frames1)" "length frames1 = length frames"
    "avg_qual q1 = avg_qual q + tile_mean (vid_NO_TILE e) (pic f) (version_of vs)"
    "avg_bitrate q1 = avg_bitrate q + tile_mean (vid_NO_TILE e) (pic f) (bitrate_of e vs)"
    "std_bitrate q1 = std_bitrate q + tile_deviation (vid_NO_TILE e) (pic f) (bitrate_of e vs)"
    "vp_err q1 = vp_err q + missed_pixels (vid_NO_TILE e) (pic f) le / of_int FPS"
    "vp_err_tile q1 = vp_err_tile q + of_nat (length (missed (vid_NO_TILE e) (pic f) le)) / of_int FPS"
    by (auto simp: missed_pixels_def)
  have "\<forall>f \<in> set fs. frame_shows e lines f (pic f) \<and> 0 \<le> f \<and> f < int (length frames1)"
    using Cons.prems 1(2) by simp
  from Cons.IH [OF this, of q1] obtain q' frames' where
    2: "for_each (metric_frame e (map Some vs) est) fs (q1, frames1) = Some (q', frames')" "length frames' = length frames1"
    "avg_qual q' = avg_qual q1 + (\<Sum>f \<leftarrow> fs. tile_mean (vid_NO_TILE e) (pic f) (version_of vs))"
    "avg_bitrate q' = avg_bitrate q1 + (\<Sum>f \<leftarrow> fs. tile_mean (vid_NO_TILE e) (pic f) (bitrate_of e vs))"
    "std_bitrate q' = std_bitrate q1 + (\<Sum>f \<leftarrow> fs. tile_deviation (vid_NO_TILE e) (pic f) (bitrate_of e vs))"
    "vp_err q' = vp_err q1 + (\<Sum>f \<leftarrow> fs. missed_pixels (vid_NO_TILE e) (pic f) le) / of_int FPS"
    "vp_err_tile q' = vp_err_tile q1 + (\<Sum>f \<leftarrow> fs. of_nat (length (missed (vid_NO_TILE e) (pic f) le))) / of_int FPS"
    by blast
  show ?case using 1 2 by (simp add: add_divide_distrib)
qed simp

lemma smooth_errors_ok:
  assumes "quality_shape N q" "0 \<le> seg" "seg < N"
  shows "\<exists>q'. smooth_errors seg q = Some q' \<and> quality_shape N q' \<and> q_est_vp q' = q_est_vp q \<and>
    q_avg_qual q' = q_avg_qual q \<and> q_avg_bitrate q' = q_avg_bitrate q \<and> q_std_bitrate q' = q_std_bitrate q \<and>
    q_vp_err q' = q_vp_err q \<and> q_vp_err_tile q' = q_vp_err_tile q"
  using assms
  by (auto simp: smooth_errors_def smooth_value_def adapt_weight_def quality_shape_def aget_def aset_def)

lemma store_segment_ok:
  assumes "quality_shape N q" "0 \<le> seg" "seg < N" "int (length frames) = N * FPS"
  shows "\<exists>q'. store_segment seg s frames q = Some q' \<and> quality_shape N q' \<and> q_est_vp q' = q_est_vp q \<and>
    q_avg_qual q' ! nat seg = Some (avg_qual s) \<and> q_avg_bitrate q' ! nat seg = Some (avg_bitrate s) \<and>
    q_std_bitrate q' ! nat seg = Some (std_bitrate s) \<and>
    q_vp_err q' ! nat seg = vp_err s \<and> q_vp_err_tile q' ! nat seg = vp_err_tile s"
  using assms by (auto simp: store_segment_def quality_shape_def aset_def)

lemma calc_metric_ok:
  assumes e: "video_ok e lines" "versions_ok e vs"
    and pics: "\<forall>f \<in> set (frames_of seg). frame_shows e lines f (pic f)"
    and est: "line_at lines (turned (q_est_vp q ! nat seg)) = Some le"
    and q: "quality_shape N q" "0 \<le> seg" "seg < N"
  shows "\<exists>q'. calc_metric e (map Some vs) seg q = Some q' \<and> quality_shape N q' \<and> q_est_vp q' = q_est_vp q \<and>
    q_avg_qual q' ! nat seg = Some (frame_mean seg (\<lambda>f. tile_mean (vid_NO_TILE e) (pic f) (version_of vs))) \<and>
    q_avg_bitrate q' ! nat seg = Some (frame_mean seg (\<lambda>f. tile_mean (vid_NO_TILE e) (pic f) (bitrate_of e vs))) \<and>
    q_std_bitrate q' ! nat seg =
      Some ((\<Sum>f \<leftarrow> frames_of seg. tile_deviation (vid_NO_TILE e) (pic f) (bitrate_of e vs)) / of_int FPS) \<and>
    q_vp_err q' ! nat seg = frame_mean seg (\<lambda>f. missed_pixels (vid_NO_TILE e) (pic f) le) \<and>
    q_vp_err_tile q' ! nat seg = q_vp_err_tile q ! nat seg +
      frame_mean seg (\<lambda>f. of_nat (length (missed (vid_NO_TILE e) (pic f) le)))"
proof -
  let ?q0 = "\<lparr>avg_qual = 0, avg_qual_w = 0, avg_bitrate = 0, avg_bitrate_w = 0, std_bitrate = 0, vp_err = 0,
    vp_err_tile = q_vp_err_tile q ! nat seg\<rparr>"
  have "int (length (q_frames q)) = N * FPS" using q(1) by (simp add: quality_shape_def)
  moreover have "(seg + 1) * FPS \<le> N * FPS" using q by (simp add: FPS_def)
  ultimately have "\<forall>f \<in> set (frames_of seg). frame_shows e lines f (pic f) \<and> 0 \<le> f \<and> f < int (length (q_frames q))"
    using pics q(2) by (auto simp: frames_of_def FPS_def)
  from segment_frames [OF e this est, of ?q0] obtain s frames where
    s: "for_each (metric_frame e (map Some vs) (q_est_vp q ! nat seg)) (frames_of seg) (?q0, q_frames q) = Some (s, frames)"
    "length frames = length (q_frames q)"
    "avg_qual s = (\<Sum>f \<leftarrow> frames_of seg. tile_mean (vid_NO_TILE e) (pic f) (version_of vs))"
    "avg_bitrate s = (\<Sum>f \<leftarrow> frames_of seg. tile_mean (vid_NO_TILE e) (pic f) (bitrate_of e vs))"
    "std_bitrate s = (\<Sum>f \<leftarrow> frames_of seg. tile_deviation (vid_NO_TILE e) (pic f) (bitrate_of e vs))"
    "vp_err s = (\<Sum>f \<leftarrow> frames_of seg. missed_pixels (vid_NO_TILE e) (pic f) le) / of_int FPS"
    "vp_err_tile s = q_vp_err_tile q ! nat seg +
      (\<Sum>f \<leftarrow> frames_of seg. of_nat (length (missed (vid_NO_TILE e) (pic f) le))) / of_int FPS"
    by auto
  have "int (length frames) = N * FPS" using s(2) q(1) by (simp add: quality_shape_def)
  from store_segment_ok [OF q this, of "per_frame s"] obtain q1 where
    q1: "store_segment seg (per_frame s) frames q = Some q1" "quality_shape N q1" "q_est_vp q1 = q_est_vp q"
    "q_avg_qual q1 ! nat seg = Some (avg_qual (per_frame s))" "q_avg_bitrate q1 ! nat seg = Some (avg_bitrate (per_frame s))"
    "q_std_bitrate q1 ! nat seg = Some (std_bitrate (per_frame s))"
    "q_vp_err q1 ! nat seg = vp_err (per_frame s)" "q_vp_err_tile q1 ! nat seg = vp_err_tile (per_frame s)"
    by blast
  obtain q2 where q2: "smooth_errors seg q1 = Some q2" "quality_shape N q2" "q_est_vp q2 = q_est_vp q1"
    "q_avg_qual q2 = q_avg_qual q1" "q_avg_bitrate q2 = q_avg_bitrate q1" "q_std_bitrate q2 = q_std_bitrate q1"
    "q_vp_err q2 = q_vp_err q1" "q_vp_err_tile q2 = q_vp_err_tile q1"
    using smooth_errors_ok [OF q1(2) q(2,3)] by blast
  have "aget (q_est_vp q) seg = Some (q_est_vp q ! nat seg)" "aget (q_vp_err_tile q) seg = Some (q_vp_err_tile q ! nat seg)"
    using q by (auto simp: quality_shape_def aget_def)
  then have "calc_metric e (map Some vs) seg q = Some q2"
    using s(1) q1(1) q2(1) by (simp add: calc_metric_def frames_of_def)
  then show ?thesis
    using s(3-7) q1(3-8) q2(2-8) by (simp add: per_frame_def frame_mean_def)
qed

text \<open>
  C30: When every frame of a segment shows tiles of known versions, the metric of the segment is
  computed: the mean over its frames of the mean quality of the visible tiles, the same for the
  bitrate, the mean deviation of the bitrates in a frame from that mean, and the mean share of the
  viewport the prediction missed.
\<close>

theorem segment_quality:
  assumes "video_ok e lines" "versions_ok e vs"
    and "\<forall>f \<in> set (frames_of seg). frame_shows e lines f (pic f)"
    and "line_at lines (turned (q_est_vp q ! nat seg)) = Some le"
    and "quality_shape N q" "0 \<le> seg" "seg < N"
  shows "\<exists>q'. calc_metric e (map Some vs) seg q = Some q' \<and>
    q_avg_qual q' ! nat seg = Some (frame_mean seg (\<lambda>f. tile_mean (vid_NO_TILE e) (pic f) (version_of vs))) \<and>
    q_avg_bitrate q' ! nat seg = Some (frame_mean seg (\<lambda>f. tile_mean (vid_NO_TILE e) (pic f) (bitrate_of e vs))) \<and>
    q_std_bitrate q' ! nat seg =
      Some ((\<Sum>f \<leftarrow> frames_of seg. tile_deviation (vid_NO_TILE e) (pic f) (bitrate_of e vs)) / of_int FPS) \<and>
    q_vp_err q' ! nat seg = frame_mean seg (\<lambda>f. missed_pixels (vid_NO_TILE e) (pic f) le)"
  using calc_metric_ok [OF assms] by blast

text \<open>A segment of 30 frames that all show the first line of the demonstration file, at version 2.\<close>

definition demo_video :: Video where
  "demo_video = \<lparr>vid_vmask = the (load_vmask demo_angles 24),
     vid_htrace = the (load_headtrace (replicate 31 [0, 0]) 30 30), vid_NO_TILE = 24,
     vid_tile_br = the (tile_bitrates 240 24 3 [5, 10, 20])\<rparr>"

lemma demo_video_ok: "video_ok demo_video demo_angles" "versions_ok demo_video (replicate 24 2)"
proof -
  show "video_ok demo_video demo_angles"
    using load_vmask_loaded [OF demo_angle_file] demo_angle_file
    by (auto simp: video_ok_def demo_video_def)
  have "tile_bitrates 240 24 3 [5, 10, 20] = Some [10, 15, 25, 45]" by code_simp
  then show "versions_ok demo_video (replicate 24 2)" by (simp add: versions_ok_def demo_video_def)
qed

lemma demo_frames: "\<forall>f \<in> set (frames_of 0). frame_shows demo_video demo_angles f (hd demo_angles)"
proof -
  have "trace_file 30 (replicate 31 [0, 0])" by (simp add: trace_file_def rectangular_def)
  from load_headtrace_frames [OF this, of 30] have
    "\<forall>i. 0 \<le> i \<and> i < 30 \<longrightarrow> get_vp_pos_byFrameId (vid_htrace demo_video) i = Some (0, 0)"
    by (auto simp: demo_video_def frame_line_def nat_less_iff)
  moreover have "line_at demo_angles (turned (0, 0)) = Some (hd demo_angles)"
    by (simp add: line_at_def demo_angles_def turned_def angle_of_def)
  moreover have "1 \<in> set (visible_tiles 24 (hd demo_angles))"
    by (simp add: visible_tiles_range pixels_of_def demo_angles_def)
  then have "visible_tiles (vid_NO_TILE demo_video) (hd demo_angles) \<noteq> []" by (auto simp: demo_video_def)
  ultimately show ?thesis by (auto simp: frame_shows_def frames_of_def FPS_def)
qed

lemma demo_line: "line_at demo_angles (turned (q_est_vp (quality_init 1 [m]) ! nat 0)) = Some (hd demo_angles)"
  by (simp add: quality_init_def Let_def line_at_def demo_angles_def turned_def angle_of_def)

lemma demo_shape: "quality_shape 1 (quality_init 1 [m])"
  by (simp add: quality_shape_def quality_init_def Let_def FPS_def)

lemma demo_tile_mean: "tile_mean 24 (hd demo_angles) (version_of (replicate 24 2)) = 3"
  by code_simp

theorem segment_quality_witness:
  "\<exists>q'. calc_metric demo_video (map Some (replicate 24 2)) 0 (quality_init 1 [0]) = Some q' \<and> q_avg_qual q' ! 0 = Some 3"
proof -
  have "frame_mean 0 (\<lambda>f. 3) = 3" by (simp add: frame_mean_def frames_of_def FPS_def sum_list_triv)
  then show ?thesis
    using segment_quality [OF demo_video_ok demo_frames demo_line [of 0] demo_shape [of 0]] demo_tile_mean
    by (auto simp: demo_video_def)
qed

text \<open>
  The metric of a segment is computed when the segment is over and once more for the report at
  the end of the video. The second computation gives the same qualities and prediction error, but
  adds the number of missed tiles to the first: the report states twice the mean number of
  missed tiles, on top of what the memory held when the player was constructed.
\<close>

theorem segment_quality_reported:
  assumes "video_ok e lines" "versions_ok e vs"
    and "\<forall>f \<in> set (frames_of seg). frame_shows e lines f (pic f)"
    and "line_at lines (turned (q_est_vp q ! nat seg)) = Some le"
    and "quality_shape N q" "0 \<le> seg" "seg < N"
  shows "\<exists>q1 q2. calc_metric e (map Some vs) seg q = Some q1 \<and> calc_metric e (map Some vs) seg q1 = Some q2 \<and>
    q_avg_qual q2 ! nat seg = q_avg_qual q1 ! nat seg \<and> q_std_bitrate q2 ! nat seg = q_std_bitrate q1 ! nat seg \<and>
    q_vp_err q2 ! nat seg = q_vp_err q1 ! nat seg \<and>
    q_vp_err_tile q2 ! nat seg = q_vp_err_tile q ! nat seg +
      2 * frame_mean seg (\<lambda>f. of_nat (length (missed (vid_NO_TILE e) (pic f) le)))"
proof -
  obtain q1 where 1: "calc_metric e (map Some vs) seg q = Some q1" "quality_shape N q1" "q_est_vp q1 = q_est_vp q"
    "q_avg_qual q1 ! nat seg = Some (frame_mean seg (\<lambda>f. tile_mean (vid_NO_TILE e) (pic f) (version_of vs)))"
    "q_std_bitrate q1 ! nat seg =
      Some ((\<Sum>f \<leftarrow> frames_of seg. tile_deviation (vid_NO_TILE e) (pic f) (bitrate_of e vs)) / of_int FPS)"
    "q_vp_err q1 ! nat seg = frame_mean seg (\<lambda>f. missed_pixels (vid_NO_TILE e) (pic f) le)"
    "q_vp_err_tile q1 ! nat seg = q_vp_err_tile q ! nat seg +
      frame_mean seg (\<lambda>f. of_nat (length (missed (vid_NO_TILE e) (pic f) le)))"
    using calc_metric_ok [OF assms] by blast
  have "line_at lines (turned (q_est_vp q1 ! nat seg)) = Some le" using 1(3) assms(4) by simp
  from calc_metric_ok [OF assms(1-3) this 1(2) assms(6,7)] 1 show ?thesis by auto
qed

theorem segment_quality_reported_witness:
  "\<exists>q1 q2. calc_metric demo_video (map Some (replicate 24 2)) 0 (quality_init 1 [5]) = Some q1 \<and>
     calc_metric demo_video (map Some (replicate 24 2)) 0 q1 = Some q2 \<and> q_vp_err_tile q2 ! 0 = 5"
proof -
  have "missed n l l = []" for n l by (simp add: missed_def filter_empty_conv)
  then have "frame_mean 0 (\<lambda>f. of_nat (length (missed (vid_NO_TILE demo_video) (hd demo_angles) (hd demo_angles)))) = 0"
    by (simp add: frame_mean_def sum_list_triv)
  moreover have "q_vp_err_tile (quality_init 1 [5]) ! nat 0 = 5" by (simp add: quality_init_def Let_def)
  ultimately show ?thesis
    using segment_quality_reported [OF demo_video_ok demo_frames demo_line [of 5] demo_shape [of 5]] by auto
qed

end
