(* ===== verification/Metric_Calls.thy ===== *)
theory Metric_Calls
  imports Session_Player Segment_Quality
begin

text \<open>
  When the playback thread computes the quality of a segment, and what it computes. Theory \<open>Playback\<close>
  only logs the calls of \<open>calc_metric\<close> with their arguments; here \<open>metric_pass\<close> and \<open>final_metrics\<close> run
  the calls that are new in the log, with the body of \<open>calc_metric\<close> of theory \<open>Segment_Quality\<close> on the
  result arrays. A pass is undefined when a call it makes is, for example because the versions of the
  segment hold an unassigned entry. \<open>metric_reach\<close> is the session with its result arrays.

  While the video plays, the calls are those for the segments played to their end, one for each, in
  order, with the versions recorded when the segment started; the final loop of \<^verbatim>\<open>start_playback\<close> calls
  \<^verbatim>\<open>calc_metric\<close> a second time for every segment.
\<close>

definition calls_inv :: "Player \<Rightarrow> bool" where
  "calls_inv p \<longleftrightarrow> map fst (calc_calls p) = [0..played p div SD p - 1] \<and>
     (\<forall>(k, vs) \<in> set (calc_calls p). aget (seg_tile_version p) k = Some (Some vs))"

text \<open>What the invariant looks at.\<close>

definition calls_view where
  "calls_view p = (calc_calls p, played p div SD p, seg_tile_version p)"

lemma calls_inv_cong: "calls_inv p \<Longrightarrow> calls_view q = calls_view p \<Longrightarrow> calls_inv q"
  by (simp add: calls_inv_def calls_view_def)

text \<open>The logged segments come before the one that is playing.\<close>

lemma calls_before: "calls_inv p \<Longrightarrow> (k, vs) \<in> set (calc_calls p) \<Longrightarrow> 0 \<le> k \<and> k < played p div SD p"
proof -
  assume "calls_inv p" "(k, vs) \<in> set (calc_calls p)"
  then have "k \<in> set [0..played p div SD p - 1]" unfolding calls_inv_def by (metis fst_conv image_eqI list.set_map)
  then show ?thesis by auto
qed

lemma record_segment_calls:
  assumes "record_segment now p = Some q" "calls_inv p" "played p div SD p \<le> playing_seg_id p"
  shows "calls_inv q"
proof -
  obtain vs0 where v: "aset (seg_tile_version p) (playing_seg_id p) (Some vs0) = Some (seg_tile_version q)"
    and f: "calc_calls q = calc_calls p" "played q = played p" "SD q = SD p"
    using assms(1) by (auto simp: record_segment_def split: bind_splits)
  have "aget (seg_tile_version q) k = aget (seg_tile_version p) k" if "(k, vs) \<in> set (calc_calls p)" for k vs
    using aget_aset [OF v, of k] calls_before [OF assms(2) that] assms(3) by auto
  then show ?thesis using assms(2) f by (fastforce simp: calls_inv_def)
qed

lemma log_calls:
  assumes "log_calc_metric (played p div SD p) x = Some r" "calls_inv p"
    and "calls_view x = (calc_calls p, played p div SD p + 1, seg_tile_version p)" "0 \<le> played p div SD p"
  shows "calls_inv r"
proof -
  let ?k = "played p div SD p"
  obtain vs where vs: "aget (seg_tile_version x) ?k = Some (Some vs)" "r = x\<lparr>calc_calls := calc_calls x @ [(?k, vs)]\<rparr>"
    using assms(1) by (auto simp: log_calc_metric_def split: bind_splits)
  have "[0..?k] = [0..?k - 1] @ [?k]" using assms(4) by (simp add: upto_rec2)
  then show ?thesis using assms(2,3) vs by (auto simp: calls_inv_def calls_view_def)
qed

text \<open>One interval more crosses the end of a segment only at the end itself.\<close>

lemma interval_div:
  assumes "INTER dvd sd" "0 < sd" "INTER dvd x" "0 \<le> x"
  shows "(x + INTER) div sd = x div sd + (if sd dvd x + INTER then 1 else 0)"
proof -
  obtain s where "sd = 100 * s" using assms(1) unfolding INTER_def by (rule dvdE)
  moreover obtain y where "x = 100 * y" using assms(3) unfolding INTER_def by (rule dvdE)
  ultimately have s: "sd = 100 * s" "x = 100 * y" by simp_all
  then have pos: "0 < s" "0 \<le> y" using assms(2,4) by simp_all
  have d: "(x + INTER) div sd = (y + 1) div s" "x div sd = y div s" "sd dvd x + INTER \<longleftrightarrow> s dvd y + 1"
  proof -
    have e: "x + INTER = 100 * (y + 1)" by (simp add: s INTER_def)
    show "(x + INTER) div sd = (y + 1) div s" unfolding e s(1) by (rule div_mult_mult1) simp
    show "sd dvd x + INTER \<longleftrightarrow> s dvd y + 1" unfolding e s(1) by (rule dvd_times_left_cancel_iff) simp
    show "x div sd = y div s" by (simp add: s)
  qed
  obtain a b where nat: "y = int a" "s = int b" using pos by (metis nonneg_int_cases order_less_imp_le)
  have "int (Suc a) div int b = int (Suc a div b)" "int a div int b = int (a div b)" by (simp_all only: zdiv_int)
  moreover have "(int b dvd int (Suc a)) = (b dvd Suc a)" by (rule int_dvd_int_iff)
  ultimately have "(y + 1) div s = y div s + (if s dvd y + 1 then 1 else 0)"
    using div_Suc [of a b] by (simp add: nat dvd_eq_mod_eq_0 add.commute)
  then show ?thesis by (simp only: d)
qed

section \<open>What a pass does to the metrics\<close>

lemma counted:
  fixes t :: int
  assumes "0 < b" "b + t = int n * sd" "k * sd \<le> t" "0 < sd"
  shows "k < int n"
proof -
  have "k * sd < int n * sd" using assms by linarith
  then show ?thesis using assms(4) by (simp add: mult_less_cancel_right)
qed

text \<open>
  A pass may end a segment, which logs its metric, and then may start one that has arrived, which
  records its versions; \<open>r\<close> is the state in between.
\<close>

definition segment_ends :: "Player \<Rightarrow> Player \<Rightarrow> bool" where
  "segment_ends p r \<longleftrightarrow> (\<exists>x. calls_view x = (calc_calls p, played p div SD p + 1, seg_tile_version p) \<and>
     log_calc_metric (played p div SD p) x = Some r)"

definition segment_starts :: "rat \<Rightarrow> nat \<Rightarrow> Player \<Rightarrow> Player \<Rightarrow> bool" where
  "segment_starts now n r q \<longleftrightarrow> playing_seg_id r = played r div SD r \<and> playing_seg_id r < int n \<and>
     (\<exists>a. record_segment now r = Some a \<and> calls_view q = calls_view a)"

lemma update_deadlines_view: "update_deadlines now p = Some q \<Longrightarrow> calls_view q = calls_view p"
  by (auto simp: update_deadlines_def calls_view_def split: bind_splits)

lemma tick_playing_split:
  assumes "tick_playing now p = Some q" "player_inv n p" "STATE p = 1"
  shows "\<exists>r. (calls_view r = calls_view p \<or> segment_ends p r) \<and> buff r = buff p \<and>
    (calls_view q = calls_view r \<or> segment_starts now n r q)"
proof -
  note i = player_inv_allD [OF assms(2)]
  let ?t = "played p + INTER" and ?b = "base_layer_buff p - INTER"
  let ?k = "?t div SD p"
  let ?p = "p\<lparr>base_layer_buff := ?b, played := ?t, playing_seg_id := ?k\<rparr>"
  have t: "0 \<le> ?t" using i(4) by (simp add: INTER_def)
  then have "incre_play_time INTER (decre_buff_size INTER p) = Some ?p"
    using i(7) by (simp add: incre_play_time_def decre_buff_size_def Let_def)
  with assms(1) obtain p2 where p2: "(if ?t = ?k * SD p
      then do { r \<leftarrow> log_calc_metric (?k - 1) ?p; if base_layer_buff r \<noteq> 0 then record_segment now r else Some r }
      else Some ?p) = Some p2"
    and q: "calls_view q = calls_view p2"
    by (auto simp: tick_playing_def calls_view_def split: bind_splits if_splits)
  note div = interval_div [OF i(8,7,6,4)]
  show ?thesis
  proof (cases "?t = ?k * SD p")
    case False
    have "\<not> SD p dvd ?t" using False by (metis dvd_div_mult_self)
    then have "calls_view ?p = calls_view p" using div by (simp add: calls_view_def)
    moreover have "p2 = ?p" using p2 False by simp
    ultimately show ?thesis using q by (intro exI [of _ ?p]) simp
  next
    case True
    then have "SD p dvd ?t" by (metis dvd_triv_right)
    then have k: "?k = played p div SD p + 1" using div by simp
    from p2 True obtain r where r: "log_calc_metric (?k - 1) ?p = Some r"
      "(if base_layer_buff r \<noteq> 0 then record_segment now r else Some r) = Some p2"
      by (auto split: bind_splits)
    have "calls_view ?p = (calc_calls p, played p div SD p + 1, seg_tile_version p)" using k by (simp add: calls_view_def)
    with r(1) k have ends: "segment_ends p r" by (auto simp: segment_ends_def)
    have rf: "buff r = buff p" "base_layer_buff r = ?b" "playing_seg_id r = ?k" "played r div SD r = ?k"
      using r(1) by (auto simp: log_calc_metric_def split: bind_splits)
    show ?thesis
    proof (cases "?b = 0")
      case True
      then show ?thesis using r(2) rf q ends by (intro exI [of _ r]) simp
    next
      case False
      have "INTER dvd base_layer_buff p + played p" using i(2,8) by simp
      then have "INTER dvd base_layer_buff p" using i(6) by (simp add: dvd_add_left_iff)
      then have "INTER \<le> base_layer_buff p" using player_inv_playingD(1) [OF assms(2,3)] by (rule zdvd_imp_le)
      then have b: "0 < ?b" using False by linarith
      have "?k < int n" by (rule counted [OF b _ _ i(7), of ?t]) (use i(2) True in simp_all)
      then have "segment_starts now n r q" using r(2) rf False q by (simp add: segment_starts_def)
      with ends rf(1) show ?thesis by blast
    qed
  qed
qed

lemma tick_split:
  assumes "tick now1 now2 p = Some q" "player_inv n p"
  obtains r where "calls_view r = calls_view p \<or> segment_ends p r" "buff r = buff p"
    "calls_view q = calls_view r \<or> segment_starts now1 n r q"
proof -
  note i = player_inv_allD [OF assms(2)]
  have start: "segment_starts now1 n r q"
    if "record_segment now1 r = Some a" "calls_view q = calls_view a" "calls_view r = calls_view p"
      "playing_seg_id r = played p div SD p" "base_layer_buff p = SD p" "playing_seg_id r * SD p \<le> played p" for r a
  proof -
    have "playing_seg_id r < int n" by (rule counted [OF _ i(2) that(6) i(7)]) (use that(5) i(7) in simp)
    with that show ?thesis by (auto simp: segment_starts_def calls_view_def)
  qed
  have "STATE p = 0 \<or> STATE p = 1 \<or> STATE p = 2"
    using assms(2) by (auto simp: player_inv_def split: if_splits)
  then consider "STATE p = 0" | "STATE p = 1" | "STATE p = 2" by blast
  then show thesis
  proof cases
    case 1
    let ?p = "p\<lparr>STATE := 1, playing_seg_id := 0\<rparr>"
    have p0: "played p = 0" using assms(2) 1 by (simp add: player_inv_def)
    have q: "q = p \<or> (base_layer_buff p = SD p \<and> (\<exists>a b. record_segment now1 ?p = Some a \<and>
        update_deadlines now2 a = Some b \<and> calls_view q = calls_view b))"
      using assms(1) 1
      by (auto simp: tick_def tick_initial_def calls_view_def split: bind_splits if_splits)
    have "calls_view ?p = calls_view p" by (simp add: calls_view_def)
    with q start [of ?p] p0 update_deadlines_view that [of ?p] that [of p] show thesis by fastforce
  next
    case 2
    with assms tick_playing_split [of now1 p q n] that show thesis by (auto simp: tick_def)
  next
    case 3
    note stalled = player_inv_stalledD [OF assms(2) 3]
    from assms(1) 3 obtain sts where q: "q = p\<lparr>seg_stall_time := sts\<rparr> \<or> (base_layer_buff p = SD p \<and>
        (\<exists>a. record_segment now1 (p\<lparr>seg_stall_time := sts, STATE := 1\<rparr>) = Some a \<and> update_deadlines now2 a = Some q))"
      by (auto simp: tick_def tick_rebuffering_def Let_def split: bind_splits if_splits)
    let ?p = "p\<lparr>seg_stall_time := sts, STATE := 1\<rparr>"
    have "calls_view ?p = calls_view p" "calls_view (p\<lparr>seg_stall_time := sts\<rparr>) = calls_view p"
      by (simp_all add: calls_view_def)
    moreover have "playing_seg_id p = played p div SD p" using stalled(1) i(7) by simp
    ultimately show thesis
      using q start [of ?p] stalled(1) update_deadlines_view that [of ?p] that [of "p\<lparr>seg_stall_time := sts\<rparr>"] by fastforce
  qed
qed

text \<open>Only a playing player logs a call, and at most one.\<close>

lemma tick_logs_one:
  assumes "tick now1 now2 p = Some q" "player_inv n p" "calc_calls q \<noteq> calc_calls p"
  obtains vs where "aget (seg_tile_version p) (played p div SD p) = Some (Some vs)"
    "calc_calls q = calc_calls p @ [(played p div SD p, vs)]"
  using assms(1,2)
proof (cases rule: tick_split)
  case (1 r)
  have "calc_calls q = calc_calls r"
    using 1(3) by (auto simp: segment_starts_def calls_view_def record_segment_def split: bind_splits)
  with 1(1) assms(3) have "segment_ends p r" by (auto simp: calls_view_def)
  then obtain x where x: "calls_view x = (calc_calls p, played p div SD p + 1, seg_tile_version p)"
    "log_calc_metric (played p div SD p) x = Some r" by (auto simp: segment_ends_def)
  then obtain vs where "aget (seg_tile_version x) (played p div SD p) = Some (Some vs)"
    "calc_calls r = calc_calls x @ [(played p div SD p, vs)]"
    by (auto simp: log_calc_metric_def split: bind_splits)
  with x(1) \<open>calc_calls q = calc_calls r\<close> that [of vs] show ?thesis by (simp add: calls_view_def)
qed

lemma tick_calls_playing:
  "tick now1 now2 p = Some q \<Longrightarrow> calc_calls q \<noteq> calc_calls p \<Longrightarrow> STATE p = 1"
  by (auto simp: tick_def tick_initial_def tick_rebuffering_def record_segment_def update_deadlines_def Let_def
      split: if_splits bind_splits)

lemma tick_calls:
  assumes "tick now1 now2 p = Some q" "player_inv n p" "calls_inv p"
  shows "calls_inv q"
  using assms(1,2)
proof (cases rule: tick_split)
  case (1 r)
  have "0 \<le> played p div SD p" using player_inv_allD(4,7) [OF assms(2)] by (simp add: pos_imp_zdiv_nonneg_iff)
  with 1(1) assms(3) have "calls_inv r" by (auto simp: segment_ends_def intro: calls_inv_cong log_calls)
  with 1(3) show ?thesis by (auto simp: segment_starts_def intro: calls_inv_cong dest!: record_segment_calls)
qed

lemma player_reach_calls:
  assumes "player_reach p n q" "player_inv m p" "calls_inv p"
  shows "player_inv (m + n) q \<and> calls_inv q"
  using assms
proof (induction rule: player_reach.induct)
  case (step p n q k r)
  then have q: "player_inv (m + n) q" "calls_inv q" by blast+
  have "calls_inv r"
    using step.hyps(2)
  proof cases
    case (pass now1 now2)
    then show ?thesis using tick_calls [OF _ q] by blast
  next
    case arrive
    then show ?thesis using q(2) by (auto simp: incre_buff_size_def calls_view_def intro: calls_inv_cong)
  next
    case (layer s f l b)
    then show ?thesis using q(2) by (auto simp: calls_view_def intro: calls_inv_cong)
  qed
  with player_step_inv [OF step.hyps(2) q(1)] show ?case by (simp add: add.assoc)
qed simp

section \<open>In a session\<close>

lemma session_versions_length:
  assumes "session_inv m st"
  shows "int (length (seg_tile_version (player st))) = mf_NO_SEG m"
proof -
  have "player_inv (nat (BL_seg_id (client st))) (player st)"
    "dims (buff (player st)) = (mf_NO_SEG m, mf_NO_TILE m, mf_EL_VER_NUM m + 1)"
    using assms unfolding session_inv_def session_shape_def by blast+
  with player_inv_allD(1,10) [OF this(1)] show ?thesis by (simp add: player_ready_def)
qed

lemma fresh_player: "player_init b v sd t e = Some p \<Longrightarrow>
    calc_calls p = [] \<and> played p = 0 \<and> seg_tile_version p = replicate (nat (NO_SEG p)) None"
  by (auto simp: player_init_def Let_def split: if_splits)

lemma session_reach_calls: "session_reach m st \<Longrightarrow> calls_inv (player st)"
proof (induction rule: session_reach.induct)
  case (start b st ev ss st')
  then obtain s1 where s1: "run_engine m ss (st\<lparr>client := (client st)\<lparr>cur_req_stream_id := INI_STREAM_ID, BL_seg_id := 0\<rparr>\<rparr>)
    = Some s1" "player st' = player s1" using start_run by blast
  have "calc_calls (player st) = [] \<and> played (player st) = 0"
    using start(1) fresh_player unfolding fresh_session_def by blast
  with s1 run_engine_player [OF s1(1)] show ?case by (simp add: calls_inv_def)
next
  case (step st st')
  have inv: "session_inv m st" by (rule session_reach_inv [OF step(1)])
  from session_step_player [OF step(2) inv] obtain n where "player_reach (player st) n (player st')" by blast
  moreover have "player_inv (nat (BL_seg_id (client st))) (player st)" using inv by (simp add: session_inv_def)
  ultimately show ?case using player_reach_calls step.IH by blast
qed

lemma metric_calls_recorded:
  "session_reach m st \<Longrightarrow> \<forall>(k, vs) \<in> set (calc_calls (player st)). aget (seg_tile_version (player st)) k = Some (Some vs)"
  using session_reach_calls by (simp add: calls_inv_def)

section \<open>The final loop\<close>

text \<open>
  When the video has been played, \<^verbatim>\<open>start_playback\<close> calls \<^verbatim>\<open>calc_metric\<close> once more for every segment, with
  \<open>playing_seg_id\<close> as the loop variable. (What it prints to the two log files is left out.)
\<close>

definition final_calls :: "Player \<Rightarrow> Player option" where
  "final_calls p = map_option (\<lambda>p. p\<lparr>playing_seg_id := max 0 (NO_SEG p)\<rparr>)
     (for_each (\<lambda>k p. log_calc_metric k (p\<lparr>playing_seg_id := k\<rparr>)) [0..NO_SEG p - 1] p)"

lemma log_calls_again:
  "\<forall>(k, vs) \<in> set calls. aget (seg_tile_version p) k = Some (Some vs) \<Longrightarrow>
    \<exists>r. for_each (\<lambda>k p. log_calc_metric k (p\<lparr>playing_seg_id := k\<rparr>)) (map fst calls) p = Some r \<and>
      calc_calls r = calc_calls p @ calls \<and> seg_tile_version r = seg_tile_version p"
proof (induction calls arbitrary: p)
  case (Cons c calls)
  obtain k vs where c: "c = (k, vs)" by fastforce
  let ?p = "p\<lparr>playing_seg_id := k, calc_calls := calc_calls p @ [(k, vs)]\<rparr>"
  have "log_calc_metric k (p\<lparr>playing_seg_id := k\<rparr>) = Some ?p" using Cons.prems by (simp add: log_calc_metric_def c)
  moreover have "\<forall>(k, vs) \<in> set calls. aget (seg_tile_version ?p) k = Some (Some vs)" using Cons.prems by simp
  ultimately show ?case using Cons.IH [of ?p] by (auto simp: c)
qed simp

lemma final_calls_run:
  assumes "calls_inv p" "player_inv n p" "played p = VIDEO_LEN p"
  shows "\<exists>p'. final_calls p = Some p' \<and> calc_calls p' = calc_calls p @ calc_calls p \<and>
    seg_tile_version p' = seg_tile_version p"
proof -
  note i = player_inv_allD [OF assms(2)]
  have "played p div SD p = NO_SEG p" using assms(3) i(7,9) by simp
  then have "map fst (calc_calls p) = [0..NO_SEG p - 1]" using assms(1) by (simp add: calls_inv_def)
  with log_calls_again [of "calc_calls p" p] assms(1) show ?thesis
    by (auto simp: final_calls_def calls_inv_def)
qed

text \<open>
  C12: In a session the quality of a segment is computed while the video plays when the segment has been
  played to its end: once for each of these segments, in order, with the versions recorded when it
  started, however stalls, arrivals and late layers interleave. When the whole video has been
  played, the final loop computes all of them a second time, in the same order and with the same
  versions.
\<close>

theorem metric_per_segment:
  assumes "session_reach m st"
  shows "map fst (calc_calls (player st)) = [0..played (player st) div SD (player st) - 1] \<and>
    (\<forall>(k, vs) \<in> set (calc_calls (player st)). aget (seg_tile_version (player st)) k = Some (Some vs)) \<and>
    (played (player st) = VIDEO_LEN (player st) \<longrightarrow>
      (\<exists>p. final_calls (player st) = Some p \<and> calc_calls p = calc_calls (player st) @ calc_calls (player st)))"
proof -
  have "player_inv (nat (BL_seg_id (client st))) (player st)"
    using session_reach_inv [OF assms] by (simp add: session_inv_def)
  with final_calls_run [OF session_reach_calls [OF assms]] session_reach_calls [OF assms] show ?thesis
    by (auto simp: calls_inv_def)
qed

section \<open>The qualities a session reports\<close>

definition report :: "Video \<Rightarrow> (int \<times> int option list) list \<Rightarrow> Quality \<Rightarrow> Quality option" where
  "report e = for_each (\<lambda>(seg, vs). calc_metric e vs seg)"

lemma calc_metric_other:
  assumes "calc_metric e vs seg q = Some q'" "0 \<le> k" "k \<noteq> seg"
  shows "q_avg_qual q' ! nat k = q_avg_qual q ! nat k \<and> q_avg_bitrate q' ! nat k = q_avg_bitrate q ! nat k"
proof -
  have "nat k \<noteq> nat seg \<or> seg < 0" using assms(2,3) by auto
  then show ?thesis using assms(1)
    by (auto simp: calc_metric_def store_segment_def smooth_errors_def aset_Some_iff Let_def split: bind_splits prod.splits)
qed

lemma report_other:
  "report e calls q = Some q' \<Longrightarrow> 0 \<le> k \<Longrightarrow> k \<notin> fst ` set calls \<Longrightarrow>
     q_avg_qual q' ! nat k = q_avg_qual q ! nat k \<and> q_avg_bitrate q' ! nat k = q_avg_bitrate q ! nat k"
  unfolding report_def
proof (induction calls arbitrary: q)
  case (Cons c calls)
  then obtain q1 where "calc_metric e (snd c) (fst c) q = Some q1"
    "for_each (\<lambda>(seg, vs). calc_metric e vs seg) calls q1 = Some q'"
    by (auto split: option.splits prod.splits)
  with Cons.IH [of q1] Cons.prems(2,3) calc_metric_other [of e "snd c" "fst c" q q1 k] show ?case by auto
qed simp

text \<open>The means of quality and bitrate of a segment over its frames, with the versions \<open>us\<close>.\<close>

definition reported :: "Video \<Rightarrow> (int \<Rightarrow> rat list) \<Rightarrow> Quality \<Rightarrow> int \<Rightarrow> int list \<Rightarrow> bool" where
  "reported e pic q k us \<longleftrightarrow>
     q_avg_qual q ! nat k = Some (frame_mean k (\<lambda>f. tile_mean (vid_NO_TILE e) (pic f) (version_of us))) \<and>
     q_avg_bitrate q ! nat k = Some (frame_mean k (\<lambda>f. tile_mean (vid_NO_TILE e) (pic f) (bitrate_of e us)))"

definition readable :: "Video \<Rightarrow> int option list \<Rightarrow> bool" where
  "readable e vs \<longleftrightarrow> (\<exists>us. vs = map Some us \<and> versions_ok e us)"

lemma report_ok:
  assumes "video_ok e lines" "\<forall>f. 0 \<le> f \<and> f < N * FPS \<longrightarrow> frame_shows e lines f (pic f)"
  shows "distinct (map fst calls) \<Longrightarrow> \<forall>(k, vs) \<in> set calls. 0 \<le> k \<and> k < N \<and> readable e vs \<Longrightarrow>
    quality_shape N q \<Longrightarrow> \<forall>k. 0 \<le> k \<and> k < N \<longrightarrow> line_at lines (turned (q_est_vp q ! nat k)) = Some (le k) \<Longrightarrow>
    \<exists>q'. report e calls q = Some q' \<and> (\<forall>(k, vs) \<in> set calls. \<exists>us. vs = map Some us \<and> reported e pic q' k us) \<and>
      quality_shape N q' \<and> q_est_vp q' = q_est_vp q"
proof (induction calls arbitrary: q)
  case Nil
  then show ?case by (simp add: report_def)
next
  case (Cons c calls)
  obtain k vs where c: "c = (k, vs)" by fastforce
  with Cons.prems(2) obtain us where us: "vs = map Some us" "versions_ok e us" and k: "0 \<le> k" "k < N"
    by (auto simp: readable_def)
  have "(k + 1) * FPS \<le> N * FPS" using k by (simp add: FPS_def)
  then have "\<forall>f \<in> set (frames_of k). frame_shows e lines f (pic f)"
    using assms(2) k by (auto simp: frames_of_def FPS_def)
  from calc_metric_ok [OF assms(1) us(2) this _ Cons.prems(3) k] Cons.prems(4) k obtain q1 where
    q1: "calc_metric e (map Some us) k q = Some q1" "quality_shape N q1" "q_est_vp q1 = q_est_vp q" "reported e pic q1 k us"
    by (auto simp: reported_def)
  have "distinct (map fst calls)" "\<forall>(k, vs) \<in> set calls. 0 \<le> k \<and> k < N \<and> readable e vs"
    "\<forall>k. 0 \<le> k \<and> k < N \<longrightarrow> line_at lines (turned (q_est_vp q1 ! nat k)) = Some (le k)"
    using Cons.prems q1(3) by auto
  from Cons.IH [OF this(1,2) q1(2) this(3)] obtain q' where
    q': "report e calls q1 = Some q'" "\<forall>(k, vs) \<in> set calls. \<exists>us. vs = map Some us \<and> reported e pic q' k us"
      "quality_shape N q'" "q_est_vp q' = q_est_vp q1" by blast
  have "k \<notin> fst ` set calls" using Cons.prems(1) by (simp add: c)
  with report_other [OF q'(1) k(1)] q1(4) have "reported e pic q' k us" by (simp add: reported_def)
  moreover have "report e (c # calls) q = Some q'" using q1(1) q'(1) by (simp add: report_def c us(1))
  ultimately show ?case using q'(2-4) q1(3) us(1) by (auto simp: c)
qed

text \<open>If the versions of all segments played so far can be read, their qualities are computed.\<close>

lemma session_report:
  assumes "session_reach m st" "video_ok e lines"
    and "\<forall>f. 0 \<le> f \<and> f < mf_NO_SEG m * FPS \<longrightarrow> frame_shows e lines f (pic f)"
    and "\<forall>(k, vs) \<in> set (calc_calls (player st)). readable e vs"
    and "quality_shape (mf_NO_SEG m) q"
    and "\<forall>k. 0 \<le> k \<and> k < mf_NO_SEG m \<longrightarrow> line_at lines (turned (q_est_vp q ! nat k)) = Some (le k)"
  shows "\<exists>q'. report e (calc_calls (player st)) q = Some q' \<and>
    quality_shape (mf_NO_SEG m) q' \<and> q_est_vp q' = q_est_vp q \<and>
    (\<forall>k. 0 \<le> k \<and> k < played (player st) div SD (player st) \<longrightarrow>
      (\<exists>us. aget (seg_tile_version (player st)) k = Some (Some (map Some us)) \<and> reported e pic q' k us))"
proof -
  let ?p = "player st" and ?calls = "calc_calls (player st)"
  have c: "calls_inv ?p" by (rule session_reach_calls [OF assms(1)])
  then have keys: "map fst ?calls = [0..played ?p div SD ?p - 1]" by (simp add: calls_inv_def)
  then have d: "distinct (map fst ?calls)" by simp
  have len: "int (length (seg_tile_version ?p)) = mf_NO_SEG m"
    by (rule session_versions_length [OF session_reach_inv [OF assms(1)]])
  have "0 \<le> k \<and> k < mf_NO_SEG m \<and> readable e vs" if kv: "(k, vs) \<in> set ?calls" for k vs
  proof -
    have "aget (seg_tile_version ?p) k = Some (Some vs)" using c kv by (auto simp: calls_inv_def)
    then have "0 \<le> k \<and> k < mf_NO_SEG m" using len by (simp add: aget_Some_iff)
    then show ?thesis using assms(4) kv by blast
  qed
  then have "\<forall>(k, vs) \<in> set ?calls. 0 \<le> k \<and> k < mf_NO_SEG m \<and> readable e vs" by blast
  from report_ok [OF assms(2,3) d this assms(5,6)] obtain q' where
    q': "report e ?calls q = Some q'" "\<forall>(k, vs) \<in> set ?calls. \<exists>us. vs = map Some us \<and> reported e pic q' k us"
      "quality_shape (mf_NO_SEG m) q'" "q_est_vp q' = q_est_vp q" by blast
  have "\<exists>us. aget (seg_tile_version ?p) k = Some (Some (map Some us)) \<and> reported e pic q' k us"
    if "0 \<le> k" "k < played ?p div SD ?p" for k
  proof -
    have "k \<in> set (map fst ?calls)" unfolding keys using that by simp
    then obtain vs where vs: "(k, vs) \<in> set ?calls" by auto
    then show ?thesis using c q'(2) by (fastforce simp: calls_inv_def)
  qed
  with q'(1,3,4) show ?thesis by blast
qed

section \<open>The playback thread with its result arrays\<close>

text \<open>
  A pass of the loop and the final loop, \<^verbatim>\<open>calc_metric\<close> included: each call runs with the arguments it is
  logged with. Where the body of \<^verbatim>\<open>calc_metric\<close> is undefined, the pass is.
\<close>

definition new_calls :: "Player \<Rightarrow> Player \<Rightarrow> (int \<times> int option list) list" where
  "new_calls p p' = drop (length (calc_calls p)) (calc_calls p')"

definition metric_pass :: "Video \<Rightarrow> rat \<Rightarrow> rat \<Rightarrow> Player \<times> Quality \<Rightarrow> (Player \<times> Quality) option" where
  "metric_pass e now1 now2 = (\<lambda>(p, q). do {
     p' \<leftarrow> tick now1 now2 p;
     q' \<leftarrow> report e (new_calls p p') q;
     Some (p', q')
   })"

definition final_metrics :: "Video \<Rightarrow> Player \<times> Quality \<Rightarrow> (Player \<times> Quality) option" where
  "final_metrics e = (\<lambda>(p, q). do {
     p' \<leftarrow> final_calls p;
     q' \<leftarrow> report e (new_calls p p') q;
     Some (p', q')
   })"

text \<open>
  A session with the result arrays: passes of the playback loop fill them, the steps of the network
  thread call no \<^verbatim>\<open>calc_metric\<close>. The arrays \<open>q0\<close> are those of the constructor, with the estimated
  viewports, which \<^verbatim>\<open>calc_metric\<close> only reads, as they are for each segment when it is computed.
\<close>

inductive metric_reach :: "Manifest \<Rightarrow> Video \<Rightarrow> Quality \<Rightarrow> Session \<Rightarrow> Quality \<Rightarrow> bool" for m e q0 where
  start: "fresh_session m b st \<Longrightarrow> has_req ev \<Longrightarrow> senses_ok ss \<Longrightarrow>
    on_stream_close m ss ev INI_STREAM_ID st = Some st' \<Longrightarrow> metric_reach m e q0 st' q0"
| pass: "metric_reach m e q0 st q \<Longrightarrow> played (player st) < VIDEO_LEN (player st) \<Longrightarrow>
    metric_pass e now1 now2 (player st, q) = Some (p, q') \<Longrightarrow> metric_reach m e q0 (st\<lparr>player := p\<rparr>) q'"
| network: "metric_reach m e q0 st q \<Longrightarrow> session_step m st st' \<Longrightarrow>
    calc_calls (player st') = calc_calls (player st) \<Longrightarrow> metric_reach m e q0 st' q"

lemma report_append: "report e (cs @ ds) q = Option.bind (report e cs q) (report e ds)"
  by (auto simp: report_def for_each_append split: option.splits)

lemma report_Nil [simp]: "report e [] q = Some q"
  by (simp add: report_def)

text \<open>A pass extends the log, the other steps leave it and the recorded versions alone.\<close>

lemma tick_log: "tick now1 now2 p = Some p' \<Longrightarrow> calc_calls p' = calc_calls p @ new_calls p p'"
proof -
  assume "tick now1 now2 p = Some p'"
  then have "\<exists>cs. calc_calls p' = calc_calls p @ cs"
    by (auto simp: tick_def tick_initial_def tick_playing_def tick_rebuffering_def record_segment_def
        update_deadlines_def log_calc_metric_def incre_play_time_def decre_buff_size_def Let_def
        split: if_splits bind_splits)
  then show ?thesis by (auto simp: new_calls_def)
qed

lemma record_stream_player_arrays:
  "record_stream m ev i info st = Some st' \<Longrightarrow>
    calc_calls (player st') = calc_calls (player st) \<and> seg_tile_version (player st') = seg_tile_version (player st)"
  by (auto dest!: record_stream_frame)

lemma end_round_player_arrays:
  "end_round m ev info st = Some st' \<Longrightarrow>
    calc_calls (player st') = calc_calls (player st) \<and> seg_tile_version (player st') = seg_tile_version (player st)"
  by (auto simp: end_round_def incre_buff_size_def Let_def split: if_splits bind_splits)

lemma session_step_arrays:
  "session_step m st st' \<Longrightarrow> session_inv m st \<Longrightarrow>
    (\<exists>now1 now2 p. played (player st) < VIDEO_LEN (player st) \<and> tick now1 now2 (player st) = Some p \<and>
       st' = st\<lparr>player := p\<rparr>) \<or>
    (calc_calls (player st') = calc_calls (player st) \<and> seg_tile_version (player st') = seg_tile_version (player st))"
proof (induction rule: session_step.induct)
  case (closed i st ev ss st')
  from closed(5,1,4) show ?case
  proof (cases rule: on_stream_close_cases)
    case (open_round info s0)
    then show ?thesis using record_stream_player_arrays [OF open_round(6)] by simp
  next
    case (end_of_round info s0 s1 s2)
    then show ?thesis
      using record_stream_player_arrays [OF end_of_round(6)] end_round_player_arrays [OF end_of_round(7)]
        run_engine_player [OF end_of_round(8)] by simp
  qed simp
next
  case (frame i st fr st')
  with recv_data_player [OF frame(3)] show ?case by simp
next
  case (promise multiply_1 pp i promised st st')
  with promise_frame [OF promise(1)] show ?case by simp
next
  case (pushed st i ss ev st')
  with pushed_frame [OF pushed(3,1,2)] show ?case by simp
qed blast

text \<open>The result arrays of a session are the report of its log.\<close>

lemma metric_reach_report:
  "metric_reach m e q0 st q \<Longrightarrow> session_reach m st \<and> report e (calc_calls (player st)) q0 = Some q"
proof (induction rule: metric_reach.induct)
  case (start b st ev ss st')
  then obtain s1 where "run_engine m ss (st\<lparr>client := (client st)\<lparr>cur_req_stream_id := INI_STREAM_ID, BL_seg_id := 0\<rparr>\<rparr>)
    = Some s1" "player st' = player s1" using start_run by blast
  moreover have "calc_calls (player st) = []" using start(1) fresh_player unfolding fresh_session_def by blast
  ultimately show ?case using start session_reach.start run_engine_player by fastforce
next
  case (pass st q now1 now2 p q')
  then have t: "tick now1 now2 (player st) = Some p" "report e (new_calls (player st) p) q = Some q'"
    by (auto simp: metric_pass_def split: bind_splits)
  with pass show ?case using session_reach_step(1) tick_log [OF t(1)] by (simp add: report_append)
next
  case (network st q st')
  then show ?case using session_reach.step by metis
qed

lemma metric_reach_iff:
  "metric_reach m e q0 st q \<longleftrightarrow> session_reach m st \<and> report e (calc_calls (player st)) q0 = Some q"
proof -
  have "session_reach m st \<Longrightarrow> report e (calc_calls (player st)) q0 = Some q \<Longrightarrow> metric_reach m e q0 st q"
  proof (induction arbitrary: q rule: session_reach.induct)
    case (start b st ev ss st')
    then obtain s1 where "run_engine m ss (st\<lparr>client := (client st)\<lparr>cur_req_stream_id := INI_STREAM_ID, BL_seg_id := 0\<rparr>\<rparr>)
      = Some s1" "player st' = player s1" using start_run by blast
    moreover have "calc_calls (player st) = []" using start(1) fresh_player unfolding fresh_session_def by blast
    ultimately have "q = q0" using start(5) run_engine_player by fastforce
    with metric_reach.start [OF start(1-4)] show ?case by simp
  next
    case (step st st')
    from session_step_arrays [OF step(2) session_reach_inv [OF step(1)]] show ?case
    proof (elim disjE exE conjE)
      fix now1 now2 p
      assume p: "played (player st) < VIDEO_LEN (player st)" "tick now1 now2 (player st) = Some p" "st' = st\<lparr>player := p\<rparr>"
      with step(4) tick_log [OF p(2)] obtain q1 where
        q1: "report e (calc_calls (player st)) q0 = Some q1" "report e (new_calls (player st) p) q1 = Some q"
        by (auto simp: report_append split: bind_splits)
      then have "metric_pass e now1 now2 (player st, q1) = Some (p, q)" using p(2) by (simp add: metric_pass_def)
      from metric_reach.pass [OF step.IH [OF q1(1)] p(1) this] p(3) show ?thesis by simp
    next
      assume "calc_calls (player st') = calc_calls (player st)"
      with step show ?thesis using metric_reach.network by metis
    qed
  qed
  with metric_reach_report show ?thesis by blast
qed

section \<open>A session that has played a segment\<close>

lemma playback_reach:
  "playback ts p = Some q \<Longrightarrow> session_reach m (st\<lparr>player := p\<rparr>) \<Longrightarrow> session_reach m (st\<lparr>player := q\<rparr>)"
proof (induction ts arbitrary: p)
  case (Cons t ts)
  show ?case
  proof (cases "played p < VIDEO_LEN p")
    case True
    with Cons.prems(1) obtain p1 where p1: "tick (fst t) (snd t) p = Some p1" "playback ts p1 = Some q"
      by (auto simp: playback_def split: option.splits prod.splits)
    have "session_step m (st\<lparr>player := p\<rparr>) (st\<lparr>player := p\<rparr>\<lparr>player := p1\<rparr>)"
      by (rule session_step.pass) (use True p1(1) in simp_all)
    with Cons.prems(2) have "session_reach m (st\<lparr>player := p1\<rparr>)" using session_reach.step by fastforce
    then show ?thesis by (rule Cons.IH [OF p1(2)])
  next
    case False
    then show ?thesis using Cons by (auto simp: playback_def split: prod.splits)
  qed
qed (simp add: playback_def)

text \<open>The first base layer arrives; ten passes of the loop start and nearly play it, the eleventh ends it.\<close>

lemma demo_passes:
  "\<exists>st p p'. session_reach (demo_manifest 5) (st\<lparr>player := p\<rparr>) \<and> session_reach (demo_manifest 5) (st\<lparr>player := p'\<rparr>) \<and>
     face_late (client st) (0, 0, 0) = Some 0 \<and> face_cancel (client st) (0, 0, 0) = Some 0 \<and>
     played p = 900 \<and> SD p = 1000 \<and> STATE p = 1 \<and> calc_calls p = [] \<and> played p < VIDEO_LEN p \<and>
     played p' = 1000 \<and> SD p' = 1000 \<and> calc_calls p' = [(0, replicate 6 (Some 0))]"
proof -
  let ?m = "demo_manifest 5" and ?s = "demo_sense 0 (- 1) 0" and ?ts = "map (\<lambda>n. (rat_of_nat n, rat_of_nat n)) [0..<10]"
  have "map_option (\<lambda>st. (15 \<in> outstanding st, map_option (\<lambda>st. (face_late (client st) (0, 0, 0),
        face_cancel (client st) (0, 0, 0),
        map_option (\<lambda>p. (played p, SD p, STATE p, calc_calls p, played p < VIDEO_LEN p,
          map_option (\<lambda>p. (played p, SD p, calc_calls p)) (playback [(10, 10)] p))) (playback ?ts (player st))))
      (on_stream_close ?m [?s] (demo_close 900) 15 st)))
      (on_stream_close ?m [?s] (demo_close 1) INI_STREAM_ID demo_fresh)
    = Some (True, Some (Some 0, Some 0, Some (900, 1000, 1, [], True, Some (1000, 1000, [(0, replicate 6 (Some 0))]))))"
    by code_simp
  then obtain s1 s2 p p' where s: "on_stream_close ?m [?s] (demo_close 1) INI_STREAM_ID demo_fresh = Some s1"
    "15 \<in> outstanding s1" "on_stream_close ?m [?s] (demo_close 900) 15 s1 = Some s2"
    and p: "playback ?ts (player s2) = Some p" "played p = 900" "SD p = 1000" "STATE p = 1" "calc_calls p = []"
      "played p < VIDEO_LEN p"
    and p': "playback [(10, 10)] p = Some p'" "played p' = 1000" "SD p' = 1000" "calc_calls p' = [(0, replicate 6 (Some 0))]"
    and c: "face_late (client s2) (0, 0, 0) = Some 0" "face_cancel (client s2) (0, 0, 0) = Some 0"
    by auto
  have ok: "has_req (demo_close t)" "senses_ok [?s]" for t
    by (simp_all add: demo_close_def senses_ok_def senses_in_def demo_sense_def)
  have 1: "session_reach ?m s1" by (rule session_reach.start [OF demo_fresh_ok _ _ s(1)]) (rule ok)+
  have "session_reach ?m s2" by (rule session_reach_step(2) [OF 1 s(2) _ _ s(3)]) (rule ok)+
  then have r: "session_reach ?m (s2\<lparr>player := p\<rparr>)" using playback_reach [OF p(1)] by simp
  from playback_reach [OF p'(1) r] r p(2-6) p'(2-4) c show ?thesis by blast
qed

lemma demo_playing:
  "\<exists>st. session_reach (demo_manifest 5) st \<and> played (player st) = 900 \<and> SD (player st) = 1000 \<and> STATE (player st) = 1 \<and>
     calc_calls (player st) = [] \<and> played (player st) < VIDEO_LEN (player st) \<and>
     face_late (client st) (0, 0, 0) = Some 0 \<and> face_cancel (client st) (0, 0, 0) = Some 0"
proof -
  obtain st p where "session_reach (demo_manifest 5) (st\<lparr>player := p\<rparr>)" "face_late (client st) (0, 0, 0) = Some 0"
    "face_cancel (client st) (0, 0, 0) = Some 0" "played p = 900" "SD p = 1000" "STATE p = 1" "calc_calls p = []"
    "played p < VIDEO_LEN p"
    using demo_passes by blast
  then show ?thesis by (intro exI [of _ "st\<lparr>player := p\<rparr>"]) simp
qed

lemma demo_played:
  "\<exists>st. session_reach (demo_manifest 5) st \<and> played (player st) = 1000 \<and> SD (player st) = 1000 \<and>
     calc_calls (player st) = [(0, replicate 6 (Some 0))] \<and>
     face_late (client st) (0, 0, 0) = Some 0 \<and> face_cancel (client st) (0, 0, 0) = Some 0"
proof -
  obtain st p where "session_reach (demo_manifest 5) (st\<lparr>player := p\<rparr>)" "face_late (client st) (0, 0, 0) = Some 0"
    "face_cancel (client st) (0, 0, 0) = Some 0" "played p = 1000" "SD p = 1000" "calc_calls p = [(0, replicate 6 (Some 0))]"
    using demo_passes by blast
  then show ?thesis by (intro exI [of _ "st\<lparr>player := p\<rparr>"]) simp
qed

theorem metric_per_segment_witness:
  "\<exists>st. session_reach (demo_manifest 5) st \<and> played (player st) = 1000 \<and> map fst (calc_calls (player st)) = [0]"
proof -
  obtain st where "session_reach (demo_manifest 5) st" "played (player st) = 1000" "SD (player st) = 1000"
    using demo_played by blast
  with metric_per_segment [OF this(1)] show ?thesis by auto
qed

end
