(* ===== verification/Session_Rounds.thy ===== *)
theory Session_Rounds
  imports Client_Session Round_Requests
begin

text \<open>
  The rounds of a session, counted. A round is a base round, one request for the base layer of the
  next segment, or an enhancement round, requests for tiles of one segment that has not had such a
  round before; the second decision of a round does not change its kind. So the number of the
  iteration is the number of base layers received plus the number of segments that are done, and
  both are bounded by the number of segments: the arrays that are indexed by the iteration suffice,
  no segment arrives that the video does not have, and the playback thread stays within its arrays.
\<close>

section \<open>Kinds of rounds\<close>

definition count_done :: "Client \<Rightarrow> int" where
  "count_done c = int (length (filter (\<lambda>b. b) (seg_EL_download c)))"

definition base_round :: "Manifest \<Rightarrow> Client \<Rightarrow> bool" where
  "base_round m c \<longleftrightarrow> requests_of c (iter_id c) = [stream_info (BL_seg_id c) 0 0] \<and> BL_seg_id c < mf_NO_SEG m"

definition enhancement_round :: "Client \<Rightarrow> bool" where
  "enhancement_round c \<longleftrightarrow> (\<forall>r \<in> set (requests_of c (iter_id c)). 0 < si_fid r \<and> si_sid r = EL_seg_id c) \<and>
     (requests_of c (iter_id c) \<noteq> [] \<longrightarrow> aget (seg_EL_download c) (EL_seg_id c) = Some False)"

definition rounds_inv :: "Manifest \<Rightarrow> Client \<Rightarrow> bool" where
  "rounds_inv m c \<longleftrightarrow> iter_id c = BL_seg_id c + count_done c \<and> BL_seg_id c \<le> mf_NO_SEG m \<and>
     (base_round m c \<or> enhancement_round c)"

section \<open>A decision\<close>

text \<open>Enhancement layers are requested for tiles of one segment.\<close>

definition el_round :: "int \<Rightarrow> int \<Rightarrow> Client \<Rightarrow> bool" where
  "el_round it e c \<longleftrightarrow> streams_inv c \<and> EL_seg_id c = e \<and>
     (\<forall>r \<in> set (requests_of c it). 0 < si_fid r \<and> si_sid r = e)"

lemma request_layer_round:
  assumes "request_layer m it sid w t l br dep c = Some (c', i)" "streams_inv c"
  shows "streams_inv c' \<and> requests_of c' it = requests_of c it @ [stream_info sid t l] \<and> EL_seg_id c' = EL_seg_id c"
proof -
  have "in_cells m (sid, t, l)" "in_iters m it"
    using assms(1) by (auto simp: request_layer_def set3_def push_iter_def split: if_splits bind_splits prod.splits)
  from request_layer_ok [OF assms(2) this, of w br dep] assms(1) request_layer_rest [OF assms(1)] show ?thesis
    by (auto simp: engine_rest_def)
qed

lemma request_layer_el_round:
  assumes "request_layer m it (EL_seg_id c) w t l br dep c = Some (c', i)" "0 < t" "el_round it e c"
  shows "el_round it e c'"
  using assms(2,3) request_layer_round [OF assms(1)] by (simp add: el_round_def)

lemmas el_round_defs = el_round_def streams_inv_def requests_of_def

interpretation elr: engine_invariant m it "{0<..}" "el_round it e" for m it e
proof (unfold_locales, goal_cases)
  case (1 t l br dep c c' i)
  then show ?case by (auto simp: el_request_def intro: request_layer_el_round)
qed (simp_all add: el_round_defs)

lemma el_round_mask: "el_round it e c \<Longrightarrow> el_round it e (c\<lparr>LAST_ITER_MASK := n\<rparr>)"
  by (simp add: el_round_defs)

lemma request_base_round:
  assumes "request_base m it c = Some c'" "streams_inv c" "iter_req_stream c it = []"
  shows "requests_of c' it = [stream_info (BL_seg_id c) 0 0] \<and> req_s_num c' = 1"
proof -
  obtain c1 i where c1: "request_layer m it (BL_seg_id c) 20 0 0 (mf_base_layer_br m) 0
       (c\<lparr>iter_tile_version := (iter_tile_version c)(it := 0)\<rparr>) = Some (c1, i)"
    and c': "c' = c1\<lparr>req_s_num := 1, fin_s_num := 0\<rparr>"
    using assms(1) by (auto simp: request_base_def set_tile_version_def split: if_splits bind_splits)
  have "streams_inv (c\<lparr>iter_tile_version := (iter_tile_version c)(it := 0)\<rparr>)"
    using assms(2) by (simp add: streams_inv_def)
  from request_layer_round [OF c1 this] assms(3) show ?thesis by (simp add: c' requests_of_def)
qed

lemma el_half_round:
  assumes "el_half m it s enh c0 = Some (d, c')" "req_s_num c0 = 0"
    and enh: "\<And>c c' e. enh c = Some c' \<Longrightarrow> el_round it e c \<Longrightarrow> el_round it e c'"
    and start: "streams_inv c0" "requests_of c0 it = []"
  shows "requests_of c' it = [] \<or>
    (\<exists>e. el_round it e c' \<and> aget (seg_EL_download c0) e = Some False)"
proof -
  have c0: "el_round it (playing s + 1) (c0\<lparr>EL_seg_id := playing s + 1\<rparr>)"
    using start by (simp add: el_round_defs)
  have fin: "requests_of x' it = requests_of x it \<and> (el_round it e x' \<longleftrightarrow> el_round it e x)"
    if "finish_decision it x = (d, x')" for x x' e
    using that by (auto simp: finish_decision_def el_round_defs split: if_splits)
  consider (none) "c' = c0" | (skip) "finish_decision it (c0\<lparr>EL_seg_id := playing s + 1\<rparr>) = (d, c')"
    | (ask) c2 where "aget (seg_EL_download c0) (playing s + 1) = Some False"
      "enh (c0\<lparr>EL_seg_id := playing s + 1\<rparr>) = Some c2" "finish_decision it c2 = (d, c')"
    using assms(1,2) by (auto simp: el_half_def Let_def split: if_splits bind_splits)
  then show ?thesis
  proof cases
    case none
    then show ?thesis using start(2) by simp
  next
    case skip
    have "requests_of (c0\<lparr>EL_seg_id := playing s + 1\<rparr>) it = []" using start(2) by (simp add: requests_of_def)
    then show ?thesis using fin [OF skip] by simp
  next
    case ask
    then show ?thesis using fin [OF ask(3)] enh [OF ask(2) c0] by blast
  qed
qed

lemma engine_rounds:
  assumes "engine_for m it s c = Some (d, c')" "senses_in {0<..} s" "streams_inv c" "iter_req_stream c it = []"
    "iter_id c = it"
  shows "base_round m c' \<or> enhancement_round c'"
  using assms(1)
proof (cases rule: engine_split)
  case (split c0 c1 enh)
  have kept: "kept it c' = kept it c" by (rule kept.engine_P [OF assms(1) senses_in_UNIV HOL.refl])
  then have k: "BL_seg_id c' = BL_seg_id c" "iter_id c' = it" "seg_EL_download c' = seg_EL_download c"
    using assms(5) by (simp_all add: kept_def)
  have start: "streams_inv c0" "iter_req_stream c0 it = []" "req_s_num c0 = 0" "BL_seg_id c0 = BL_seg_id c"
    "seg_EL_download c0 = seg_EL_download c"
    using split(1) assms(3,4) by auto
  have enh: "el_round it e x'" if "enh x = Some x'" "el_round it e x" for e x x'
    using split(4)
  proof
    assume "enh = (\<lambda>c. request_enhancement m it s (c\<lparr>LAST_ITER_MASK := 1\<rparr>))"
    with that(1) have "request_enhancement m it s (x\<lparr>LAST_ITER_MASK := 1\<rparr>) = Some x'" by simp
    then show ?thesis by (rule elr.enhancement_P(1) [OF _ assms(2) el_round_mask [OF that(2)]])
  next
    assume "enh = request_enhancement_UTD m it s"
    with that(1) have "request_enhancement_UTD m it s x = Some x'" by simp
    then show ?thesis by (rule elr.enhancement_P(2) [OF _ assms(2) that(2)])
  qed
  from split(2) show ?thesis
  proof
    assume "\<exists>x k. request_base m it c0 = Some x \<and> BL_seg_id c0 < mf_NO_SEG m \<and> c1 = x\<lparr>LAST_ITER_MASK := k\<rparr>"
    then obtain x k where x: "request_base m it c0 = Some x" "BL_seg_id c0 < mf_NO_SEG m" "c1 = x\<lparr>LAST_ITER_MASK := k\<rparr>"
      by blast
    note r = request_base_round [OF x(1) start(1,2)]
    then have "requests_of c' it = requests_of x it"
      using split(3) by (auto simp: x(3) el_half_def finish_decision_def requests_of_def split: if_splits)
    then have "base_round m c'" using r k x(2) start(4) by (simp add: base_round_def)
    then show ?thesis ..
  next
    assume "c1 = c0"
    with split(3) have half: "el_half m it s enh c0 = Some (d, c')" by simp
    have "requests_of c0 it = []" using start(2) by (simp add: requests_of_def)
    from el_half_round [OF half start(3) _ start(1) this] have "requests_of c' it = [] \<or>
        (\<exists>e. el_round it e c' \<and> aget (seg_EL_download c0) e = Some False)"
      using enh by blast
    then have "enhancement_round c'"
      using k start(5) by (auto simp: enhancement_round_def el_round_def)
    then show ?thesis ..
  qed
qed

lemma decide_rounds:
  assumes "decide (engine_for m it) ss c = Some (d, c')" "\<And>s. s \<in> set ss \<Longrightarrow> senses_in {0<..} s"
    "streams_inv c" "iter_req_stream c it = []" "iter_id c = it"
  shows "base_round m c' \<or> enhancement_round c'"
  using assms
proof (induction ss arbitrary: c)
  case Nil
  then show ?case by (simp add: enhancement_round_def requests_of_def)
next
  case (Cons s ss)
  from Cons.prems(1) obtain d1 c1 where e: "engine_for m it s c = Some (d1, c1)"
    and rest: "(if d1 = Wait then decide (engine_for m it) ss c1 else Some (d1, c1)) = Some (d, c')"
    by (auto split: option.splits)
  show ?case
  proof (cases "d1 = Wait")
    case False
    with rest engine_rounds [OF e _ Cons.prems(3-5)] Cons.prems(2) show ?thesis by simp
  next
    case True
    have "iter_id c1 = it"
      using kept.engine_P [OF e senses_in_UNIV HOL.refl] Cons.prems(5) by (simp add: kept_def)
    moreover have "req_s_num c1 = 0"
      using True engine_decided [OF e Cons.prems(3,4)] by (auto simp: decided_def booked_def)
    ultimately show ?thesis
      using Cons.IH rest True Cons.prems(2) decided_empty engine_decided [OF e Cons.prems(3,4)] by simp
  qed
qed

section \<open>Counting\<close>

lemma filter_update:
  "k < length xs \<Longrightarrow> \<not> xs ! k \<Longrightarrow> length (filter (\<lambda>b. b) (xs[k := True])) = Suc (length (filter (\<lambda>b. b) xs))"
  by (induction xs arbitrary: k) (auto simp: nth_Cons split: nat.splits)

lemma count_done_update:
  "aget (seg_EL_download c) k = Some False \<Longrightarrow> seg_EL_download c' = (seg_EL_download c)[nat k := True] \<Longrightarrow>
     count_done c' = count_done c + 1"
  by (auto simp: count_done_def aget_Some_iff filter_update)

lemma filter_room:
  "k < length xs \<Longrightarrow> \<not> xs ! k \<Longrightarrow> length (filter (\<lambda>b. b) xs) < length xs"
  using filter_update [of k xs] length_filter_le [of "\<lambda>b. b" "xs[k := True]"] by simp

text \<open>The part of the client the count depends on.\<close>

definition rounds_view where
  "rounds_view c = (iter_id c, BL_seg_id c, EL_seg_id c, seg_EL_download c, iter_req_stream c, RequestStreamInfo c)"

lemma rounds_inv_cong: "rounds_view c' = rounds_view c \<Longrightarrow> rounds_inv m c' = rounds_inv m c"
  by (simp add: rounds_view_def rounds_inv_def count_done_def base_round_def enhancement_round_def requests_of_def)

lemma run_engine_rounds:
  assumes "run_engine m ss st = Some st'" "senses_ok ss" "streams_inv (client st)"
    and "iter_req_stream (client st) (iter_id (client st)) = []"
    and "iter_id (client st) = BL_seg_id (client st) + count_done (client st)" "BL_seg_id (client st) \<le> mf_NO_SEG m"
  shows "rounds_inv m (client st')"
proof -
  let ?c = "client st" and ?it = "iter_id (client st)"
  obtain d c where r: "decide (engine_for m ?it) ss ?c = Some (d, c)" and st': "client st' = c"
    using assms(1) by (auto simp: run_engine_def Let_def split: bind_splits prod.splits)
  have "kept ?it c = kept ?it ?c" by (rule kept.decide_P [OF r senses_in_UNIV HOL.refl])
  then have "BL_seg_id c = BL_seg_id ?c" "iter_id c = ?it" "count_done c = count_done ?c"
    by (simp_all add: kept_def count_done_def)
  moreover have "base_round m c \<or> enhancement_round c"
    using decide_rounds [OF r _ assms(3,4) HOL.refl] assms(2) by (simp add: senses_ok_def)
  ultimately show ?thesis using assms(5,6) by (simp add: rounds_inv_def st')
qed

section \<open>Every step keeps the count\<close>

lemma record_stream_view:
  "record_stream m ev i info st = Some st' \<Longrightarrow> rounds_view (client st') = rounds_view (client st)"
  by (auto simp: record_stream_def rounds_view_def Let_def split: if_splits bind_splits)

lemma outstanding_request:
  assumes "i \<in> outstanding st" "RequestStreamInfo (client st) i = Some info"
  shows "info \<in> set (requests_of (client st) (iter_id (client st)))"
  using assms by (force simp: outstanding_def requests_of_def)

text \<open>What the stream of a round says about its kind.\<close>

lemma rounds_inv_stream:
  assumes "rounds_inv m c" "info \<in> set (requests_of c (iter_id c))"
  shows "(si_fid info = 0 \<and> base_round m c) \<or>
    (0 < si_fid info \<and> enhancement_round c \<and> aget (seg_EL_download c) (si_sid info) = Some False)"
  using assms by (auto simp: rounds_inv_def base_round_def enhancement_round_def)

lemma end_round_rounds:
  assumes "end_round m ev info st = Some st'" "rounds_inv m (client st)"
    and "info \<in> set (requests_of (client st) (iter_id (client st)))"
  shows "iter_id (client st') = BL_seg_id (client st') + count_done (client st') \<and> BL_seg_id (client st') \<le> mf_NO_SEG m"
proof -
  let ?c = "client st" and ?c' = "client st'"
  have f: "iter_id ?c' = iter_id ?c + 1" "BL_seg_id ?c' = BL_seg_id ?c + (if si_fid info = 0 then 1 else 0)"
    "si_fid info = 0 \<Longrightarrow> seg_EL_download ?c' = seg_EL_download ?c"
    "si_fid info > 0 \<Longrightarrow> seg_EL_download ?c' = (seg_EL_download ?c)[nat (si_sid info) := True]"
    using assms(1) by (auto simp: end_round_def Let_def aset_Some_iff split: if_splits bind_splits)
  from rounds_inv_stream [OF assms(2,3)] show ?thesis
  proof (elim disjE conjE)
    assume "si_fid info = 0" "base_round m ?c"
    then show ?thesis using f assms(2) by (simp add: rounds_inv_def base_round_def count_done_def)
  next
    assume "0 < si_fid info" "aget (seg_EL_download ?c) (si_sid info) = Some False"
    then show ?thesis using f(1,2) count_done_update [OF _ f(4)] assms(2) by (simp add: rounds_inv_def)
  qed
qed

lemma close_rounds:
  assumes "session_inv m st" "rounds_inv m (client st)" "i \<in> outstanding st" "senses_ok ss"
    and "on_stream_close m ss ev i st = Some st'"
  shows "rounds_inv m (client st')"
  using assms(1,3,5)
proof (cases rule: on_stream_close_cases)
  case ignored
  with assms(2) show ?thesis by simp
next
  case (open_round info s0)
  with assms(2) rounds_inv_cong [OF record_stream_view [OF open_round(6)]] show ?thesis by simp
next
  case (end_of_round info s0 s1 s2)
  have info: "RequestStreamInfo (client s0) i = Some info" using end_of_round by simp
  note view = record_stream_view [OF end_of_round(6)]
  have r1: "rounds_inv m (client s1)" using assms(2) rounds_inv_cong [OF view] end_of_round(3) by simp
  have "info \<in> set (requests_of (client s1) (iter_id (client s1)))"
    using outstanding_request [OF end_of_round(2) info] view by (simp add: rounds_view_def requests_of_def)
  note counts = end_round_rounds [OF end_of_round(7) r1 this]
  note rec = record_stream_inv [OF end_of_round(6,1,2) info]
  have "0 \<le> BL_seg_id (client s1)" using rec end_of_round(1) by (simp add: session_inv_def)
  with rec end_round_inv [OF end_of_round(7)] counts show ?thesis
    by (intro run_engine_rounds [OF end_of_round(8) assms(4)]) simp_all
qed

text \<open>The second decision of a round is made in an enhancement round only, for the same segment.\<close>

interpretation el_frame: frame_invariant m it "{0<..}" "el_round it e" for m it e
proof (unfold_locales, goal_cases)
  case (1 t l br c c' i)
  then show ?case by (auto intro: request_layer_el_round)
qed (simp_all add: el_round_defs)

lemma frame_rounds:
  assumes "session_inv m st" "rounds_inv m (client st)" "i \<in> outstanding st" "set (fr_viewport fr) \<subseteq> {0<..}"
    and "recv_data m fr i st = Some st'"
  shows "rounds_inv m (client st')"
  using assms(5)
proof (cases rule: recv_data_cases)
  case none
  with assms(2) show ?thesis by simp
next
  case (tile info s1 s2)
  have view: "rounds_view (client s2) = rounds_view (client st)"
    using end_late_frame [OF tile(8)] tile(4) by (auto simp: rounds_view_def cancel_round_def)
  then have r2: "rounds_inv m (client s2)" using assms(2) rounds_inv_cong by blast
  show ?thesis
  proof (cases "st' = s2")
    case True
    with r2 show ?thesis by simp
  next
    case False
    let ?c = "client s2" and ?c' = "client st'" and ?it = "iter_id (client s2)"
    have tr: "trung_adaptation m fr ?it (face_dow_data s2) ?c = Some ?c'" "si_fid info > 0"
      using tile(9) False by (auto simp: redecide_def Let_def split: if_splits bind_splits)
    have "info \<in> set (requests_of ?c ?it)"
      using outstanding_request [OF assms(3) tile(1)] view by (simp add: rounds_view_def requests_of_def)
    from rounds_inv_stream [OF r2 this] tr(2) have e: "enhancement_round ?c"
      "aget (seg_EL_download ?c) (EL_seg_id ?c) = Some False" "requests_of ?c ?it \<noteq> []"
      using \<open>info \<in> set (requests_of ?c ?it)\<close> by (auto simp: enhancement_round_def)
    have sv: "streams_inv ?c"
      using assms(1) end_late_frame [OF tile(8)] tile(4)
      by (auto simp: session_inv_def streams_inv_def cancel_round_def)
    then have "el_round ?it (EL_seg_id ?c) ?c" using e(1) by (simp add: el_round_def enhancement_round_def)
    note el = el_frame.trung_P [OF tr(1) assms(4) this]
    have k: "BL_seg_id ?c' = BL_seg_id ?c" "iter_id ?c' = ?it" "seg_EL_download ?c' = seg_EL_download ?c"
      using rest.trung_P [OF tr(1) subset_UNIV HOL.refl] by (simp_all add: frame_rest_def engine_rest_def)
    with el e(2) have "enhancement_round ?c'" by (auto simp: enhancement_round_def el_round_def)
    with k r2 show ?thesis by (simp add: rounds_inv_def count_done_def)
  qed
qed

lemma start_rounds:
  assumes "fresh_session m b st" "has_req ev" "senses_ok ss" "on_stream_close m ss ev INI_STREAM_ID st = Some st'"
  shows "rounds_inv m (client st')"
proof -
  from start_run [OF assms] obtain s1 where s1:
    "run_engine m ss (st\<lparr>client := (client st)\<lparr>cur_req_stream_id := INI_STREAM_ID, BL_seg_id := 0\<rparr>\<rparr>) = Some s1"
    "client st' = client s1" by blast
  have "rounds_inv m (client s1)"
    using assms(1) [unfolded fresh_session_def]
    by (intro run_engine_rounds [OF s1(1) assms(3)]) (simp_all add: streams_inv_def count_done_def)
  with s1(2) show ?thesis by simp
qed

lemma session_step_rounds:
  "session_step m st st' \<Longrightarrow> session_inv m st \<Longrightarrow> rounds_inv m (client st) \<Longrightarrow> rounds_inv m (client st')"
proof (induction rule: session_step.induct)
  case (closed i st ev ss st')
  show ?case by (rule close_rounds [OF closed(5,6,1,3,4)])
next
  case (frame i st fr st')
  show ?case by (rule frame_rounds [OF frame(4,5,1-3)])
next
  case (promise multiply_1 pp i promised st st')
  from promise_frame [OF promise(1)] have "rounds_view (client st') = rounds_view (client st)"
    by (auto simp: rounds_view_def)
  with promise(3) show ?case using rounds_inv_cong by blast
next
  case (pushed st i ss ev st')
  with pushed_frame [OF pushed(3,1,2)] show ?case by simp
qed simp

theorem session_reach_rounds: "session_reach m st \<Longrightarrow> rounds_inv m (client st)"
proof (induction rule: session_reach.induct)
  case (step st st')
  then show ?case by (intro session_step_rounds [OF step(2) session_reach_inv])
qed (rule start_rounds)

section \<open>Known streams lie in the arrays\<close>

definition known_cells :: "Manifest \<Rightarrow> Client \<Rightarrow> bool" where
  "known_cells m c \<longleftrightarrow> (\<forall>i info. RequestStreamInfo c i = Some info \<longrightarrow> in_cells m (cell_of info))"

lemma request_layer_cells:
  assumes "request_layer m it sid w t l br dep c = Some (c', i)" "known_cells m c"
  shows "known_cells m c'"
  using assms
  by (cases "uri_ok c") (auto simp: request_layer_def known_cells_def cell_of_def set3_def map_insert_def
      send_get_request_def Let_def split: bind_splits if_splits)

interpretation cells: decision_invariant m it UNIV "known_cells m" for m it
proof (unfold_locales, goal_cases)
  case (1 t l br dep c c' i)
  then show ?case by (simp add: el_request_def request_layer_cells)
next
  case (8 c c')
  then show ?case
    by (auto simp: request_base_def set_tile_version_def split: if_splits bind_splits dest!: request_layer_cells)
      (simp_all add: known_cells_def)
qed (simp_all add: known_cells_def reset_round_def)

interpretation cells_frame: frame_invariant m it UNIV "known_cells m" for m it
  by unfold_locales (simp_all add: request_layer_cells, simp_all add: known_cells_def)

lemma known_cells_cong: "RequestStreamInfo c' = RequestStreamInfo c \<Longrightarrow> known_cells m c' = known_cells m c"
  by (simp add: known_cells_def)

lemma run_engine_cells:
  assumes "run_engine m ss st = Some st'" "known_cells m (client st)"
  shows "known_cells m (client st')"
  using assms cells.decide_P [OF _ senses_in_UNIV]
  by (auto simp: run_engine_def Let_def split: bind_splits prod.splits)

lemma end_round_view: "end_round m ev info st = Some st' \<Longrightarrow> RequestStreamInfo (client st') = RequestStreamInfo (client st)"
  by (auto simp: end_round_def Let_def split: if_splits bind_splits)

lemma session_step_cells:
  "session_step m st st' \<Longrightarrow> session_inv m st \<Longrightarrow> known_cells m (client st) \<Longrightarrow> known_cells m (client st')"
proof (induction rule: session_step.induct)
  case (closed i st ev ss st')
  from closed(5,1,4) show ?case
  proof (cases rule: on_stream_close_cases)
    case ignored
    with closed show ?thesis by simp
  next
    case (open_round info s0)
    with record_stream_view [OF open_round(6)] closed(6) show ?thesis
      by (simp add: rounds_view_def known_cells_def)
  next
    case (end_of_round info s0 s1 s2)
    with record_stream_view [OF end_of_round(6)] end_round_view [OF end_of_round(7)] closed(6) show ?thesis
      by (intro run_engine_cells [OF end_of_round(8)]) (simp add: rounds_view_def known_cells_def)
  qed
next
  case (frame i st fr st')
  from frame(3) show ?case
  proof (cases rule: recv_data_cases)
    case none
    with frame show ?thesis by simp
  next
    case (tile info s1 s2)
    have "RequestStreamInfo (client s2) = RequestStreamInfo (client st)"
      using end_late_frame [OF tile(8)] tile(4) by (auto simp: cancel_round_def)
    with frame(5) have "known_cells m (client s2)" by (simp add: known_cells_def)
    with redecide_frame [OF tile(9)] cells_frame.trung_P [OF _ subset_UNIV] show ?thesis by auto
  qed
next
  case (promise multiply_1 pp i promised st st')
  with promise_frame [OF promise(1)] show ?case by (auto simp: known_cells_def)
next
  case (pushed st i ss ev st')
  with pushed_frame [OF pushed(3,1,2)] show ?case by simp
qed simp

theorem session_reach_cells: "session_reach m st \<Longrightarrow> known_cells m (client st)"
proof (induction rule: session_reach.induct)
  case (start b st ev ss st')
  then obtain s1 where s1: "run_engine m ss (st\<lparr>client := (client st)\<lparr>cur_req_stream_id := INI_STREAM_ID, BL_seg_id := 0\<rparr>\<rparr>)
    = Some s1" "client st' = client s1" using start_run by blast
  have "known_cells m (client s1)"
    using start(1) by (intro run_engine_cells [OF s1(1)]) (simp add: fresh_session_def known_cells_def)
  with s1(2) show ?case by simp
next
  case (step st st')
  then show ?case by (intro session_step_cells [OF step(2) session_reach_inv])
qed

section \<open>What follows for every session\<close>

lemma count_done_bounds:
  "0 \<le> count_done c" "count_done c \<le> int (length (seg_EL_download c))"
  "aget (seg_EL_download c) k = Some False \<Longrightarrow> count_done c < int (length (seg_EL_download c))"
proof -
  show "0 \<le> count_done c" "count_done c \<le> int (length (seg_EL_download c))"
    by (simp_all add: count_done_def)
  show "count_done c < int (length (seg_EL_download c))" if "aget (seg_EL_download c) k = Some False"
    using that filter_room [of "nat k" "seg_EL_download c"] by (auto simp: count_done_def aget_Some_iff nat_less_iff)
qed

text \<open>
  C5: In every state of a session the number of the iteration is the number of base layers received
  plus the number of segments whose enhancement round is over, at most twice the number of segments, and less
  while a round is open. So the arrays of \<^verbatim>\<open>5 * NO_SEG\<close> iterations never overflow.
\<close>

theorem session_iterations:
  assumes "session_reach m st"
  shows "iter_id (client st) = BL_seg_id (client st) + count_done (client st) \<and>
    BL_seg_id (client st) \<le> mf_NO_SEG m \<and> count_done (client st) \<le> mf_NO_SEG m \<and>
    (req_s_num (client st) > 0 \<longrightarrow> iter_id (client st) < 2 * mf_NO_SEG m)"
proof -
  let ?c = "client st"
  note inv = session_reach_inv [OF assms] and r = session_reach_rounds [OF assms]
  have len: "int (length (seg_EL_download ?c)) = mf_NO_SEG m"
    using inv by (simp add: session_inv_def session_shape_def)
  have "iter_id ?c < 2 * mf_NO_SEG m" if "req_s_num ?c > 0"
  proof -
    have "requests_of ?c (iter_id ?c) \<noteq> []"
      using inv that by (auto simp: session_inv_def round_open_def requests_of_def)
    then have "base_round m ?c \<or> aget (seg_EL_download ?c) (EL_seg_id ?c) = Some False"
      using r by (auto simp: rounds_inv_def enhancement_round_def)
    then show ?thesis
      using r len count_done_bounds(2) [of ?c] count_done_bounds(3) [of ?c "EL_seg_id ?c"]
      by (auto simp: rounds_inv_def base_round_def)
  qed
  with r len count_done_bounds(2) [of ?c] show ?thesis by (simp add: rounds_inv_def)
qed

text \<open>
  C10: A round of a session asks either for the base layer of the next segment alone, or for layers of
  tiles of one segment that has had no enhancement round before; a second decision within the round
  does not mix the two. So each segment has at most one enhancement round.
\<close>

theorem session_round_kind:
  assumes "session_reach m st" "r \<in> set (requests_of (client st) (iter_id (client st)))"
  shows "if si_fid r = 0
    then requests_of (client st) (iter_id (client st)) = [stream_info (BL_seg_id (client st)) 0 0]
    else 0 < si_fid r \<and> si_sid r = EL_seg_id (client st) \<and>
      aget (seg_EL_download (client st)) (EL_seg_id (client st)) = Some False"
  using rounds_inv_stream [OF session_reach_rounds [OF assms(1)] assms(2)] assms(2)
  by (auto simp: base_round_def enhancement_round_def)

text \<open>
  The network thread never reports more base layers than the video has segments, so no pass of the
  playback loop leaves the arrays of the player.
\<close>

lemma session_tick_defined:
  assumes "session_reach m st" "played (player st) < VIDEO_LEN (player st)"
  shows "\<exists>p. tick now1 now2 (player st) = Some p \<and> session_reach m (st\<lparr>player := p\<rparr>)"
proof -
  let ?n = "nat (BL_seg_id (client st))"
  have inv: "session_inv m st" and r: "BL_seg_id (client st) \<le> mf_NO_SEG m"
    using session_reach_inv [OF assms(1)] session_reach_rounds [OF assms(1)] by (simp_all add: rounds_inv_def)
  then have p: "player_inv ?n (player st)" "NO_SEG (player st) = mf_NO_SEG m"
    by (auto simp: session_inv_def session_shape_def player_inv_def player_ready_def)
  have "\<not> NO_SEG (player st) < int ?n" using r p(2) inv by (simp add: session_inv_def)
  with tick_inv [OF p(1) assms(2), of now1 now2] obtain p where "tick now1 now2 (player st) = Some p"
    by (auto split: if_splits)
  with session_reach_step(1) [OF assms this] show ?thesis by blast
qed

text \<open>Between two rounds: all streams of the round before have closed, the next decision is due.\<close>

definition between_rounds :: "Manifest \<Rightarrow> Session \<Rightarrow> bool" where
  "between_rounds m st \<longleftrightarrow> session_shape m st \<and> 0 \<le> BL_seg_id (client st) \<and> streams_inv (client st) \<and>
     iter_req_stream (client st) (iter_id (client st)) = [] \<and> in_iters m (iter_id (client st))"

lemma round_in_iters:
  assumes "session_inv m st" "rounds_inv m (client st)"
  shows "in_iters m (iter_id (client st))"
proof -
  let ?c = "client st"
  have "0 < mf_NO_SEG m" "int (length (seg_EL_download ?c)) = mf_NO_SEG m" "0 \<le> BL_seg_id ?c"
    using assms(1) player_inv_allD(10) [of "nat (BL_seg_id ?c)" "player st"] player_inv_allD(1) [of "nat (BL_seg_id ?c)" "player st"]
    by (auto simp: session_inv_def session_shape_def player_ready_def)
  then show ?thesis
    using assms(2) count_done_bounds(1,2) [of ?c] by (simp add: in_iters_def rounds_inv_def)
qed

lemma close_defined:
  assumes "session_inv m st" "rounds_inv m (client st)" "known_cells m (client st)" "i \<in> outstanding st"
    and "start_time ev < now_time ev"
  shows "\<exists>st' over. close_stream m ev i st = Some (st', over) \<and> (over \<longrightarrow> between_rounds m st')"
proof -
  let ?c = "client st"
  note inv = assms(1)
  obtain info where info: "RequestStreamInfo ?c i = Some info" using outstanding_known(1) [OF inv assms(4)] by blast
  have cell: "in_cells m (cell_of info)" using assms(3) info by (simp add: known_cells_def)
  have "session_ok m st" using inv round_in_iters [OF assms(1,2)] by (simp add: session_ok_def session_inv_def)
  from record_stream_ok [OF this info cell] obtain s1 where
    s1: "record_stream m ev i info st = Some s1" "session_ok m s1" "close_rest s1 = close_rest st" by blast
  note view = record_stream_view [OF s1(1)] and rec = record_stream_inv [OF s1(1) inv assms(4) info]
  have r1: "rounds_inv m (client s1)" using assms(2) rounds_inv_cong [OF view] by simp
  have mem: "info \<in> set (requests_of (client s1) (iter_id (client s1)))"
    using outstanding_request [OF assms(4) info] view by (simp add: rounds_view_def requests_of_def)
  have bl: "0 \<le> BL_seg_id (client s1)" using rec inv by (simp add: session_inv_def)
  have "0 \<le> BL_seg_id (client s1) \<and> BL_seg_id (client s1) < mf_NO_SEG m" if "si_fid info = 0"
    using rounds_inv_stream [OF r1 mem] that bl by (auto simp: base_round_def)
  from end_round_ok [OF s1(2) cell assms(5) this] obtain s2 where s2: "end_round m ev info s1 = Some s2" by blast
  from rec bl end_round_inv [OF s2] have e: "session_shape m s2 \<and> 0 \<le> BL_seg_id (client s2) \<and> streams_inv (client s2) \<and>
      iter_req_stream (client s2) (iter_id (client s2)) = []"
    by simp
  moreover have "0 < mf_NO_SEG m" using cell by (auto simp: in_cells_def split: prod.splits)
  then have "in_iters m (iter_id (client s2))"
    using end_round_rounds [OF s2 r1 mem] e count_done_bounds(1,2) [of "client s2"]
    by (simp add: in_iters_def session_shape_def)
  ultimately have "between_rounds m s2" by (simp add: between_rounds_def)
  then show ?thesis by (auto simp: close_stream_def info s1(1) s2)
qed

text \<open>
  C19: In a session the bookkeeping of every stream that closes is defined: the metrics of its tile, the
  arrays of the iteration and, at the end of a round, those of the base layers stay in bounds.
\<close>

theorem session_close_defined:
  assumes "session_reach m st" "i \<in> outstanding st" "start_time ev < now_time ev"
  shows "close_stream m ev i st \<noteq> None"
  using close_defined [OF session_reach_inv session_reach_rounds session_reach_cells, OF assms(1) assms(1) assms(1) assms(2,3)]
  by auto

section \<open>A session of algorithm 5 never gets stuck\<close>

text \<open>
  The manifest lists enough layers with bitrates that do not decrease; the engine is asked while a
  segment of the video plays, or before the first, and sees some tiles, whose pixels it knows.
\<close>

definition layered :: "Manifest \<Rightarrow> bool" where
  "layered m \<longleftrightarrow> 0 \<le> mf_EL_VER_NUM m \<and> mf_EL_VER_NUM m \<le> int (length (mf_enha_layer_br m)) \<and>
     sorted (mf_enha_layer_br m) \<and> 0 < mf_NO_FACE m"

definition sense_fits :: "Manifest \<Rightarrow> Sense \<Rightarrow> bool" where
  "sense_fits m s \<longleftrightarrow> - 1 \<le> playing s \<and> playing s < mf_NO_SEG m \<and> viewport s \<noteq> [] \<and>
     known_tiles (tile_pixel s) (viewport s) \<and> (\<forall>t \<in> set (viewport s). t < mf_NO_FACE m)"

lemma MMSP_ALG5_defined:
  assumes "mf_ALG m = 5" "layered m" "sense_fits m s" "in_iters m it" "streams_inv c" "iter_req_stream c it = []"
    and "0 \<le> BL_seg_id c" "int (length (seg_EL_download c)) = mf_NO_SEG m"
  shows "\<exists>d c'. engine_for m it s c = Some (d, c')"
proof -
  let ?c = "buffering_mode m (buff_sec s) (reset_round c)"
  have eng: "engine_for m it s c = MMSP m it s c" using assms(1) by (simp add: engine_for_def)
  consider (base) "BL_seg_id c < mf_NO_SEG m" "wants_base_MMSP m (buff_sec s) (buffering_mode m (buff_sec s) c)"
    | (el) "el_turn m s c"
    | (rest) "\<not> (BL_seg_id c < mf_NO_SEG m \<and> wants_base_MMSP m (buff_sec s) (buffering_mode m (buff_sec s) c))"
      "playing s = mf_NO_SEG m - 1 \<or> aget (seg_EL_download c) (playing s + 1) = Some True"
  proof (cases "playing s = mf_NO_SEG m - 1")
    case False
    with assms(3,8) have "aget (seg_EL_download c) (playing s + 1) = Some (seg_EL_download c ! nat (playing s + 1))"
      "playing s + 1 < mf_NO_SEG m"
      by (auto simp: sense_fits_def aget_def)
    then show thesis using base el rest by (cases "seg_EL_download c ! nat (playing s + 1)") (auto simp: el_turn_def)
  qed (use base rest in blast)
  then show ?thesis
  proof cases
    case base
    with base_layer_round [of c m it s] assms show ?thesis by (auto simp: layered_def)
  next
    case el
    let ?d = "?c\<lparr>EL_seg_id := playing s + 1, LAST_ITER_MASK := 1\<rparr>"
    have "round_ok m it s (EL_seg_id ?d)" "streams_inv ?d"
      using el assms(2-5) by (auto simp: round_ok_def el_turn_def layered_def sense_fits_def)
    from request_by_priority_ALG5 [OF assms(1) this] obtain c' where "request_by_priority m it s ?d = Some c'" by blast
    then show ?thesis
      using assms(1) by (simp add: eng MMSP_el_turn [OF el] request_enhancement_cases finish_decision_def)
  next
    case rest
    then show ?thesis by (auto simp: eng MMSP_def Let_def finish_decision_def)
  qed
qed

lemma decide_ALG5_defined:
  assumes "mf_ALG m = 5" "layered m" "\<forall>s \<in> set ss. sense_fits m s" "in_iters m it" "streams_inv c"
    "iter_req_stream c it = []" "0 \<le> BL_seg_id c" "int (length (seg_EL_download c)) = mf_NO_SEG m"
  shows "\<exists>d c'. decide (engine_for m it) ss c = Some (d, c')"
  using assms(3,5-8)
proof (induction ss arbitrary: c)
  case (Cons s ss)
  have "sense_fits m s" using Cons.prems(1) by simp
  from MMSP_ALG5_defined [OF assms(1,2) this assms(4) Cons.prems(2-5)]
  obtain d1 c1 where e: "engine_for m it s c = Some (d1, c1)" by blast
  have "kept it c1 = kept it c" by (rule kept.engine_P [OF e senses_in_UNIV HOL.refl])
  then have k: "BL_seg_id c1 = BL_seg_id c" "seg_EL_download c1 = seg_EL_download c" by (simp_all add: kept_def)
  note d = engine_decided [OF e Cons.prems(2,3)]
  show ?case
  proof (cases "d1 = Wait")
    case True
    with d have "req_s_num c1 = 0" by (auto simp: decided_def booked_def)
    with d decided_empty have "streams_inv c1" "iter_req_stream c1 it = []" by blast+
    with Cons.IH [of c1] Cons.prems k True show ?thesis by (simp add: e)
  next
    case False
    then show ?thesis by (simp add: e)
  qed
qed simp

text \<open>
  C1: The bookkeeping of a session of algorithm 5 never gets stuck: whichever stream of the round closes
  next, and whatever a deadline that is not assigned yet holds, the callback with the decision
  that follows the end of a round reads and writes inside its arrays and divides by no zero, up to
  console output, and leads to another state of the session. Of the output only the loop that prints 25
  pixel counts can leave its array: it stays inside exactly if the video has at least 25 tiles, which
  the shipped configurations have not.
\<close>

theorem session_ALG5_goes_on:
  assumes "session_reach m st" "mf_ALG m = 5" "layered m" "i \<in> outstanding st" "has_req ev"
    and "start_time ev < now_time ev" "senses_ok ss" "\<forall>s \<in> set ss. sense_fits m s"
  shows "(\<exists>st'. on_stream_close m ss ev i st = Some st' \<and> session_reach m st') \<and>
    (\<forall>s \<in> set ss. int (length (tile_pixel s)) = mf_NO_TILE m \<longrightarrow> (print_pixels s \<noteq> None \<longleftrightarrow> 25 \<le> mf_NO_TILE m))"
proof -
  let ?c = "client st"
  note inv = session_reach_inv [OF assms(1)] and r = session_reach_rounds [OF assms(1)]
    and cells = session_reach_cells [OF assms(1)]
  have i: "i \<noteq> INI_STREAM_ID" by (rule outstanding_known(2) [OF inv assms(4)])
  obtain s0 where s0: "s0 = st \<or> (\<exists>fin. s0 = st\<lparr>iter_push_stream_fin := fin\<rparr>)"
    and run: "on_stream_close m ss ev i st = do {
        (st, over) \<leftarrow> close_stream m ev i s0;
        (if over then run_engine m ss st else Some st)
      }"
    using that assms(5) i round_in_iters [OF inv r]
    by (cases "pushStreamInfo st i") (auto simp: on_stream_close_def push_iter_def)
  then have "session_inv m s0" "client s0 = ?c" "outstanding s0 = outstanding st"
    using inv by (auto simp: session_inv_def session_shape_def outstanding_def)
  with close_defined [of m s0 i ev] r cells assms(4,6) obtain s1 over where
    s1: "close_stream m ev i s0 = Some (s1, over)" "over \<longrightarrow> between_rounds m s1" by auto
  have "\<exists>st'. run_engine m ss s1 = Some st'" if over
    using decide_ALG5_defined [OF assms(2,3,8)] s1(2) that
    by (fastforce simp: run_engine_def Let_def between_rounds_def session_shape_def)
  then obtain st' where "on_stream_close m ss ev i st = Some st'" by (cases over) (auto simp: run s1(1))
  with session_reach_step(2) [OF assms(1,4,5,7)]
  have "\<exists>st'. on_stream_close m ss ev i st = Some st' \<and> session_reach m st'" by blast
  moreover have "print_pixels s \<noteq> None \<longleftrightarrow> 25 \<le> mf_NO_TILE m" if "int (length (tile_pixel s)) = mf_NO_TILE m" for s
    using that unfolding print_pixels_iff by linarith
  ultimately show ?thesis by blast
qed

section \<open>Witnesses\<close>

theorem session_iterations_witness:
  "\<exists>st. session_reach (demo_manifest 5) st \<and> count_done (client st) = 0 \<and> iter_id (client st) = 1"
proof -
  obtain st where "session_reach (demo_manifest 5) st" "BL_seg_id (client st) = 1" "iter_id (client st) = 1"
    using demo_session_reach by blast
  with session_iterations [OF this(1)] show ?thesis by auto
qed

theorem session_round_kind_witness:
  "\<exists>st. session_reach (demo_manifest 5) st \<and> requests_of (client st) 1 = [stream_info 1 0 0]"
proof -
  obtain st where st: "session_reach (demo_manifest 5) st" "BL_seg_id (client st) = 1" "iter_id (client st) = 1"
    "requests_of (client st) 1 = [stream_info 1 0 0]"
    using demo_session_reach by blast
  then have "stream_info 1 0 0 \<in> set (requests_of (client st) (iter_id (client st)))" by simp
  from session_round_kind [OF st(1) this] st show ?thesis by auto
qed

theorem session_close_defined_witness:
  "\<exists>st. session_reach (demo_manifest 5) st \<and> close_stream (demo_manifest 5) (demo_close 900) 17 st \<noteq> None"
proof -
  obtain st where st: "session_reach (demo_manifest 5) st" "17 \<in> outstanding st"
    using demo_session_reach by blast
  from session_close_defined [OF this, of "demo_close 900"] st show ?thesis by (auto simp: demo_close_def)
qed

theorem session_ALG5_goes_on_witness:
  "\<exists>st st'. session_reach (demo_manifest 5) st \<and>
     on_stream_close (demo_manifest 5) [demo_sense 3 1 2000] (demo_close 900) 17 st = Some st' \<and>
     session_reach (demo_manifest 5) st'"
proof -
  obtain st where st: "session_reach (demo_manifest 5) st" "17 \<in> outstanding st"
    using demo_session_reach by blast
  have "layered (demo_manifest 5)" "sense_fits (demo_manifest 5) (demo_sense 3 1 2000)"
    "senses_ok [demo_sense 3 1 2000]"
    by (code_simp, code_simp, simp add: senses_ok_def senses_in_def demo_sense_def)
  with session_ALG5_goes_on [OF st(1) _ _ st(2), of "demo_close 900" "[demo_sense 3 1 2000]"] st(1) show ?thesis
    by (auto simp: demo_close_def demo_manifest_def)
qed

end
