(* ===== verification/Session_Metrics.thy ===== *)
theory Session_Metrics
  imports Metric_Calls Session_Rounds
begin

text \<open>
  From the network to the reported quality. A base layer that is recorded in time lies in the buffer
  before its segment is counted, so the versions recorded when the segment starts are known for
  every tile, and the quality of the segment can be computed. The only condition is read from the
  arrays the client itself keeps: \<open>face_late\<close> and \<open>face_cancel\<close> of the base layers.

  What is recorded for a segment traces back to one pass of the playback loop, the one that started the
  segment, and to the buffer at that moment (\<open>started_with\<close>). With both, the qualities of a session
  are those of the versions that were there to play, and every pass, \<^verbatim>\<open>calc_metric\<close> included, is defined.
\<close>

section \<open>Base layers in the buffer\<close>

definition on_time :: "Client \<Rightarrow> int \<Rightarrow> bool" where
  "on_time c k \<longleftrightarrow> face_late c (k, 0, 0) = Some 0 \<and> face_cancel c (k, 0, 0) = Some 0"

definition base_held :: "Buffer \<Rightarrow> int \<Rightarrow> bool" where
  "base_held b k \<longleftrightarrow> (\<forall>t. slot (dims b) k t \<longrightarrow> 0 < usable b k t)"

definition playable :: "Manifest \<Rightarrow> int option list \<Rightarrow> bool" where
  "playable m vs \<longleftrightarrow> (\<exists>us. vs = map Some us \<and> length us = nat (mf_NO_TILE m) \<and>
     (\<forall>u \<in> set us. 0 \<le> u \<and> u \<le> mf_EL_VER_NUM m))"

lemma base_versions:
  assumes "buffer_wf b" "dims b = (mf_NO_SEG m, mf_NO_TILE m, mf_EL_VER_NUM m + 1)" "0 \<le> mf_EL_VER_NUM m"
    and "base_held b k" "0 \<le> k" "k < mf_NO_SEG m" "get_tile_version b k = Some vs"
  shows "playable m vs"
proof -
  have d: "bf_NO_SEG b = mf_NO_SEG m" "bf_NO_TILE b = mf_NO_TILE m" "bf_NO_LAYER b = mf_EL_VER_NUM m + 1"
    using assms(2) by (simp_all add: dims_def)
  have s: "slot (dims b) k t" if "t \<in> set [0..bf_NO_TILE b - 1]" for t
    using that assms(5,6) by (simp add: slot_def assms(2) d)
  have u: "0 < usable b k t" "int (usable b k t) \<le> mf_EL_VER_NUM m + 1" if "t \<in> set [0..bf_NO_TILE b - 1]" for t
  proof -
    show "0 < usable b k t" using assms(4) s [OF that] by (simp add: base_held_def)
    have "length (layers_of b k t) = nat (mf_EL_VER_NUM m + 1)" using slot_reads [OF assms(1) s [OF that]] d(3) by auto
    then show "int (usable b k t) \<le> mf_EL_VER_NUM m + 1"
      using length_takeWhile_le [of "\<lambda>v. v \<noteq> -1" "layers_of b k t"] assms(3) by (simp add: usable_def)
  qed
  let ?us = "map (\<lambda>t. int (usable b k t) - 1) [0..bf_NO_TILE b - 1]"
  have "vs = map (\<lambda>t. if usable b k t = 0 then None else Some (int (usable b k t) - 1)) [0..bf_NO_TILE b - 1]"
    using get_tile_version_usable [OF assms(1,5)] assms(3,6,7) by (simp add: d)
  then have "vs = map Some ?us" using u(1) by simp
  moreover have "\<forall>v \<in> set ?us. 0 \<le> v \<and> v \<le> mf_EL_VER_NUM m" using u by fastforce
  moreover have "length ?us = nat (mf_NO_TILE m)" by (simp add: d(2))
  ultimately show ?thesis unfolding playable_def by blast
qed

lemma delivery_keeps_base:
  assumes "buffer_wf b" "valid_delivery (dims b) s (f, l)" "update_tile_version b s f l = Some b'" "base_held b k"
  shows "base_held b' k"
proof -
  have d: "deliver b s (f, l) = Some b'" using assms(3) by (simp add: deliver_def)
  have "dims b' = dims b" by (rule bufs.store_shape [OF assms(1,2) d])
  moreover have "usable b k t \<le> usable b' k t" if "slot (dims b) k t" for t
    using bufs.level_mono [OF assms(1), of "[(s, f, l)]"] that assms(2) d by simp
  ultimately show ?thesis using assms(4) by (fastforce simp: base_held_def)
qed

lemma delivery_brings_base:
  assumes "buffer_wf b" "valid_delivery (dims b) s (0, l)" "update_tile_version b s 0 l = Some b'"
  shows "base_held b' s"
proof -
  have d: "deliver b s (0, l) = Some b'" using assms(3) by (simp add: deliver_def)
  note b' = bufs.store_ok [OF assms(1,2) d] bufs.store_shape [OF assms(1,2) d]
  show ?thesis
    unfolding base_held_def
  proof (intro allI impI)
    fix t
    assume t: "slot (dims b') s t"
    then have "0 \<in> held_layers b' s t"
      using bufs.store_held [OF assms(1,2) d, of s t] by (simp add: b'(2) delivery_covers_def)
    with bufs.level_iff [OF b'(1) t, of 0] show "0 < usable b' s t" by simp
  qed
qed

section \<open>Versions are recorded for counted segments\<close>

lemma record_segment_versions:
  assumes "record_segment now p = Some q" "aget (seg_tile_version q) k = Some (Some vs)"
  shows "aget (seg_tile_version p) k = Some (Some vs) \<or>
    (k = playing_seg_id p \<and> get_tile_version (buff p) k = Some vs)"
proof -
  obtain v where v: "get_tile_version (buff p) (playing_seg_id p) = Some v"
    "aset (seg_tile_version p) (playing_seg_id p) (Some v) = Some (seg_tile_version q)"
    using assms(1) by (auto simp: record_segment_def split: bind_splits)
  show ?thesis
  proof (cases "k = playing_seg_id p")
    case True
    then show ?thesis using assms(2) v aget_aset [OF v(2), of k] by simp
  next
    case False
    then show ?thesis using assms(2) aget_aset [OF v(2), of k] by simp
  qed
qed

lemma log_calc_metric_versions: "log_calc_metric k x = Some r \<Longrightarrow> seg_tile_version r = seg_tile_version x"
  by (auto simp: log_calc_metric_def split: bind_splits)

lemma tick_versions:
  assumes "tick now1 now2 p = Some q" "player_inv n p" "aget (seg_tile_version q) k = Some (Some vs)"
  shows "aget (seg_tile_version p) k = Some (Some vs) \<or> (k < int n \<and> get_tile_version (buff p) k = Some vs)"
  using assms(1,2)
proof (cases rule: tick_split)
  case (1 r)
  have r: "seg_tile_version r = seg_tile_version p"
    using 1(1) log_calc_metric_versions by (auto simp: calls_view_def segment_ends_def)
  from 1(3) show ?thesis
  proof
    assume "calls_view q = calls_view r"
    then show ?thesis using assms(3) r by (simp add: calls_view_def)
  next
    assume "segment_starts now1 n r q"
    then obtain a where a: "record_segment now1 r = Some a" "playing_seg_id r < int n" "seg_tile_version q = seg_tile_version a"
      by (auto simp: segment_starts_def calls_view_def)
    with record_segment_versions [OF a(1), of k vs] assms(3) r 1(2) show ?thesis by auto
  qed
qed

section \<open>Where recorded versions come from\<close>

text \<open>
  \<open>started_with m st k vs\<close>: on its way to \<open>st\<close> the session made a pass that started segment \<open>k\<close>: after
  it the player plays, at the first instant of \<open>k\<close>, and \<open>vs\<close> are the versions the buffer held for \<open>k\<close>
  when the pass was made.
\<close>

definition started_with :: "Manifest \<Rightarrow> Session \<Rightarrow> int \<Rightarrow> int option list \<Rightarrow> bool" where
  "started_with m st k vs \<longleftrightarrow> (\<exists>st0 now1 now2 p. session_reach m st0 \<and>
     played (player st0) < VIDEO_LEN (player st0) \<and> tick now1 now2 (player st0) = Some p \<and>
     STATE p = 1 \<and> playing_seg_id p = k \<and> played p = k * SD p \<and>
     get_tile_version (buff (player st0)) k = Some vs \<and> session_steps m (st0\<lparr>player := p\<rparr>) st)"

lemma started_with_step: "started_with m st k vs \<Longrightarrow> session_step m st st' \<Longrightarrow> started_with m st' k vs"
  unfolding started_with_def by (blast intro: rtranclp.rtrancl_into_rtrancl)

lemma update_deadlines_player:
  "update_deadlines now p = Some q \<Longrightarrow> STATE q = STATE p \<and> playing_seg_id q = playing_seg_id p \<and>
     played q = played p \<and> SD q = SD p \<and> seg_tile_version q = seg_tile_version p"
  by (auto simp: update_deadlines_def split: bind_splits)

lemma record_segment_player:
  "record_segment now p = Some q \<Longrightarrow> STATE q = STATE p \<and> playing_seg_id q = playing_seg_id p \<and>
     played q = played p \<and> SD q = SD p \<and> base_layer_buff q = base_layer_buff p"
  by (auto simp: record_segment_def split: bind_splits)

lemma tick_starts:
  assumes "tick now1 now2 p = Some q" "player_inv n p" "aget (seg_tile_version q) k = Some (Some vs)"
    and "aget (seg_tile_version p) k \<noteq> Some (Some vs)"
  shows "STATE q = 1 \<and> playing_seg_id q = k \<and> played q = k * SD q \<and> get_tile_version (buff p) k = Some vs"
proof -
  have "STATE p = 0 \<or> STATE p = 1 \<or> STATE p = 2"
    using assms(2) by (auto simp: player_inv_def split: if_splits)
  then consider "STATE p = 0" | "STATE p = 1" | "STATE p = 2" by blast
  then show ?thesis
  proof cases
    case 1
    let ?p = "p\<lparr>STATE := 1, playing_seg_id := 0\<rparr>"
    have "played p = 0" using assms(2) 1 by (simp add: player_inv_def)
    moreover from assms 1 obtain a b where "record_segment now1 ?p = Some a" "update_deadlines now2 a = Some b"
      "q = (if playing_seg_id b = 0 then b\<lparr>timeoffset := Some (trunc now2)\<rparr> else b)"
      by (auto simp: tick_def tick_initial_def split: bind_splits if_splits)
    ultimately show ?thesis
      using record_segment_versions [of now1 ?p a k vs] record_segment_player [of now1 ?p a]
        update_deadlines_player [of now2 a b] assms(3,4) by (auto split: if_splits)
  next
    case 2
    with assms(1) obtain p1 where p1: "incre_play_time INTER (decre_buff_size INTER p) = Some p1"
      and q: "tick_playing now1 p = Some q" by (auto simp: tick_def tick_playing_def split: bind_splits)
    have same: "seg_tile_version p1 = seg_tile_version p" "buff p1 = buff p" "STATE p1 = 1"
      using p1 2 by (auto simp: incre_play_time_def decre_buff_size_def Let_def split: if_splits)
    with q p1 assms(3,4) obtain r a where "played p1 = playing_seg_id p1 * SD p1"
      and r: "log_calc_metric (playing_seg_id p1 - 1) p1 = Some r" "base_layer_buff r \<noteq> 0" "record_segment now1 r = Some a"
        "q = (if base_layer_buff a = 0 then a\<lparr>STATE := 2\<rparr> else a)"
      by (auto simp: tick_playing_def dest: log_calc_metric_versions split: bind_splits if_splits)
    moreover have "STATE r = STATE p1 \<and> playing_seg_id r = playing_seg_id p1 \<and> played r = played p1 \<and> SD r = SD p1 \<and>
        buff r = buff p1 \<and> seg_tile_version r = seg_tile_version p1"
      using r(1) by (auto simp: log_calc_metric_def split: bind_splits)
    ultimately show ?thesis
      using record_segment_versions [OF r(3), of k vs] record_segment_player [OF r(3)] same assms(3,4)
      by (auto split: if_splits)
  next
    case 3
    from assms 3 obtain sts a where
      a: "record_segment now1 (p\<lparr>seg_stall_time := sts, STATE := 1\<rparr>) = Some a" "update_deadlines now2 a = Some q"
      by (auto simp: tick_def tick_rebuffering_def Let_def split: bind_splits if_splits)
    then show ?thesis
      using record_segment_versions [OF a(1), of k vs] record_segment_player [OF a(1)]
        update_deadlines_player [OF a(2)] player_inv_stalledD(1) [OF assms(2) 3] assms(3,4) by auto
  qed
qed

text \<open>Every recorded version traces back to the start of its segment.\<close>

lemma recorded_started:
  "session_reach m st \<Longrightarrow> aget (seg_tile_version (player st)) k = Some (Some vs) \<Longrightarrow> started_with m st k vs"
proof (induction rule: session_reach.induct)
  case (start b st ev ss st')
  then obtain s1 where s1: "run_engine m ss (st\<lparr>client := (client st)\<lparr>cur_req_stream_id := INI_STREAM_ID, BL_seg_id := 0\<rparr>\<rparr>)
    = Some s1" "player st' = player s1" using start_run by blast
  have "seg_tile_version (player st) = replicate (nat (NO_SEG (player st))) None"
    using start(1) fresh_player unfolding fresh_session_def by blast
  then have "seg_tile_version (player st') = replicate (nat (NO_SEG (player st))) None"
    using run_engine_player [OF s1(1)] s1(2) by simp
  then have "aget (seg_tile_version (player st')) k \<noteq> Some (Some vs)" by (auto simp: aget_Some_iff)
  then show ?case using start(5) by blast
next
  case (step st st')
  show ?case
  proof (cases "aget (seg_tile_version (player st)) k = Some (Some vs)")
    case True
    then show ?thesis using started_with_step [OF step.IH step(2)] by blast
  next
    case False
    note inv = session_reach_inv [OF step(1)]
    then have i: "player_inv (nat (BL_seg_id (client st))) (player st)" by (simp add: session_inv_def)
    from session_step_arrays [OF step(2) inv] False step(4) obtain now1 now2 p where
      p: "played (player st) < VIDEO_LEN (player st)" "tick now1 now2 (player st) = Some p" "st' = st\<lparr>player := p\<rparr>"
      by auto
    from tick_starts [OF p(2) i _ False] step(4) p(3) have "STATE p = 1 \<and> playing_seg_id p = k \<and>
        played p = k * SD p \<and> get_tile_version (buff (player st)) k = Some vs" by simp
    with step(1) p show ?thesis unfolding started_with_def by blast
  qed
qed

section \<open>The invariant of a session\<close>

definition quality_inv :: "Manifest \<Rightarrow> Session \<Rightarrow> bool" where
  "quality_inv m st \<longleftrightarrow>
     (\<forall>k vs. aget (seg_tile_version (player st)) k = Some (Some vs) \<longrightarrow> k < BL_seg_id (client st)) \<and>
     (\<forall>k. 0 \<le> k \<and> k < BL_seg_id (client st) \<and> on_time (client st) k \<longrightarrow>
        base_held (buff (player st)) k \<and>
        (\<forall>vs. aget (seg_tile_version (player st)) k = Some (Some vs) \<longrightarrow> playable m vs))"

text \<open>Only a stream that is recorded changes what is known of the base layers.\<close>

definition marks where
  "marks c = (face_late c, face_cancel c, BL_seg_id c)"

lemma request_layer_marks: "request_layer m it sid w t l br dep c = Some (c', i) \<Longrightarrow> marks c' = marks c"
  by (cases "uri_ok c") (auto simp: request_layer_def marks_def push_iter_def send_get_request_def Let_def
      split: bind_splits if_splits)

interpretation marked: decision_invariant m it UNIV "\<lambda>c. marks c = K" for m it K
proof (unfold_locales, goal_cases)
  case (1 t l br dep c c' i)
  then show ?case using request_layer_marks by (auto simp: el_request_def)
qed (auto simp: marks_def request_base_def set_tile_version_def reset_round_def dest!: request_layer_marks
    split: if_splits bind_splits)

interpretation marked_frame: frame_invariant m it UNIV "\<lambda>c. marks c = K" for m it K
  by unfold_locales (simp_all add: request_layer_marks, simp_all add: marks_def)

lemma quality_inv_cong:
  "quality_inv m st \<Longrightarrow> marks (client st') = marks (client st) \<Longrightarrow> player st' = player st \<Longrightarrow> quality_inv m st'"
  by (simp add: quality_inv_def marks_def on_time_def)

section \<open>Every step keeps it\<close>

lemma pass_quality:
  assumes "session_inv m st" "quality_inv m st" "tick now1 now2 (player st) = Some p"
    and "played (player st) < VIDEO_LEN (player st)"
  shows "quality_inv m (st\<lparr>player := p\<rparr>)"
proof -
  let ?p = "player st" and ?c = "client st"
  have i: "player_inv (nat (BL_seg_id ?c)) ?p" "0 \<le> BL_seg_id ?c"
    and sh: "buffer_wf (buff ?p)" "dims (buff ?p) = (mf_NO_SEG m, mf_NO_TILE m, mf_EL_VER_NUM m + 1)" "0 \<le> mf_EL_VER_NUM m"
    using assms(1) by (simp_all add: session_inv_def session_shape_def)
  have len: "int (length (seg_tile_version p)) = mf_NO_SEG m"
    using session_versions_length [OF pass_inv [OF assms(1,4,3)]] by simp
  have b: "buff p = buff ?p" using tick_frame [OF assms(3)] by simp
  note new = tick_versions [OF assms(3) i(1)]
  have "k < BL_seg_id ?c" if "aget (seg_tile_version p) k = Some (Some vs)" for k vs
    using new [OF that] assms(2) i(2) by (auto simp: quality_inv_def)
  moreover have "base_held (buff p) k \<and> (\<forall>vs. aget (seg_tile_version p) k = Some (Some vs) \<longrightarrow> playable m vs)"
    if k: "0 \<le> k" "k < BL_seg_id ?c" "on_time ?c k" for k
  proof -
    have old: "base_held (buff ?p) k" "\<And>vs. aget (seg_tile_version ?p) k = Some (Some vs) \<Longrightarrow> playable m vs"
      using assms(2) k by (auto simp: quality_inv_def)
    have "playable m vs" if vs: "aget (seg_tile_version p) k = Some (Some vs)" for vs
    proof -
      have "k < mf_NO_SEG m" using vs len by (simp add: aget_Some_iff)
      with new [OF vs] old(2) base_versions [OF sh old(1) k(1)] show ?thesis by blast
    qed
    with old(1) b show ?thesis by simp
  qed
  ultimately show ?thesis by (auto simp: quality_inv_def)
qed

text \<open>What recording a stream changes.\<close>

lemma record_stream_marks:
  assumes "record_stream m ev i info st = Some st'"
  shows "BL_seg_id (client st') = BL_seg_id (client st) \<and> seg_tile_version (player st') = seg_tile_version (player st) \<and>
    (\<forall>x. x \<noteq> cell_of info \<longrightarrow> face_late (client st') x = face_late (client st) x \<and>
       face_cancel (client st') x = face_cancel (client st) x) \<and>
    (face_late (client st') (cell_of info) = Some 0 \<and> face_cancel (client st') (cell_of info) = Some 0 \<longrightarrow>
       update_tile_version (buff (player st)) (si_sid info) (si_fid info) (si_lid info) = Some (buff (player st')))"
  using assms
  by (auto simp: record_stream_def set3_def cell_of_def cell_bit_def Let_def split: if_splits bind_splits)

lemma record_quality:
  assumes "record_stream m ev i info st = Some st'" "session_inv m st" "quality_inv m st"
    and "i \<in> outstanding st" "RequestStreamInfo (client st) i = Some info" "rounds_inv m (client st)"
  shows "quality_inv m st' \<and> (si_fid info = 0 \<and> on_time (client st') (BL_seg_id (client st)) \<longrightarrow>
    base_held (buff (player st')) (BL_seg_id (client st)))"
proof -
  let ?c = "client st" and ?c' = "client st'" and ?b = "buff (player st)"
  note rec = record_stream_inv [OF assms(1,2,4,5)]
  note r = record_stream_marks [OF assms(1)]
  have sh: "session_shape m st" using assms(2) by (simp add: session_inv_def)
  have info: "info \<in> set (requests_of ?c (iter_id ?c))" by (rule outstanding_request [OF assms(4,5)])
  from rounds_inv_stream [OF assms(6) this] have kind: "(si_fid info = 0 \<and> base_round m ?c) \<or> 0 < si_fid info" by blast
  then have base: "si_fid info = 0 \<Longrightarrow> cell_of info = (BL_seg_id ?c, 0, 0)"
    using info by (auto simp: base_round_def cell_of_def)
  have wf: "buffer_wf ?b" and v: "valid_delivery (dims ?b) (si_sid info) (si_fid info, si_lid info)"
    using rec sh by (auto simp: valid_delivery_def in_cells_def session_shape_def cell_of_def)
  have keep: "base_held (buff (player st')) k" if "base_held ?b k" for k
    using record_stream_frame [OF assms(1)] delivery_keeps_base [OF wf v _ that] that by auto
  have same: "on_time ?c' k = on_time ?c k" if "k < BL_seg_id ?c" for k
  proof -
    have "(k, 0, 0) \<noteq> cell_of info" using that base kind by (auto simp: cell_of_def)
    with r show ?thesis unfolding on_time_def by metis
  qed
  have "quality_inv m st'" using assms(3) keep same r by (auto simp: quality_inv_def)
  moreover have "base_held (buff (player st')) (BL_seg_id ?c)" if "si_fid info = 0" "on_time ?c' (BL_seg_id ?c)"
  proof -
    from base [OF that(1)] have "update_tile_version ?b (si_sid info) 0 (si_lid info) = Some (buff (player st'))"
      using r that by (auto simp: on_time_def)
    with delivery_brings_base [OF wf] v that(1) base [OF that(1)] show ?thesis by (auto simp: cell_of_def)
  qed
  ultimately show ?thesis by blast
qed

lemma end_round_quality:
  assumes "end_round m ev info st = Some st'" "quality_inv m st"
    and "si_fid info = 0 \<and> on_time (client st) (BL_seg_id (client st)) \<longrightarrow>
      base_held (buff (player st)) (BL_seg_id (client st))"
  shows "quality_inv m st'"
proof -
  have f: "BL_seg_id (client st') = BL_seg_id (client st) + (if si_fid info = 0 then 1 else 0)"
    "face_late (client st') = face_late (client st)" "face_cancel (client st') = face_cancel (client st)"
    "seg_tile_version (player st') = seg_tile_version (player st)" "buff (player st') = buff (player st)"
    using assms(1) by (auto simp: end_round_def incre_buff_size_def Let_def split: if_splits bind_splits)
  then have o: "on_time (client st') = on_time (client st)" by (simp add: on_time_def fun_eq_iff)
  have k: "k < BL_seg_id (client st) \<or> (k = BL_seg_id (client st) \<and> si_fid info = 0)" if "k < BL_seg_id (client st')" for k
    using that f(1) by (auto split: if_splits)
  show ?thesis
    using assms(2,3) k f(1) unfolding quality_inv_def f(4,5) o by (smt (verit))
qed

lemma run_engine_quality:
  assumes "run_engine m ss st = Some st'" "quality_inv m st"
  shows "quality_inv m st'"
proof -
  obtain d c where r: "decide (engine_for m (iter_id (client st))) ss (client st) = Some (d, c)"
    and st': "client st' = c" "player st' = player st"
    using assms(1) by (auto simp: run_engine_def Let_def split: bind_splits prod.splits)
  from marked.decide_P [OF r senses_in_UNIV HOL.refl] st' assms(2) show ?thesis using quality_inv_cong by metis
qed

lemma recv_data_quality:
  assumes "recv_data m fr i st = Some st'" "quality_inv m st"
  shows "quality_inv m st'"
  using assms(1)
proof (cases rule: recv_data_cases)
  case (tile info s1 s2)
  have "marks (client s2) = marks (client st)"
    using end_late_frame [OF tile(8)] tile(4) by (auto simp: cancel_round_def marks_def)
  moreover have "marks (client st') = marks (client s2)"
    using redecide_frame [OF tile(9)] marked_frame.trung_P [OF _ subset_UNIV HOL.refl] by metis
  ultimately show ?thesis using assms(2) recv_data_player [OF assms(1)] quality_inv_cong by metis
qed (use assms(2) quality_inv_cong in metis)

lemma session_step_quality:
  "session_step m st st' \<Longrightarrow> session_inv m st \<Longrightarrow> rounds_inv m (client st) \<Longrightarrow> quality_inv m st \<Longrightarrow> quality_inv m st'"
proof (induction rule: session_step.induct)
  case (pass st now1 now2 p)
  show ?case by (rule pass_quality [OF pass(3,5,2,1)])
next
  case (closed i st ev ss st')
  from closed(5,1,4) show ?case
  proof (cases rule: on_stream_close_cases)
    case ignored
    with closed show ?thesis by simp
  next
    case (open_round info s0)
    have "quality_inv m s0" "rounds_inv m (client s0)" "RequestStreamInfo (client s0) i = Some info"
      using closed(6,7) open_round(3-5) by (simp_all add: quality_inv_def)
    with record_quality [OF open_round(6,1)] open_round(2) show ?thesis by blast
  next
    case (end_of_round info s0 s1 s2)
    have "quality_inv m s0" "rounds_inv m (client s0)" "RequestStreamInfo (client s0) i = Some info"
      using closed(6,7) end_of_round(3-5) by (simp_all add: quality_inv_def)
    with record_quality [OF end_of_round(6,1)] end_of_round(2) record_stream_marks [OF end_of_round(6)]
    have "quality_inv m s2" by (intro end_round_quality [OF end_of_round(7)]) auto
    then show ?thesis by (rule run_engine_quality [OF end_of_round(8)])
  qed
next
  case (frame i st fr st')
  show ?case by (rule recv_data_quality [OF frame(3,6)])
next
  case (promise multiply_1 pp i promised st st')
  from promise_frame [OF promise(1)] have "marks (client st') = marks (client st)" "player st' = player st"
    by (auto simp: marks_def)
  with promise(4) show ?case by (rule quality_inv_cong)
next
  case (pushed st i ss ev st')
  with pushed_frame [OF pushed(3,1,2)] show ?case by (auto intro: quality_inv_cong)
qed

lemma session_reach_quality: "session_reach m st \<Longrightarrow> quality_inv m st"
proof (induction rule: session_reach.induct)
  case (start b st ev ss st')
  then obtain s1 where s1: "run_engine m ss (st\<lparr>client := (client st)\<lparr>cur_req_stream_id := INI_STREAM_ID, BL_seg_id := 0\<rparr>\<rparr>)
    = Some s1" "client st' = client s1" "player st' = player s1" using start_run by blast
  have "aget (seg_tile_version (player st)) k \<noteq> Some (Some vs)" for k vs
  proof -
    have "seg_tile_version (player st) = replicate (nat (NO_SEG (player st))) None"
      using start(1) fresh_player unfolding fresh_session_def by blast
    then show ?thesis by (auto simp: aget_Some_iff)
  qed
  then have "quality_inv m s1"
    by (intro run_engine_quality [OF s1(1)]) (auto simp: quality_inv_def)
  with s1 show ?case by (auto intro: quality_inv_cong)
next
  case (step st st')
  then show ?case using session_step_quality session_reach_inv session_reach_rounds by blast
qed

section \<open>The qualities of a session\<close>

text \<open>Versions that were recorded in time can be read by \<^verbatim>\<open>calc_metric\<close>.\<close>

lemma versions_readable:
  assumes "session_reach m st" "video_ok e lines" "vid_NO_TILE e = mf_NO_TILE m"
    "mf_EL_VER_NUM m < int (length (vid_tile_br e))"
    and "aget (seg_tile_version (player st)) k = Some (Some vs)" "0 \<le> k" "on_time (client st) k"
  shows "readable e vs"
proof -
  have n: "0 \<le> mf_NO_TILE m" using assms(2,3) by (simp add: video_ok_def angle_file_def)
  have "playable m vs" using session_reach_quality [OF assms(1)] assms(5-7) by (auto simp: quality_inv_def)
  with n assms(3,4) show ?thesis by (fastforce simp: playable_def readable_def versions_ok_def)
qed

lemma calls_readable:
  assumes "session_reach m st" "video_ok e lines" "vid_NO_TILE e = mf_NO_TILE m"
    "mf_EL_VER_NUM m < int (length (vid_tile_br e))"
    and "\<forall>k. 0 \<le> k \<and> k < played (player st) div SD (player st) \<longrightarrow> on_time (client st) k"
  shows "\<forall>(k, vs) \<in> set (calc_calls (player st)). readable e vs"
proof -
  have "readable e vs" if kv: "(k, vs) \<in> set (calc_calls (player st))" for k vs
  proof (rule versions_readable [OF assms(1-4)])
    show "aget (seg_tile_version (player st)) k = Some (Some vs)"
      using metric_calls_recorded [OF assms(1)] kv by blast
    show "0 \<le> k" "on_time (client st) k"
      using calls_before [OF session_reach_calls [OF assms(1)] kv] assms(5) by simp_all
  qed
  then show ?thesis by blast
qed

text \<open>
  C2: In a session in which the base layers of the segments played so far were recorded in time and
  not cancelled, every call of \<^verbatim>\<open>calc_metric\<close> that the playback thread made is defined, and the result arrays
  hold for each of these segments the means of quality and bitrate over its frames and visible tiles, at the
  versions the buffer held in the pass that started the segment. When the whole video has been
  played, the final loop, which computes every segment again, is defined too and leaves these
  means.
\<close>

theorem session_qualities:
  assumes "session_reach m st"
    and "\<forall>k. 0 \<le> k \<and> k < played (player st) div SD (player st) \<longrightarrow> on_time (client st) k"
    and "video_ok e lines" "vid_NO_TILE e = mf_NO_TILE m" "mf_EL_VER_NUM m < int (length (vid_tile_br e))"
    and "\<forall>f. 0 \<le> f \<and> f < mf_NO_SEG m * FPS \<longrightarrow> frame_shows e lines f (pic f)"
    and "quality_shape (mf_NO_SEG m) q"
    and "\<forall>k. 0 \<le> k \<and> k < mf_NO_SEG m \<longrightarrow> line_at lines (turned (q_est_vp q ! nat k)) = Some (le k)"
  shows "\<exists>q'. metric_reach m e q st q' \<and> report e (calc_calls (player st)) q = Some q' \<and>
    (\<forall>k. 0 \<le> k \<and> k < played (player st) div SD (player st) \<longrightarrow>
      (\<exists>us. reported e pic q' k us \<and> started_with m st k (map Some us) \<and>
        aget (seg_tile_version (player st)) k = Some (Some (map Some us)))) \<and>
    (played (player st) = VIDEO_LEN (player st) \<longrightarrow>
      (\<exists>p q''. final_metrics e (player st, q') = Some (p, q'') \<and>
        (\<forall>k. 0 \<le> k \<and> k < mf_NO_SEG m \<longrightarrow>
          (\<exists>us. reported e pic q'' k us \<and> started_with m st k (map Some us)))))"
proof -
  let ?p = "player st" and ?n = "played (player st) div SD (player st)"
  note read = calls_readable [OF assms(1,3-5,2)]
  note rep = session_report [OF assms(1,3,6) read]
  from rep [OF assms(7,8)] obtain q' where q': "report e (calc_calls ?p) q = Some q'"
    "quality_shape (mf_NO_SEG m) q'" "q_est_vp q' = q_est_vp q"
    and held: "\<forall>k. 0 \<le> k \<and> k < ?n \<longrightarrow> (\<exists>us. aget (seg_tile_version ?p) k = Some (Some (map Some us)) \<and> reported e pic q' k us)"
    by blast
  have i: "player_inv (nat (BL_seg_id (client st))) ?p" "NO_SEG ?p = mf_NO_SEG m"
    using session_reach_inv [OF assms(1)] by (auto simp: session_inv_def session_shape_def player_inv_def player_ready_def)
  have "\<exists>p q''. final_metrics e (?p, q') = Some (p, q'') \<and> (\<forall>k. 0 \<le> k \<and> k < mf_NO_SEG m \<longrightarrow>
      (\<exists>us. reported e pic q'' k us \<and> started_with m st k (map Some us)))" if over: "played ?p = VIDEO_LEN ?p"
  proof -
    have n: "?n = mf_NO_SEG m" using over player_inv_allD(7,9) [OF i(1)] i(2) by simp
    from final_calls_run [OF session_reach_calls [OF assms(1)] i(1) over] obtain p where
      p: "final_calls ?p = Some p" "calc_calls p = calc_calls ?p @ calc_calls ?p" by blast
    have "\<forall>k. 0 \<le> k \<and> k < mf_NO_SEG m \<longrightarrow> line_at lines (turned (q_est_vp q' ! nat k)) = Some (le k)"
      using assms(8) q'(3) by simp
    from rep [OF q'(2) this] obtain q'' where q'': "report e (calc_calls ?p) q' = Some q''"
      "\<forall>k. 0 \<le> k \<and> k < ?n \<longrightarrow> (\<exists>us. aget (seg_tile_version ?p) k = Some (Some (map Some us)) \<and> reported e pic q'' k us)"
      by blast
    then have "final_metrics e (?p, q') = Some (p, q'')" using p by (simp add: final_metrics_def new_calls_def)
    moreover have "\<exists>us. reported e pic q'' k us \<and> started_with m st k (map Some us)" if "0 \<le> k \<and> k < mf_NO_SEG m" for k
      using q''(2) [unfolded n] that recorded_started [OF assms(1)] by blast
    ultimately show ?thesis by blast
  qed
  moreover have "metric_reach m e q st q'" using assms(1) q'(1) by (simp add: metric_reach_iff)
  moreover have "\<exists>us. reported e pic q' k us \<and> started_with m st k (map Some us) \<and>
      aget (seg_tile_version ?p) k = Some (Some (map Some us))" if "0 \<le> k \<and> k < ?n" for k
    using held that recorded_started [OF assms(1)] by blast
  ultimately show ?thesis using q'(1) by blast
qed

text \<open>
  C18: In a session every pass of the playback loop is defined, \<^verbatim>\<open>calc_metric\<close> included, if the base layer of
  the segment that plays was recorded in time and not cancelled: no index leaves its array, no unassigned
  version is read and no division is by zero, because the network thread never reports more base
  layers than the video has segments and the buffer holds a version of every tile.
\<close>

theorem session_pass_defined:
  assumes "metric_reach m e q0 st q" "played (player st) < VIDEO_LEN (player st)"
    and "STATE (player st) = 1 \<longrightarrow> on_time (client st) (played (player st) div SD (player st))"
    and "video_ok e lines" "vid_NO_TILE e = mf_NO_TILE m" "mf_EL_VER_NUM m < int (length (vid_tile_br e))"
    and "\<forall>f. 0 \<le> f \<and> f < mf_NO_SEG m * FPS \<longrightarrow> frame_shows e lines f (pic f)"
    and "quality_shape (mf_NO_SEG m) q"
    and "\<forall>k. 0 \<le> k \<and> k < mf_NO_SEG m \<longrightarrow> line_at lines (turned (q_est_vp q ! nat k)) = Some (le k)"
  shows "\<exists>p q'. metric_pass e now1 now2 (player st, q) = Some (p, q') \<and> metric_reach m e q0 (st\<lparr>player := p\<rparr>) q'"
proof -
  let ?p = "player st" and ?k = "played (player st) div SD (player st)"
  have r: "session_reach m st" using assms(1) by (simp add: metric_reach_iff)
  then have i: "player_inv (nat (BL_seg_id (client st))) ?p" using session_reach_inv by (simp add: session_inv_def)
  note pos = player_inv_allD(4,7) [OF i]
  then have k: "0 \<le> ?k" by (simp add: pos_imp_zdiv_nonneg_iff)
  have len: "int (length (seg_tile_version ?p)) = mf_NO_SEG m"
    by (rule session_versions_length [OF session_reach_inv [OF r]])
  obtain p where p: "tick now1 now2 ?p = Some p" using session_tick_defined [OF r assms(2)] by blast
  have "\<exists>q'. report e (new_calls ?p p) q = Some q'"
  proof (cases "new_calls ?p p = []")
    case False
    then have n: "calc_calls p \<noteq> calc_calls ?p" using tick_log [OF p] by auto
    then have "STATE ?p = 1"
      using tick_calls_playing [OF p n] by blast
    with assms(3) have o: "on_time (client st) ?k" by blast
    obtain vs where v: "aget (seg_tile_version ?p) ?k = Some (Some vs)" "calc_calls p = calc_calls ?p @ [(?k, vs)]"
      by (rule tick_logs_one [OF p i n])
    then have vs: "new_calls ?p p = [(?k, vs)]" by (simp add: new_calls_def)
    have "?k < mf_NO_SEG m" using v(1) len by (simp add: aget_Some_iff)
    with k versions_readable [OF r assms(4-6) v(1) k o]
    have c: "distinct (map fst [(?k, vs)])" "\<forall>(k, vs) \<in> set [(?k, vs)]. 0 \<le> k \<and> k < mf_NO_SEG m \<and> readable e vs" by simp_all
    from report_ok [OF assms(4,7) c assms(8,9)] show ?thesis unfolding vs by blast
  qed simp
  then obtain q' where "metric_pass e now1 now2 (?p, q) = Some (p, q')" using p by (auto simp: metric_pass_def)
  with metric_reach.pass [OF assms(1,2) this] show ?thesis by blast
qed

text \<open>A video of six tiles whose frames all show tiles 1 and 4.\<close>

definition demo_film :: "Video" where
  "demo_film = \<lparr>vid_vmask = the (load_vmask [[0, 0, 40, 0, 0, 30, 0, 0]] 6),
     vid_htrace = the (load_headtrace (replicate 601 [0, 0]) 600 600), vid_NO_TILE = 6,
     vid_tile_br = the (tile_bitrates 240 24 3 [5, 10, 20])\<rparr>"

lemma demo_film_ok: "video_ok demo_film [[0, 0, 40, 0, 0, 30, 0, 0]]"
  and demo_film_tiles: "vid_NO_TILE demo_film = 6" "vid_tile_br demo_film = [10, 15, 25, 45]"
proof -
  have "angle_file 6 [[0, 0, 40, 0, 0, 30, 0, 0]]"
    by (simp add: angle_file_def rectangular_def in_angles_def angle_of_def)
  with load_vmask_loaded [OF this] show "video_ok demo_film [[0, 0, 40, 0, 0, 30, 0, 0]]"
    by (auto simp: video_ok_def demo_film_def)
  have "tile_bitrates 240 24 3 [5, 10, 20] = Some [10, 15, 25, 45]" by code_simp
  then show "vid_NO_TILE demo_film = 6" "vid_tile_br demo_film = [10, 15, 25, 45]" by (simp_all add: demo_film_def)
qed

lemma demo_film_frames:
  "\<forall>f. 0 \<le> f \<and> f < 20 * FPS \<longrightarrow> frame_shows demo_film [[0, 0, 40, 0, 0, 30, 0, 0]] f [0, 0, 40, 0, 0, 30, 0, 0]"
proof -
  have "trace_file 600 (replicate 601 [0, 0])" unfolding trace_file_def rectangular_def by simp
  from load_headtrace_frames [OF this, of 600] have
    "\<forall>i. 0 \<le> i \<and> i < 600 \<longrightarrow> get_vp_pos_byFrameId (vid_htrace demo_film) i = Some (0, 0)"
    by (auto simp: demo_film_def frame_line_def nat_less_iff)
  moreover have "line_at [[0, 0, 40, 0, 0, 30, 0, 0]] (turned (0, 0)) = Some [0, 0, 40, 0, 0, 30, 0, 0]"
    by (simp add: line_at_def turned_def angle_of_def)
  moreover have "1 \<in> set (visible_tiles 6 [0, 0, 40, 0, 0, 30, 0, 0])"
    by (simp add: visible_tiles_range pixels_of_def)
  then have "visible_tiles (vid_NO_TILE demo_film) [0, 0, 40, 0, 0, 30, 0, 0] \<noteq> []" by (auto simp: demo_film_def)
  ultimately show ?thesis by (auto simp: frame_shows_def FPS_def)
qed

text \<open>What the two witnesses share: the video, its tiles and the fresh result arrays.\<close>

lemma demo_film_fits:
  "vid_NO_TILE demo_film = mf_NO_TILE (demo_manifest 5)" "mf_EL_VER_NUM (demo_manifest 5) < int (length (vid_tile_br demo_film))"
  "quality_shape (mf_NO_SEG (demo_manifest 5)) (quality_init 20 (replicate 20 0))"
  "\<forall>f. 0 \<le> f \<and> f < mf_NO_SEG (demo_manifest 5) * FPS \<longrightarrow>
     frame_shows demo_film [[0, 0, 40, 0, 0, 30, 0, 0]] f ((\<lambda>_. [0, 0, 40, 0, 0, 30, 0, 0]) f)"
  "\<forall>k. 0 \<le> k \<and> k < mf_NO_SEG (demo_manifest 5) \<longrightarrow> line_at [[0, 0, 40, 0, 0, 30, 0, 0]]
     (turned (q_est_vp (quality_init 20 (replicate 20 0)) ! nat k)) = Some ((\<lambda>_. [0, 0, 40, 0, 0, 30, 0, 0]) k)"
proof -
  have m: "mf_NO_SEG (demo_manifest 5) = 20" "mf_NO_TILE (demo_manifest 5) = 6" "mf_EL_VER_NUM (demo_manifest 5) = 3"
    by (simp_all add: demo_manifest_def)
  show "vid_NO_TILE demo_film = mf_NO_TILE (demo_manifest 5)" "mf_EL_VER_NUM (demo_manifest 5) < int (length (vid_tile_br demo_film))"
    using demo_film_tiles by (simp_all add: m)
  show "quality_shape (mf_NO_SEG (demo_manifest 5)) (quality_init 20 (replicate 20 0))"
    by (simp add: m quality_shape_def quality_init_def Let_def FPS_def)
  show "\<forall>f. 0 \<le> f \<and> f < mf_NO_SEG (demo_manifest 5) * FPS \<longrightarrow>
     frame_shows demo_film [[0, 0, 40, 0, 0, 30, 0, 0]] f ((\<lambda>_. [0, 0, 40, 0, 0, 30, 0, 0]) f)"
    using demo_film_frames by (simp add: m)
  show "\<forall>k. 0 \<le> k \<and> k < mf_NO_SEG (demo_manifest 5) \<longrightarrow> line_at [[0, 0, 40, 0, 0, 30, 0, 0]]
     (turned (q_est_vp (quality_init 20 (replicate 20 0)) ! nat k)) = Some ((\<lambda>_. [0, 0, 40, 0, 0, 30, 0, 0]) k)"
    by (simp add: m quality_init_def Let_def line_at_def turned_def angle_of_def nat_less_iff)
qed

theorem session_qualities_witness:
  "\<exists>st q'. metric_reach (demo_manifest 5) demo_film (quality_init 20 (replicate 20 0)) st q' \<and> played (player st) = 1000 \<and>
     started_with (demo_manifest 5) st 0 (replicate 6 (Some 0)) \<and> q_avg_qual q' ! 0 = Some 1"
proof -
  let ?q = "quality_init 20 (replicate 20 0)" and ?l = "[0, 0, 40, 0, 0, 30, 0, 0] :: rat list" and ?m = "demo_manifest 5"
  obtain st where st: "session_reach ?m st" "played (player st) = 1000" "SD (player st) = 1000"
    "calc_calls (player st) = [(0, replicate 6 (Some 0))]"
    "face_late (client st) (0, 0, 0) = Some 0" "face_cancel (client st) (0, 0, 0) = Some 0"
    using demo_played by blast
  have o: "\<forall>k. 0 \<le> k \<and> k < played (player st) div SD (player st) \<longrightarrow> on_time (client st) k"
  proof (intro allI impI)
    fix k
    assume "0 \<le> k \<and> k < played (player st) div SD (player st)"
    then have "k = 0" using st(2,3) by simp
    then show "on_time (client st) k" using st(5,6) by (simp add: on_time_def)
  qed
  have t: "tile_mean 6 ?l (version_of (replicate 6 0)) = 1" by code_simp
  from session_qualities [OF st(1) o demo_film_ok demo_film_fits(1,2,4,3,5)] obtain q' us where
    q': "metric_reach ?m demo_film ?q st q'"
    and us: "reported demo_film (\<lambda>_. ?l) q' 0 us" "started_with ?m st 0 (map Some us)"
      "aget (seg_tile_version (player st)) 0 = Some (Some (map Some us))"
    using st(2,3) by auto
  have "aget (seg_tile_version (player st)) 0 = Some (Some (replicate 6 (Some 0)))"
    using metric_calls_recorded [OF st(1)] st(4) by simp
  with us(3) have v: "map Some us = replicate 6 (Some 0)" by simp
  then have "map Some us = map Some (replicate 6 0)" by simp
  then have "us = replicate 6 0" by (simp only: inj_map_eq_map [OF inj_Some])
  with us(1) t demo_film_tiles(1) have "q_avg_qual q' ! 0 = Some 1"
    by (simp add: reported_def frame_mean_def frames_of_def FPS_def sum_list_triv)
  with st q' us(2) v show ?thesis by auto
qed

text \<open>The pass that ends the first segment and computes its quality.\<close>

theorem session_pass_defined_witness:
  "\<exists>st p q'. played (player st) = 900 \<and> STATE (player st) = 1 \<and>
     metric_pass demo_film 0 1 (player st, quality_init 20 (replicate 20 0)) = Some (p, q') \<and>
     metric_reach (demo_manifest 5) demo_film (quality_init 20 (replicate 20 0)) (st\<lparr>player := p\<rparr>) q'"
proof -
  let ?q = "quality_init 20 (replicate 20 0)"
  obtain st where st: "session_reach (demo_manifest 5) st" "played (player st) = 900" "SD (player st) = 1000"
    "STATE (player st) = 1" "calc_calls (player st) = []" "played (player st) < VIDEO_LEN (player st)"
    "face_late (client st) (0, 0, 0) = Some 0" "face_cancel (client st) (0, 0, 0) = Some 0"
    using demo_playing by blast
  have r: "metric_reach (demo_manifest 5) demo_film ?q st ?q" using st(1,5) by (simp add: metric_reach_iff)
  have "STATE (player st) = 1 \<longrightarrow> on_time (client st) (played (player st) div SD (player st))"
    using st(2,3,7,8) by (simp add: on_time_def)
  from session_pass_defined [OF r st(6) this demo_film_ok demo_film_fits(1,2,4,3,5), of 0 1] st show ?thesis by blast
qed

end
