(* ===== verification/Round_Delivery.thy ===== *)
theory Round_Delivery
  imports Stream_Close Round_Requests
begin

text \<open>
  From decision to playback: the layers a round of algorithm 5 requests, once all its streams have
  closed in time, are the versions the player reads for the segment.
\<close>

section \<open>What an enhancement round requests\<close>

text \<open>The requests of a round as cells of its segment.\<close>

lemma MMSP_ALG5_cells:
  assumes "mf_ALG m = 5" "el_turn m s c" "round_ok m it s (playing s + 1)" "streams_inv c"
    "iter_req_stream c it = []" "MMSP m it s c = Some (Requested, c')"
  shows "\<exists>n k new. new = full_layers 1 n (priority s) @ map (\<lambda>t. (t, n + 1)) (take k (priority s)) \<and>
    0 \<le> n \<and> n \<le> mf_EL_VER_NUM m \<and> (k \<noteq> 0 \<longrightarrow> n < mf_EL_VER_NUM m) \<and> new \<noteq> [] \<and>
    tile_layers c' it = new \<and> fin_s_num c' = 0 \<and> req_s_num c' = int (length (iter_req_stream c' it)) \<and>
    map cell_of (requests_of c' it) = map (\<lambda>(t, l). (playing s + 1, t, l)) new \<and>
    (\<forall>i \<in> set (iter_req_stream c' it). RequestStreamInfo c' i \<noteq> None)"
proof -
  let ?c = "buffering_mode m (buff_sec s) (reset_round c)\<lparr>EL_seg_id := playing s + 1, LAST_ITER_MASK := 1\<rparr>"
  have empty: "tile_layers c it = []" "requests_of c it = []"
    using assms(5) by (simp_all add: tile_layers_def requests_of_def)
  have ok: "round_ok m it s (EL_seg_id ?c)" "streams_inv ?c" using assms(3,4) by simp_all
  from request_by_priority_ALG5 [OF assms(1) ok] empty obtain c1 s' new where
    r: "request_by_priority m it s ?c = Some c1" "EL_seg_id c1 = playing s + 1" "tile_layers c1 it = new"
    and f: "filled (mf_enha_layer_br m) (alpha * est_thrp s) 1 (mf_EL_VER_NUM m) (priority s)
        (mf_base_layer_br m) new s'"
    by auto
  have "EL_booked it ?c"
    using assms(4,5) empty by (simp add: EL_booked_def booked_def requests_of_def)
  then have b: "booked it (playing s + 1) c1"
    using bk.request_by_priority_P [OF r(1) senses_in_UNIV] r(2) by (simp add: EL_booked_def)
  have "(Requested, c') = finish_decision it c1"
    using r(1) assms(1,6) by (simp add: MMSP_el_turn [OF assms(2)] request_enhancement_cases)
  then have c': "c' = c1\<lparr>iter_down_data := (iter_down_data c1)(it := 0)\<rparr>" "0 < req_s_num c1"
    by (auto simp: finish_decision_def split: if_splits)
  then have same: "requests_of c' it = requests_of c1 it" "tile_layers c' it = new" "fin_s_num c' = 0"
    using r(3) request_fin(3) [OF r(1)] by (simp_all add: requests_of_def tile_layers_def)
  have "map cell_of (requests_of c1 it) = map (\<lambda>(t, l). (playing s + 1, t, l)) (tile_layers c1 it)"
    using b by (simp add: tile_layers_def cell_of_def booked_def)
  moreover have "new \<noteq> []"
    using b c'(2) r(3) by (auto simp: booked_def tile_layers_def requests_of_def)
  moreover obtain n k where "new = full_layers 1 n (priority s) @ map (\<lambda>t. (t, n + 1)) (take k (priority s))"
    "1 - 1 \<le> n" "n \<le> mf_EL_VER_NUM m" "k \<noteq> 0 \<longrightarrow> n < mf_EL_VER_NUM m"
    using f unfolding filled_def by blast
  ultimately show ?thesis
    using same b r(3) unfolding c'(1)
    by (intro exI [of _ n] exI [of _ k] exI [of _ new]) (auto simp: booked_def streams_inv_def)
qed


section \<open>What the player then reads\<close>

lemma usable_from_held:
  assumes "held_layers b s t = {0..v}" "0 \<le> v"
  shows "usable b s t = nat v + 1"
proof -
  have "k < usable b s t \<longleftrightarrow> k < nat v + 1" for k
    unfolding usable_iff_held assms(1) using assms(2) by (auto simp: nat_le_iff)
  then show ?thesis by (metis linorder_neq_iff)
qed

lemma layers_of_round:
  assumes "new = full_layers 1 n ts @ map (\<lambda>t. (t, n + 1)) (take k ts)" "0 \<le> n"
  shows "\<exists>v. 0 \<le> v \<and> {l. (t, l) \<in> set new} = {1..v}"
proof -
  have "{l. (t, l) \<in> set new} = (if t \<in> set (take k ts) then {1..n + 1} else if t \<in> set ts then {1..n} else {})"
    using assms(2) by (auto simp: assms(1) set_full_layers dest: in_set_takeD)
  moreover have "{1..0 :: int} = {}" by simp
  ultimately show ?thesis using assms(2) by (metis add_increasing2 order_refl zero_le_one)
qed

lemma delivered_set:
  assumes "\<forall>(ev, i) \<in> set xs. in_time st ev i"
  shows "set (delivers st xs) = (\<lambda>i. cell_of (the (RequestStreamInfo (client st) i))) ` set (map snd xs)"
  using assms by (force simp: delivers_def)

lemma deliver_loop:
  "for_each (\<lambda>(s, f, l) b. update_tile_version b s f l) = for_each (\<lambda>(s, x) b. deliver b s x)"
  by (simp add: deliver_def case_prod_unfold)

text \<open>Deliveries of the cells \<open>(sid, t, l)\<close> of a round on top of the base layer.\<close>

lemma delivered_versions:
  assumes "session_ok m st" "0 \<le> sid" "sid < mf_NO_SEG m" "0 \<le> mf_NO_TILE m"
    and base: "\<forall>t. 0 \<le> t \<and> t < mf_NO_TILE m \<longrightarrow> held_layers (buff (player st)) sid t = {0}"
    and ds: "set ds = (\<lambda>(t, l). (sid, t, l)) ` set new"
    and valid: "\<forall>(t, l) \<in> set new. 1 \<le> t \<and> t \<le> mf_NO_TILE m \<and> 1 \<le> l \<and> l \<le> mf_EL_VER_NUM m"
    and run: "for_each (\<lambda>(s, f, l) b. update_tile_version b s f l) ds (buff (player st)) = Some b"
    and shape: "\<And>t. \<exists>v. 0 \<le> v \<and> {l. (t, l) \<in> set new} = {1..v}"
  shows "get_tile_version b sid = Some (map (\<lambda>t. Some (int (card {l. (t, l) \<in> set new}))) [1..mf_NO_TILE m])"
proof -
  let ?b = "buff (player st)"
  have wf: "buffer_wf ?b" and d: "dims ?b = (mf_NO_SEG m, mf_NO_TILE m, mf_EL_VER_NUM m + 1)" "0 \<le> mf_EL_VER_NUM m"
    using assms(1) by (auto simp: session_defs)
  have "\<forall>(s, x) \<in> set ds. valid_delivery (dims ?b) s x"
    using valid d assms(2,3) by (auto simp: ds valid_delivery_def)
  from bufs.deliveries [OF wf this] run obtain b1: "buffer_wf b" "dims b = dims ?b"
    "\<And>s t. slot (dims ?b) s t \<Longrightarrow> held_layers b s t = held_layers ?b s t \<union> (\<Union>x \<in> {x. (s, x) \<in> set ds}. delivery_covers x t)"
    by (auto simp: deliver_loop)
  have held: "held_layers b sid (t - 1) = {0} \<union> {l. (t, l) \<in> set new}" if "1 \<le> t" "t \<le> mf_NO_TILE m" for t
  proof -
    have "slot (dims ?b) sid (t - 1)" using that d(1) assms(2,3) by (simp add: slot_def)
    from b1(3) [OF this] have "held_layers b sid (t - 1) =
        {0} \<union> (\<Union>x \<in> {x. (sid, x) \<in> set ds}. delivery_covers x (t - 1))"
      using base that by simp
    moreover have "(\<Union>x \<in> {x. (sid, x) \<in> set ds}. delivery_covers x (t - 1)) = {l. (t, l) \<in> set new}"
    proof -
      have "delivery_covers x (t - 1) = (if fst x = t then {snd x} else {})" if "x \<in> set new" for x
        using that valid by (cases x) (auto simp: delivery_covers_def)
      then have "(\<Union>x \<in> set new. delivery_covers x (t - 1)) = (\<Union>x \<in> set new. if fst x = t then {snd x} else {})"
        by (rule SUP_cong [OF HOL.refl])
      moreover have "(\<Union>x \<in> set new. if fst x = t then {snd x} else {}) = {l. (t, l) \<in> set new}"
        by (auto simp: set_eq_iff split: if_splits intro!: bexI [of _ "(t, _)"])
      moreover have "{x. (sid, x) \<in> set ds} = set new" by (auto simp: ds image_iff)
      ultimately show ?thesis by (simp only:)
    qed
    ultimately show ?thesis by simp
  qed
  have level: "usable b sid (t - 1) = card {l. (t, l) \<in> set new} + 1" if t: "1 \<le> t" "t \<le> mf_NO_TILE m" for t
  proof -
    obtain v where v: "0 \<le> v" "{l. (t, l) \<in> set new} = {1..v}" using shape by blast
    have "{0} \<union> {1..v} = {0..v}" using v(1) by auto
    then have "held_layers b sid (t - 1) = {0..v}" using held [OF t] v(2) by simp
    then show ?thesis using usable_from_held v by simp
  qed
  have dd: "bf_NO_SEG b = mf_NO_SEG m" "bf_NO_TILE b = mf_NO_TILE m" "bf_NO_LAYER b = mf_EL_VER_NUM m + 1"
    using b1(2) d(1) by (simp_all add: dims_def)
  have "get_tile_version b sid = Some (map (\<lambda>t. if usable b sid t = 0 then None else Some (int (usable b sid t) - 1))
      [0..mf_NO_TILE m - 1])"
    using get_tile_version_usable [OF b1(1), of sid] assms(2,3) d(2) dd by simp
  moreover have "[0..mf_NO_TILE m - 1] = map (\<lambda>t. t - 1) [1..mf_NO_TILE m]"
    by (rule nth_equalityI) auto
  moreover have "map (\<lambda>t. if usable b sid (t - 1) = 0 then None else Some (int (usable b sid (t - 1)) - 1)) [1..mf_NO_TILE m]
      = map (\<lambda>t. Some (int (card {l. (t, l) \<in> set new}))) [1..mf_NO_TILE m]"
    by (rule map_cong) (simp_all add: level)
  ultimately show ?thesis by (simp add: o_def)
qed


text \<open>
  C3: Take a decision of algorithm 5 that requests something for the segment after the one playing,
  of which only the base layer is in the buffer. Once its streams have closed, in any order, each
  before the deadline and not cancelled, the round is over and the version the player reads for
  each tile of that segment is the number of layers requested for the tile.
\<close>

theorem ALG5_round_versions:
  assumes "mf_ALG m = 5" "el_turn m s c" "round_ok m it s (playing s + 1)" "streams_inv c"
    "iter_req_stream c it = []" "MMSP m it s c = Some (Requested, c')"
    and "session_ok m st" "client st = c'"
    and "mset (map snd xs) = mset (iter_req_stream c' it)"
    and "\<forall>(ev, i) \<in> set xs. start_time ev < now_time ev \<and> in_time st ev i"
    and "\<forall>t. 0 \<le> t \<and> t < mf_NO_TILE m \<longrightarrow> held_layers (buff (player st)) (playing s + 1) t = {0}"
  shows "\<exists>st'. closes m xs st = Some (st', replicate (length xs - 1) False @ [True]) \<and>
    get_tile_version (buff (player st')) (playing s + 1) =
      Some (map (\<lambda>t. Some (int (card {l. (t, l) \<in> set (tile_layers c' it)}))) [1..mf_NO_TILE m])"
proof -
  let ?sid = "playing s + 1"
  from MMSP_ALG5_cells [OF assms(1-6)] obtain n k new where
    new: "new = full_layers 1 n (priority s) @ map (\<lambda>t. (t, n + 1)) (take k (priority s))"
      "0 \<le> n" "n \<le> mf_EL_VER_NUM m" "k \<noteq> 0 \<longrightarrow> n < mf_EL_VER_NUM m" "new \<noteq> []" "tile_layers c' it = new"
    and cl: "fin_s_num c' = 0" "req_s_num c' = int (length (iter_req_stream c' it))"
      "map cell_of (requests_of c' it) = map (\<lambda>(t, l). (?sid, t, l)) new"
      "\<forall>i \<in> set (iter_req_stream c' it). RequestStreamInfo c' i \<noteq> None"
    by blast
  have ids: "set (map snd xs) = set (iter_req_stream c' it)" "length xs = length (iter_req_stream c' it)"
    using mset_eq_setD [OF assms(9)] mset_eq_length [OF assms(9)] by simp_all
  have tiles: "\<forall>(t, l) \<in> set new. 1 \<le> t \<and> t < mf_NO_FACE m \<and> 1 \<le> l \<and> l \<le> mf_EL_VER_NUM m"
  proof (intro ballI, clarify)
    fix t l
    assume "(t, l) \<in> set new"
    then have "t \<in> set (priority s)" "1 \<le> l" "l \<le> n \<or> l \<le> n + 1 \<and> k \<noteq> 0"
      using new(2) by (cases "k = 0"; auto simp: new(1) set_full_layers dest: in_set_takeD)+
    then show "1 \<le> t \<and> t < mf_NO_FACE m \<and> 1 \<le> l \<and> l \<le> mf_EL_VER_NUM m"
      using assms(3) new(3,4) by (auto simp: priority_def round_ok_def known_tiles_def)
  qed
  have sid: "0 \<le> ?sid" "?sid < mf_NO_SEG m" using assms(3) by (simp_all add: round_ok_def)
  have cells: "(\<lambda>i. cell_of (the (RequestStreamInfo c' i))) ` set (iter_req_stream c' it)
      = (\<lambda>(t, l). (?sid, t, l)) ` set new"
    using arg_cong [OF cl(3), of set] by (simp add: requests_of_def image_image)
  have known: "known_streams m st xs"
    unfolding known_streams_def
  proof (intro ballI, clarify)
    fix ev i
    assume i: "(ev, i) \<in> set xs"
    then have mem: "i \<in> set (iter_req_stream c' it)" using ids(1) by force
    then obtain info where info: "RequestStreamInfo c' i = Some info" using cl(4) by blast
    have "cell_of (the (RequestStreamInfo c' i)) \<in> (\<lambda>(t, l). (?sid, t, l)) ` set new"
      using mem unfolding cells [symmetric] by (rule imageI)
    then have "cell_of info \<in> (\<lambda>(t, l). (?sid, t, l)) ` set new" using info by simp
    then have "in_cells m (cell_of info)" using tiles sid by (force simp: in_cells_def)
    with i info assms(8,10) show "start_time ev < now_time ev \<and>
        (\<exists>info. RequestStreamInfo (client st) i = Some info \<and> in_cells m (cell_of info))"
      by auto
  qed
  have "xs \<noteq> []" using cl(2,3) new(5) ids(2) by (auto simp: requests_of_def)
  then obtain ys ev i where xs: "xs = ys @ [(ev, i)]" by (metis rev_exhaust surj_pair)
  have i: "i \<in> set (iter_req_stream c' it)" using ids(1) xs by auto
  then obtain info where info: "RequestStreamInfo c' i = Some info" using cl(4) by blast
  have "cell_of (the (RequestStreamInfo c' i)) \<in> (\<lambda>(t, l). (?sid, t, l)) ` set new"
    using i unfolding cells [symmetric] by (rule imageI)
  then have "si_fid info \<noteq> 0" using info tiles by (auto simp: cell_of_def)
  with round_closes_run [OF assms(7) known [unfolded xs], of info] info cl(1,2) ids(2) assms(8) xs obtain st' where
    st': "closes m xs st = Some (st', replicate (length ys) False @ [True])"
      "for_each (\<lambda>(s, f, l) b. update_tile_version b s f l) (delivers st xs) (buff (player st)) = Some (buff (player st'))"
    by auto
  have "set (delivers st xs) = (\<lambda>(t, l). (?sid, t, l)) ` set new"
    using delivered_set [of xs st] assms(8,10) cells ids(1) by (simp only:) auto
  moreover have "0 \<le> mf_NO_TILE m" "mf_NO_FACE m \<le> mf_NO_TILE m + 1"
    using assms(7) tiles new(5) by (cases new; auto simp: session_defs)+
  ultimately have "get_tile_version (buff (player st')) ?sid =
      Some (map (\<lambda>t. Some (int (card {l. (t, l) \<in> set new}))) [1..mf_NO_TILE m])"
    using delivered_versions [OF assms(7) sid _ assms(11) _ _ st'(2) layers_of_round [OF new(1,2)]] tiles
    by fastforce
  then show ?thesis using st'(1) xs new(6) by simp
qed


definition demo_based_session :: "Client \<Rightarrow> Session" where
  "demo_based_session c = (demo_session c)\<lparr>player := (player (demo_session c))
     \<lparr>buff := the (update_tile_version (buff (player (demo_session c))) 2 0 0)\<rparr>\<rparr>"

lemma demo_based_held:
  assumes "0 \<le> t" "t < 6"
  shows "held_layers (buff (player (demo_based_session c))) 2 t = {0}"
proof -
  have "layers_of (buff (player (demo_based_session c))) 2 0 = [1, -1, -1, -1] \<and>
    layers_of (buff (player (demo_based_session c))) 2 1 = [1, -1, -1, -1] \<and>
    layers_of (buff (player (demo_based_session c))) 2 2 = [1, -1, -1, -1] \<and>
    layers_of (buff (player (demo_based_session c))) 2 3 = [1, -1, -1, -1] \<and>
    layers_of (buff (player (demo_based_session c))) 2 4 = [1, -1, -1, -1] \<and>
    layers_of (buff (player (demo_based_session c))) 2 5 = [1, -1, -1, -1]"
    by code_simp
  moreover have "t = 0 \<or> t = 1 \<or> t = 2 \<or> t = 3 \<or> t = 4 \<or> t = 5" using assms by auto
  ultimately have "layers_of (buff (player (demo_based_session c))) 2 t = [1, -1, -1, -1]" by auto
  moreover have "{l :: int. 0 \<le> l \<and> l < 4 \<and> [1, -1, -1, -1 :: int] ! nat l \<noteq> -1} = {0}"
  proof (intro set_eqI iffI)
    fix l :: int
    assume "l \<in> {l. 0 \<le> l \<and> l < 4 \<and> [1, -1, -1, -1 :: int] ! nat l \<noteq> -1}"
    then have "l = 0 \<or> l = 1 \<or> l = 2 \<or> l = 3" "[1, -1, -1, -1 :: int] ! nat l \<noteq> -1" by auto
    then show "l \<in> {0}" by auto
  qed auto
  ultimately show ?thesis by (simp add: held_layers_def)
qed

theorem ALG5_round_versions_witness:
  "\<exists>c' st'. MMSP (demo_manifest 5) 0 (demo_sense 3 1 1700) (demo_client\<lparr>LAST_ITER_MASK := 0\<rparr>) = Some (Requested, c') \<and>
     closes (demo_manifest 5) (map (\<lambda>i. (demo_close 900, i)) [21 :: int, 15, 19, 17]) (demo_based_session c')
       = Some (st', [False, False, False, True]) \<and>
     get_tile_version (buff (player st')) 2 = Some [Some 1, Some 2, Some 1, Some 0, Some 0, Some 0]"
proof -
  let ?m = "demo_manifest 5" and ?s = "demo_sense 3 1 1700" and ?c = "demo_client\<lparr>LAST_ITER_MASK := 0\<rparr>"
  let ?xs = "map (\<lambda>i. (demo_close 900, i)) [21 :: int, 15, 19, 17]"
  have "map_option (\<lambda>(d, c). (d, tile_layers c 0, iter_req_stream c 0, session_ok ?m (demo_based_session c),
      list_all (\<lambda>(ev, i). start_time ev < now_time ev \<and> in_time (demo_based_session c) ev i) ?xs)) (MMSP ?m 0 ?s ?c)
    = Some (Requested, [(2, 1), (3, 1), (1, 1), (2, 2)], [15, 17, 19, 21], True, True)"
    by code_simp
  then obtain c' where r: "MMSP ?m 0 ?s ?c = Some (Requested, c')" "tile_layers c' 0 = [(2, 1), (3, 1), (1, 1), (2, 2)]"
    "iter_req_stream c' 0 = [15, 17, 19, 21]" "session_ok ?m (demo_based_session c')"
    "\<forall>(ev, i) \<in> set ?xs. start_time ev < now_time ev \<and> in_time (demo_based_session c') ev i"
    by (auto simp: list_all_iff)
  have "el_turn ?m ?s ?c \<and> round_ok ?m 0 ?s (playing ?s + 1)" by code_simp
  moreover have inv: "mf_ALG ?m = 5" "streams_inv ?c" "iter_req_stream ?c 0 = []"
    by (simp_all add: demo_manifest_def streams_inv_def demo_client_def)
  moreover have "client (demo_based_session c') = c'" by (simp add: demo_based_session_def demo_session_def)
  moreover have "mset (map snd ?xs) = mset (iter_req_stream c' 0)" by (simp add: r(3))
  moreover have p: "playing ?s = 1" "mf_NO_TILE ?m = 6" by (simp_all add: demo_sense_def demo_manifest_def)
  moreover have "\<forall>t. 0 \<le> t \<and> t < mf_NO_TILE ?m \<longrightarrow>
      held_layers (buff (player (demo_based_session c'))) (playing ?s + 1) t = {0}"
    using demo_based_held p by simp
  ultimately obtain st' where st': "closes ?m ?xs (demo_based_session c') = Some (st', replicate (length ?xs - 1) False @ [True])"
    "get_tile_version (buff (player st')) (playing ?s + 1) =
      Some (map (\<lambda>t. Some (int (card {l. (t, l) \<in> set (tile_layers c' 0)}))) [1..mf_NO_TILE ?m])"
    using ALG5_round_versions [OF inv(1) _ _ inv(2,3) r(1,4) _ _ r(5)] by blast
  have "[1..6 :: int] = [1, 2, 3, 4, 5, 6]" by (simp add: upto.simps)
  moreover have "{l :: int. l = 1 \<or> l = 2} = {1, 2}" by auto
  ultimately have "get_tile_version (buff (player st')) 2 = Some [Some 1, Some 2, Some 1, Some 0, Some 0, Some 0]"
    using st'(2) p r(2) by simp
  moreover have "replicate (length ?xs - 1) False @ [True] = [False, False, False, True]"
    by (simp add: numeral_3_eq_3)
  ultimately show ?thesis using r(1) st'(1) by metis
qed

end
