(* ===== verification/Viewport_Sense.thy ===== *)
theory Viewport_Sense
  imports Visible_Tiles Round_Requests
begin

text \<open>
  What an adaptation engine senses of the viewer, from the files the client has loaded: the position
  in the head trace at the current play time, the tiles visible from it with their pixels, and the
  tiles around them. The engines of theory \<open>Adaptation\<close> take these as arguments; here they meet
  the tables that provide them.
\<close>

section \<open>The code\<close>

text \<open>\<^verbatim>\<open>predictViewport\<close>: the position now is the prediction.\<close>

definition sense_viewport :: "VisibleMask \<Rightarrow> Headtrace \<Rightarrow> rat \<Rightarrow> Sense \<Rightarrow> Sense option" where
  "sense_viewport vmask htrace play_time s = do {
     cur_vp_pos \<leftarrow> get_vp_pos htrace play_time;
     viewport_tile \<leftarrow> get_visible_tile vmask cur_vp_pos;
     row \<leftarrow> get_pixel vmask cur_vp_pos;
     px \<leftarrow> those (map row [0..vm_NO_TILE vmask - 1]);
     Some (s\<lparr>viewport := viewport_tile, tile_pixel := px, adjacent := get_adjacent_tile vmask cur_vp_pos\<rparr>)
   }"

section \<open>What is sensed\<close>

text \<open>The files of a session: the trace stays within the angles of the mask file.\<close>

definition files_ok :: "rat list list \<Rightarrow> rat list list \<Rightarrow> int \<Rightarrow> int \<Rightarrow> bool" where
  "files_ok angles trace NO_FRAME fps \<longleftrightarrow> angle_file 24 angles \<and> trace_file NO_FRAME trace \<and> 0 < fps \<and>
     (\<forall>f. 0 \<le> f \<and> f < NO_FRAME \<longrightarrow> line_at angles (turned (frame_line trace f)) \<noteq> None)"

definition viewport_ok :: "Sense \<Rightarrow> bool" where
  "viewport_ok s \<longleftrightarrow> sorted_wrt (<) (viewport s) \<and> length (tile_pixel s) = 24 \<and>
     (\<forall>t. t \<in> set (viewport s) \<longleftrightarrow> 1 \<le> t \<and> t \<le> 24 \<and> 0 < tile_pixel s ! nat (t - 1)) \<and>
     (\<forall>w \<ge> 1. \<exists>adj. adjacent s w = Some adj \<and> distinct adj \<and> set adj \<subseteq> {1..24} - set (viewport s))"

lemma viewport_ok_senses: "viewport_ok s \<Longrightarrow> senses_in {0<..} s"
  by (fastforce simp: viewport_ok_def senses_in_def)

lemma get_vp_pos_line:
  assumes "files_ok angles trace NO_FRAME fps" "0 \<le> t" "t < of_int NO_FRAME * 1000 / of_int fps"
  shows "\<exists>ht l. load_headtrace trace NO_FRAME fps = Some ht \<and>
    get_vp_pos ht t = Some (frame_line trace \<lfloor>t * of_int fps / 1000\<rfloor>) \<and>
    line_at angles (turned (frame_line trace \<lfloor>t * of_int fps / 1000\<rfloor>)) = Some l"
proof -
  let ?f = "\<lfloor>t * of_int fps / 1000\<rfloor>"
  have tr: "trace_file NO_FRAME trace" and fps: "0 < fps" using assms(1) by (simp_all add: files_ok_def)
  have "t * of_int fps / 1000 < of_int NO_FRAME" using assms(3) fps by (simp add: field_simps)
  then have f: "0 \<le> ?f" "?f < NO_FRAME" using assms(2) fps by (simp_all add: floor_less_iff)
  obtain ht where "load_headtrace trace NO_FRAME fps = Some ht" "ht_FPS ht = fps"
    "get_vp_pos_byFrameId ht ?f = Some (frame_line trace ?f)"
    using load_headtrace_frames [OF tr, of fps] f by blast
  moreover obtain l where "line_at angles (turned (frame_line trace ?f)) = Some l"
    using assms(1) f unfolding files_ok_def by blast
  ultimately show ?thesis using frame_of_time [OF assms(2) fps] by (auto simp: get_vp_pos_def)
qed

lemma sense_viewport_line:
  assumes "angle_file 24 angles" "loaded 24 angles vm" "get_vp_pos ht t = Some pos"
    "line_at angles (turned pos) = Some l"
  shows "sense_viewport vm ht t s = Some (s\<lparr>viewport := visible_tiles 24 l,
    tile_pixel := map (pixels_of l) [0..23], adjacent := get_adjacent_tile vm pos\<rparr>)"
proof -
  obtain row where row: "get_pixel vm pos = Some row" "\<forall>j. 0 \<le> j \<and> j < 24 \<longrightarrow> row j = Some (pixels_of l j)"
    using angle_row_loaded(1) [OF assms(1,2,4)] by blast
  have "those (map row [0..23]) = Some (map (pixels_of l) [0..23])"
    by (rule those_map_Some) (use row(2) in auto)
  then show ?thesis
    using assms(2,3) row(1) get_visible_tile_loaded [OF assms(1,2,4)]
    by (simp add: sense_viewport_def loaded_def)
qed

lemma viewport_ok_line:
  assumes "angle_file 24 angles" "loaded 24 angles vm" "line_at angles (turned pos) = Some l"
  shows "viewport_ok (s\<lparr>viewport := visible_tiles 24 l, tile_pixel := map (pixels_of l) [0..23],
    adjacent := get_adjacent_tile vm pos\<rparr>)"
proof -
  have "distinct (map (\<lambda>t. t + 1) (filter (next_to_visible l) [0..23]))"
    by (simp add: distinct_map)
  moreover have "set (map (\<lambda>t. t + 1) (filter (next_to_visible l) [0..23])) \<subseteq> {1..24} - set (visible_tiles 24 l)"
    by (auto simp: visible_tiles_range next_to_visible_def)
  ultimately show ?thesis
    using get_adjacent_tile_loaded [OF assms] visible_tiles_sorted [of 24 l]
    by (auto simp: viewport_ok_def visible_tiles_range nat_less_iff)
qed

text \<open>
  C35: At every time of the head trace the engines get a well-formed viewport: strictly increasing
  tile ids from 1 to 24 which are exactly the tiles with visible pixels, a pixel count for every tile,
  and for any extension width distinct tiles outside the viewport.
\<close>

theorem sensed_viewport_ok:
  assumes "files_ok angles trace NO_FRAME fps" "0 \<le> t" "t < of_int NO_FRAME * 1000 / of_int fps"
  shows "\<exists>vm ht s'. load_vmask angles 24 = Some vm \<and> load_headtrace trace NO_FRAME fps = Some ht \<and>
    sense_viewport vm ht t s = Some s' \<and> viewport_ok s'"
proof -
  have a: "angle_file 24 angles" using assms(1) by (simp add: files_ok_def)
  obtain vm where vm: "load_vmask angles 24 = Some vm" "loaded 24 angles vm"
    using load_vmask_loaded [OF a] by blast
  from get_vp_pos_line [OF assms] vm sense_viewport_line [OF a vm(2)] viewport_ok_line [OF a vm(2)]
  show ?thesis by blast
qed

text \<open>So the conditions of a round only ask that something is visible.\<close>

lemma viewport_round_ok:
  assumes "viewport_ok s" "viewport s \<noteq> []" "in_iters m it" "0 \<le> sid" "sid < mf_NO_SEG m" "0 \<le> mf_EL_VER_NUM m"
    "mf_EL_VER_NUM m \<le> int (length (mf_enha_layer_br m))" "sorted (mf_enha_layer_br m)" "mf_NO_FACE m = 25"
  shows "round_ok m it s sid"
  using assms by (auto simp: round_ok_def viewport_ok_def known_tiles_def)

section \<open>The extension width\<close>

text \<open>Two senses that differ at most in the tiles around the viewport for widths above 1.\<close>

definition same_ring :: "Sense \<Rightarrow> Sense \<Rightarrow> bool" where
  "same_ring s s' \<longleftrightarrow> buff_sec s = buff_sec s' \<and> playing s = playing s' \<and> time_budget s = time_budget s' \<and>
     viewport s = viewport s' \<and> tile_pixel s = tile_pixel s' \<and> frame_vp_err s = frame_vp_err s' \<and>
     seg_vp_err s = seg_vp_err s' \<and> seg_smooth_vp_err s = seg_smooth_vp_err s' \<and> est_thrp s = est_thrp s' \<and>
     smooth_bitrate s = smooth_bitrate s' \<and> adjacent s 1 = adjacent s' 1 \<and> adjacent s 2 = adjacent s' 2 \<and>
     adjacent s 3 = adjacent s' 3"

lemma same_ringD:
  assumes "same_ring s s'"
  shows "buff_sec s = buff_sec s'" "playing s = playing s'" "time_budget s = time_budget s'"
    "viewport s = viewport s'" "tile_pixel s = tile_pixel s'" "frame_vp_err s = frame_vp_err s'"
    "seg_vp_err s = seg_vp_err s'" "seg_smooth_vp_err s = seg_smooth_vp_err s'" "est_thrp s = est_thrp s'"
    "smooth_bitrate s = smooth_bitrate s'" "adjacent s 1 = adjacent s' 1"
    "adjacent s (if a then 3 else if b then 2 else 1) = adjacent s' (if a then 3 else if b then 2 else 1)"
  using assms by (simp_all add: same_ring_def)

lemma fill_same_ring:
  assumes "same_ring s s'"
  shows "fill_adjacent m it budget d s = fill_adjacent m it budget d s'"
    "fill_alg7 m it budget pri s = fill_alg7 m it budget pri s'"
    "fill_alg10 m it budget pri s = fill_alg10 m it budget pri s'"
    "fill_alg12 m it budget pri s = fill_alg12 m it budget pri s'"
    "fill_alg13 m it budget pri s = fill_alg13 m it budget pri s'"
    "mean_vp_err m k s = mean_vp_err m k s'"
  unfolding fill_adjacent_def fill_alg7_def fill_alg10_def fill_alg12_def fill_alg13_def mean_vp_err_def
    recent_errors_def same_ringD [OF assms]
  by (rule HOL.refl)+

lemma MMSP_same_ring:
  assumes "same_ring s s'"
  shows "MMSP m it s c = MMSP m it s' c"
proof -
  have 1: "request_by_priority m it s = request_by_priority m it s'"
    by (rule ext) (unfold request_by_priority_def fill_same_ring [OF assms] same_ringD [OF assms], rule HOL.refl)
  have 2: "request_enhancement m it s = request_enhancement m it s'"
    by (rule ext) (unfold request_enhancement_def request_exhaustive_def request_version_def 1 same_ringD [OF assms],
        rule HOL.refl)
  show ?thesis unfolding MMSP_def same_ringD [OF assms] 2 by (rule HOL.refl)
qed

text \<open>
  C31: However large the prediction error is that makes algorithms 6, 8 and 11 ask for an extension
  of two or three tiles, they decide as if they had asked for one: no decision of any algorithm
  depends on the extension width.
\<close>

theorem decision_ignores_width:
  assumes "angle_file 24 angles" "line_at angles (turned pos) = Some l"
  shows "\<exists>vm. load_vmask angles 24 = Some vm \<and>
    MMSP m it (s\<lparr>adjacent := get_adjacent_tile vm pos\<rparr>) c =
      MMSP m it (s\<lparr>adjacent := \<lambda>_. get_adjacent_tile vm pos 1\<rparr>) c"
proof -
  obtain vm where vm: "load_vmask angles 24 = Some vm" "loaded 24 angles vm"
    using load_vmask_loaded [OF assms(1)] by blast
  then have "same_ring (s\<lparr>adjacent := get_adjacent_tile vm pos\<rparr>) (s\<lparr>adjacent := \<lambda>_. get_adjacent_tile vm pos 1\<rparr>)"
    using get_adjacent_tile_loaded [OF assms(1) vm(2) assms(2)] by (simp add: same_ring_def)
  from MMSP_same_ring [OF this] vm(1) show ?thesis by blast
qed

theorem sensed_viewport_ok_witness:
  "\<exists>vm ht s'. load_vmask demo_angles 24 = Some vm \<and> load_headtrace [[0, 0], [0, 0], [- 10, - 10]] 2 30 = Some ht \<and>
     sense_viewport vm ht 50 (demo_sense 3 1 2000) = Some s' \<and> viewport_ok s'"
proof (rule sensed_viewport_ok)
  have "line_at demo_angles (turned (0, 0)) \<noteq> None" "line_at demo_angles (turned (- 10, - 10)) \<noteq> None"
    by (simp_all add: line_at_def demo_angles_def turned_def angle_of_def)
  moreover have "f = 0 \<or> f = 1" if "0 \<le> f" "f < 2" for f :: int using that by linarith
  moreover have "frame_line [[0, 0], [0, 0], [- 10, - 10]] 0 = (0, 0)"
    "frame_line [[0, 0], [0, 0], [- 10, - 10]] 1 = (- 10, - 10)"
    by (simp_all add: frame_line_def)
  ultimately have "line_at demo_angles (turned (frame_line [[0, 0], [0, 0], [- 10, - 10]] f)) \<noteq> None"
    if "0 \<le> f" "f < 2" for f
    using that by metis
  then show "files_ok demo_angles [[0, 0], [0, 0], [- 10, - 10]] 2 30"
    using demo_angle_file by (simp add: files_ok_def trace_file_def rectangular_def)
qed simp_all

theorem decision_ignores_width_witness:
  "\<exists>vm. load_vmask demo_angles 24 = Some vm \<and>
     MMSP (demo_manifest 6) 0 (demo_sense 3 1 2000\<lparr>adjacent := get_adjacent_tile vm (- 10, - 10)\<rparr>) demo_client =
       MMSP (demo_manifest 6) 0 (demo_sense 3 1 2000\<lparr>adjacent := \<lambda>_. get_adjacent_tile vm (- 10, - 10) 1\<rparr>) demo_client"
  by (rule decision_ignores_width [OF demo_angle_file])
    (simp add: line_at_def demo_angles_def turned_def angle_of_def)

end
