(* ===== verification/Decimal_Text.thy ===== *)
theory Decimal_Text
  imports VR_Prelude
begin

text \<open>
  Text: the operations of \<^verbatim>\<open>std::string\<close> and the decimal numbers (\<^verbatim>\<open>std::to_string\<close>, \<^verbatim>\<open>std::stoi\<close>, what
  \<^verbatim>\<open>std::stod\<close> shares with it) that the configuration reader, the client's requests and the servers'
  handlers use. Positions in a string are unsigned and wrap around at \<open>2 ^ 64\<close>.
\<close>

section \<open>Positions\<close>

definition size_minus :: "int \<Rightarrow> int \<Rightarrow> int" where
  "size_minus a b = (a - b) mod 2 ^ 64"

fun find_char :: "char \<Rightarrow> string \<Rightarrow> int option" where
  "find_char c [] = None"
| "find_char c (x # xs) = (if x = c then Some 0 else map_option (\<lambda>i. i + 1) (find_char c xs))"

definition substr :: "int \<Rightarrow> int \<Rightarrow> string \<Rightarrow> string option" where
  "substr pos n s =
     (if pos \<le> int (length s) then Some (take (nat (min n (int (length s)))) (drop (nat pos) s)) else None)"

lemma find_char_Some:
  "find_char c s = Some i \<Longrightarrow> 0 \<le> i \<and> i < int (length s)"
  by (induction s arbitrary: i) (auto split: if_splits)

lemma find_char_append: "c \<notin> set xs \<Longrightarrow> find_char c (xs @ c # ys) = Some (int (length xs))"
  by (induction xs) auto

lemma find_char_None: "find_char c s = None \<longleftrightarrow> c \<notin> set s"
  by (induction s) auto

section \<open>Decimal numbers\<close>

definition is_digit :: "char \<Rightarrow> bool" where
  "is_digit c \<longleftrightarrow> c \<in> set ''0123456789''"

definition digit_of :: "char \<Rightarrow> int" where
  "digit_of c = of_char c - 48"

definition number_of :: "string \<Rightarrow> int" where
  "number_of ds = foldl (\<lambda>v d. 10 * v + digit_of d) 0 ds"

definition read_sign :: "string \<Rightarrow> int \<times> string" where
  "read_sign s = (case s of c # r \<Rightarrow> if c = CHR ''-'' then (- 1, r) else if c = CHR ''+'' then (1, r) else (1, s)
     | [] \<Rightarrow> (1, s))"

definition is_space :: "char \<Rightarrow> bool" where
  "is_space c \<longleftrightarrow> c = CHR '' '' \<or> c \<in> {CHR 0x09, CHR 0x0A, CHR 0x0B, CHR 0x0C, CHR 0x0D}"

fun print_nat :: "nat \<Rightarrow> string" where
  "print_nat n = (if n < 10 then [char_of (48 + n)] else print_nat (n div 10) @ [char_of (48 + n mod 10)])"

declare print_nat.simps [simp del]

definition print_int :: "int \<Rightarrow> string" where
  "print_int n = (if n < 0 then CHR ''-'' # print_nat (nat (- n)) else print_nat (nat n))"

lemma is_digit_char_of: "(n :: nat) < 10 \<Longrightarrow> is_digit (char_of (48 + n))"
proof -
  assume "n < 10"
  then have "n \<in> set [0..<10]" by simp
  moreover have "\<forall>n :: nat \<in> set [0..<10]. is_digit (char_of (48 + n))" by code_simp
  ultimately show ?thesis by blast
qed

lemma digit_of_char_of: "(n :: nat) < 10 \<Longrightarrow> digit_of (char_of (48 + n)) = int n"
proof -
  assume "n < 10"
  then have "n \<in> set [0..<10]" by simp
  moreover have "\<forall>n :: nat \<in> set [0..<10]. digit_of (char_of (48 + n)) = int n" by code_simp
  ultimately show ?thesis by blast
qed

lemma print_nat_digits: "print_nat n \<noteq> [] \<and> (\<forall>c \<in> set (print_nat n). is_digit c)"
proof (induction n rule: print_nat.induct)
  case (1 n)
  then show ?case by (subst print_nat.simps, subst (2) print_nat.simps) (auto simp: is_digit_char_of)
qed

lemma number_of_print_nat: "number_of (print_nat n) = int n"
proof (induction n rule: print_nat.induct)
  case (1 n)
  show ?case
  proof (cases "n < 10")
    case True
    then show ?thesis by (simp add: print_nat.simps [of n] number_of_def digit_of_char_of)
  next
    case False
    have "number_of (print_nat (n div 10) @ [char_of (48 + n mod 10)]) =
        10 * number_of (print_nat (n div 10)) + int (n mod 10)"
      by (simp add: number_of_def digit_of_char_of)
    also have "\<dots> = 10 * int (n div 10) + int (n mod 10)" using 1 False by simp
    also have "\<dots> = int n" by presburger
    finally show ?thesis using False by (simp add: print_nat.simps [of n])
  qed
qed

lemma print_int_chars: "c \<in> set (print_int n) \<Longrightarrow> is_digit c \<or> c = CHR ''-''"
  using print_nat_digits by (auto simp: print_int_def split: if_splits)

lemma print_int_free:
  "CHR '','' \<notin> set (print_int n)" "CHR ''#'' \<notin> set (print_int n)" "CHR '' '' \<notin> set (print_int n)"
  using print_int_chars [of _ n] by (auto simp: is_digit_def)

section \<open>\<^verbatim>\<open>std::stoi\<close>\<close>

definition stoi :: "string \<Rightarrow> int option" where
  "stoi str = (case read_sign (dropWhile is_space str) of (sg, s) \<Rightarrow>
     let ds = takeWhile is_digit s; v = sg * number_of ds in
     if ds = [] \<or> v < - (2 ^ 31) \<or> 2 ^ 31 \<le> v then None else Some v)"

lemma digits_start:
  assumes "ds \<noteq> []" "\<forall>c \<in> set ds. is_digit c"
  shows "dropWhile is_space ds = ds" "read_sign ds = (1, ds)" "takeWhile is_digit ds = ds" "dropWhile is_digit ds = []"
proof -
  have n: "\<not> is_space d \<and> d \<noteq> CHR ''-'' \<and> d \<noteq> CHR ''+''" if "is_digit d" for d
    using that by (auto simp: is_digit_def is_space_def)
  have h: "is_digit (hd ds)" using assms by simp
  show "dropWhile is_space ds = ds" "read_sign ds = (1, ds)"
    using assms(1) n [OF h] by (cases ds; simp add: read_sign_def)+
  show "takeWhile is_digit ds = ds" "dropWhile is_digit ds = []" using assms(2) by auto
qed

lemma stoi_print_int:
  assumes "- (2 ^ 31) \<le> n" "n < 2 ^ 31"
  shows "stoi (print_int n) = Some n"
proof -
  have d: "print_nat k \<noteq> []" "\<forall>c \<in> set (print_nat k). is_digit c" for k using print_nat_digits by auto
  note start = digits_start [OF d]
  show ?thesis
    using assms d(1)
    by (simp add: stoi_def print_int_def start is_space_def read_sign_def [of "_ # _"] number_of_print_nat Let_def)
qed

lemma print_int_no: "\<not> is_digit c \<Longrightarrow> c \<noteq> CHR ''-'' \<Longrightarrow> c \<notin> set (print_int n)"
  using print_int_chars by blast

lemma print_int_inj: "print_int m = print_int n \<longleftrightarrow> m = n"
proof
  assume e: "print_int m = print_int n"
  have d: "hd (print_nat k) \<noteq> CHR ''-''" for k
  proof -
    have "is_digit (hd (print_nat k))" using print_nat_digits [of k] hd_in_set by blast
    moreover have "\<not> is_digit CHR ''-''" by code_simp
    ultimately show ?thesis by metis
  qed
  have n: "print_nat i = print_nat j \<Longrightarrow> i = j" for i j
    by (metis number_of_print_nat of_nat_eq_iff)
  consider "m < 0" "n < 0" | "m < 0" "0 \<le> n" | "0 \<le> m" "n < 0" | "0 \<le> m" "0 \<le> n" by linarith
  then show "m = n"
  proof cases
    case 1 then show ?thesis using e n [of "nat (- m)" "nat (- n)"] by (simp add: print_int_def)
  next
    case 2
    then have "CHR ''-'' # print_nat (nat (- m)) = print_nat (nat n)" using e by (simp add: print_int_def)
    from arg_cong [OF this, of hd] show ?thesis using d [of "nat n"] by simp
  next
    case 3
    then have "print_nat (nat m) = CHR ''-'' # print_nat (nat (- n))" using e by (simp add: print_int_def)
    from arg_cong [OF this, of hd] show ?thesis using d [of "nat m"] by simp
  next
    case 4 then show ?thesis using e n [of "nat m" "nat n"] by (simp add: print_int_def)
  qed
qed simp

end
