(* ===== verification/Manifest_File.thy ===== *)
theory Manifest_File
  imports Decimal_Text
begin

text \<open>
  The constructor of class \<^verbatim>\<open>Manifest\<close> in \<^verbatim>\<open>duc_metric.h\<close>: it reads the settings of a session from
  a text file of lines \<^verbatim>\<open>key = value # comment\<close>. Positions in a string are unsigned and wrap around
  at \<open>2 ^ 64\<close>; \<open>None\<close> is an exception that ends the program (\<^verbatim>\<open>std::out_of_range\<close> of \<^verbatim>\<open>substr\<close>,
  \<^verbatim>\<open>std::invalid_argument\<close> of \<^verbatim>\<open>stod\<close>) or a read of a setting that was never assigned.

  The values are converted from double to int, which is undefined beyond 32 bits; the model keeps the
  truncated number, so what is proved concerns the program for numbers of 32 bits, as in every
  configuration. Of \<^verbatim>\<open>std::stod\<close> the decimal format is modelled, with fraction and exponent; the hexadecimal format,
  infinities and NaN are \<open>None\<close>. The console output is left out.
\<close>

section \<open>The string operations used\<close>

fun find_first_not_of :: "char \<Rightarrow> string \<Rightarrow> int option" where
  "find_first_not_of c [] = None"
| "find_first_not_of c (x # xs) = (if x \<noteq> c then Some 0 else map_option (\<lambda>i. i + 1) (find_first_not_of c xs))"

definition find_last_not_of :: "char \<Rightarrow> string \<Rightarrow> int option" where
  "find_last_not_of c s = map_option (\<lambda>i. int (length s) - 1 - i) (find_first_not_of c (rev s))"

text \<open>\<^verbatim>\<open>Manifest::trim\<close>; only blanks are removed.\<close>

definition trim :: "string \<Rightarrow> string option" where
  "trim str = (case find_first_not_of CHR '' '' str of
     None \<Rightarrow> Some str
   | Some first \<Rightarrow> do {
       last_pos \<leftarrow> find_last_not_of CHR '' '' str;
       substr first (size_minus last_pos first + 1) str
     })"

definition read_exponent :: "string \<Rightarrow> int" where
  "read_exponent s = (case s of c # r \<Rightarrow>
       if c = CHR ''e'' \<or> c = CHR ''E'' then (case read_sign r of (sg, r) \<Rightarrow> sg * number_of (takeWhile is_digit r))
       else 0
     | [] \<Rightarrow> 0)"

definition read_fraction :: "string \<Rightarrow> string \<times> string" where
  "read_fraction s = (case s of c # r \<Rightarrow> if c = CHR ''.'' then (takeWhile is_digit r, dropWhile is_digit r) else ([], s)
     | [] \<Rightarrow> ([], s))"

definition stod :: "string \<Rightarrow> rat option" where
  "stod str = (case read_sign (dropWhile is_space str) of (sg, s) \<Rightarrow>
     let ip = takeWhile is_digit s; (fp, rest) = read_fraction (dropWhile is_digit s); e = read_exponent rest in
     if ip @ fp = [] \<or> (ip = ''0'' \<and> fp = [] \<and> rest \<noteq> [] \<and> hd rest \<in> {CHR ''x'', CHR ''X''}) then None
     else Some (of_int (sg * number_of (ip @ fp)) / 10 ^ length fp *
       (if 0 \<le> e then 10 ^ nat e else 1 / 10 ^ nat (- e))))"

section \<open>The constructor\<close>

record Config =
  cf_NO_SEG :: "int option"
  cf_SD :: "int option"
  cf_NO_TILE :: "int option"
  cf_NO_FACE :: "int option"
  cf_VLEN :: "int option"
  cf_BASE_BUFF_THRES :: "int option"
  cf_FPS :: "int option"
  cf_base_layer_br :: "int option"
  cf_enha_layer_br :: "int list option"
  cf_ALG :: "int option"
  cf_htrace :: string
  cf_bwtrace :: string
  cf_vmask :: string

text \<open>The loop over the bitrates, each of which is followed by a comma.\<close>

function read_bitrates :: "string \<Rightarrow> int list \<Rightarrow> int list option" where
  "read_bitrates val_str tmp = (case find_char CHR '','' val_str of
     None \<Rightarrow> Some tmp
   | Some pos \<Rightarrow> do {
       token \<leftarrow> substr 0 pos val_str;
       x \<leftarrow> stod token;
       read_bitrates (drop (nat (pos + 1)) val_str) (tmp @ [trunc x])
     })"
  by pat_completeness auto

termination
  by (relation "measure (\<lambda>(s, tmp). length s)") (auto dest!: find_char_Some)

text \<open>The truncated number, for numbers that fit an int.\<close>

definition read_int :: "string \<Rightarrow> int option" where
  "read_int val_str = map_option trunc (stod val_str)"

text \<open>The chain of comparisons of the key.\<close>

definition assign_key :: "string \<Rightarrow> string \<Rightarrow> Config \<Rightarrow> Config option" where
  "assign_key key val_str c =
     (if key = ''NO_SEG'' then map_option (\<lambda>v. c\<lparr>cf_NO_SEG := Some v\<rparr>) (read_int val_str)
      else if key = ''SD'' then map_option (\<lambda>v. c\<lparr>cf_SD := Some v\<rparr>) (read_int val_str)
      else if key = ''NO_TILE'' then
        map_option (\<lambda>v. c\<lparr>cf_NO_TILE := Some v, cf_NO_FACE := Some (v + 1)\<rparr>) (read_int val_str)
      else if key = ''base_layer_buff'' then map_option (\<lambda>v. c\<lparr>cf_BASE_BUFF_THRES := Some v\<rparr>) (read_int val_str)
      else if key = ''FPS'' then map_option (\<lambda>v. c\<lparr>cf_FPS := Some v\<rparr>) (read_int val_str)
      else if key = ''base_layer_br'' then map_option (\<lambda>v. c\<lparr>cf_base_layer_br := Some v\<rparr>) (read_int val_str)
      else if key = ''ALG'' then map_option (\<lambda>v. c\<lparr>cf_ALG := Some v\<rparr>) (read_int val_str)
      else if key = ''htrace'' then Some (c\<lparr>cf_htrace := val_str\<rparr>)
      else if key = ''bwtrace'' then Some (c\<lparr>cf_bwtrace := val_str\<rparr>)
      else if key = ''vmask'' then Some (c\<lparr>cf_vmask := val_str\<rparr>)
      else if key = ''enha_layer_br'' then map_option (\<lambda>bs. c\<lparr>cf_enha_layer_br := Some bs\<rparr>) (read_bitrates val_str [])
      else Some c)"

definition load_line :: "string \<Rightarrow> Config \<Rightarrow> Config option" where
  "load_line s c = (case find_char CHR ''='' s of
     None \<Rightarrow> Some c
   | Some pos_deli \<Rightarrow> do {
       key \<leftarrow> substr 0 (size_minus pos_deli 1) s;
       val_str \<leftarrow> (case find_char CHR ''#'' s of
           Some pos_comm \<Rightarrow> substr (pos_deli + 2) (size_minus pos_comm (pos_deli + 2)) s
         | None \<Rightarrow> substr (pos_deli + 2) (int (length s)) s);
       key \<leftarrow> trim key;
       val_str \<leftarrow> trim val_str;
       assign_key key val_str c
     })"

definition empty_config :: Config where
  "empty_config = \<lparr>cf_NO_SEG = None, cf_SD = None, cf_NO_TILE = None, cf_NO_FACE = None, cf_VLEN = None,
     cf_BASE_BUFF_THRES = None, cf_FPS = None, cf_base_layer_br = None, cf_enha_layer_br = None, cf_ALG = None,
     cf_htrace = [], cf_bwtrace = [], cf_vmask = []\<rparr>"

definition load_manifest :: "string list \<Rightarrow> Config option" where
  "load_manifest conf = do {
     c \<leftarrow> for_each load_line conf empty_config;
     n \<leftarrow> cf_NO_SEG c;
     d \<leftarrow> cf_SD c;
     Some (c\<lparr>cf_VLEN := Some (n * d)\<rparr>)
   }"

section \<open>Printing settings\<close>

definition print_bitrates :: "int list \<Rightarrow> string" where
  "print_bitrates bs = concat (map (\<lambda>b. print_int b @ '','') bs)"

definition setting :: "string \<Rightarrow> string \<Rightarrow> string" where
  "setting key val_str = key @ '' = '' @ val_str"

text \<open>The file of a configuration, in the order of the constructor.\<close>

definition print_config :: "Config \<Rightarrow> string list" where
  "print_config c =
     [setting ''NO_SEG'' (print_int (the (cf_NO_SEG c))), setting ''SD'' (print_int (the (cf_SD c))),
      setting ''NO_TILE'' (print_int (the (cf_NO_TILE c))),
      setting ''base_layer_buff'' (print_int (the (cf_BASE_BUFF_THRES c))),
      setting ''FPS'' (print_int (the (cf_FPS c))), setting ''base_layer_br'' (print_int (the (cf_base_layer_br c))),
      setting ''ALG'' (print_int (the (cf_ALG c))), setting ''htrace'' (cf_htrace c),
      setting ''bwtrace'' (cf_bwtrace c), setting ''vmask'' (cf_vmask c),
      setting ''enha_layer_br'' (print_bitrates (the (cf_enha_layer_br c)))]"

lemma stod_digits:
  assumes "ds \<noteq> []" "\<forall>c \<in> set ds. is_digit c"
  shows "stod ds = Some (of_int (number_of ds))" "stod (CHR ''-'' # ds) = Some (of_int (- number_of ds))"
proof -
  note start = digits_start [OF assms]
  show "stod ds = Some (of_int (number_of ds))" "stod (CHR ''-'' # ds) = Some (of_int (- number_of ds))"
    using assms(1) by (simp_all add: start stod_def read_fraction_def read_exponent_def is_space_def
        read_sign_def [of "_ # _"] Let_def)
qed

lemma stod_print_int: "stod (print_int n) = Some (of_int n)"
  using stod_digits [of "print_nat (nat n)"] stod_digits [of "print_nat (nat (- n))"] print_nat_digits
  by (auto simp: print_int_def number_of_print_nat)

subsection \<open>Reading back\<close>

declare read_bitrates.simps [simp del]

lemma read_bitrates_print:
  assumes "CHR '','' \<notin> set rest"
  shows "read_bitrates (print_bitrates bs @ rest) tmp = Some (tmp @ bs)"
proof (induction bs arbitrary: tmp)
  case Nil
  with assms show ?case by (simp add: print_bitrates_def read_bitrates.simps [of rest] find_char_None [symmetric])
next
  case (Cons b bs)
  let ?s = "print_int b @ CHR '','' # (print_bitrates bs @ rest)"
  have "find_char CHR '','' ?s = Some (int (length (print_int b)))"
    by (rule find_char_append) (simp add: print_int_free)
  moreover have "substr 0 (int (length (print_int b))) ?s = Some (print_int b)"
    by (simp add: substr_def)
  moreover have "drop (nat (int (length (print_int b)) + 1)) ?s = print_bitrates bs @ rest"
    by (simp add: nat_add_distrib)
  ultimately have "read_bitrates ?s tmp = read_bitrates (print_bitrates bs @ rest) (tmp @ [b])"
    by (subst read_bitrates.simps) (simp add: stod_print_int)
  moreover have "print_bitrates (b # bs) @ rest = ?s" by (simp add: print_bitrates_def)
  ultimately show ?case using Cons by simp
qed

definition trimmed :: "string \<Rightarrow> bool" where
  "trimmed s \<longleftrightarrow> s = [] \<or> hd s \<noteq> CHR '' '' \<and> last s \<noteq> CHR '' ''"

lemma find_first_hd: "s \<noteq> [] \<Longrightarrow> hd s \<noteq> c \<Longrightarrow> find_first_not_of c s = Some 0"
  by (cases s) auto

lemma trim_trimmed:
  assumes "trimmed s" "int (length s) < 2 ^ 64"
  shows "trim s = Some s"
proof (cases "s = []")
  case False
  with assms(1) have "find_first_not_of CHR '' '' s = Some 0" "find_first_not_of CHR '' '' (rev s) = Some 0"
    using find_first_hd [of s] find_first_hd [of "rev s"] by (auto simp: trimmed_def hd_rev)
  moreover have "(int (length s) - 1) mod 2 ^ 64 = int (length s) - 1"
    using False assms(2) by (intro mod_pos_pos_trivial) (auto simp: Suc_le_eq)
  ultimately show ?thesis by (simp add: trim_def find_last_not_of_def substr_def size_minus_def)
qed (simp add: trim_def)

lemma load_setting:
  assumes "CHR ''='' \<notin> set key" "CHR ''#'' \<notin> set key \<union> set v" "trimmed key" "trimmed v"
    and "int (length key + length v) + 3 < 2 ^ 64"
  shows "load_line (setting key v) c = assign_key key v c"
proof -
  let ?s = "setting key v"
  have "?s = (key @ '' '') @ CHR ''='' # ('' '' @ v)" by (simp add: setting_def)
  then have "find_char CHR ''='' ?s = Some (int (length key) + 1)"
    using find_char_append [of "CHR ''=''" "key @ '' ''" "'' '' @ v"] assms(1) by simp
  moreover have "find_char CHR ''#'' ?s = None"
    using assms(2) by (auto simp: find_char_None setting_def)
  moreover have "substr 0 (size_minus (int (length key) + 1) 1) ?s = Some key"
    using assms(5) by (simp add: substr_def size_minus_def setting_def)
  moreover have "substr (int (length key) + 1 + 2) (int (length ?s)) ?s = Some v"
    by (simp add: substr_def setting_def nat_add_distrib)
  ultimately show ?thesis
    using trim_trimmed [OF assms(3)] trim_trimmed [OF assms(4)] assms(5) by (simp add: load_line_def)
qed

definition config_keys :: "string list" where
  "config_keys = [''NO_SEG'', ''SD'', ''NO_TILE'', ''base_layer_buff'', ''FPS'', ''base_layer_br'', ''ALG'',
     ''htrace'', ''bwtrace'', ''vmask'', ''enha_layer_br'']"

lemma config_keys_ok:
  "key \<in> set config_keys \<Longrightarrow> CHR ''='' \<notin> set key \<and> CHR ''#'' \<notin> set key \<and> trimmed key \<and> trimmed (butlast key) \<and>
     butlast key \<notin> set config_keys \<and> key \<noteq> [] \<and> length key < 20"
  by (auto simp: config_keys_def trimmed_def)

lemma load_known:
  assumes "key \<in> set config_keys" "CHR ''#'' \<notin> set v" "trimmed v" "int (length (setting key v)) < 2 ^ 64"
  shows "load_line (setting key v) c = assign_key key v c"
  using assms config_keys_ok [OF assms(1)] by (intro load_setting) (auto simp: setting_def)

lemma print_int_value: "CHR ''#'' \<notin> set (print_int n)" "trimmed (print_int n)"
  using print_int_free [of n] by (simp_all add: trimmed_def) (metis hd_in_set last_in_set)

lemma print_bitrates_value: "CHR ''#'' \<notin> set (print_bitrates bs)" "trimmed (print_bitrates bs)"
proof -
  have c: "CHR ''#'' \<notin> set (print_bitrates bs) \<and> CHR '' '' \<notin> set (print_bitrates bs)"
    by (auto simp: print_bitrates_def print_int_free)
  then show "CHR ''#'' \<notin> set (print_bitrates bs)" "trimmed (print_bitrates bs)"
    by (simp_all add: trimmed_def) (metis hd_in_set last_in_set)
qed

lemma read_int_print: "read_int (print_int n) = Some n"
  by (simp add: read_int_def stod_print_int)

text \<open>A complete configuration whose strings survive in a line of the file.\<close>

definition config_ok :: "Config \<Rightarrow> bool" where
  "config_ok c \<longleftrightarrow> cf_NO_SEG c \<noteq> None \<and> cf_SD c \<noteq> None \<and> cf_NO_TILE c \<noteq> None \<and>
     cf_BASE_BUFF_THRES c \<noteq> None \<and> cf_FPS c \<noteq> None \<and> cf_base_layer_br c \<noteq> None \<and> cf_ALG c \<noteq> None \<and>
     cf_enha_layer_br c \<noteq> None \<and> cf_NO_FACE c = map_option (\<lambda>n. n + 1) (cf_NO_TILE c) \<and>
     cf_VLEN c = Some (the (cf_NO_SEG c) * the (cf_SD c)) \<and>
     (\<forall>v \<in> {cf_htrace c, cf_bwtrace c, cf_vmask c}. CHR ''#'' \<notin> set v \<and> trimmed v)"

text \<open>
  C22: Reading the printed form of a complete configuration gives the configuration back, whatever its
  numbers, negative ones included, as long as its file names contain no comment sign and
  neither begin nor end with a blank.
\<close>

theorem config_round_trip:
  assumes "config_ok c" "\<forall>l \<in> set (print_config c). int (length l) < 2 ^ 64"
  shows "load_manifest (print_config c) = Some c"
proof -
  obtain a b d e f g h bs where v: "cf_NO_SEG c = Some a" "cf_SD c = Some b" "cf_NO_TILE c = Some d"
    "cf_BASE_BUFF_THRES c = Some e" "cf_FPS c = Some f" "cf_base_layer_br c = Some g" "cf_ALG c = Some h"
    "cf_enha_layer_br c = Some bs"
    using assms(1) by (auto simp: config_ok_def)
  note len = assms(2) [unfolded print_config_def v option.sel]
  note load = load_known [OF _ print_int_value] load_known [OF _ print_bitrates_value]
  have lines: "load_line (setting ''NO_SEG'' (print_int a)) k = Some (k\<lparr>cf_NO_SEG := Some a\<rparr>)"
    "load_line (setting ''SD'' (print_int b)) k = Some (k\<lparr>cf_SD := Some b\<rparr>)"
    "load_line (setting ''NO_TILE'' (print_int d)) k = Some (k\<lparr>cf_NO_TILE := Some d, cf_NO_FACE := Some (d + 1)\<rparr>)"
    "load_line (setting ''base_layer_buff'' (print_int e)) k = Some (k\<lparr>cf_BASE_BUFF_THRES := Some e\<rparr>)"
    "load_line (setting ''FPS'' (print_int f)) k = Some (k\<lparr>cf_FPS := Some f\<rparr>)"
    "load_line (setting ''base_layer_br'' (print_int g)) k = Some (k\<lparr>cf_base_layer_br := Some g\<rparr>)"
    "load_line (setting ''ALG'' (print_int h)) k = Some (k\<lparr>cf_ALG := Some h\<rparr>)"
    "load_line (setting ''enha_layer_br'' (print_bitrates bs)) k = Some (k\<lparr>cf_enha_layer_br := Some bs\<rparr>)" for k
    using len read_bitrates_print [of "[]" bs "[]"]
    by (simp_all add: load config_keys_def assign_key_def read_int_print)
  have "load_line (setting ''htrace'' (cf_htrace c)) k = Some (k\<lparr>cf_htrace := cf_htrace c\<rparr>)"
    "load_line (setting ''bwtrace'' (cf_bwtrace c)) k = Some (k\<lparr>cf_bwtrace := cf_bwtrace c\<rparr>)"
    "load_line (setting ''vmask'' (cf_vmask c)) k = Some (k\<lparr>cf_vmask := cf_vmask c\<rparr>)" for k
    using len assms(1) by (simp_all add: load_known config_keys_def assign_key_def config_ok_def)
  note lines = lines this
  let ?c = "\<lparr>cf_NO_SEG = Some a, cf_SD = Some b, cf_NO_TILE = Some d, cf_NO_FACE = Some (d + 1),
    cf_VLEN = Some (a * b), cf_BASE_BUFF_THRES = Some e, cf_FPS = Some f, cf_base_layer_br = Some g,
    cf_enha_layer_br = Some bs, cf_ALG = Some h, cf_htrace = cf_htrace c, cf_bwtrace = cf_bwtrace c, cf_vmask = cf_vmask c\<rparr>"
  have "load_manifest (print_config c) = Some ?c"
    by (simp add: load_manifest_def print_config_def v lines empty_config_def)
  also have "?c = c" using assms(1) v by (cases c) (simp add: config_ok_def)
  finally show ?thesis .
qed

definition demo_config :: Config where
  "demo_config = \<lparr>cf_NO_SEG = Some 70, cf_SD = Some 1, cf_NO_TILE = Some 24, cf_NO_FACE = Some 25, cf_VLEN = Some 70,
     cf_BASE_BUFF_THRES = Some 6, cf_FPS = Some 30, cf_base_layer_br = Some 1164,
     cf_enha_layer_br = Some [63, 115, 242, 483], cf_ALG = Some 5, cf_htrace = ''src/src/htrace/xyz_vid_5_uid_8.txt'',
     cf_bwtrace = ''bw_trace_1.sh'', cf_vmask = ''src/src/vmask/vmask_FoV_90_6f_2x2.txt''\<rparr>"

theorem config_round_trip_witness: "load_manifest (print_config demo_config) = Some demo_config"
proof (rule config_round_trip)
  show "config_ok demo_config" by (simp add: config_ok_def demo_config_def trimmed_def)
  show "\<forall>l \<in> set (print_config demo_config). int (length l) < 2 ^ 64" by code_simp
qed

text \<open>The configuration that comes with the client is read as this one.\<close>

lemma shipped_config:
  "load_manifest [''[video]'', ''NO_SEG = 70         # Number of video segments'', ''SD = 1          # Segment duration (seconds)'',
     ''NO_TILE = 24       # Number of tiles'', ''FPS = 30         # Frame rate'', ''base_layer_buff = 6        # Buffer size'',
     ''base_layer_br = 1164      '' @ CHR 0x09 # ''# Base layer bitrate  '',
     ''enha_layer_br = 63,115,242,483,        # Enhanement layer bitrates'',
     ''htrace = src/src/htrace/xyz_vid_5_uid_8.txt      # Head movement trace'',
     ''vmask  = src/src/vmask/vmask_FoV_90_6f_2x2.txt       # Visible tile mask'',
     ''bwtrace  = bw_trace_1.sh            # Bandwidth trace'', [], ''[ALGORITHM]'',
     ''ALG = 5'' @ CHR 0x09 # CHR 0x09 # ''# 1: UTD2017; 2: Huong; 3: Huong2; 4: Optimal; 5: MMSP2019''] = Some demo_config"
  by code_simp

section \<open>Lines that are not read as meant\<close>

lemma trim_total: "\<exists>t. trim s = Some t"
proof (cases "find_first_not_of CHR '' '' s")
  case (Some i)
  have ex: "find_first_not_of c s \<noteq> None \<longleftrightarrow> (\<exists>x \<in> set s. x \<noteq> c)" for c s
    by (induction s) auto
  have le: "find_first_not_of c s = Some i \<Longrightarrow> i < int (length s)" for c s i
    by (induction s arbitrary: i) (auto split: if_splits)
  from Some ex [of "CHR '' ''" s] ex [of "CHR '' ''" "rev s"] have "find_first_not_of CHR '' '' (rev s) \<noteq> None"
    by simp
  with Some le [OF Some] show ?thesis by (auto simp: trim_def find_last_not_of_def substr_def)
qed (simp add: trim_def)

lemma assign_unknown: "key \<notin> set config_keys \<Longrightarrow> assign_key key v c = Some c"
  by (simp add: assign_key_def config_keys_def)

text \<open>
  A setting written without a blank before the sign of equality is never read: the last character
  of its key is cut off, so the line is skipped without a message; with nothing after the sign
  the program ends with an exception.
\<close>

theorem compact_setting_lost:
  assumes "key \<in> set config_keys" "CHR ''#'' \<notin> set v" "int (length v) < 2 ^ 63"
  shows "load_line (key @ ''='' @ v) c = (if v = [] then None else Some c)"
proof -
  let ?s = "key @ CHR ''='' # v"
  note k = config_keys_ok [OF assms(1)]
  have "find_char CHR ''='' ?s = Some (int (length key))" using find_char_append k by simp
  moreover have "find_char CHR ''#'' ?s = None" using k assms(2) by (simp add: find_char_None)
  moreover have "substr 0 (size_minus (int (length key)) 1) ?s = Some (butlast key)"
  proof -
    have "(int (length key) - 1) mod 2 ^ 64 = int (length key) - 1"
      using k by (intro mod_pos_pos_trivial) (auto simp: Suc_le_eq)
    moreover have "0 < length key" using k by simp
    ultimately show ?thesis
      by (simp add: substr_def size_minus_def butlast_conv_take min_def nat_diff_distrib' of_nat_diff)
  qed
  moreover have "substr (int (length key) + 2) (int (length ?s)) ?s = (if v = [] then None else Some (tl v))"
    by (cases v) (simp_all add: substr_def nat_add_distrib)
  moreover have "trim (butlast key) = Some (butlast key)"
    using k by (intro trim_trimmed) auto
  moreover obtain t where "trim (tl v) = Some t" using trim_total by blast
  ultimately show ?thesis using k by (simp add: load_line_def assign_unknown)
qed

theorem compact_setting_lost_witness:
  "load_line ''NO_SEG=70'' empty_config = Some empty_config \<and> load_line ''ALG='' empty_config = None"
  using compact_setting_lost [of "''NO_SEG''" "''70''" empty_config] compact_setting_lost [of "''ALG''" "[]" empty_config]
  by (simp add: config_keys_def)

text \<open>
  The bitrate after the last comma is dropped: a list that does not end with a comma loses its
  last layer.
\<close>

theorem last_bitrate_dropped:
  assumes "int (length (setting ''enha_layer_br'' (print_bitrates bs @ print_int b))) < 2 ^ 64"
  shows "load_line (setting ''enha_layer_br'' (print_bitrates bs @ print_int b)) c = Some (c\<lparr>cf_enha_layer_br := Some bs\<rparr>)"
proof -
  let ?v = "print_bitrates bs @ print_int b"
  have ne: "print_int b \<noteq> []" using print_nat_digits by (simp add: print_int_def)
  have free: "x \<notin> set ?v" if "x \<in> {CHR '' '', CHR ''#''}" for x
    using that by (auto simp: print_bitrates_def print_int_free)
  then have "trimmed ?v" using ne by (simp add: trimmed_def) (metis Un_iff hd_in_set insertI1 last_in_set set_append append_is_Nil_conv)
  moreover have "CHR ''#'' \<notin> set ?v" using free by blast
  ultimately have "load_line (setting ''enha_layer_br'' ?v) c = assign_key ''enha_layer_br'' ?v c"
    using assms by (intro load_known) (auto simp: config_keys_def)
  then show ?thesis using read_bitrates_print [of "print_int b" bs "[]"] by (simp add: assign_key_def print_int_free)
qed

theorem last_bitrate_dropped_witness:
  "load_line ''enha_layer_br = 63,115'' empty_config = Some (empty_config\<lparr>cf_enha_layer_br := Some [63]\<rparr>)"
proof -
  have p: "print_bitrates [63] @ print_int 115 = ''63,115''" by code_simp
  show ?thesis using last_bitrate_dropped [of "[63]" 115 empty_config] by (simp add: p setting_def)
qed

text \<open>Only blanks are trimmed: a file name followed by tabs keeps them.\<close>

lemma tabs_kept:
  "map_option cf_htrace (load_line (''htrace = htrace/xyz_vid_5_uid_1.txt  '' @ CHR 0x09 # ''# Head movement trace'') empty_config)
     = Some (''htrace/xyz_vid_5_uid_1.txt  '' @ [CHR 0x09])"
  by code_simp

end
