(* ===== verification/Tile_Server.thy ===== *)
theory Tile_Server
  imports Decimal_Text
begin

text \<open>
  The tile server \<^verbatim>\<open>server_6f_2x2_v2.cpp\<close> and the requests of the client it answers. A request of
  the client names a face (0 for the base layer of the whole picture, 1 to 24 for the tiles) and a
  bitrate; the server answers with the file of that face and bitrate.

  The server finds the handler of a path with the multiplexer of the HTTP/2 library
  (\<^verbatim>\<open>asio_server_serve_mux.cc\<close>): the longest registered pattern that is a prefix of the path, or equal
  to it when it does not end with a slash. Redirections of unclean paths are left out; the client's
  paths are clean. \<^verbatim>\<open>boost::split\<close> is a parameter: what the server relies on is \<open>splits\<close>. \<open>None\<close> is an
  uncaught exception or an access outside a vector.
\<close>

section \<open>The client's request\<close>

definition request_path :: "int \<Rightarrow> int \<Rightarrow> string" where
  "request_path fid br = ''/face'' @ print_int fid @ ''/bitrate='' @ print_int br @ ''/num=1''"

section \<open>The multiplexer\<close>

text \<open>What is registered for a pattern: one of the handlers of the server, or a redirection.\<close>

datatype Target = Reset_session | Face_files | Terminate_segment | Redirect string

type_synonym Mux = "(string \<times> bool \<times> Target) list"

definition emplace :: "string \<Rightarrow> bool \<times> Target \<Rightarrow> Mux \<Rightarrow> Mux" where
  "emplace k e mux = (if map_of mux k = None then mux @ [(k, e)] else mux)"

definition mux_handle :: "string \<Rightarrow> Target \<Rightarrow> Mux \<Rightarrow> Mux" where
  "mux_handle pattern cb mux =
     (if pattern = [] then mux
      else if (case map_of mux pattern of Some (user_defined, _) \<Rightarrow> user_defined | None \<Rightarrow> False) then mux
      else
        let redirect_pattern = butlast pattern;
            path = (if hd pattern = CHR ''/'' then pattern else dropWhile (\<lambda>c. c \<noteq> CHR ''/'') pattern);
            mux = (if length pattern \<ge> 2 \<and> last pattern = CHR ''/''
                   then (case map_of mux redirect_pattern of
                       None \<Rightarrow> mux @ [(redirect_pattern, False, Redirect path)]
                     | Some (user_defined, _) \<Rightarrow>
                         if user_defined then mux
                         else map (\<lambda>(k, e). if k = redirect_pattern then (k, False, Redirect path) else (k, e)) mux)
                   else mux)
        in emplace pattern (True, cb) mux)"

definition path_match :: "string \<Rightarrow> string \<Rightarrow> bool" where
  "path_match pattern path =
     (if last pattern \<noteq> CHR ''/'' then pattern = path else take (length pattern) path = pattern)"

definition mux_match :: "Mux \<Rightarrow> string \<Rightarrow> Target option" where
  "mux_match mux path = map_option snd (fold (\<lambda>(pattern, _, cb) best.
     if \<not> path_match pattern path then best
     else (case best of None \<Rightarrow> Some (length pattern, cb)
       | Some (n, _) \<Rightarrow> if n < length pattern then Some (length pattern, cb) else best)) mux None)"

text \<open>No handler at all is the answer 404.\<close>

definition mux_handler :: "Mux \<Rightarrow> string \<Rightarrow> string \<Rightarrow> Target option" where
  "mux_handler mux host path =
     (case mux_match mux (host @ path) of Some cb \<Rightarrow> Some cb | None \<Rightarrow> mux_match mux path)"

section \<open>The handlers\<close>

text \<open>The registrations of \<^verbatim>\<open>main\<close>: \<^verbatim>\<open>/face0/\<close> to \<^verbatim>\<open>/face24/\<close> have the same handler.\<close>

definition face_pattern :: "int \<Rightarrow> string" where
  "face_pattern i = ''/face'' @ print_int i @ ''/''"

definition server_mux :: Mux where
  "server_mux = mux_handle ''/terminate_segment/'' Terminate_segment
     (fold (\<lambda>i. mux_handle (face_pattern i) Face_files) [0..24]
       (mux_handle ''/reset_session'' Reset_session []))"

datatype Answer = Unanswered | Empty | File string | Moved string | Not_found

definition file_path :: "int \<Rightarrow> int \<Rightarrow> string" where
  "file_path face_index bitrate =
     ''./vr_rate/6f_2x2/'' @ print_int 1 @ ''s/Face'' @ print_int face_index @ ''/'' @ print_int bitrate"

definition field :: "(char \<Rightarrow> string \<Rightarrow> string list) \<Rightarrow> char \<Rightarrow> string \<Rightarrow> int option" where
  "field split c s = do { t \<leftarrow> aget (split c s) 1; stoi t }"

definition face_files :: "(char \<Rightarrow> string \<Rightarrow> string list) \<Rightarrow> string \<Rightarrow> Answer option" where
  "face_files split path =
     (let strs = split CHR ''/'' path in
      if length strs \<noteq> 4 then Some Unanswered
      else do {
        face_index \<leftarrow> field split CHR ''e'' (strs ! 1);
        bitrate \<leftarrow> field split CHR ''='' (strs ! 2);
        num \<leftarrow> field split CHR ''='' (strs ! 3);
        Some (File (file_path face_index bitrate))
      })"

definition terminate_segment :: "(char \<Rightarrow> string \<Rightarrow> string list) \<Rightarrow> string \<Rightarrow> (int \<times> int) option" where
  "terminate_segment split path = do {
     seg \<leftarrow> aget (split CHR ''/'' path) 2;
     seg \<leftarrow> stoi seg;
     face \<leftarrow> aget (split CHR ''/'' path) 3;
     face \<leftarrow> stoi face;
     Some (seg, face)
   }"

definition serve :: "(char \<Rightarrow> string \<Rightarrow> string list) \<Rightarrow> string \<Rightarrow> string \<Rightarrow> Answer option" where
  "serve split host path = (case mux_handler server_mux host path of
     None \<Rightarrow> Some Not_found
   | Some (Redirect p) \<Rightarrow> Some (Moved p)
   | Some Reset_session \<Rightarrow> Some Empty
   | Some Terminate_segment \<Rightarrow> map_option (\<lambda>_. Empty) (terminate_segment split path)
   | Some Face_files \<Rightarrow> face_files split path)"

section \<open>What the server relies on\<close>

fun join :: "char \<Rightarrow> string list \<Rightarrow> string" where
  "join c [] = []"
| "join c [p] = p"
| "join c (p # q # ps) = p @ c # join c (q # ps)"

text \<open>Splitting at a character cuts at all its occurrences and nowhere else.\<close>

definition splits :: "(char \<Rightarrow> string \<Rightarrow> string list) \<Rightarrow> bool" where
  "splits split \<longleftrightarrow> (\<forall>c ps. ps \<noteq> [] \<and> (\<forall>p \<in> set ps. c \<notin> set p) \<longrightarrow> split c (join c ps) = ps)"

fun split_on :: "char \<Rightarrow> string \<Rightarrow> string list" where
  "split_on c [] = [[]]"
| "split_on c (x # xs) =
     (if x = c then [] # split_on c xs else (x # hd (split_on c xs)) # tl (split_on c xs))"

lemma split_on_free: "c \<notin> set p \<Longrightarrow> split_on c p = [p]"
  by (induction p) auto

lemma split_on_append: "c \<notin> set p \<Longrightarrow> split_on c (p @ c # xs) = p # split_on c xs"
  by (induction p) auto

lemma splits_split_on: "splits split_on"
proof -
  have "split_on c (join c ps) = ps" if "ps \<noteq> []" "\<forall>p \<in> set ps. c \<notin> set p" for c ps
    using that by (induction c ps rule: join.induct) (simp_all add: split_on_free split_on_append)
  then show ?thesis by (simp add: splits_def)
qed

section \<open>Routing\<close>

lemma server_mux_eq:
  "server_mux = [(''/reset_session'', True, Reset_session), (''/face0'', False, Redirect ''/face0/''),
     (''/face0/'', True, Face_files), (''/face1'', False, Redirect ''/face1/''),
     (''/face1/'', True, Face_files), (''/face2'', False, Redirect ''/face2/''),
     (''/face2/'', True, Face_files), (''/face3'', False, Redirect ''/face3/''),
     (''/face3/'', True, Face_files), (''/face4'', False, Redirect ''/face4/''),
     (''/face4/'', True, Face_files), (''/face5'', False, Redirect ''/face5/''),
     (''/face5/'', True, Face_files), (''/face6'', False, Redirect ''/face6/''),
     (''/face6/'', True, Face_files), (''/face7'', False, Redirect ''/face7/''),
     (''/face7/'', True, Face_files), (''/face8'', False, Redirect ''/face8/''),
     (''/face8/'', True, Face_files), (''/face9'', False, Redirect ''/face9/''),
     (''/face9/'', True, Face_files), (''/face10'', False, Redirect ''/face10/''),
     (''/face10/'', True, Face_files), (''/face11'', False, Redirect ''/face11/''),
     (''/face11/'', True, Face_files), (''/face12'', False, Redirect ''/face12/''),
     (''/face12/'', True, Face_files), (''/face13'', False, Redirect ''/face13/''),
     (''/face13/'', True, Face_files), (''/face14'', False, Redirect ''/face14/''),
     (''/face14/'', True, Face_files), (''/face15'', False, Redirect ''/face15/''),
     (''/face15/'', True, Face_files), (''/face16'', False, Redirect ''/face16/''),
     (''/face16/'', True, Face_files), (''/face17'', False, Redirect ''/face17/''),
     (''/face17/'', True, Face_files), (''/face18'', False, Redirect ''/face18/''),
     (''/face18/'', True, Face_files), (''/face19'', False, Redirect ''/face19/''),
     (''/face19/'', True, Face_files), (''/face20'', False, Redirect ''/face20/''),
     (''/face20/'', True, Face_files), (''/face21'', False, Redirect ''/face21/''),
     (''/face21/'', True, Face_files), (''/face22'', False, Redirect ''/face22/''),
     (''/face22/'', True, Face_files), (''/face23'', False, Redirect ''/face23/''),
     (''/face23/'', True, Face_files), (''/face24'', False, Redirect ''/face24/''),
     (''/face24/'', True, Face_files), (''/terminate_segment'', False, Redirect ''/terminate_segment/''),
     (''/terminate_segment/'', True, Terminate_segment)]"
  by code_simp

lemma face_patterns:
  "face_pattern 0 = ''/face0/''" "face_pattern 1 = ''/face1/''" "face_pattern 2 = ''/face2/''" "face_pattern 3 =
  ''/face3/''" "face_pattern 4 = ''/face4/''" "face_pattern 5 = ''/face5/''" "face_pattern 6 = ''/face6/''"
  "face_pattern 7 = ''/face7/''" "face_pattern 8 = ''/face8/''" "face_pattern 9 = ''/face9/''" "face_pattern 10
  = ''/face10/''" "face_pattern 11 = ''/face11/''" "face_pattern 12 = ''/face12/''" "face_pattern 13 =
  ''/face13/''" "face_pattern 14 = ''/face14/''" "face_pattern 15 = ''/face15/''" "face_pattern 16 =
  ''/face16/''" "face_pattern 17 = ''/face17/''" "face_pattern 18 = ''/face18/''" "face_pattern 19 =
  ''/face19/''" "face_pattern 20 = ''/face20/''" "face_pattern 21 = ''/face21/''" "face_pattern 22 =
  ''/face22/''" "face_pattern 23 = ''/face23/''" "face_pattern 24 = ''/face24/''"
  by code_simp+

lemma route_face:
  assumes "0 \<le> fid" "fid < 25"
  shows "mux_match server_mux (face_pattern fid @ rest) = Some Face_files"
proof -
  have "fid \<in> set [0..24]" using assms by simp
  then have "fid \<in> {0,1,2,3,4,5,6,7,8,9,10,11,12,13,14,15,16,17,18,19,20,21,22,23,24}"
    by (simp add: upto.simps)
  then show ?thesis
    by (elim insertE; simp add: face_patterns) (simp_all add: server_mux_eq mux_match_def path_match_def)
qed

text \<open>No pattern names a host, and every pattern starts with a slash.\<close>

lemma route_host:
  assumes "host \<noteq> []" "hd host \<noteq> CHR ''/''"
  shows "mux_match server_mux (host @ path) = None"
proof -
  obtain h hs where "host = h # hs" "h \<noteq> CHR ''/''" using assms by (cases host) auto
  then show ?thesis by (simp add: server_mux_eq mux_match_def path_match_def)
qed

lemma mux_match_None:
  assumes "\<forall>p \<in> fst ` set mux. \<not> path_match p path"
  shows "mux_match mux path = None"
proof -
  have "fold (\<lambda>(pattern, _, cb) best. if \<not> path_match pattern path then best
     else (case best of None \<Rightarrow> Some (length pattern, cb)
       | Some (n, _) \<Rightarrow> if n < length pattern then Some (length pattern, cb) else best)) mux None = None"
    using assms by (induction mux) auto
  then show ?thesis unfolding mux_match_def by simp
qed

lemma server_patterns:
  "map fst server_mux = ''/reset_session'' # concat (map (\<lambda>i. [''/face'' @ print_int i, face_pattern i]) [0..24]) @
     [''/terminate_segment'', ''/terminate_segment/'']"
  by code_simp

lemma slash_prefix:
  assumes "c \<notin> set xs" "c \<notin> set ys"
  shows "take (length (xs @ [c])) (ys @ c # rest) = xs @ [c] \<longleftrightarrow> xs = ys"
  using assms
proof (induction xs arbitrary: ys)
  case Nil
  then show ?case by (cases ys) auto
next
  case (Cons x xs)
  then show ?case by (cases ys) auto
qed

lemma route_no_face:
  assumes "fid < 0 \<or> 25 \<le> fid"
  shows "mux_match server_mux (face_pattern fid @ rest) = None"
proof (rule mux_match_None)
  have free: "CHR ''/'' \<notin> set (print_int n)" for n by (intro print_int_no) (simp_all add: is_digit_def)
  have "\<not> path_match (face_pattern i) (face_pattern fid @ rest)" if "i \<in> set [0..24]" for i
  proof -
    have "take (length (face_pattern i)) (face_pattern fid @ rest) = face_pattern i \<longleftrightarrow>
        take (length (print_int i @ ''/'')) (print_int fid @ CHR ''/'' # rest) = print_int i @ ''/''"
      by (simp add: face_pattern_def)
    also have "\<dots> \<longleftrightarrow> i = fid"
      using slash_prefix [OF free free, of i fid rest] by (simp add: print_int_inj)
    finally show ?thesis using that assms by (auto simp: path_match_def face_pattern_def)
  qed
  moreover have "\<not> path_match (''/face'' @ print_int i) (face_pattern fid @ rest)" for i
  proof -
    have "last (''/face'' @ print_int i) \<noteq> CHR ''/''"
      using free [of i] by (cases "print_int i = []") (auto dest: last_in_set)
    moreover have "print_int i \<noteq> print_int fid @ CHR ''/'' # rest"
      using free [of i] by (metis in_set_conv_decomp)
    ultimately show ?thesis by (auto simp: path_match_def face_pattern_def)
  qed
  moreover have "\<not> path_match p (face_pattern fid @ rest)"
    if "p \<in> {''/reset_session'', ''/terminate_segment'', ''/terminate_segment/''}" for p
    using that by (auto simp: path_match_def face_pattern_def)
  ultimately have "\<forall>p \<in> set (map fst server_mux). \<not> path_match p (face_pattern fid @ rest)"
    unfolding server_patterns by auto
  then show "\<forall>p \<in> fst ` set server_mux. \<not> path_match p (face_pattern fid @ rest)" by simp
qed

section \<open>From request to file\<close>

lemma request_path_pattern: "request_path fid br = face_pattern fid @ ''bitrate='' @ print_int br @ ''/num=1''"
  by (simp add: request_path_def face_pattern_def)

lemma face_files_request:
  assumes s: "splits split" and "- (2 ^ 31) \<le> fid" "fid < 2 ^ 31" "- (2 ^ 31) \<le> br" "br < 2 ^ 31"
  shows "face_files split (request_path fid br) = Some (File (file_path fid br))"
proof -
  have free: "c \<notin> set (print_int n)" if "c \<in> {CHR ''/'', CHR ''='', CHR ''e''}" for c n
    using that by (intro print_int_no) (auto simp: is_digit_def)
  have split: "split c (join c ps) = ps" if "ps \<noteq> []" "\<forall>p \<in> set ps. c \<notin> set p" for c ps
    using s that by (simp add: splits_def)
  have 1: "split CHR ''/'' (request_path fid br) =
      [[], ''face'' @ print_int fid, ''bitrate='' @ print_int br, ''num=1'']"
    using split [of "[[], ''face'' @ print_int fid, ''bitrate='' @ print_int br, ''num=1'']" "CHR ''/''"] free
    by (simp add: request_path_def)
  have 2: "split CHR ''e'' (''face'' @ print_int fid) = [''fac'', print_int fid]"
    using split [of "[''fac'', print_int fid]" "CHR ''e''"] free by simp
  have 3: "split CHR ''='' (''bitrate='' @ print_int br) = [''bitrate'', print_int br]"
    using split [of "[''bitrate'', print_int br]" "CHR ''=''"] free by simp
  have 4: "split CHR ''='' ''num=1'' = [''num'', ''1'']"
    using split [of "[''num'', ''1'']" "CHR ''=''"] by simp
  have 5: "stoi ''1'' = Some 1" by code_simp
  have "field split CHR ''e'' (''face'' @ print_int fid) = Some fid"
    "field split CHR ''='' (''bitrate='' @ print_int br) = Some br" "field split CHR ''='' ''num=1'' = Some 1"
    unfolding field_def 2 3 4 using assms(2-5) 5 by (simp_all add: aget_def stoi_print_int)
  then show ?thesis by (simp add: face_files_def 1)
qed

text \<open>The multiplexer does not confuse faces one of which is a prefix of the other.\<close>

lemma request_served:
  assumes "splits split" "- (2 ^ 31) \<le> br" "br < 2 ^ 31" "host \<noteq> []" "hd host \<noteq> CHR ''/''"
  shows "serve split host (request_path fid br) =
    Some (if 0 \<le> fid \<and> fid < 25 then File (file_path fid br) else Not_found)"
proof (cases "0 \<le> fid \<and> fid < 25")
  case True
  then have "mux_handler server_mux host (request_path fid br) = Some Face_files"
    using route_face [of fid] route_host [OF assms(4,5)] by (simp add: mux_handler_def request_path_pattern)
  then show ?thesis using face_files_request [OF assms(1) _ _ assms(2,3), of fid] True by (simp add: serve_def)
next
  case False
  then have "mux_handler server_mux host (request_path fid br) = None"
    using route_no_face [of fid] route_host [OF assms(4,5)] by (auto simp: mux_handler_def request_path_pattern)
  then show ?thesis using False by (auto simp: serve_def)
qed

end
