(* ===== verification/Push_Server.thy ===== *)
theory Push_Server
  imports Tile_Server
begin

text \<open>
  The push server \<^verbatim>\<open>server.cpp\<close>: one request asks for several consecutive segments of a face, and the
  server pushes them one after the other, each when the push before it has closed. Its state are
  the global variables of the program; \<^verbatim>\<open>handle\<close> and the callback of a closing push are its steps,
  which return the new state and what is sent. The second part is the client's side: the
  functions of \<^verbatim>\<open>nghttp.cc\<close> that read segment, bitrate and face back from the path of a push.

  The callbacks are atomic here. In the code 150 threads run them without a lock; the model is that
  of one connection, whose callbacks run on one thread. The HTTP/2 library accepts every push; the
  timer of \<^verbatim>\<open>handle\<close>, which is cancelled and never read, and the console output are left out.
\<close>

section \<open>The server\<close>

definition num_of_face :: int where "num_of_face = 6"
definition MAX_SEGMENTS :: int where "MAX_SEGMENTS = 20001"

record PushServer =
  bitrate :: "string list"
  num :: "int list"
  on_pushing_in_periodic_mode :: "bool list"
  check_finish_arr :: "bool list"
  terminate_seg :: int
  terminate_face :: int
  increased :: bool
  headed_seg :: int

definition server_init :: PushServer where
  "server_init = \<lparr>bitrate = replicate 6 [], num = replicate 6 0, on_pushing_in_periodic_mode = replicate 6 False,
     check_finish_arr = replicate 6 False, terminate_seg = - 1, terminate_face = - 1, increased = False, headed_seg = 0\<rparr>"

text \<open>What is sent: a push with its path, or the end of the response to the request.\<close>

datatype Action = Push string | End_response

definition push_path :: "int \<Rightarrow> string \<Rightarrow> int \<Rightarrow> string" where
  "push_path curr_seg br face_index =
     ''/seg_'' @ print_int curr_seg @ ''_rate_'' @ br @ ''_face_'' @ print_int face_index"

definition push_remaining_files :: "int \<Rightarrow> int \<Rightarrow> PushServer \<Rightarrow> (PushServer \<times> Action list) option" where
  "push_remaining_files face_index curr_seg s =
     (if curr_seg \<ge> MAX_SEGMENTS then Some (s, [End_response])
      else do {
        n \<leftarrow> aget (num s) face_index;
        if n = 0 \<or> face_index = terminate_face s \<and> curr_seg = terminate_seg s then Some (s, [])
        else do {
          ns \<leftarrow> aset (num s) face_index (n - 1);
          br \<leftarrow> aget (bitrate s) face_index;
          ps \<leftarrow> aset (on_pushing_in_periodic_mode s) face_index True;
          Some (s\<lparr>num := ns, on_pushing_in_periodic_mode := ps\<rparr>, [Push (push_path curr_seg br face_index)])
        }
      })"

text \<open>The callback of a push that closes; \<open>error_code\<close> is 0 when it was sent completely.\<close>

definition on_push_close :: "int \<Rightarrow> int \<Rightarrow> int \<Rightarrow> PushServer \<Rightarrow> (PushServer \<times> Action list) option" where
  "on_push_close face_index curr_seg error_code s = do {
     let s = (if error_code = 0 then s\<lparr>increased := False\<rparr> else s)\<lparr>headed_seg := curr_seg\<rparr>;
     n \<leftarrow> aget (num s) face_index;
     if n = 0 \<or> face_index = terminate_face s \<and> curr_seg = terminate_seg s
     then do {
       ps \<leftarrow> aset (on_pushing_in_periodic_mode s) face_index False;
       fs \<leftarrow> aset (check_finish_arr s) face_index True;
       Some (s\<lparr>on_pushing_in_periodic_mode := ps, check_finish_arr := fs\<rparr>, [End_response])
     }
     else do {
       ps \<leftarrow> aset (on_pushing_in_periodic_mode s) face_index True;
       push_remaining_files face_index (curr_seg + 1) (s\<lparr>on_pushing_in_periodic_mode := ps\<rparr>)
     }
   }"

definition push_file :: "bool \<Rightarrow> int \<Rightarrow> PushServer \<Rightarrow> (PushServer \<times> Action list) option" where
  "push_file is_closed face_index s =
     (if is_closed then Some (s, [])
      else do {
        p \<leftarrow> aget (on_pushing_in_periodic_mode s) face_index;
        if p then Some (s, []) else push_remaining_files face_index (headed_seg s) s
      })"

definition handle ::
  "(char \<Rightarrow> string \<Rightarrow> string list) \<Rightarrow> int \<Rightarrow> string \<Rightarrow> PushServer \<Rightarrow> (PushServer \<times> Action list) option" where
  "handle split face_index path s = do {
     let s = (if \<not> increased s then s\<lparr>headed_seg := headed_seg s + 1, increased := True\<rparr> else s);
     let strs = split CHR ''/'' path;
     if length strs \<noteq> 4 then Some (s, [])
     else do {
       br \<leftarrow> aget (split CHR ''='' (strs ! 2)) 1;
       brs \<leftarrow> aset (bitrate s) face_index br;
       n \<leftarrow> field split CHR ''='' (strs ! 3);
       ns \<leftarrow> aset (num s) face_index n;
       push_file False face_index (s\<lparr>bitrate := brs, num := ns\<rparr>)
     }
   }"

definition handle_terminate :: "(char \<Rightarrow> string \<Rightarrow> string list) \<Rightarrow> string \<Rightarrow> PushServer \<Rightarrow> (PushServer \<times> Action list) option" where
  "handle_terminate split path s = do {
     (seg, face) \<leftarrow> terminate_segment split path;
     Some (s\<lparr>terminate_seg := seg, terminate_face := face\<rparr>, [End_response])
   }"

text \<open>The pushes of a face close one after the other, the first one being that of \<open>seg\<close>.\<close>

fun close_pushes :: "int \<Rightarrow> int \<Rightarrow> int list \<Rightarrow> PushServer \<Rightarrow> (PushServer \<times> Action list) option" where
  "close_pushes f seg [] s = Some (s, [])"
| "close_pushes f seg (e # es) s = do {
     (s, as) \<leftarrow> on_push_close f seg e s;
     (s, bs) \<leftarrow> close_pushes f (seg + 1) es s;
     Some (s, as @ bs)
   }"

section \<open>The client's parsers of a pushed path\<close>

definition find_from :: "char \<Rightarrow> int \<Rightarrow> string \<Rightarrow> int option" where
  "find_from c l s = map_option (\<lambda>i. l + i) (find_char c (drop (nat l) s))"

definition rfind_char :: "char \<Rightarrow> string \<Rightarrow> int option" where
  "rfind_char c s = map_option (\<lambda>i. int (length s) - 1 - i) (find_char c (rev s))"

text \<open>A position converted to \<^verbatim>\<open>int\<close>: \<^verbatim>\<open>npos\<close> is -1.\<close>

definition int_pos :: "int option \<Rightarrow> int" where
  "int_pos p = (case p of None \<Rightarrow> - 1 | Some i \<Rightarrow> i)"

definition dang_get_seg_from_uri :: "string \<Rightarrow> int option" where
  "dang_get_seg_from_uri uri = do {
     let l = int_pos (find_char CHR ''_'' uri) + 1;
     let r = int_pos (find_from CHR ''_'' l uri);
     t \<leftarrow> substr l (size_minus r l) uri;
     stoi t
   }"

definition dang_get_face_from_uri :: "string \<Rightarrow> int option" where
  "dang_get_face_from_uri uri = do {
     t \<leftarrow> substr (int_pos (rfind_char CHR ''_'' uri) + 1) (int (length uri)) uri;
     stoi t
   }"

definition dang_get_rate_from_uri :: "string \<Rightarrow> int option" where
  "dang_get_rate_from_uri uri = do {
     sub \<leftarrow> for_each (\<lambda>i sub. substr (int_pos (find_char CHR ''_'' sub) + 1) (int (length sub)) sub) [0..2] uri;
     t \<leftarrow> substr 0 (size_minus (int_pos (find_char CHR ''_'' sub)) 0) sub;
     stoi t
   }"

section \<open>Pushed paths are read back\<close>

lemma find_char_at: "s = xs @ c # ys \<Longrightarrow> c \<notin> set xs \<Longrightarrow> find_char c s = Some (int (length xs))"
  by (simp add: find_char_append)

lemma substr_mid: "s = xs @ ys @ zs \<Longrightarrow> substr (int (length xs)) (int (length ys)) s = Some ys"
  by (simp add: substr_def)

lemma substr_rest: "s = xs @ ys \<Longrightarrow> int (length ys) \<le> n \<Longrightarrow> substr (int (length xs)) n s = Some ys"
  by (simp add: substr_def)

lemma no_underscore: "CHR ''_'' \<notin> set (print_int n)"
  by (rule print_int_no) (simp_all add: is_digit_def)

lemma print_nat_length: "length (print_nat n) \<le> n + 1"
proof (induction n rule: print_nat.induct)
  case (1 n)
  then show ?case by (cases "n < 10") (simp_all add: print_nat.simps [of n])
qed

lemma print_int_length:
  assumes "- (2 ^ 31) \<le> n" "n < 2 ^ 31"
  shows "int (length (print_int n)) < 2 ^ 32"
proof -
  have "int (length (print_nat k)) \<le> int k + 1" for k using print_nat_length [of k] by simp
  from this [of "nat n"] this [of "nat (- n)"] have "int (length (print_int n)) \<le> \<bar>n\<bar> + 2"
    by (cases "n < 0") (simp_all add: print_int_def)
  then show ?thesis using assms by simp
qed

lemma cut_front: "find_char CHR ''_'' (xs @ CHR ''_'' # ys) = Some (int (length xs)) \<Longrightarrow>
    substr (int_pos (find_char CHR ''_'' (xs @ CHR ''_'' # ys)) + 1) (int (length (xs @ CHR ''_'' # ys)))
      (xs @ CHR ''_'' # ys) = Some ys"
  by (simp add: int_pos_def substr_def nat_add_distrib)

text \<open>
  C34: The client reads back from the path of a push what the server wrote into it: segment, bitrate
  and face.
\<close>

theorem push_path_round_trip:
  assumes "- (2 ^ 31) \<le> seg" "seg < 2 ^ 31" "- (2 ^ 31) \<le> br" "br < 2 ^ 31" "- (2 ^ 31) \<le> face" "face < 2 ^ 31"
  shows "dang_get_seg_from_uri (push_path seg (print_int br) face) = Some seg \<and>
    dang_get_rate_from_uri (push_path seg (print_int br) face) = Some br \<and>
    dang_get_face_from_uri (push_path seg (print_int br) face) = Some face"
proof (intro conjI)
  let ?u = "push_path seg (print_int br) face"
  let ?S = "print_int seg" and ?B = "print_int br" and ?F = "print_int face"
  have mod: "x mod 2 ^ 64 = x" if "0 \<le> x" "x < 2 ^ 32" for x :: int
    using that by (intro mod_pos_pos_trivial) auto
  have u: "?u = ''/seg'' @ CHR ''_'' # ?S @ CHR ''_'' # (''rate_'' @ ?B @ ''_face_'' @ ?F)"
    by (simp add: push_path_def)
  show "dang_get_seg_from_uri ?u = Some seg"
  proof -
    have "find_char CHR ''_'' ?u = Some 4" unfolding u by (subst find_char_append) simp_all
    moreover have "find_from CHR ''_'' 5 ?u = Some (5 + int (length ?S))"
      unfolding u find_from_def by (simp add: find_char_append no_underscore)
    moreover have "substr 5 (int (length ?S)) ?u = Some ?S" unfolding u by (simp add: substr_def)
    moreover have "size_minus (5 + int (length ?S)) 5 = int (length ?S)"
      using mod [of "int (length ?S)"] print_int_length [OF assms(1,2)] by (simp add: size_minus_def)
    ultimately show ?thesis
      using stoi_print_int [OF assms(1,2)] by (simp add: dang_get_seg_from_uri_def int_pos_def)
  qed
  show "dang_get_face_from_uri ?u = Some face"
  proof -
    have r: "rev ?u = rev ?F @ CHR ''_'' # rev (''/seg_'' @ ?S @ ''_rate_'' @ ?B @ ''_face'')" by (simp add: push_path_def)
    have "find_char CHR ''_'' (rev ?u) = Some (int (length (rev ?F)))"
      unfolding r by (rule find_char_append) (simp add: no_underscore)
    then have "int_pos (rfind_char CHR ''_'' ?u) + 1 = int (length (''/seg_'' @ ?S @ ''_rate_'' @ ?B @ ''_face_''))"
      by (simp add: rfind_char_def int_pos_def push_path_def)
    moreover have "substr (int (length (''/seg_'' @ ?S @ ''_rate_'' @ ?B @ ''_face_''))) (int (length ?u)) ?u = Some ?F"
      by (rule substr_rest) (simp_all add: push_path_def)
    ultimately show ?thesis
      using stoi_print_int [OF assms(5,6)] by (simp add: dang_get_face_from_uri_def del: length_append)
  qed
  show "dang_get_rate_from_uri ?u = Some br"
  proof -
    note cut = cut_front [OF find_char_append]
    have 1: "substr (int_pos (find_char CHR ''_'' ?u) + 1) (int (length ?u)) ?u
        = Some (?S @ CHR ''_'' # (''rate_'' @ ?B @ ''_face_'' @ ?F))"
      unfolding u by (rule cut) simp
    let ?v = "?S @ CHR ''_'' # (''rate_'' @ ?B @ ''_face_'' @ ?F)"
    have 2: "substr (int_pos (find_char CHR ''_'' ?v) + 1) (int (length ?v)) ?v = Some (''rate_'' @ ?B @ ''_face_'' @ ?F)"
      by (rule cut) (rule no_underscore)
    let ?w = "''rate_'' @ ?B @ ''_face_'' @ ?F"
    have w: "?w = ''rate'' @ CHR ''_'' # (?B @ ''_face_'' @ ?F)" by simp
    have 3: "substr (int_pos (find_char CHR ''_'' ?w) + 1) (int (length ?w)) ?w = Some (?B @ ''_face_'' @ ?F)"
      unfolding w by (rule cut) simp
    have 4: "find_char CHR ''_'' (?B @ ''_face_'' @ ?F) = Some (int (length ?B))"
      using find_char_append [OF no_underscore] by simp
    have 5: "substr 0 (size_minus (int (length ?B)) 0) (?B @ ''_face_'' @ ?F) = Some ?B"
      using mod [of "int (length ?B)"] print_int_length [OF assms(3,4)] by (simp add: size_minus_def substr_def)
    have "[0..2] = [0, 1, 2 :: int]" by (simp add: upto.simps)
    then have "for_each (\<lambda>i sub. substr (int_pos (find_char CHR ''_'' sub) + 1) (int (length sub)) sub) [0..2] ?u
        = Some (?B @ ''_face_'' @ ?F)"
      by (simp only: for_each.simps 1 2 3 option.case)
    with 4 5 show ?thesis
      using stoi_print_int [OF assms(3,4)] by (simp add: dang_get_rate_from_uri_def int_pos_def)
  qed
qed

theorem push_path_round_trip_witness:
  "dang_get_seg_from_uri ''/seg_12_rate_483_face_5'' = Some 12 \<and>
   dang_get_rate_from_uri ''/seg_12_rate_483_face_5'' = Some 483"
proof -
  have "push_path 12 (print_int 483) 5 = ''/seg_12_rate_483_face_5''" by code_simp
  with push_path_round_trip [of 12 483 5] show ?thesis by simp
qed

section \<open>A request for several segments\<close>

definition server_ok :: "PushServer \<Rightarrow> bool" where
  "server_ok s \<longleftrightarrow> length (bitrate s) = 6 \<and> length (num s) = 6 \<and> length (on_pushing_in_periodic_mode s) = 6 \<and>
     length (check_finish_arr s) = 6"

definition push_request :: "int \<Rightarrow> int \<Rightarrow> int \<Rightarrow> string" where
  "push_request fid br k = ''/face'' @ print_int fid @ ''/bitrate='' @ print_int br @ ''/num='' @ print_int k"

text \<open>The segment a request starts with: a new one if a segment has been sent since the last request.\<close>

definition first_segment :: "PushServer \<Rightarrow> int" where
  "first_segment s = (if increased s then headed_seg s else headed_seg s + 1)"

lemma handle_request:
  assumes "splits split" "0 \<le> f" "f < 6" "server_ok s" "- (2 ^ 31) \<le> k" "k < 2 ^ 31"
  shows "handle split f (push_request fid br k) s = push_file False f (s\<lparr>headed_seg := first_segment s, increased := True,
    bitrate := (bitrate s)[nat f := print_int br], num := (num s)[nat f := k]\<rparr>)"
proof -
  have free: "c \<notin> set (print_int n)" if "c \<in> {CHR ''/'', CHR ''=''}" for c n
    using that by (intro print_int_no) (auto simp: is_digit_def)
  have split: "split c (join c ps) = ps" if "ps \<noteq> []" "\<forall>p \<in> set ps. c \<notin> set p" for c ps
    using assms(1) that by (simp add: splits_def)
  have 1: "split CHR ''/'' (push_request fid br k) =
      [[], ''face'' @ print_int fid, ''bitrate='' @ print_int br, ''num='' @ print_int k]"
    using split [of "[[], ''face'' @ print_int fid, ''bitrate='' @ print_int br, ''num='' @ print_int k]" "CHR ''/''"] free
    by (simp add: push_request_def)
  have 2: "split CHR ''='' (''bitrate='' @ print_int br) = [''bitrate'', print_int br]"
    using split [of "[''bitrate'', print_int br]" "CHR ''=''"] free by simp
  have 3: "split CHR ''='' (''num='' @ print_int k) = [''num'', print_int k]"
    using split [of "[''num'', print_int k]" "CHR ''=''"] free by simp
  have "aget (split CHR ''='' (''bitrate='' @ print_int br)) 1 = Some (print_int br)"
    "field split CHR ''='' (''num='' @ print_int k) = Some k"
    unfolding field_def 2 3 using stoi_print_int [OF assms(5,6)] by (simp_all add: aget_def)
  moreover have start: "(if \<not> increased s then s\<lparr>headed_seg := headed_seg s + 1, increased := True\<rparr> else s)
      = s\<lparr>headed_seg := first_segment s, increased := True\<rparr>"
    by (cases s) (simp add: first_segment_def)
  ultimately show ?thesis
    using assms(2-4) unfolding handle_def start 1 by (simp add: aset_in server_ok_def Let_def)
qed

text \<open>Face \<open>f\<close> is being pushed and \<open>n\<close> more segments at bitrate \<open>br\<close> are due.\<close>

definition pushing :: "int \<Rightarrow> string \<Rightarrow> int \<Rightarrow> PushServer \<Rightarrow> bool" where
  "pushing f br n s \<longleftrightarrow> server_ok s \<and> on_pushing_in_periodic_mode s ! nat f \<and> bitrate s ! nat f = br \<and> num s ! nat f = n"

lemma push_next:
  assumes "0 \<le> f" "f < 6" "server_ok s" "bitrate s ! nat f = br" "num s ! nat f = n" "0 < n" "seg < MAX_SEGMENTS"
    and "\<not> (f = terminate_face s \<and> seg = terminate_seg s)"
  shows "\<exists>s'. push_remaining_files f seg s = Some (s', [Push (push_path seg br f)]) \<and> pushing f br (n - 1) s' \<and>
    terminate_face s' = terminate_face s \<and> terminate_seg s' = terminate_seg s \<and> headed_seg s' = headed_seg s"
proof -
  have "aget (num s) f = Some n" "aget (bitrate s) f = Some br"
    "aset (num s) f (n - 1) = Some ((num s)[nat f := n - 1])"
    "aset (on_pushing_in_periodic_mode s) f True = Some ((on_pushing_in_periodic_mode s)[nat f := True])"
    using assms(1-5) by (simp_all add: aget_def aset_def server_ok_def)
  then show ?thesis
    using assms by (auto simp: push_remaining_files_def pushing_def server_ok_def)
qed

lemma pushing_run:
  assumes "0 \<le> f" "f < 6"
  shows "pushing f br (int (length es)) s \<Longrightarrow> seg + int (length es) < MAX_SEGMENTS \<Longrightarrow>
    \<not> (f = terminate_face s \<and> seg \<le> terminate_seg s \<and> terminate_seg s \<le> seg + int (length es)) \<Longrightarrow>
    \<exists>s'. close_pushes f seg (es @ [e]) s = Some (s',
        map (\<lambda>j. Push (push_path j br f)) [seg + 1..seg + int (length es)] @ [End_response]) \<and>
      server_ok s' \<and> \<not> on_pushing_in_periodic_mode s' ! nat f \<and> num s' ! nat f = 0 \<and>
      headed_seg s' = seg + int (length es)"
proof (induction es arbitrary: seg s)
  case Nil
  then have ok: "server_ok s" "num s ! nat f = 0" by (simp_all add: pushing_def)
  then have "aget (num s) f = Some 0"
    "aset (on_pushing_in_periodic_mode s) f False = Some ((on_pushing_in_periodic_mode s)[nat f := False])"
    "aset (check_finish_arr s) f True = Some ((check_finish_arr s)[nat f := True])"
    using assms by (simp_all add: aget_def aset_def server_ok_def)
  then show ?case using ok assms by (auto simp: on_push_close_def server_ok_def Let_def)
next
  case (Cons c es)
  let ?n = "int (length es)"
  let ?s = "(if c = 0 then s\<lparr>increased := False\<rparr> else s)\<lparr>headed_seg := seg,
    on_pushing_in_periodic_mode := (on_pushing_in_periodic_mode s)[nat f := True]\<rparr>"
  from Cons.prems have p: "server_ok s" "bitrate s ! nat f = br" "num s ! nat f = ?n + 1"
    by (simp_all add: pushing_def)
  have ok: "server_ok ?s" "bitrate ?s ! nat f = br" "num ?s ! nat f = ?n + 1"
    "terminate_face ?s = terminate_face s" "terminate_seg ?s = terminate_seg s"
    using p by (simp_all add: server_ok_def)
  have "\<not> (f = terminate_face ?s \<and> seg + 1 = terminate_seg ?s)" using Cons.prems(3) ok(4,5) by auto
  from push_next [OF assms ok(1-3) _ _ this] Cons.prems(2) obtain s1 where
    s1: "push_remaining_files f (seg + 1) ?s = Some (s1, [Push (push_path (seg + 1) br f)])"
    "pushing f br ?n s1" "terminate_face s1 = terminate_face s" "terminate_seg s1 = terminate_seg s"
    using ok(4,5) by auto
  have "aget (num s) f = Some (?n + 1)"
    "aset (on_pushing_in_periodic_mode s) f True = Some ((on_pushing_in_periodic_mode s)[nat f := True])"
    using p assms by (simp_all add: aget_def aset_def server_ok_def)
  moreover have "\<not> (f = terminate_face s \<and> seg = terminate_seg s)" using Cons.prems(3) by auto
  ultimately have close: "on_push_close f seg c s = Some (s1, [Push (push_path (seg + 1) br f)])"
    using s1(1) by (cases "c = 0") (auto simp: on_push_close_def Let_def)
  have "seg + 1 + ?n < MAX_SEGMENTS" using Cons.prems(2) by simp
  moreover have "\<not> (f = terminate_face s1 \<and> seg + 1 \<le> terminate_seg s1 \<and> terminate_seg s1 \<le> seg + 1 + ?n)"
    using Cons.prems(3) s1(3,4) by auto
  ultimately obtain s' where s': "close_pushes f (seg + 1) (es @ [e]) s1 = Some (s',
      map (\<lambda>j. Push (push_path j br f)) [seg + 1 + 1..seg + 1 + ?n] @ [End_response])"
    "server_ok s'" "\<not> on_pushing_in_periodic_mode s' ! nat f" "num s' ! nat f = 0" "headed_seg s' = seg + 1 + ?n"
    using Cons.IH [OF s1(2)] by blast
  have n: "seg + int (length (c # es)) = seg + 1 + ?n" by simp
  have l: "[seg + 1..seg + 1 + ?n] = (seg + 1) # [seg + 1 + 1..seg + 1 + ?n]" by (simp add: upto_rec1)
  have "close_pushes f seg ((c # es) @ [e]) s = Some (s',
      map (\<lambda>j. Push (push_path j br f)) [seg + 1..seg + 1 + ?n] @ [End_response])"
    by (simp only: append_Cons append_Nil close_pushes.simps close s'(1) l Option.bind.bind_lunit prod.case list.map)
  with s'(2-5) show ?case unfolding n by blast
qed

text \<open>
  C33: A request for \<open>k\<close> segments of a face that is not being pushed, and that nobody terminates, is
  answered by \<open>k\<close> pushes of consecutive segments at the requested bitrate, whatever the error
  codes with which they close; then the response ends and the face is free again.
\<close>

theorem pushes_requested_segments:
  assumes "splits split" "0 \<le> f" "f < 6" "server_ok s" "\<not> on_pushing_in_periodic_mode s ! nat f"
    and "0 < k" "k < 2 ^ 31" "int (length errs) = k" "first_segment s + k \<le> MAX_SEGMENTS"
    and "\<not> (f = terminate_face s \<and> first_segment s \<le> terminate_seg s \<and> terminate_seg s < first_segment s + k)"
  shows "\<exists>s1 s2 a b. handle split f (push_request fid br k) s = Some (s1, a) \<and>
    close_pushes f (first_segment s) errs s1 = Some (s2, b) \<and>
    a @ b = map (\<lambda>j. Push (push_path j (print_int br) f)) [first_segment s..first_segment s + k - 1] @ [End_response] \<and>
    \<not> on_pushing_in_periodic_mode s2 ! nat f \<and> num s2 ! nat f = 0 \<and> headed_seg s2 = first_segment s + k - 1"
proof -
  let ?h = "first_segment s" and ?br = "print_int br"
  let ?s = "s\<lparr>headed_seg := ?h, increased := True, bitrate := (bitrate s)[nat f := ?br], num := (num s)[nat f := k]\<rparr>"
  have ok: "server_ok ?s" "bitrate ?s ! nat f = ?br" "num ?s ! nat f = k"
    using assms(2-4) by (simp_all add: server_ok_def)
  have "aget (on_pushing_in_periodic_mode s) f = Some False"
    using assms(2-5) by (simp add: aget_def server_ok_def)
  then have run: "handle split f (push_request fid br k) s = push_remaining_files f ?h ?s"
    using handle_request [OF assms(1-4) _ assms(7), of fid br] assms(6) by (simp add: push_file_def)
  obtain s1 where s1: "push_remaining_files f ?h ?s = Some (s1, [Push (push_path ?h ?br f)])"
    "pushing f ?br (k - 1) s1" "terminate_face s1 = terminate_face s" "terminate_seg s1 = terminate_seg s"
    using push_next [OF assms(2,3) ok assms(6), of ?h] assms(6,9,10) by auto
  obtain es e where es: "errs = es @ [e]" "int (length es) = k - 1"
    using assms(6,8) by (cases errs rule: rev_cases) auto
  have "pushing f ?br (int (length es)) s1" using s1(2) es(2) by simp
  from pushing_run [OF assms(2,3) this, of ?h e] obtain s2 where
    s2: "close_pushes f ?h errs s1 = Some (s2,
      map (\<lambda>j. Push (push_path j ?br f)) [?h + 1..?h + (k - 1)] @ [End_response])"
    "\<not> on_pushing_in_periodic_mode s2 ! nat f" "num s2 ! nat f = 0" "headed_seg s2 = ?h + (k - 1)"
    using s1(3,4) es assms(9,10) by auto
  have "[?h..?h + k - 1] = ?h # [?h + 1..?h + (k - 1)]" using assms(6) by (simp add: upto_rec1 algebra_simps)
  then have "[Push (push_path ?h ?br f)] @ map (\<lambda>j. Push (push_path j ?br f)) [?h + 1..?h + (k - 1)] @ [End_response]
    = map (\<lambda>j. Push (push_path j ?br f)) [?h..?h + k - 1] @ [End_response]" by simp
  moreover have "headed_seg s2 = ?h + k - 1" using s2(4) by simp
  ultimately show ?thesis using run s1(1) s2(1-3) by metis
qed

theorem pushes_requested_segments_witness:
  "\<exists>s1 s2 a b. handle split_on 2 (push_request 2 483 3) server_init = Some (s1, a) \<and>
     close_pushes 2 1 [0, 8, 0] s1 = Some (s2, b) \<and>
     a @ b = map (\<lambda>j. Push (push_path j (print_int 483) 2)) [1..3] @ [End_response] \<and> headed_seg s2 = 3"
proof -
  have "server_ok server_init" "first_segment server_init = 1" "\<not> on_pushing_in_periodic_mode server_init ! nat 2"
    by (simp_all add: server_ok_def server_init_def first_segment_def)
  with pushes_requested_segments [OF splits_split_on, of 2 server_init 3 "[0, 8, 0]" 2 483]
  show ?thesis by (simp add: MAX_SEGMENTS_def server_init_def) blast
qed

section \<open>Terminating a segment that has not started\<close>

datatype Event = Request int string | Terminate string | Closed int int int

definition push_step ::
  "(char \<Rightarrow> string \<Rightarrow> string list) \<Rightarrow> Event \<Rightarrow> PushServer \<Rightarrow> (PushServer \<times> Action list) option" where
  "push_step split ev s = (case ev of
     Request f path \<Rightarrow> handle split f path s
   | Terminate path \<Rightarrow> handle_terminate split path s
   | Closed f seg error_code \<Rightarrow> on_push_close f seg error_code s)"

fun push_run ::
  "(char \<Rightarrow> string \<Rightarrow> string list) \<Rightarrow> Event list \<Rightarrow> PushServer \<Rightarrow> (PushServer \<times> (Event \<times> Action list) list) option" where
  "push_run split [] s = Some (s, [])"
| "push_run split (ev # evs) s = do {
     (s, a) \<leftarrow> push_step split ev s;
     (s, trail) \<leftarrow> push_run split evs s;
     Some (s, (ev, a) # trail)
   }"

definition blocked :: "int \<Rightarrow> PushServer \<Rightarrow> bool" where
  "blocked f s \<longleftrightarrow> aget (on_pushing_in_periodic_mode s) f = Some True"

lemma push_remaining_blocked:
  "push_remaining_files g seg s = Some (s', a) \<Longrightarrow> blocked f s \<Longrightarrow> blocked f s'"
  by (auto simp: push_remaining_files_def blocked_def aget_aset split: if_splits bind_splits)

lemma handle_blocked:
  assumes "handle split g path s = Some (s', a)" "blocked f s"
  shows "blocked f s' \<and> (g = f \<longrightarrow> a = [])"
  using assms
  by (auto simp: handle_def push_file_def Let_def blocked_def split: if_splits bind_splits
      dest!: push_remaining_blocked [where f = f])

lemma close_blocked:
  assumes "on_push_close g seg e s = Some (s', a)" "blocked f s" "g \<noteq> f"
  shows "blocked f s'"
  using assms
  by (auto simp: on_push_close_def Let_def blocked_def aget_aset split: if_splits bind_splits
      dest!: push_remaining_blocked [where f = f])

lemma push_step_blocked:
  assumes "push_step split ev s = Some (s', a)" "blocked f s" "\<And>t c. ev \<noteq> Closed f t c"
  shows "blocked f s' \<and> (\<forall>p. ev = Request f p \<longrightarrow> a = [])"
proof (cases ev)
  case (Request g p)
  then show ?thesis using handle_blocked [of split g p s s' a f] assms by (auto simp: push_step_def)
next
  case (Terminate p)
  then show ?thesis using assms by (auto simp: push_step_def handle_terminate_def blocked_def split: bind_splits)
next
  case (Closed g t c)
  then show ?thesis using close_blocked [of g t c s s' a f] assms by (auto simp: push_step_def)
qed

lemma push_run_blocked:
  "push_run split evs s = Some (s', trail) \<Longrightarrow> blocked f s \<Longrightarrow> (\<And>t c. Closed f t c \<notin> set evs) \<Longrightarrow>
    (Request f p, a) \<in> set trail \<Longrightarrow> a = []"
proof (induction evs arbitrary: s trail)
  case (Cons ev evs)
  from Cons.prems(1) obtain s1 b trail1 where 1: "push_step split ev s = Some (s1, b)"
    "push_run split evs s1 = Some (s', trail1)" "trail = (ev, b) # trail1"
    by (auto split: bind_splits)
  have "\<And>t c. ev \<noteq> Closed f t c" using Cons.prems(3) by auto
  note step = push_step_blocked [OF 1(1) Cons.prems(2) this]
  have "a = []" if "(Request f p, a) \<in> set trail1"
    using step Cons.prems(3) by (intro Cons.IH [OF 1(2) _ _ that]) auto
  then show ?case using Cons.prems(4) step 1(3) by auto
qed simp

text \<open>
  C37: When a segment is terminated that is due but has not been started, the pushes of its face stop
  but its response is never ended, and the face stays marked as being pushed: whatever happens
  afterwards, no request for the face is ever answered.
\<close>

theorem terminate_blocks_face:
  assumes "aget (num s) f = Some n" "n \<noteq> 0" "aget (on_pushing_in_periodic_mode s) f \<noteq> None"
    and "terminate_face s = f" "terminate_seg s = seg + 1" "seg + 1 < MAX_SEGMENTS"
  shows "\<exists>s1. on_push_close f seg e s = Some (s1, []) \<and>
    (\<forall>evs s2 trail p a. (\<forall>t c. Closed f t c \<notin> set evs) \<and> push_run split evs s1 = Some (s2, trail) \<and>
      (Request f p, a) \<in> set trail \<longrightarrow> a = [])"
proof -
  obtain ps where ps: "aset (on_pushing_in_periodic_mode s) f True = Some ps"
    using assms(3) by (auto simp: aget_def aset_def split: if_splits)
  let ?s = "(if e = 0 then s\<lparr>increased := False\<rparr> else s)\<lparr>headed_seg := seg, on_pushing_in_periodic_mode := ps\<rparr>"
  have "on_push_close f seg e s = push_remaining_files f (seg + 1) ?s"
    using assms ps by (auto simp: on_push_close_def Let_def)
  also have "\<dots> = Some (?s, [])" using assms by (simp add: push_remaining_files_def)
  finally have close: "on_push_close f seg e s = Some (?s, [])" .
  have "blocked f ?s" using aget_aset [OF ps, of f] by (simp add: blocked_def)
  with close push_run_blocked [of split _ ?s _ _ f] show ?thesis by blast
qed

theorem terminate_blocks_face_witness:
  "\<exists>s1. on_push_close 2 1 0 (server_init\<lparr>num := [0, 0, 2, 0, 0, 0], terminate_face := 2, terminate_seg := 2\<rparr>) = Some (s1, []) \<and>
    (\<forall>s2 trail a. push_run split_on [Request 2 (push_request 2 483 1)] s1 = Some (s2, trail) \<and>
      (Request 2 (push_request 2 483 1), a) \<in> set trail \<longrightarrow> a = [])"
proof -
  let ?s = "server_init\<lparr>num := [0, 0, 2, 0, 0, 0], terminate_face := 2, terminate_seg := 2\<rparr>"
  obtain s1 where "on_push_close 2 1 0 ?s = Some (s1, [])"
    "\<forall>evs s2 trail p a. (\<forall>t c. Closed 2 t c \<notin> set evs) \<and> push_run split_on evs s1 = Some (s2, trail) \<and>
      (Request 2 p, a) \<in> set trail \<longrightarrow> a = []"
    using terminate_blocks_face [of ?s 2 2 1 0 split_on] by (auto simp: aget_def server_init_def MAX_SEGMENTS_def)
  moreover have "\<forall>t c. Closed 2 t c \<notin> set [Request 2 (push_request 2 483 1)]" by simp
  ultimately show ?thesis by blast
qed

end
