(* ===== verification/Single_Push.thy ===== *)
theory Single_Push
  imports Push_Server
begin

text \<open>
  The server \<^verbatim>\<open>server_6f_2x2.cpp\<close>: it answers the request of a tile by one push, for the segment all
  tiles are at. The segment is a global counter that goes on with the first request after a push has
  been sent. It shares the variables, the paths and the messages of \<open>Push_Server\<close>, here for 25 tiles;
  \<^verbatim>\<open>on_pushing_in_periodic_mode\<close> is never set.
\<close>

section \<open>The server\<close>

definition single_init :: PushServer where
  "single_init = \<lparr>bitrate = replicate 25 [], num = replicate 25 0, on_pushing_in_periodic_mode = replicate 25 False,
     check_finish_arr = replicate 25 False, terminate_seg = - 1, terminate_face = - 1, increased = False, headed_seg = 0\<rparr>"

definition push_single :: "int \<Rightarrow> int \<Rightarrow> PushServer \<Rightarrow> (PushServer \<times> Action list) option" where
  "push_single face_index curr_seg s =
     (if curr_seg \<ge> MAX_SEGMENTS then Some (s, [End_response])
      else do {
        n \<leftarrow> aget (num s) face_index;
        if n = 0 \<or> face_index = terminate_face s \<and> curr_seg = terminate_seg s then Some (s, [])
        else do {
          ns \<leftarrow> aset (num s) face_index (n - 1);
          br \<leftarrow> aget (bitrate s) face_index;
          Some (s\<lparr>num := ns\<rparr>, [Push (push_path curr_seg br face_index)])
        }
      })"

definition on_single_close :: "int \<Rightarrow> PushServer \<Rightarrow> PushServer \<times> Action list" where
  "on_single_close error_code s = (if error_code = 0 then s\<lparr>increased := False\<rparr> else s, [End_response])"

definition push_single_file :: "bool \<Rightarrow> int \<Rightarrow> PushServer \<Rightarrow> (PushServer \<times> Action list) option" where
  "push_single_file is_closed face_index s =
     (if is_closed then Some (s, [])
      else do {
        p \<leftarrow> aget (on_pushing_in_periodic_mode s) face_index;
        if p then Some (s, []) else push_single face_index (headed_seg s) s
      })"

definition handle_single ::
  "(char \<Rightarrow> string \<Rightarrow> string list) \<Rightarrow> int \<Rightarrow> string \<Rightarrow> PushServer \<Rightarrow> (PushServer \<times> Action list) option" where
  "handle_single split face_index path s = do {
     let s = (if \<not> increased s then s\<lparr>headed_seg := headed_seg s + 1, increased := True\<rparr> else s);
     let strs = split CHR ''/'' path;
     if length strs \<noteq> 4 then Some (s, [])
     else do {
       br \<leftarrow> aget (split CHR ''='' (strs ! 2)) 1;
       brs \<leftarrow> aset (bitrate s) face_index br;
       n \<leftarrow> field split CHR ''='' (strs ! 3);
       ns \<leftarrow> aset (num s) face_index n;
       push_single_file False face_index (s\<lparr>bitrate := brs, num := ns\<rparr>)
     }
   }"

definition single_step ::
  "(char \<Rightarrow> string \<Rightarrow> string list) \<Rightarrow> Event \<Rightarrow> PushServer \<Rightarrow> (PushServer \<times> Action list) option" where
  "single_step split ev s = (case ev of
     Request f path \<Rightarrow> handle_single split f path s
   | Terminate path \<Rightarrow> handle_terminate split path s
   | Closed f seg error_code \<Rightarrow> Some (on_single_close error_code s))"

fun single_run ::
  "(char \<Rightarrow> string \<Rightarrow> string list) \<Rightarrow> Event list \<Rightarrow> PushServer \<Rightarrow> (PushServer \<times> (Event \<times> Action list) list) option" where
  "single_run split [] s = Some (s, [])"
| "single_run split (ev # evs) s = do {
     (s, a) \<leftarrow> single_step split ev s;
     (s, trail) \<leftarrow> single_run split evs s;
     Some (s, (ev, a) # trail)
   }"

section \<open>The requests of a round\<close>

definition single_ok :: "PushServer \<Rightarrow> bool" where
  "single_ok s \<longleftrightarrow> length (bitrate s) = 25 \<and> length (num s) = 25 \<and>
     on_pushing_in_periodic_mode s = replicate 25 False \<and> terminate_face s < 0"

text \<open>The client asks for a tile at a bitrate; the answer is the push of a segment.\<close>

definition tile_request :: "int \<times> int \<Rightarrow> Event" where
  "tile_request = (\<lambda>(f, br). Request f (request_path f br))"

definition tile_push :: "int \<Rightarrow> int \<times> int \<Rightarrow> Event \<times> Action list" where
  "tile_push seg = (\<lambda>(f, br). (Request f (request_path f br), [Push (push_path seg (print_int br) f)]))"

lemma single_request:
  assumes "splits split" "single_ok s" "0 \<le> f" "f < 25" "first_segment s < MAX_SEGMENTS"
  shows "\<exists>s'. handle_single split f (request_path f br) s = Some (s', [Push (push_path (first_segment s) (print_int br) f)]) \<and>
    single_ok s' \<and> headed_seg s' = first_segment s \<and> increased s'"
proof -
  have free: "c \<notin> set (print_int n)" if "c \<in> {CHR ''/'', CHR ''=''}" for c n
    using that by (intro print_int_no) (auto simp: is_digit_def)
  have split: "split c (join c ps) = ps" if "ps \<noteq> []" "\<forall>p \<in> set ps. c \<notin> set p" for c ps
    using assms(1) that by (simp add: splits_def)
  have 1: "split CHR ''/'' (request_path f br) =
      [[], ''face'' @ print_int f, ''bitrate='' @ print_int br, ''num=1'']"
    using split [of "[[], ''face'' @ print_int f, ''bitrate='' @ print_int br, ''num=1'']" "CHR ''/''"] free
    by (simp add: request_path_def)
  have 2: "split CHR ''='' (''bitrate='' @ print_int br) = [''bitrate'', print_int br]"
    using split [of "[''bitrate'', print_int br]" "CHR ''=''"] free by simp
  have 3: "split CHR ''='' ''num=1'' = [''num'', ''1'']"
    using split [of "[''num'', ''1'']" "CHR ''=''"] by simp
  have "stoi ''1'' = Some 1" by code_simp
  then have 4: "aget (split CHR ''='' (''bitrate='' @ print_int br)) 1 = Some (print_int br)"
    "field split CHR ''='' ''num=1'' = Some 1"
    unfolding field_def 2 3 by (simp_all add: aget_def)
  have start: "(if \<not> increased s then s\<lparr>headed_seg := headed_seg s + 1, increased := True\<rparr> else s)
      = s\<lparr>headed_seg := first_segment s, increased := True\<rparr>"
    by (cases s) (simp add: first_segment_def)
  show ?thesis
    using assms(2-5) 4 unfolding handle_single_def start 1
    by (simp add: aset_in aget_in single_ok_def push_single_file_def push_single_def Let_def)
qed

lemma single_requests:
  assumes "splits split"
  shows "single_ok s \<Longrightarrow> \<forall>(f, br) \<in> set xs. 0 \<le> f \<and> f < 25 \<Longrightarrow> first_segment s < MAX_SEGMENTS \<Longrightarrow>
    \<exists>s'. single_run split (map tile_request xs) s = Some (s', map (tile_push (first_segment s)) xs) \<and>
      single_ok s' \<and> first_segment s' = first_segment s \<and>
      (xs \<noteq> [] \<longrightarrow> increased s' \<and> headed_seg s' = first_segment s)"
proof (induction xs arbitrary: s)
  case (Cons x xs)
  obtain f br where x: "x = (f, br)" by fastforce
  from single_request [OF assms Cons.prems(1), of f br] Cons.prems obtain s1 where
    s1: "handle_single split f (request_path f br) s = Some (s1, [Push (push_path (first_segment s) (print_int br) f)])"
    "single_ok s1" "headed_seg s1 = first_segment s" "increased s1"
    by (auto simp: x)
  have h: "first_segment s1 = first_segment s" using s1(3,4) by (simp add: first_segment_def)
  obtain s2 where s2: "single_run split (map tile_request xs) s1 = Some (s2, map (tile_push (first_segment s1)) xs)"
    "single_ok s2" "first_segment s2 = first_segment s1" "xs \<noteq> [] \<longrightarrow> increased s2 \<and> headed_seg s2 = first_segment s1"
    using Cons.IH [OF s1(2)] Cons.prems h by auto
  show ?case
  proof (cases "xs = []")
    case True
    then show ?thesis using s1 h by (simp add: x single_step_def tile_request_def tile_push_def)
  next
    case False
    then show ?thesis using s1 s2 h by (simp add: x single_step_def tile_request_def tile_push_def)
  qed
qed simp

lemma single_run_append:
  "single_run split (xs @ ys) s = do {
     (s, a) \<leftarrow> single_run split xs s;
     (s, b) \<leftarrow> single_run split ys s;
     Some (s, a @ b)
   }"
  by (induction xs arbitrary: s) (auto split: bind_split prod.splits)

text \<open>
  The requests the client sends for the tiles of one segment are answered by pushes of one segment
  only as long as no push completes: when one is sent completely while requests are still to come,
  those are answered with the following segment. So which tiles belong together depends on the
  timing of the transmission.
\<close>

theorem round_split_by_push:
  assumes "splits split" "single_ok s" "xs \<noteq> []" "\<forall>(f, br) \<in> set (xs @ ys). 0 \<le> f \<and> f < 25"
    and "first_segment s + 1 < MAX_SEGMENTS"
  shows "\<exists>s'. single_run split (map tile_request xs @ Closed g t e # map tile_request ys) s =
    Some (s', map (tile_push (first_segment s)) xs @ (Closed g t e, [End_response]) #
      map (tile_push (if e = 0 then first_segment s + 1 else first_segment s)) ys)"
proof -
  obtain s1 where s1: "single_run split (map tile_request xs) s = Some (s1, map (tile_push (first_segment s)) xs)"
    "single_ok s1" "increased s1" "headed_seg s1 = first_segment s"
    using single_requests [OF assms(1,2), of xs] assms(3-5) by auto
  let ?s = "fst (on_single_close e s1)"
  have s: "single_ok ?s" "first_segment ?s = (if e = 0 then first_segment s + 1 else first_segment s)"
    using s1(2-4) by (simp_all add: on_single_close_def single_ok_def first_segment_def)
  have "first_segment ?s < MAX_SEGMENTS" "\<forall>(f, br) \<in> set ys. 0 \<le> f \<and> f < 25" using assms(4,5) s(2) by auto
  with single_requests [OF assms(1) s(1), of ys] obtain s2 where
    "single_run split (map tile_request ys) ?s = Some (s2, map (tile_push (first_segment ?s)) ys)" by blast
  then have "single_run split (map tile_request ys) ?s = Some (s2,
      map (tile_push (if e = 0 then first_segment s + 1 else first_segment s)) ys)" by (simp only: s(2))
  moreover have "single_step split (Closed g t e) s1 = Some (?s, [End_response])"
    by (simp add: single_step_def on_single_close_def)
  ultimately show ?thesis using s1(1) by (simp add: single_run_append)
qed

theorem round_split_by_push_witness:
  "\<exists>s'. single_run split_on [Request 1 (request_path 1 483), Closed 1 1 0, Request 2 (request_path 2 483)] single_init =
    Some (s', [(Request 1 (request_path 1 483), [Push (push_path 1 (print_int 483) 1)]), (Closed 1 1 0, [End_response]),
      (Request 2 (request_path 2 483), [Push (push_path 2 (print_int 483) 2)])])"
proof -
  have "single_ok single_init" "first_segment single_init = 1" "1 + 1 < MAX_SEGMENTS"
    by (simp_all add: single_ok_def single_init_def first_segment_def MAX_SEGMENTS_def)
  with round_split_by_push [OF splits_split_on, of single_init "[(1, 483)]" "[(2, 483)]" 1 1 0] show ?thesis
    by (simp add: tile_request_def tile_push_def)
qed

end
