(* ===== verification/Client_Utilities.thy ===== *)
theory Client_Utilities
  imports VR_Prelude "HOL-Library.Multiset" "HOL-Library.List_Lexorder" "HOL-Library.Char_ord"
begin

text \<open>
  The helpers of \<^verbatim>\<open>common.cc\<close>, which the client compiles as part of \<^verbatim>\<open>Tile.h\<close>: angles of a viewport,
  statistics of a list of scores, the order of file names, time differences, and the numbering of
  tiles over faces.
\<close>

section \<open>Viewport positions\<close>

datatype ViewportPos = ViewportPos (vp_phi: int) (vp_theta: int)

text \<open>\<^verbatim>\<open>operator<\<close> compares the pairs, so that positions are the keys of maps.\<close>

definition vp_less :: "ViewportPos \<Rightarrow> ViewportPos \<Rightarrow> bool" where
  "vp_less p q \<longleftrightarrow> vp_phi p < vp_phi q \<or> vp_phi p = vp_phi q \<and> vp_theta p < vp_theta q"

instantiation ViewportPos :: linorder
begin

definition less_ViewportPos :: "ViewportPos \<Rightarrow> ViewportPos \<Rightarrow> bool" where
  "p < q \<longleftrightarrow> vp_less p q"

definition less_eq_ViewportPos :: "ViewportPos \<Rightarrow> ViewportPos \<Rightarrow> bool" where
  "p \<le> q \<longleftrightarrow> p = q \<or> p < (q :: ViewportPos)"

instance
proof
  fix p q r :: ViewportPos
  show "p < q \<longleftrightarrow> p \<le> q \<and> \<not> q \<le> p" by (auto simp: vp_less_def less_ViewportPos_def less_eq_ViewportPos_def)
  show "p \<le> p" by (simp add: less_eq_ViewportPos_def)
  show "p \<le> q \<Longrightarrow> q \<le> r \<Longrightarrow> p \<le> r" by (auto simp: vp_less_def less_ViewportPos_def less_eq_ViewportPos_def)
  show "p \<le> q \<Longrightarrow> q \<le> p \<Longrightarrow> p = q" by (auto simp: vp_less_def less_ViewportPos_def less_eq_ViewportPos_def)
  show "p \<le> q \<or> q \<le> p" by (cases p; cases q) (auto simp: vp_less_def less_ViewportPos_def less_eq_ViewportPos_def)
qed

end

text \<open>The loops of \<^verbatim>\<open>norm_vp_range\<close>, one function each.\<close>

function phi_down :: "int \<Rightarrow> int" where
  "phi_down x = (if x \<ge> 180 then phi_down (x - 360) else x)"
  by pat_completeness auto
termination by (relation "measure (\<lambda>x. nat (x + 180))") auto

function phi_up :: "int \<Rightarrow> int" where
  "phi_up x = (if x < - 180 then phi_up (x + 360) else x)"
  by pat_completeness auto
termination by (relation "measure (\<lambda>x. nat (180 - x))") auto

function theta_down :: "int \<Rightarrow> int" where
  "theta_down x = (if x \<ge> 90 then theta_down (x - 90) else x)"
  by pat_completeness auto
termination by (relation "measure (\<lambda>x. nat x)") auto

function theta_up :: "int \<Rightarrow> int" where
  "theta_up x = (if x \<le> - 90 then theta_up (x + 90) else x)"
  by pat_completeness auto
termination by (relation "measure (\<lambda>x. nat (- x))") auto

declare phi_down.simps [simp del] phi_up.simps [simp del] theta_down.simps [simp del] theta_up.simps [simp del]

definition norm_vp_range :: "int \<times> int \<Rightarrow> int \<times> int" where
  "norm_vp_range = (\<lambda>(phi, theta). (phi_up (phi_down phi), theta_up (theta_down theta)))"

text \<open>The point with index \<open>point_id\<close> around a position, at the distance \<open>err\<close>.\<close>

definition getErrorPoint :: "int \<Rightarrow> int \<Rightarrow> int \<Rightarrow> int \<Rightarrow> (int \<times> int) option" where
  "getErrorPoint phi theta err point_id = do {
     (tmp_phi_est, tmp_theta_est) \<leftarrow>
       (if point_id = 1 then Some (phi + err, theta)
        else if point_id = 2 then Some (phi - err, theta)
        else if point_id = 3 then Some (phi, theta - err)
        else if point_id = 4 then Some (phi, theta + err)
        else None);
     let phi_est = (if tmp_phi_est \<le> - 180 then tmp_phi_est + 360 else tmp_phi_est);
     let phi_est = (if tmp_phi_est > 180 then phi_est - 360 else phi_est);
     let theta_est = (if tmp_theta_est > 90 then 90 else tmp_theta_est);
     let theta_est = (if tmp_theta_est < - 90 then - 90 else theta_est);
     Some (phi_est, theta_est)
   }"

lemma phi_down_spec: "phi_down x < 180 \<and> phi_down x mod 360 = x mod 360 \<and> (- 180 \<le> x \<longrightarrow> - 180 \<le> phi_down x)"
proof (induction x rule: phi_down.induct)
  case (1 x)
  have "(x - 360) mod 360 = x mod 360" by (simp add: mod_diff_right_eq [symmetric])
  with 1 show ?case by (subst (1 2 3) phi_down.simps) auto
qed

lemma phi_up_spec: "- 180 \<le> phi_up x \<and> phi_up x mod 360 = x mod 360 \<and> (x < 180 \<longrightarrow> phi_up x < 180)"
proof (induction x rule: phi_up.induct)
  case (1 x)
  with 1 show ?case by (subst (1 2 3) phi_up.simps) auto
qed

lemma theta_down_spec: "theta_down x < 90 \<and> theta_down x mod 90 = x mod 90 \<and> (- 90 < x \<longrightarrow> - 90 < theta_down x)"
proof (induction x rule: theta_down.induct)
  case (1 x)
  have "(x - 90) mod 90 = x mod 90" by (simp add: mod_diff_right_eq [symmetric])
  with 1 show ?case by (subst (1 2 3) theta_down.simps) auto
qed

lemma theta_up_spec: "- 90 < theta_up x \<and> theta_up x mod 90 = x mod 90 \<and> (x < 90 \<longrightarrow> theta_up x < 90)"
proof (induction x rule: theta_up.induct)
  case (1 x)
  then show ?case by (subst (1 2 3) theta_up.simps) auto
qed

text \<open>
  Normalising ends, with angles in their ranges, the first one turned by full turns. The second one
  moves by right angles, so that the pole becomes the equator.
\<close>

theorem norm_vp_range_spec:
  "\<exists>phi' theta'. norm_vp_range (phi, theta) = (phi', theta') \<and> - 180 \<le> phi' \<and> phi' < 180 \<and> phi' mod 360 = phi mod 360 \<and>
     - 90 < theta' \<and> theta' < 90 \<and> theta' mod 90 = theta mod 90"
  using phi_down_spec [of phi] phi_up_spec [of "phi_down phi"] theta_down_spec [of theta]
    theta_up_spec [of "theta_down theta"] by (simp add: norm_vp_range_def)

theorem norm_vp_range_pole: "norm_vp_range (phi, 90) = norm_vp_range (phi, 0)" "norm_vp_range (phi, - 90) = norm_vp_range (phi, 0)"
  by (simp_all add: norm_vp_range_def theta_down.simps theta_up.simps)

theorem getErrorPoint_range:
  assumes "- 180 < phi" "phi \<le> 180" "- 90 \<le> theta" "theta \<le> 90" "0 \<le> err" "err \<le> 180" "1 \<le> point_id" "point_id \<le> 4"
  shows "\<exists>phi' theta'. getErrorPoint phi theta err point_id = Some (phi', theta') \<and> - 180 < phi' \<and> phi' \<le> 180 \<and>
    - 90 \<le> theta' \<and> theta' \<le> 90 \<and> \<bar>theta' - theta\<bar> \<le> err \<and>
    (\<exists>k \<in> {- 1, 0, 1}. \<bar>phi' + 360 * k - phi\<bar> \<le> err)"
proof -
  have "point_id = 1 \<or> point_id = 2 \<or> point_id = 3 \<or> point_id = 4" using assms(7,8) by auto
  then show ?thesis using assms by (auto simp: getErrorPoint_def Let_def)
qed

section \<open>Statistics\<close>

definition median :: "int list \<Rightarrow> int \<Rightarrow> int option" where
  "median scores N =
     (if N = 0 then Some 0
      else if N < 0 \<or> int (length scores) < N then None
      else let scores = sort (take (nat N) scores) @ drop (nat N) scores in
        if N smod 2 = 0
        then do {
          a \<leftarrow> aget scores (N sdiv 2 - 1);
          b \<leftarrow> aget scores (N sdiv 2);
          Some ((a + b) sdiv 2)
        }
        else aget scores (N sdiv 2))"

definition median_all :: "int list \<Rightarrow> int option" where
  "median_all scores = median scores (int (length scores))"

definition maximum :: "int list \<Rightarrow> int \<Rightarrow> int option" where
  "maximum scores N =
     (if N = 0 then Some 0
      else if N < 0 \<or> int (length scores) < N then None
      else aget (sort (take (nat N) scores) @ drop (nat N) scores) (N - 1))"

definition average :: "int list \<Rightarrow> rat" where
  "average scores = sum_list (map (\<lambda>s. of_int s / of_nat (length scores)) scores)"

lemma average_sum:
  assumes "scores \<noteq> []"
  shows "average scores * of_nat (length scores) = of_int (sum_list scores)"
proof -
  have "sum_list (map (\<lambda>s. of_int s / d) xs) * d = of_int (sum_list xs)" if "d \<noteq> 0" for d :: rat and xs
    using that by (induction xs) (simp_all add: distrib_right)
  then show ?thesis using assms by (simp add: average_def)
qed

lemma filter_take: "\<forall>x \<in> set (take k xs). P x \<Longrightarrow> k \<le> length xs \<Longrightarrow> k \<le> length (filter P xs)"
proof -
  assume P: "\<forall>x \<in> set (take k xs). P x" and k: "k \<le> length xs"
  have "filter P xs = take k xs @ filter P (drop k xs)"
    using P by (subst append_take_drop_id [of k, symmetric], subst filter_append) (simp add: filter_id_conv)
  then show ?thesis using k by simp
qed

lemma filter_drop: "\<forall>x \<in> set (drop k xs). P x \<Longrightarrow> length xs - k \<le> length (filter P xs)"
proof -
  assume P: "\<forall>x \<in> set (drop k xs). P x"
  have "filter P xs = filter P (take k xs) @ drop k xs"
    using P by (subst append_take_drop_id [of k, symmetric], subst filter_append) (simp add: filter_id_conv)
  then show ?thesis by simp
qed

lemma length_filter_sort: "length (filter P (sort xs)) = length (filter P xs)"
proof -
  have "mset (filter P (sort xs)) = mset (filter P xs)" by simp
  then show ?thesis by (rule mset_eq_length)
qed

lemma sdiv_half_between: "a \<le> b \<Longrightarrow> a \<le> (a + b) sdiv 2 \<and> (a + b) sdiv 2 \<le> (b :: int)"
  by (auto simp: signed_divide_int_def sgn_if)

lemma half_below:
  assumes "sorted s" "k < length s" "s ! k \<le> v"
  shows "k + 1 \<le> length (filter (\<lambda>x. x \<le> v) (s :: int list))"
proof (rule filter_take)
  show "\<forall>x \<in> set (take (k + 1) s). x \<le> v"
  proof
    fix x assume "x \<in> set (take (k + 1) s)"
    then obtain i where "i < Suc k" "x = s ! i" by (auto simp: in_set_conv_nth)
    with sorted_nth_mono [OF assms(1), of i k] assms(2,3) show "x \<le> v" by simp
  qed
qed (use assms in simp)

lemma half_above:
  assumes "sorted s" "v \<le> s ! k"
  shows "length s - k \<le> length (filter (\<lambda>x. v \<le> x) (s :: int list))"
proof (rule filter_drop)
  show "\<forall>x \<in> set (drop k s). v \<le> x"
  proof
    fix x assume "x \<in> set (drop k s)"
    then obtain i where "i < length s - k" "x = s ! (k + i)" by (auto simp: in_set_conv_nth)
    moreover from this(1) have "k + i < length s" by linarith
    ultimately show "v \<le> x" using sorted_nth_mono [OF assms(1), of k "k + i"] assms(2) by simp
  qed
qed

text \<open>The median splits the scores in halves, and depends on the scores only, not on their order.\<close>

theorem median_halves:
  assumes "scores \<noteq> []"
  shows "\<exists>v. median_all scores = Some v \<and> length scores \<le> 2 * length (filter (\<lambda>x. x \<le> v) scores) \<and>
    length scores \<le> 2 * length (filter (\<lambda>x. v \<le> x) scores)"
proof -
  let ?n = "length scores" and ?s = "sort scores"
  have n: "0 < ?n" using assms by simp
  have half: "int ?n sdiv 2 = int (?n div 2)" "int ?n smod 2 = int (?n mod 2)"
    by (simp_all add: zdiv_int zmod_int)
  show ?thesis
  proof (cases "even ?n")
    case False
    let ?v = "?s ! (?n div 2)"
    have "median_all scores = Some ?v"
      using n False by (simp add: median_all_def median_def half aget_def odd_iff_mod_2_eq_one)
    moreover have "?n div 2 + 1 \<le> length (filter (\<lambda>x. x \<le> ?v) ?s)"
      using n by (intro half_below) simp_all
    moreover have "?n - ?n div 2 \<le> length (filter (\<lambda>x. ?v \<le> x) ?s)"
      using half_above [of ?s ?v "?n div 2"] by simp
    moreover have "?n = 2 * (?n div 2) + 1" using False by presburger
    ultimately show ?thesis unfolding length_filter_sort by (intro exI [of _ ?v] conjI) linarith+
  next
    case True
    let ?a = "?s ! (?n div 2 - 1)" and ?b = "?s ! (?n div 2)"
    let ?v = "(?a + ?b) sdiv 2"
    have "2 * (?n div 2) = ?n" using True by simp
    then have h: "2 * (?n div 2) = ?n" "0 < ?n div 2" "?n div 2 < ?n" using n by linarith+
    then have ab: "?a \<le> ?b" by (intro sorted_nth_mono) simp_all
    have "nat (int (?n div 2) - 1) = ?n div 2 - 1" using h by simp
    then have "median_all scores = Some ?v"
      using n True h by (auto simp: median_all_def median_def half aget_def even_iff_mod_2_eq_zero Let_def
        nat_diff_distrib)
    moreover have "?n div 2 - 1 + 1 \<le> length (filter (\<lambda>x. x \<le> ?v) ?s)"
      using h sdiv_half_between [OF ab] by (intro half_below) simp_all
    moreover have "?n - ?n div 2 \<le> length (filter (\<lambda>x. ?v \<le> x) ?s)"
      using half_above [of ?s ?v "?n div 2"] sdiv_half_between [OF ab] by simp
    ultimately show ?thesis using h unfolding length_filter_sort
      by (intro exI [of _ ?v] conjI) (assumption | linarith)+
  qed
qed

theorem maximum_Max:
  assumes "scores \<noteq> []"
  shows "maximum scores (int (length scores)) = Some (Max (set scores))"
proof -
  let ?s = "sort scores" and ?k = "length scores - 1"
  have k: "?k < length ?s" "nat (int (length scores) - 1) = ?k" using assms by (auto simp: nat_diff_distrib)
  have "Max (set scores) = ?s ! ?k"
  proof (rule Max_eqI)
    fix x assume "x \<in> set scores"
    then obtain i where "i < length ?s" "x = ?s ! i" by (metis in_set_conv_nth set_sort)
    then show "x \<le> ?s ! ?k" using k(1) by (auto intro: sorted_nth_mono)
  qed (use nth_mem [OF k(1)] in simp_all)
  then show ?thesis using assms k by (simp add: maximum_def aget_def)
qed

section \<open>Names, times and tiles\<close>

text \<open>The names are compared by their ninth character, then as wholes or by length.\<close>

definition compare_string :: "string \<Rightarrow> string \<Rightarrow> bool option" where
  "compare_string a b =
     (if length a < 8 \<or> length b < 8 then None
      else if take 1 (drop 8 a) \<noteq> take 1 (drop 8 b) then Some (a \<le> b)
      else if length a = length b then Some (a \<le> b)
      else Some (length a < length b))"

text \<open>It is no strict order, as sorting with it would need: a name precedes itself, and there are cycles.\<close>

theorem compare_string_no_order:
  "compare_string ''a0000000'' ''a0000000'' = Some True"
  "compare_string ''a00000001zz'' ''a10000002'' = Some True \<and> compare_string ''a10000002'' ''b00000001'' = Some True \<and>
   compare_string ''b00000001'' ''a00000001zz'' = Some True"
  by code_simp+

text \<open>Times are pairs of seconds and microseconds.\<close>

definition tvdiff_us :: "int \<times> int \<Rightarrow> int \<times> int \<Rightarrow> int" where
  "tvdiff_us = (\<lambda>(tv_sec1, tv_usec1) (tv_sec2, tv_usec2).
     let tv_sec = tv_sec1 - tv_sec2;
         tv_usec = tv_usec1 - tv_usec2;
         (tv_sec, tv_usec) = (if tv_usec < 0 then (tv_sec - 1, tv_usec + 1000000) else (tv_sec, tv_usec))
     in 1000000 * tv_sec + tv_usec)"

text \<open>How long to sleep from \<open>tv\<close> on, and what is returned.\<close>

definition ga_usleep :: "int \<Rightarrow> (int \<times> int) option \<Rightarrow> int \<times> int \<Rightarrow> int \<times> int" where
  "ga_usleep interval ptv tv = (case ptv of
     None \<Rightarrow> (interval, 0)
   | Some ptv \<Rightarrow> if tvdiff_us tv ptv \<ge> interval then (1, - 1) else (interval - tvdiff_us tv ptv, 0))"

theorem ga_usleep_wakes:
  assumes "ga_usleep interval (Some (s, u)) (s', u') = (d, 0)"
  shows "1000000 * s' + u' + d = 1000000 * s + u + interval"
  using assms by (auto simp: ga_usleep_def tvdiff_us_def Let_def split: if_splits)

text \<open>Face and number in the face of a tile; for other numbers of faces the results stay unassigned.\<close>

definition get_face_tid :: "int \<Rightarrow> int \<Rightarrow> int \<Rightarrow> int \<Rightarrow> (int \<times> int) option" where
  "get_face_tid No_face No_tile_h No_tile_v tid =
     (if No_face = 1 \<or> No_face = 6
      then if No_tile_h * No_tile_v = 0 then None
           else let face_id = tid sdiv (No_tile_h * No_tile_v)
                in Some (face_id, tid - face_id * No_tile_h * No_tile_v)
      else if No_face = 2 then Some (0, tid)
      else None)"

theorem get_face_tid_numbering:
  assumes "0 < h" "0 < v" "0 \<le> face" "0 \<le> tile" "tile < h * v"
  shows "get_face_tid 6 h v (face * (h * v) + tile) = Some (face, tile)"
proof -
  let ?n = "h * v"
  have n: "0 < ?n" using assms(1,2) by simp
  have "(face * ?n + tile) sdiv ?n = face" using assms n by simp
  then show ?thesis using assms(1,2) by (simp add: get_face_tid_def Let_def mult.assoc)
qed

text \<open>A matrix as one array, row by row.\<close>

definition convert2Dto1D :: "'a list list \<Rightarrow> nat \<Rightarrow> nat \<Rightarrow> 'a list option" where
  "convert2Dto1D a m n = those (map (\<lambda>(i, j). do { row \<leftarrow> aget a (int i); aget row (int j) }) (List.product [0..<m] [0..<n]))"

theorem convert2Dto1D_entries:
  assumes "length a = m" "\<forall>row \<in> set a. length row = n"
  shows "\<exists>xs. convert2Dto1D a m n = Some xs \<and> length xs = m * n \<and> (\<forall>i < m. \<forall>j < n. xs ! (i * n + j) = a ! i ! j)"
proof -
  let ?ps = "List.product [0..<m] [0..<n]"
  let ?xs = "map (\<lambda>(i, j). a ! i ! j) ?ps"
  have "those (map (\<lambda>(i, j). do { row \<leftarrow> aget a (int i); aget row (int j) }) ?ps) = Some ?xs"
    by (rule those_map_Some) (use assms in \<open>auto simp: aget_def\<close>)
  moreover have "?xs ! (i * n + j) = a ! i ! j" if "i < m" "j < n" for i j
  proof -
    have "i * n + j < m * n"
    proof -
      have "i * n + j < (i + 1) * n" using that by simp
      also have "\<dots> \<le> m * n" using that by (intro mult_right_mono) simp_all
      finally show ?thesis .
    qed
    then show ?thesis using that by (simp add: product_nth)
  qed
  ultimately show ?thesis by (auto simp: convert2Dto1D_def)
qed

end
