(* ===== verification/Http_Fields.thy ===== *)
theory Http_Fields
  imports Decimal_Text "HOL-Library.Char_ord" "HOL-Library.Word"
begin

text \<open>
  The text of HTTP requests: the fields of a URI and the header lines. The functions are those of
  \<^verbatim>\<open>util.cc\<close>, \<^verbatim>\<open>util.h\<close> and \<^verbatim>\<open>http2.cc\<close> that the requests of the client go through, and the helpers
  of \<^verbatim>\<open>nghttp.cc\<close> on URIs. The URL parser is third-party code: its result, where the fields of a URI
  lie, is the record \<open>Url\<close>.
\<close>

section \<open>The fields of a URI\<close>

datatype Url_Field = UF_SCHEMA | UF_HOST | UF_PORT | UF_PATH | UF_QUERY | UF_FRAGMENT | UF_USERINFO

text \<open>Offset and length of the fields that are set, and the value of the port.\<close>

record Url =
  field_data :: "Url_Field \<Rightarrow> (nat \<times> nat) option"
  u_port :: int

definition has_uri_field :: "Url \<Rightarrow> Url_Field \<Rightarrow> bool" where
  "has_uri_field u f \<longleftrightarrow> field_data u f \<noteq> None"

definition get_uri_field :: "string \<Rightarrow> Url \<Rightarrow> Url_Field \<Rightarrow> string" where
  "get_uri_field uri u f = (case field_data u f of None \<Rightarrow> [] | Some (off, len) \<Rightarrow> take len (drop off uri))"

definition fieldeq :: "string \<Rightarrow> Url \<Rightarrow> string \<Rightarrow> Url \<Rightarrow> Url_Field \<Rightarrow> bool" where
  "fieldeq uri1 u1 uri2 u2 f =
     (if \<not> has_uri_field u1 f then \<not> has_uri_field u2 f
      else if \<not> has_uri_field u2 f then False
      else if map_option snd (field_data u1 f) \<noteq> map_option snd (field_data u2 f) then False
      else get_uri_field uri1 u1 f = get_uri_field uri2 u2 f)"

text \<open>The loop of the variant that compares with a string.\<close>

fun common_prefix :: "string \<Rightarrow> string \<Rightarrow> nat" where
  "common_prefix (a # p) (b # t) = (if a = b then Suc (common_prefix p t) else 0)"
| "common_prefix _ _ = 0"

definition fieldeq_string :: "string \<Rightarrow> Url \<Rightarrow> Url_Field \<Rightarrow> string \<Rightarrow> bool" where
  "fieldeq_string uri u f t =
     (if \<not> has_uri_field u f then t = []
      else if t = [] then False
      else (let p = get_uri_field uri u f; i = common_prefix p t in i = length p \<and> i = length t))"

definition get_default_port :: "string \<Rightarrow> Url \<Rightarrow> int" where
  "get_default_port uri u =
     (if fieldeq_string uri u UF_SCHEMA ''https'' then 443
      else if fieldeq_string uri u UF_SCHEMA ''http'' then 80
      else 443)"

definition port_of :: "string \<Rightarrow> Url \<Rightarrow> int" where
  "port_of uri u = (if has_uri_field u UF_PORT then u_port u else get_default_port uri u)"

definition porteq :: "string \<Rightarrow> Url \<Rightarrow> string \<Rightarrow> Url \<Rightarrow> bool" where
  "porteq uri1 u1 uri2 u2 \<longleftrightarrow> port_of uri1 u1 = port_of uri2 u2"

lemma common_prefix_all: "common_prefix p t = length p \<and> common_prefix p t = length t \<longleftrightarrow> p = t"
proof (induction p t rule: common_prefix.induct)
  case (1 a p b t)
  then show ?case by auto
qed auto

lemma fieldeq_string_iff:
  "fieldeq_string uri u f t \<longleftrightarrow> (if has_uri_field u f then t \<noteq> [] \<and> get_uri_field uri u f = t else t = [])"
  using common_prefix_all [of "get_uri_field uri u f" t] by (auto simp: fieldeq_string_def Let_def)

text \<open>
  Fields of a parsed URI lie inside it. Then two URIs agree in a field exactly if both or none have
  it, with the same text.
\<close>

definition url_within :: "string \<Rightarrow> Url \<Rightarrow> bool" where
  "url_within uri u \<longleftrightarrow> (\<forall>f off len. field_data u f = Some (off, len) \<longrightarrow> off + len \<le> length uri)"

lemma fieldeq_iff:
  assumes "url_within uri1 u1" "url_within uri2 u2"
  shows "fieldeq uri1 u1 uri2 u2 f \<longleftrightarrow> has_uri_field u1 f = has_uri_field u2 f \<and>
    get_uri_field uri1 u1 f = get_uri_field uri2 u2 f"
proof (cases "field_data u1 f"; cases "field_data u2 f")
  fix p1 p2
  assume s: "field_data u1 f = Some p1" "field_data u2 f = Some p2"
  then have len: "length (get_uri_field uri1 u1 f) = snd p1" "length (get_uri_field uri2 u2 f) = snd p2"
    using assms by (fastforce simp: url_within_def get_uri_field_def split: prod.splits)+
  then have "get_uri_field uri1 u1 f = get_uri_field uri2 u2 f \<Longrightarrow> snd p1 = snd p2" by metis
  then show ?thesis using s by (auto simp: fieldeq_def has_uri_field_def)
qed (simp_all add: fieldeq_def has_uri_field_def get_uri_field_def)

section \<open>Hosts and paths\<close>

text \<open>The loop stops at the end of the string or at a number sign.\<close>

fun strip_fragment :: "string \<Rightarrow> string" where
  "strip_fragment [] = []"
| "strip_fragment (c # cs) = (if c = CHR ''#'' then [] else c # strip_fragment cs)"

definition make_reqpath :: "string \<Rightarrow> Url \<Rightarrow> string" where
  "make_reqpath uri u =
     (if has_uri_field u UF_PATH then get_uri_field uri u UF_PATH else ''/'') @
     (if has_uri_field u UF_QUERY then CHR ''?'' # get_uri_field uri u UF_QUERY else [])"

definition is_ipv6_literal_addr :: "string \<Rightarrow> Url \<Rightarrow> bool" where
  "is_ipv6_literal_addr uri u \<longleftrightarrow> has_uri_field u UF_HOST \<and> CHR '':'' \<in> set (get_uri_field uri u UF_HOST)"

definition is_hex_digit :: "char \<Rightarrow> bool" where
  "is_hex_digit c \<longleftrightarrow> is_digit c \<or> (CHR ''A'' \<le> c \<and> c \<le> CHR ''F'') \<or> (CHR ''a'' \<le> c \<and> c \<le> CHR ''f'')"

text \<open>As in the source, the value matters for hexadecimal digits only.\<close>

definition hex_to_uint :: "char \<Rightarrow> nat" where
  "hex_to_uint c =
     (if c \<le> CHR ''9'' then of_char c - of_char (CHR ''0'')
      else if c \<le> CHR ''Z'' then of_char c - of_char (CHR ''A'') + 10
      else if c \<le> CHR ''z'' then of_char c - of_char (CHR ''a'') + 10
      else of_char c)"

fun percent_decode :: "string \<Rightarrow> string" where
  "percent_decode [] = []"
| "percent_decode (c # cs) =
     (if c \<noteq> CHR ''%'' then c # percent_decode cs
      else (case cs of
          a # b # rest \<Rightarrow>
            if is_hex_digit a \<and> is_hex_digit b
            then char_of (hex_to_uint a * 16 + hex_to_uint b) # percent_decode rest
            else c # percent_decode cs
        | _ \<Rightarrow> c # percent_decode cs))"

text \<open>\<open>ipv6\<close> is \<^verbatim>\<open>inet_pton\<close> for addresses of version 6.\<close>

definition decode_host :: "(string \<Rightarrow> bool) \<Rightarrow> string \<Rightarrow> string" where
  "decode_host ipv6 host =
     (let addr = takeWhile (\<lambda>c. c \<noteq> CHR ''%'') host;
          zone = drop (length addr) host
      in if zone = [] \<or> \<not> ipv6 addr then host
         else if length zone = 1 then butlast host
         else if length zone \<le> 3 then host
         else addr @ ''%'' @ percent_decode
           (if zone ! 1 = CHR ''2'' \<and> zone ! 2 = CHR ''5'' then drop 3 zone else drop 1 zone))"

lemma strip_fragment_eq: "strip_fragment s = takeWhile (\<lambda>c. c \<noteq> CHR ''#'') s"
  by (induction s) auto

text \<open>
  Percent decoding undoes every encoding: characters are kept or written as a percent sign and two
  hexadecimal digits of either case, as long as no percent sign is kept.
\<close>

definition hex_digits :: "char \<Rightarrow> char \<Rightarrow> char \<Rightarrow> bool" where
  "hex_digits c a b \<longleftrightarrow> is_hex_digit a \<and> is_hex_digit b \<and> of_char c = hex_to_uint a * 16 + hex_to_uint b"

inductive encodes :: "string \<Rightarrow> string \<Rightarrow> bool" where
  nil: "encodes [] []"
| kept: "encodes s e \<Longrightarrow> c \<noteq> CHR ''%'' \<Longrightarrow> encodes (c # s) (c # e)"
| percent: "encodes s e \<Longrightarrow> hex_digits c a b \<Longrightarrow> encodes (c # s) (CHR ''%'' # a # b # e)"

lemma percent_decode_encodes: "encodes s e \<Longrightarrow> percent_decode e = s"
proof (induction rule: encodes.induct)
  case (percent s e c a b)
  then have "char_of (hex_to_uint a * 16 + hex_to_uint b) = c" unfolding hex_digits_def by (metis char_of_char)
  then show ?case using percent by (simp add: hex_digits_def)
qed simp_all

text \<open>A host that is not an address of version 6 with a zone is left alone.\<close>

lemma decode_host_plain: "CHR ''%'' \<notin> set host \<or> \<not> ipv6 (takeWhile (\<lambda>c. c \<noteq> CHR ''%'') host) \<Longrightarrow> decode_host ipv6 host = host"
proof (elim disjE)
  assume "CHR ''%'' \<notin> set host"
  then have t: "takeWhile (\<lambda>c. c \<noteq> CHR ''%'') host = host" by (auto simp: takeWhile_eq_all_conv)
  show ?thesis unfolding decode_host_def t by simp
qed (simp add: decode_host_def Let_def)

text \<open>A zone after \<^verbatim>\<open>%25\<close>, as RFC 6874 asks for, or after a mere percent sign, is decoded.\<close>

lemma decode_host_zone:
  assumes "CHR ''%'' \<notin> set addr" "ipv6 addr" "encodes zone e" "zone \<noteq> []"
  shows "decode_host ipv6 (addr @ ''%25'' @ e) = addr @ ''%'' @ zone"
proof -
  have t: "takeWhile (\<lambda>c. c \<noteq> CHR ''%'') (addr @ ''%25'' @ e) = addr" using assms(1) by (auto simp: takeWhile_append)
  have "e \<noteq> []" using assms(3,4) by (auto elim: encodes.cases)
  then have "3 < length (''%25'' @ e)" by simp
  then show ?thesis
    using t assms(2) percent_decode_encodes [OF assms(3)] by (simp add: decode_host_def Let_def)
qed

section \<open>Header lines\<close>

text \<open>Name, value, and whether the compressor may index the line.\<close>

type_synonym Header = "string \<times> string \<times> bool"

text \<open>The value loses the blanks at both ends; \<open>lead\<close> and \<open>trail\<close> are the two loops.\<close>

definition blank :: "char \<Rightarrow> bool" where
  "blank c \<longleftrightarrow> c = CHR '' '' \<or> c = CHR 0x09"

fun lead :: "string \<Rightarrow> nat" where
  "lead [] = 0"
| "lead (c # cs) = (if blank c then Suc (lead cs) else 0)"

fun trail :: "string \<Rightarrow> nat \<Rightarrow> nat \<Rightarrow> nat" where
  "trail v i 0 = 0"
| "trail v i (Suc j) = (if Suc j > i \<and> blank (v ! Suc j) then trail v i j else Suc j)"

definition add_header :: "Header list \<Rightarrow> string \<Rightarrow> string \<Rightarrow> bool \<Rightarrow> Header list" where
  "add_header nva name v no_index =
     (if length v > 0
      then (let i = lead v;
                j = trail v i (length v - 1)
            in nva @ [(name, take (length v - (i + (length v - j - 1))) (drop i v), no_index)])
      else nva @ [(name, v, no_index)])"

definition get_header :: "Header list \<Rightarrow> string \<Rightarrow> Header option" where
  "get_header nva name = fold (\<lambda>nv res. if fst nv = name then Some nv else res) nva None"

definition parse_http_status_code :: "string \<Rightarrow> int" where
  "parse_http_status_code src =
     (if length src \<noteq> 3 \<or> (\<exists>c \<in> set src. \<not> is_digit c) then -1
      else (let status = fold (\<lambda>c status. status * 10 + digit_of c) src 0
            in if status < 100 then -1 else status))"

text \<open>The tokens of the header names the program asks for.\<close>

datatype Token = HD__AUTHORITY | HD__HOST | HD__METHOD | HD__PATH | HD__SCHEME | HD__STATUS | HD_ACCEPT_ENCODING
  | HD_ACCEPT_LANGUAGE | HD_ALT_SVC | HD_CACHE_CONTROL | HD_CONNECTION | HD_CONTENT_LENGTH | HD_CONTENT_TYPE
  | HD_COOKIE | HD_DATE | HD_EXPECT | HD_FORWARDED | HD_HOST | HD_HTTP2_SETTINGS | HD_IF_MODIFIED_SINCE
  | HD_KEEP_ALIVE | HD_LINK | HD_LOCATION | HD_PROXY_CONNECTION | HD_SERVER | HD_TE | HD_TRAILER
  | HD_TRANSFER_ENCODING | HD_UPGRADE | HD_USER_AGENT | HD_VIA | HD_X_FORWARDED_FOR | HD_X_FORWARDED_PROTO

text \<open>The cases of the generated function: length, last character, and what precedes it.\<close>

fun lookup_row :: "string \<Rightarrow> (string \<times> Token) list \<Rightarrow> Token option" where
  "lookup_row name [] = None"
| "lookup_row name ((a, t) # rows) = (if take (length name - 1) name = a then Some t else lookup_row name rows)"

definition token_rows :: "nat \<Rightarrow> char \<Rightarrow> (string \<times> Token) list" where
  "token_rows n c =
    (if n = 2 then (if c = CHR ''e'' then [(''t'', HD_TE)] else [])
     else if n = 3 then (if c = CHR ''a'' then [(''vi'', HD_VIA)] else [])
     else if n = 4 then
       (if c = CHR ''e'' then [(''dat'', HD_DATE)]
        else if c = CHR ''k'' then [(''lin'', HD_LINK)]
        else if c = CHR ''t'' then [(''hos'', HD_HOST)] else [])
     else if n = 5 then
       (if c = CHR ''h'' then [('':pat'', HD__PATH)]
        else if c = CHR ''t'' then [('':hos'', HD__HOST)] else [])
     else if n = 6 then
       (if c = CHR ''e'' then [(''cooki'', HD_COOKIE)]
        else if c = CHR ''r'' then [(''serve'', HD_SERVER)]
        else if c = CHR ''t'' then [(''expec'', HD_EXPECT)] else [])
     else if n = 7 then
       (if c = CHR ''c'' then [(''alt-sv'', HD_ALT_SVC)]
        else if c = CHR ''d'' then [('':metho'', HD__METHOD)]
        else if c = CHR ''e'' then [('':schem'', HD__SCHEME), (''upgrad'', HD_UPGRADE)]
        else if c = CHR ''r'' then [(''traile'', HD_TRAILER)]
        else if c = CHR ''s'' then [('':statu'', HD__STATUS)] else [])
     else if n = 8 then (if c = CHR ''n'' then [(''locatio'', HD_LOCATION)] else [])
     else if n = 9 then (if c = CHR ''d'' then [(''forwarde'', HD_FORWARDED)] else [])
     else if n = 10 then
       (if c = CHR ''e'' then [(''keep-aliv'', HD_KEEP_ALIVE)]
        else if c = CHR ''n'' then [(''connectio'', HD_CONNECTION)]
        else if c = CHR ''t'' then [(''user-agen'', HD_USER_AGENT)]
        else if c = CHR ''y'' then [('':authorit'', HD__AUTHORITY)] else [])
     else if n = 12 then (if c = CHR ''e'' then [(''content-typ'', HD_CONTENT_TYPE)] else [])
     else if n = 13 then (if c = CHR ''l'' then [(''cache-contro'', HD_CACHE_CONTROL)] else [])
     else if n = 14 then
       (if c = CHR ''h'' then [(''content-lengt'', HD_CONTENT_LENGTH)]
        else if c = CHR ''s'' then [(''http2-setting'', HD_HTTP2_SETTINGS)] else [])
     else if n = 15 then
       (if c = CHR ''e'' then [(''accept-languag'', HD_ACCEPT_LANGUAGE)]
        else if c = CHR ''g'' then [(''accept-encodin'', HD_ACCEPT_ENCODING)]
        else if c = CHR ''r'' then [(''x-forwarded-fo'', HD_X_FORWARDED_FOR)] else [])
     else if n = 16 then (if c = CHR ''n'' then [(''proxy-connectio'', HD_PROXY_CONNECTION)] else [])
     else if n = 17 then
       (if c = CHR ''e'' then [(''if-modified-sinc'', HD_IF_MODIFIED_SINCE)]
        else if c = CHR ''g'' then [(''transfer-encodin'', HD_TRANSFER_ENCODING)]
        else if c = CHR ''o'' then [(''x-forwarded-prot'', HD_X_FORWARDED_PROTO)] else [])
     else [])"

definition lookup_token :: "string \<Rightarrow> Token option" where
  "lookup_token name = (if name = [] then None else lookup_row name (token_rows (length name) (last name)))"

text \<open>The index of header lines by token, an array of 16-bit integers; -1 is no line.\<close>

type_synonym Header_Index = "Token \<Rightarrow> 16 word"

definition init_hdidx :: Header_Index where
  "init_hdidx = (\<lambda>_. - 1)"

definition index_header :: "Header_Index \<Rightarrow> Token option \<Rightarrow> nat \<Rightarrow> Header_Index" where
  "index_header hdidx token idx = (case token of None \<Rightarrow> hdidx | Some t \<Rightarrow> hdidx(t := of_nat idx))"

text \<open>The inner \<open>None\<close> is the null pointer, the outer one a pointer outside the list.\<close>

definition get_indexed :: "Header_Index \<Rightarrow> Header list \<Rightarrow> Token \<Rightarrow> Header option option" where
  "get_indexed hdidx nva token =
     (let idx = sint (hdidx token) in if idx = -1 then Some None else map_option Some (aget nva idx))"

text \<open>Letters are compared without their case.\<close>

definition lowcase :: "char \<Rightarrow> char" where
  "lowcase c = (if CHR ''A'' \<le> c \<and> c \<le> CHR ''Z'' then char_of (of_char c + 32 :: nat) else c)"

definition strieq :: "string \<Rightarrow> string \<Rightarrow> bool" where
  "strieq a b \<longleftrightarrow> length a = length b \<and> map lowcase a = map lowcase b"

section \<open>What the header functions compute\<close>

lemma lead_spec:
  "lead v \<le> length v \<and> (\<forall>c \<in> set (take (lead v) v). blank c) \<and> (lead v < length v \<longrightarrow> \<not> blank (v ! lead v))"
  by (induction v) auto

lemma trail_spec:
  "i \<le> j \<Longrightarrow> \<not> blank (v ! i) \<Longrightarrow>
     i \<le> trail v i j \<and> trail v i j \<le> j \<and> \<not> blank (v ! trail v i j) \<and> (\<forall>k. trail v i j < k \<and> k \<le> j \<longrightarrow> blank (v ! k))"
proof (induction v i j rule: trail.induct)
  case (2 v i j)
  show ?case
  proof (cases "Suc j > i \<and> blank (v ! Suc j)")
    case True
    then have "trail v i (Suc j) = trail v i j" "i \<le> j" by simp_all
    with 2 True show ?thesis by (auto simp: le_Suc_eq)
  next
    case False
    then show ?thesis using 2 by (auto simp: le_Suc_eq)
  qed
qed auto

text \<open>A header line keeps its value without the blanks around it.\<close>

lemma add_header_trims:
  "\<exists>pre w post. v = pre @ w @ post \<and> (\<forall>c \<in> set pre \<union> set post. blank c) \<and>
     (w \<noteq> [] \<longrightarrow> \<not> blank (hd w) \<and> \<not> blank (last w)) \<and> add_header nva name v b = nva @ [(name, w, b)]"
proof (cases "lead v < length v")
  case False
  then have l: "lead v = length v" "\<forall>c \<in> set v. blank c" using lead_spec [of v] by simp_all
  then have "trail v (length v) (length v - 1) = length v - 1" by (cases "length v - 1") auto
  with l have "add_header nva name v b = nva @ [(name, [], b)]" by (auto simp: add_header_def Let_def)
  with l(2) show ?thesis by (intro exI [of _ v] exI [of _ "[]"]) simp
next
  case True
  define i where "i = lead v"
  define j where "j = trail v i (length v - 1)"
  note lead = lead_spec [of v, folded i_def]
  have t: "i \<le> j" "j \<le> length v - 1" "\<not> blank (v ! j)" "\<forall>k. j < k \<and> k \<le> length v - 1 \<longrightarrow> blank (v ! k)"
    using trail_spec [of i "length v - 1" v] lead True unfolding j_def i_def by auto
  define w where "w = take (j + 1 - i) (drop i v)"
  have jn: "j < length v" using t(2) True by simp
  have "length v - (i + (length v - j - 1)) = j + 1 - i" using t(1) jn by simp
  then have run: "add_header nva name v b = nva @ [(name, w, b)]"
    using True unfolding w_def i_def j_def by (auto simp: add_header_def Let_def)
  have "i + (j + 1 - i) = j + 1" using t(1) by simp
  then have v: "v = take i v @ w @ drop (j + 1) v"
    unfolding w_def by (metis append_take_drop_id drop_drop add.commute append_assoc)
  have "\<forall>c \<in> set (drop (j + 1) v). blank c"
  proof
    fix c
    assume "c \<in> set (drop (j + 1) v)"
    then obtain k where "k < length (drop (j + 1) v)" "c = drop (j + 1) v ! k" by (auto simp: in_set_conv_nth)
    then show "blank c" using t(4) [rule_format, of "j + 1 + k"] by auto
  qed
  moreover have "length w = j + 1 - i" using t(1) jn by (simp add: w_def)
  then have "w \<noteq> []" "hd w = v ! i" "last w = v ! j"
    using t(1) jn True unfolding i_def w_def by (auto simp: hd_conv_nth last_conv_nth)
  ultimately show ?thesis
    using lead True t(3) v run unfolding i_def by (intro exI [of _ "take (lead v) v"] exI [of _ w] exI [of _ "drop (j + 1) v"]) auto
qed

text \<open>The code of a response is a number of three digits, 100 at least.\<close>

lemma digit_bounds: "is_digit c \<Longrightarrow> 0 \<le> digit_of c \<and> digit_of c \<le> 9"
  by (auto simp: is_digit_def digit_of_def)

lemma parse_http_status_code_range:
  "parse_http_status_code src = -1 \<or> (100 \<le> parse_http_status_code src \<and> parse_http_status_code src \<le> 999 \<and> length src = 3)"
proof (cases "length src \<noteq> 3 \<or> (\<exists>c \<in> set src. \<not> is_digit c)")
  case False
  then obtain a b c where "src = [a, b, c]" by (auto simp: length_Suc_conv numeral_3_eq_3)
  with False digit_bounds [of a] digit_bounds [of b] digit_bounds [of c] show ?thesis
    by (auto simp: parse_http_status_code_def Let_def)
qed (auto simp: parse_http_status_code_def)

text \<open>The generated function finds exactly the names of the tokens.\<close>

fun token_name :: "Token \<Rightarrow> string" where
  "token_name HD__AUTHORITY = '':authority''"
| "token_name HD__HOST = '':host''"
| "token_name HD__METHOD = '':method''"
| "token_name HD__PATH = '':path''"
| "token_name HD__SCHEME = '':scheme''"
| "token_name HD__STATUS = '':status''"
| "token_name HD_ACCEPT_ENCODING = ''accept-encoding''"
| "token_name HD_ACCEPT_LANGUAGE = ''accept-language''"
| "token_name HD_ALT_SVC = ''alt-svc''"
| "token_name HD_CACHE_CONTROL = ''cache-control''"
| "token_name HD_CONNECTION = ''connection''"
| "token_name HD_CONTENT_LENGTH = ''content-length''"
| "token_name HD_CONTENT_TYPE = ''content-type''"
| "token_name HD_COOKIE = ''cookie''"
| "token_name HD_DATE = ''date''"
| "token_name HD_EXPECT = ''expect''"
| "token_name HD_FORWARDED = ''forwarded''"
| "token_name HD_HOST = ''host''"
| "token_name HD_HTTP2_SETTINGS = ''http2-settings''"
| "token_name HD_IF_MODIFIED_SINCE = ''if-modified-since''"
| "token_name HD_KEEP_ALIVE = ''keep-alive''"
| "token_name HD_LINK = ''link''"
| "token_name HD_LOCATION = ''location''"
| "token_name HD_PROXY_CONNECTION = ''proxy-connection''"
| "token_name HD_SERVER = ''server''"
| "token_name HD_TE = ''te''"
| "token_name HD_TRAILER = ''trailer''"
| "token_name HD_TRANSFER_ENCODING = ''transfer-encoding''"
| "token_name HD_UPGRADE = ''upgrade''"
| "token_name HD_USER_AGENT = ''user-agent''"
| "token_name HD_VIA = ''via''"
| "token_name HD_X_FORWARDED_FOR = ''x-forwarded-for''"
| "token_name HD_X_FORWARDED_PROTO = ''x-forwarded-proto''"

lemma lookup_row_SomeD: "lookup_row name rows = Some t \<Longrightarrow> (take (length name - 1) name, t) \<in> set rows"
  by (induction rows) (auto split: if_splits)

lemma token_rows_names: "(a, t) \<in> set (token_rows n c) \<Longrightarrow> token_name t = a @ [c]"
  by (auto simp: token_rows_def split: if_splits)

lemma lookup_token_iff: "lookup_token name = Some t \<longleftrightarrow> name = token_name t"
proof
  assume l: "lookup_token name = Some t"
  then have ne: "name \<noteq> []" by (auto simp: lookup_token_def)
  with l have "token_name t = take (length name - 1) name @ [last name]"
    by (auto simp: lookup_token_def dest!: lookup_row_SomeD token_rows_names)
  then show "name = token_name t" using ne by (metis append_butlast_last_id butlast_conv_take)
next
  assume "name = token_name t"
  then show "lookup_token name = Some t"
    by (cases t) (simp_all add: lookup_token_def token_rows_def)
qed

section \<open>The index finds the last line of a name\<close>

lemma get_header_Nil [simp]: "get_header [] name = None"
  by (simp add: get_header_def)

lemma get_header_snoc [simp]: "get_header (hs @ [h]) name = (if fst h = name then Some h else get_header hs name)"
  by (simp add: get_header_def)

lemma get_header_None: "name \<notin> fst ` set hs \<Longrightarrow> get_header hs name = None"
  by (induction hs rule: rev_induct) auto

lemma get_header_append:
  "get_header (hs @ ks) name = (case get_header ks name of None \<Rightarrow> get_header hs name | Some h \<Rightarrow> Some h)"
  by (induction ks rule: rev_induct) (auto simp: append_assoc [symmetric] simp del: append_assoc)

text \<open>\<open>indexed\<close>: the index was built line by line, as the header callback does.\<close>

definition indexed :: "Header list \<Rightarrow> Header_Index \<Rightarrow> bool" where
  "indexed nva hdidx \<longleftrightarrow> (\<forall>t. get_header nva (token_name t) = None \<longrightarrow> hdidx t = - 1) \<and>
     (\<forall>t h. get_header nva (token_name t) = Some h \<longrightarrow> (\<exists>i < length nva. nva ! i = h \<and> hdidx t = of_nat i))"

lemma indexed_Nil: "indexed [] init_hdidx"
  by (simp add: indexed_def init_hdidx_def)

lemma indexed_snoc:
  assumes "indexed nva hdidx"
  shows "indexed (nva @ [h]) (index_header hdidx (lookup_token (fst h)) (length nva))"
proof -
  let ?idx = "index_header hdidx (lookup_token (fst h)) (length nva)"
  have new: "?idx t = of_nat (length nva)" if "fst h = token_name t" for t
    using that lookup_token_iff [of "fst h" t] by (simp add: index_header_def)
  have old: "?idx t = hdidx t" if "fst h \<noteq> token_name t" for t
    using that lookup_token_iff [of "fst h" t] by (auto simp: index_header_def split: option.splits)
  have "?idx t = - 1" if "get_header (nva @ [h]) (token_name t) = None" for t
    using that assms old [of t] by (auto simp: indexed_def split: if_splits)
  moreover have "\<exists>i < length (nva @ [h]). (nva @ [h]) ! i = g \<and> ?idx t = of_nat i"
    if g: "get_header (nva @ [h]) (token_name t) = Some g" for t g
  proof (cases "fst h = token_name t")
    case True
    then show ?thesis using g new [OF True] by (intro exI [of _ "length nva"]) simp
  next
    case False
    then have "get_header nva (token_name t) = Some g" using g by simp
    with assms obtain i where "i < length nva" "nva ! i = g" "hdidx t = of_nat i" unfolding indexed_def by blast
    then show ?thesis using old [OF False] by (intro exI [of _ i]) (simp add: nth_append)
  qed
  ultimately show ?thesis unfolding indexed_def by blast
qed

lemma sint_small: "i < 32768 \<Longrightarrow> sint (of_nat i :: 16 word) = int i"
  by (simp add: signed_of_nat signed_take_bit_int_eq_self)

lemma sint_large: "32768 \<le> i \<Longrightarrow> i < 65536 \<Longrightarrow> sint (of_nat i :: 16 word) = int i - 65536"
proof -
  assume i: "32768 \<le> i" "i < 65536"
  have "(of_nat i :: 16 word) = of_int (int i - 65536)" by (simp add: word_of_int_eq_iff take_bit_eq_mod)
  then have "sint (of_nat i :: 16 word) = sint (of_int (int i - 65536) :: 16 word)" by (rule arg_cong)
  also have "\<dots> = signed_take_bit 15 (int i - 65536)" unfolding signed_of_int by simp
  finally show ?thesis using i by (simp add: signed_take_bit_int_eq_self)
qed

text \<open>With 16 bits the index is right as long as there are at most 32768 lines.\<close>

lemma get_indexed_header:
  assumes "indexed nva hdidx" "length nva \<le> 32768"
  shows "get_indexed hdidx nva t = Some (get_header nva (token_name t))"
proof (cases "get_header nva (token_name t)")
  case None
  with assms(1) have "hdidx t = - 1" by (simp add: indexed_def)
  then show ?thesis using None by (simp add: get_indexed_def)
next
  case (Some h)
  with assms(1) obtain i where i: "i < length nva" "nva ! i = h" "hdidx t = of_nat i" unfolding indexed_def by blast
  then have "sint (hdidx t) = int i" using sint_small assms(2) by simp
  then show ?thesis using i Some by (simp add: get_indexed_def aget_def)
qed

text \<open>Beyond, the position becomes negative, and the pointer leaves the list, or is null for the last.\<close>

lemma get_indexed_overflow:
  assumes "hdidx t = of_nat i" "32768 \<le> i" "i < 65536"
  shows "get_indexed hdidx nva t = (if i = 65535 then Some None else None)"
proof -
  have "sint (hdidx t) = int i - 65536" unfolding assms(1) by (rule sint_large [OF assms(2,3)])
  then show ?thesis using assms(2,3) by (auto simp: get_indexed_def aget_def Let_def)
qed

end
