(* ===== verification/Request_Exchange.thy ===== *)
theory Request_Exchange
  imports Http_Fields Tile_Server Engine_Bookkeeping
begin

text \<open>
  How a request of the client becomes a stream: \<^verbatim>\<open>add_request\<close>, \<^verbatim>\<open>submit_request\<close> and
  \<^verbatim>\<open>connection_made\<close> of \<^verbatim>\<open>nghttp.cc\<close>, and the \<^verbatim>\<open>send_get_request\<close> of the adaptation on top of them.
  The HTTP/2 library is the record \<open>Library\<close> of the functions the client calls, over the state \<open>'l\<close>
  of its session; the URL parser is the function \<open>parse\<close>. What the client relies on is
  \<open>library_ok\<close>: the library numbers the streams a client opens by twos from the next free one.
\<close>

section \<open>Data\<close>

text \<open>Stream depended on, and weight.\<close>

type_synonym Pri = "int \<times> int"

record 'l Library =
  client_new :: "'l option"
  lib_upgrade :: "bool \<Rightarrow> 'l \<Rightarrow> 'l option"
  lib_settings :: "(string \<times> int) list \<Rightarrow> 'l \<Rightarrow> 'l option"
  lib_priority :: "int \<Rightarrow> Pri \<Rightarrow> 'l \<Rightarrow> 'l option"
  lib_next_id :: "int \<Rightarrow> 'l \<Rightarrow> 'l option"
  lib_window :: "int \<Rightarrow> 'l \<Rightarrow> 'l option"
  lib_request :: "Pri \<Rightarrow> Header list \<Rightarrow> bool \<Rightarrow> 'l \<Rightarrow> int \<times> 'l"
  lib_headers :: "Pri \<Rightarrow> Header list \<Rightarrow> 'l \<Rightarrow> int \<times> 'l"

record Http_Config =
  cf_headers :: "Header list"
  cf_trailer :: "Header list"
  cf_header_table_size :: int
  cf_min_header_table_size :: int
  cf_max_concurrent_streams :: int
  cf_multiply :: int
  cf_window_bits :: int
  cf_connection_window_bits :: int
  cf_upgrade :: bool
  cf_continuation :: bool
  cf_no_content_length :: bool
  cf_no_dep :: bool
  cf_no_push :: bool
  cf_expect_continue :: bool
  cf_version :: string

record Request =
  rq_uri :: string
  rq_u :: Url
  rq_data :: bool
  rq_data_length :: int
  rq_pri :: Pri
  rq_level :: int
  rq_stream_id :: int
  rq_method :: string
  rq_req_nva :: "Header list"

definition new_request :: "string \<Rightarrow> Url \<Rightarrow> bool \<Rightarrow> int \<Rightarrow> Pri \<Rightarrow> int \<Rightarrow> Request" where
  "new_request uri u data len pri level =
     \<lparr>rq_uri = uri, rq_u = u, rq_data = data, rq_data_length = len, rq_pri = pri, rq_level = level,
      rq_stream_id = -1, rq_method = [], rq_req_nva = []\<rparr>"

text \<open>The client of one connection, with the globals of the adaptation that requests use.\<close>

record 'l Http =
  reqvec :: "Request list"
  path_set :: "string set"
  http_scheme :: string
  hostport :: string
  http_session :: 'l
  dang_uri :: string
  dang_data :: bool
  dang_data_length :: int
  dang_headers :: "Header list"
  http_cur_id :: int

section \<open>Requests\<close>

definition add_request ::
  "(string \<Rightarrow> Url option) \<Rightarrow> Http_Config \<Rightarrow> string \<Rightarrow> bool \<Rightarrow> int \<Rightarrow> Pri \<Rightarrow> int \<Rightarrow> 'l Http \<Rightarrow> 'l Http \<times> bool" where
  "add_request parse cf uri data len pri level x = (case parse uri of
     None \<Rightarrow> (x, False)
   | Some u \<Rightarrow> (x\<lparr>path_set := (if cf_multiply cf = 1 then insert uri (path_set x) else path_set x),
                 reqvec := reqvec x @ [new_request uri u data len pri level]\<rparr>, True))"

definition initial_headers :: "Http_Config \<Rightarrow> string \<Rightarrow> Request \<Rightarrow> Header list" where
  "initial_headers cf host req =
     [('':method'', if rq_data req then ''POST'' else ''GET'', False),
      ('':path'', make_reqpath (rq_uri req) (rq_u req), False),
      ('':scheme'', get_uri_field (rq_uri req) (rq_u req) UF_SCHEMA, False),
      ('':authority'', host, False),
      (''accept'', ''*/*'', False),
      (''accept-encoding'', ''gzip, deflate'', False),
      (''user-agent'', ''nghttp2/'' @ cf_version cf, False)] @
     (if cf_continuation cf
      then map (\<lambda>i. (''continuation-test-'' @ print_int (i + 1), replicate 4096 (CHR ''-''), False)) [0..5]
      else [])"

definition body_headers :: "Http_Config \<Rightarrow> Request \<Rightarrow> Header list" where
  "body_headers cf req =
     (if rq_data req
      then (if cf_no_content_length cf then [] else [(''content-length'', print_int (rq_data_length req), False)]) @
           (if cf_expect_continue cf then [(''expect'', ''100-continue'', False)] else [])
      else [])"

text \<open>A header of the user replaces the value of the initial header of its name, or comes last.\<close>

fun override :: "nat \<Rightarrow> Header \<Rightarrow> Header list \<Rightarrow> Header list" where
  "override n kv [] = [kv]"
| "override 0 kv hs = hs @ [kv]"
| "override (Suc n) kv (h # hs) =
     (if fst kv = fst h then (fst h, fst (snd kv), snd (snd h)) # hs else h # override n kv hs)"

definition build_headers :: "Http_Config \<Rightarrow> string \<Rightarrow> Header list \<Rightarrow> Request \<Rightarrow> Header list" where
  "build_headers cf host headers req =
     (let ini = initial_headers cf host req
      in fold (override (length ini)) headers (ini @ body_headers cf req))"

definition trailer_line :: "Http_Config \<Rightarrow> Header list" where
  "trailer_line cf = (case map fst (cf_trailer cf) of
     [] \<Rightarrow> []
   | n # ns \<Rightarrow> [(''trailer'', fold (\<lambda>m names. names @ '', '' @ m) ns n, False)])"

text \<open>The flag says that the request has been submitted.\<close>

definition submit_request ::
  "'l Library \<Rightarrow> Http_Config \<Rightarrow> string \<Rightarrow> Header list \<Rightarrow> Request \<Rightarrow> 'l \<Rightarrow> Request \<times> 'l \<times> bool" where
  "submit_request L cf host headers req l =
     (let build = build_headers cf host headers req;
          nva = build @ trailer_line cf;
          req = req\<lparr>rq_method := (case get_header build '':method'' of Some h \<Rightarrow> fst (snd h) | None \<Rightarrow> [])\<rparr>;
          (stream_id, l) = (if rq_data req \<and> cf_expect_continue cf then lib_headers L (rq_pri req) nva l
                            else lib_request L (rq_pri req) nva (rq_data req) l)
      in if stream_id < 0 then (req, l, False)
         else (req\<lparr>rq_stream_id := stream_id, rq_req_nva := build\<rparr>, l, True))"

text \<open>The request that was added last is submitted; whether that fails is not looked at.\<close>

definition send_get_request_http ::
  "'l Library \<Rightarrow> (string \<Rightarrow> Url option) \<Rightarrow> Http_Config \<Rightarrow> int \<Rightarrow> int \<Rightarrow> int \<Rightarrow> int \<Rightarrow> 'l Http \<Rightarrow> 'l Http \<times> int" where
  "send_get_request_http L parse cf fid br dep w x =
     (let (x, added) = add_request parse cf (dang_uri x @ request_path fid br) (dang_data x) (dang_data_length x) (dep, w) 0 x;
          x = (if added
               then let (req, l, _) = submit_request L cf (hostport x) (dang_headers x) (last (reqvec x)) (http_session x)
                    in x\<lparr>reqvec := butlast (reqvec x) @ [req], http_session := l\<rparr>
               else x);
          x = x\<lparr>http_cur_id := http_cur_id x + 2\<rparr>
      in (x, http_cur_id x))"

section \<open>The connection\<close>

definition update_hostport :: "'l Http \<Rightarrow> 'l Http" where
  "update_hostport x = (case reqvec x of
     [] \<Rightarrow> x
   | r # _ \<Rightarrow>
       (let uri = rq_uri r; u = rq_u r; host = get_uri_field uri u UF_HOST;
            name = (if is_ipv6_literal_addr uri u then ''['' @ takeWhile (\<lambda>c. c \<noteq> CHR ''%'') host @ '']'' else host);
            port = (if has_uri_field u UF_PORT \<and> u_port u \<noteq> get_default_port uri u
                    then CHR '':'' # print_int (u_port u) else [])
        in x\<lparr>http_scheme := get_uri_field uri u UF_SCHEMA, hostport := name @ port\<rparr>))"

text \<open>Streams that only carry priorities: stream, the one it depends on, weight.\<close>

definition anchors :: "(int \<times> int \<times> int) list" where
  "anchors = [(3, 0, 201), (5, 0, 101), (7, 0, 1), (9, 7, 1), (11, 3, 1)]"

definition anchor_followers :: int where
  "anchor_followers = fst (anchors ! 4)"

text \<open>The values of settings have 32 bits.\<close>

definition populate_settings :: "Http_Config \<Rightarrow> (string \<times> int) list" where
  "populate_settings cf =
     [(''MAX_CONCURRENT_STREAMS'', cf_max_concurrent_streams cf mod 2 ^ 32),
      (''INITIAL_WINDOW_SIZE'', if cf_window_bits cf \<noteq> -1 then 2 ^ nat (cf_window_bits cf) - 1 else 65535)] @
     (if 0 \<le> cf_header_table_size cf
      then (if cf_min_header_table_size cf < cf_header_table_size cf
            then [(''HEADER_TABLE_SIZE'', cf_min_header_table_size cf mod 2 ^ 32)] else []) @
           [(''HEADER_TABLE_SIZE'', cf_header_table_size cf mod 2 ^ 32)]
      else []) @
     (if cf_no_push cf then [(''ENABLE_PUSH'', 0)] else []) @
     [(''MAX_FRAME_SIZE'', 2 ^ 20)]"

definition check_h2_is_selected :: "string \<Rightarrow> bool" where
  "check_h2_is_selected proto \<longleftrightarrow> proto = ''h2'' \<or> proto = ''h2-16'' \<or> proto = ''h2-14''"

text \<open>The protocols that NPN and ALPN have selected on a TLS connection; ALPN counts if NPN has none.\<close>

definition select_protocol :: "string option \<Rightarrow> string option \<Rightarrow> string option" where
  "select_protocol npn alpn = (case npn of
     Some p \<Rightarrow> (if check_h2_is_selected p then Some p else None)
   | None \<Rightarrow> (case alpn of Some p \<Rightarrow> (if check_h2_is_selected p then Some p else None) | None \<Rightarrow> None))"

definition need_upgrade :: "Http_Config \<Rightarrow> 'l Http \<Rightarrow> bool" where
  "need_upgrade cf x \<longleftrightarrow> cf_upgrade cf \<and> http_scheme x = ''http''"

fun submit_all ::
  "'l Library \<Rightarrow> Http_Config \<Rightarrow> string \<Rightarrow> Request list \<Rightarrow> 'l \<Rightarrow> (Request list \<times> 'l) option" where
  "submit_all L cf host [] l = Some ([], l)"
| "submit_all L cf host (r # rs) l =
     (case submit_request L cf host (cf_headers cf) r l of
        (r, l, False) \<Rightarrow> None
      | (r, l, True) \<Rightarrow> do { (rs, l) \<leftarrow> submit_all L cf host rs l; Some (r # rs, l) })"

definition DEFAULT_WEIGHT :: int where "DEFAULT_WEIGHT = 16"

text \<open>
  The parts of \<^verbatim>\<open>connection_made\<close>, in order. \<open>None\<close> is the return value -1, or an upgrade without a
  request.
\<close>

definition check_protocol :: "(string option \<times> string option) option \<Rightarrow> unit option" where
  "check_protocol tls = (case tls of
     None \<Rightarrow> Some ()
   | Some (npn, alpn) \<Rightarrow> map_option (\<lambda>_. ()) (select_protocol npn alpn))"

definition upgrade_step :: "'l Library \<Rightarrow> Http_Config \<Rightarrow> 'l Http \<Rightarrow> 'l \<Rightarrow> (Request list \<times> 'l) option" where
  "upgrade_step L cf x l = (if need_upgrade cf x
     then do {
       r \<leftarrow> aget (reqvec x) 0;
       let user = \<not> rq_data r;
       l \<leftarrow> lib_upgrade L (user \<and> rq_method r = ''HEAD'') l;
       Some (if user then (reqvec x)[0 := r\<lparr>rq_stream_id := 1\<rparr>] else reqvec x, l)
     }
     else do { l \<leftarrow> lib_settings L (populate_settings cf) l; Some (reqvec x, l) })"

definition priority_step :: "'l Library \<Rightarrow> Http_Config \<Rightarrow> bool \<Rightarrow> int \<Rightarrow> 'l \<Rightarrow> 'l option" where
  "priority_step L cf up w l = (if \<not> cf_no_dep cf
     then do {
       l \<leftarrow> for_each (\<lambda>(i, dep, w). lib_priority L i (dep, w)) anchors l;
       l \<leftarrow> lib_next_id L (anchor_followers + 2) l;
       if up then lib_priority L 1 (anchor_followers, w) l else Some l
     }
     else if up \<and> w \<noteq> DEFAULT_WEIGHT then lib_priority L 1 (0, w) l else Some l)"

definition window_step :: "'l Library \<Rightarrow> Http_Config \<Rightarrow> 'l \<Rightarrow> 'l option" where
  "window_step L cf l =
     (if cf_connection_window_bits cf \<noteq> -1 then lib_window L (2 ^ nat (cf_connection_window_bits cf) - 1) l
      else Some l)"

definition submit_step :: "'l Library \<Rightarrow> Http_Config \<Rightarrow> nat \<Rightarrow> Request list \<Rightarrow> 'l Http \<Rightarrow> 'l \<Rightarrow> 'l Http option" where
  "submit_step L cf first rs x l = do {
     (submitted, l) \<leftarrow> submit_all L cf (hostport x) (drop first rs) l;
     Some (x\<lparr>reqvec := take first rs @ submitted, http_session := l,
             dang_headers := (if drop first rs = [] then dang_headers x else cf_headers cf)\<rparr>)
   }"

definition connection_made ::
  "'l Library \<Rightarrow> Http_Config \<Rightarrow> (string option \<times> string option) option \<Rightarrow> 'l Http \<Rightarrow> 'l Http option" where
  "connection_made L cf tls x = do {
     _ \<leftarrow> check_protocol tls;
     l \<leftarrow> client_new L;
     (rs, l) \<leftarrow> upgrade_step L cf x l;
     let up = (need_upgrade cf x \<and> \<not> rq_data (hd rs));
     l \<leftarrow> priority_step L cf up (snd (rq_pri (hd rs))) l;
     l \<leftarrow> window_step L cf l;
     submit_step L cf (if up then 1 else 0) rs x l
   }"

section \<open>What the client relies on\<close>

text \<open>
  \<open>next l\<close> is the number the library gives to the next stream the client opens: 1 at first, and two
  more after each; an upgrade opens the first one, and the client may raise it.
\<close>

definition library_ok :: "'l Library \<Rightarrow> ('l \<Rightarrow> int) \<Rightarrow> bool" where
  "library_ok L next \<longleftrightarrow>
     (\<forall>l. client_new L = Some l \<longrightarrow> next l = 1) \<and>
     (\<forall>h l l'. lib_upgrade L h l = Some l' \<longrightarrow> next l' = next l + 2) \<and>
     (\<forall>s l l'. lib_settings L s l = Some l' \<longrightarrow> next l' = next l) \<and>
     (\<forall>i p l l'. lib_priority L i p l = Some l' \<longrightarrow> next l' = next l) \<and>
     (\<forall>w l l'. lib_window L w l = Some l' \<longrightarrow> next l' = next l) \<and>
     (\<forall>i l l'. lib_next_id L i l = Some l' \<longrightarrow> next l' = i) \<and>
     (\<forall>p h d l i l'. lib_request L p h d l = (i, l') \<and> 0 \<le> i \<longrightarrow> i = next l \<and> next l' = next l + 2) \<and>
     (\<forall>p h l i l'. lib_headers L p h l = (i, l') \<and> 0 \<le> i \<longrightarrow> i = next l \<and> next l' = next l + 2)"

lemma library_okD:
  assumes "library_ok L next"
  shows "client_new L = Some l \<Longrightarrow> next l = 1"
    and "lib_upgrade L h l = Some l' \<Longrightarrow> next l' = next l + 2"
    and "lib_settings L s l = Some l' \<Longrightarrow> next l' = next l"
    and "lib_priority L i p l = Some l' \<Longrightarrow> next l' = next l"
    and "lib_window L w l = Some l' \<Longrightarrow> next l' = next l"
    and "lib_next_id L i l = Some l' \<Longrightarrow> next l' = i"
    and "lib_request L p hs d l = (i, l') \<Longrightarrow> 0 \<le> i \<Longrightarrow> i = next l \<and> next l' = next l + 2"
    and "lib_headers L p hs l = (i, l') \<Longrightarrow> 0 \<le> i \<Longrightarrow> i = next l \<and> next l' = next l + 2"
proof -
  note a = assms [unfolded library_ok_def]
  show "client_new L = Some l \<Longrightarrow> next l = 1" using a by simp
  show "lib_upgrade L h l = Some l' \<Longrightarrow> next l' = next l + 2" using a by fast
  show "lib_settings L s l = Some l' \<Longrightarrow> next l' = next l" using a by fast
  show "lib_priority L i p l = Some l' \<Longrightarrow> next l' = next l" using a by fast
  show "lib_window L w l = Some l' \<Longrightarrow> next l' = next l" using a by fast
  show "lib_next_id L i l = Some l' \<Longrightarrow> next l' = i" using a by fast
  show "lib_request L p hs d l = (i, l') \<Longrightarrow> 0 \<le> i \<Longrightarrow> i = next l \<and> next l' = next l + 2" using a by fast
  show "lib_headers L p hs l = (i, l') \<Longrightarrow> 0 \<le> i \<Longrightarrow> i = next l \<and> next l' = next l + 2" using a by fast
qed

lemma submit_request_id:
  assumes "submit_request L cf host headers req l = (req', l', True)" "library_ok L next"
  shows "rq_stream_id req' = next l \<and> next l' = next l + 2 \<and> rq_uri req' = rq_uri req \<and> rq_u req' = rq_u req \<and>
    rq_data req' = rq_data req \<and> rq_pri req' = rq_pri req"
proof (cases "rq_data req \<and> cf_expect_continue cf")
  case True
  then show ?thesis
    using assms(1) library_okD(8) [OF assms(2)]
    by (auto simp: submit_request_def Let_def split: prod.splits if_splits)
next
  case False
  then show ?thesis
    using assms(1) library_okD(7) [OF assms(2)]
    by (auto simp: submit_request_def Let_def split: prod.splits if_splits)
qed

lemma submit_all_ids:
  assumes "library_ok L next"
  shows "submit_all L cf host rs l = Some (rs', l') \<Longrightarrow>
    length rs' = length rs \<and> next l' = next l + 2 * int (length rs) \<and>
    (\<forall>k < length rs. rq_stream_id (rs' ! k) = next l + 2 * int k)"
proof (induction rs arbitrary: l rs' l')
  case (Cons r rs)
  then obtain r1 l1 rs1 where r1: "submit_request L cf host (cf_headers cf) r l = (r1, l1, True)"
    and rs1: "submit_all L cf host rs l1 = Some (rs1, l')" and rs': "rs' = r1 # rs1"
    by (auto split: prod.splits bool.splits bind_splits)
  from submit_request_id [OF r1 assms] Cons.IH [OF rs1] show ?case
    by (auto simp: rs' nth_Cons split: nat.splits)
qed simp

lemma anchors_next:
  assumes "library_ok L next" "for_each (\<lambda>(i, dep, w). lib_priority L i (dep, w)) as l = Some l'"
  shows "next l' = next l"
  using assms(2)
proof (induction as arbitrary: l)
  case (Cons a as)
  obtain i dep w where a: "a = (i, dep, w)" by (cases a)
  from Cons.prems obtain l1 where "lib_priority L i (dep, w) l = Some l1"
    "for_each (\<lambda>(i, dep, w). lib_priority L i (dep, w)) as l1 = Some l'"
    by (auto simp: a split: option.splits)
  with Cons.IH library_okD(4) [OF assms(1)] show ?case by metis
qed simp

text \<open>The number of the first stream that is opened after the connection is set up.\<close>

definition first_id :: "Http_Config \<Rightarrow> 'l Http \<Rightarrow> int" where
  "first_id cf x = (if \<not> cf_no_dep cf then 13 else if need_upgrade cf x then 3 else 1)"

definition upgraded :: "Http_Config \<Rightarrow> 'l Http \<Rightarrow> bool" where
  "upgraded cf x \<longleftrightarrow> need_upgrade cf x \<and> \<not> rq_data (hd (reqvec x))"

lemma upgrade_step_ids:
  assumes "upgrade_step L cf x l = Some (rs, l')" "library_ok L next" "next l = 1"
  shows "next l' = (if need_upgrade cf x then 3 else 1) \<and> length rs = length (reqvec x) \<and>
    (need_upgrade cf x \<longrightarrow> reqvec x \<noteq> []) \<and>
    (need_upgrade cf x \<and> \<not> rq_data (hd rs) \<longleftrightarrow> upgraded cf x) \<and>
    rs = (if upgraded cf x then (hd (reqvec x))\<lparr>rq_stream_id := 1\<rparr> # tl (reqvec x) else reqvec x)"
proof (cases "need_upgrade cf x")
  case True
  with assms(1) obtain r where r: "aget (reqvec x) 0 = Some r"
    "lib_upgrade L (\<not> rq_data r \<and> rq_method r = ''HEAD'') l = Some l'"
    "rs = (if \<not> rq_data r then (reqvec x)[0 := r\<lparr>rq_stream_id := 1\<rparr>] else reqvec x)"
    by (auto simp: upgrade_step_def Let_def split: bind_splits)
  then obtain tl where x: "reqvec x = r # tl" by (cases "reqvec x") (auto simp: aget_def)
  show ?thesis using True r(3) library_okD(2) [OF assms(2) r(2)] assms(3) by (auto simp: x upgraded_def)
next
  case False
  with assms(1) library_okD(3) [OF assms(2)] assms(3) show ?thesis
    by (auto simp: upgrade_step_def upgraded_def split: bind_splits)
qed

lemma priority_step_next:
  assumes "priority_step L cf up w l = Some l'" "library_ok L next"
  shows "next l' = (if cf_no_dep cf then next l else 13)"
proof (cases "cf_no_dep cf")
  case True
  with assms(1) library_okD(4) [OF assms(2)] show ?thesis by (auto simp: priority_step_def split: if_splits)
next
  case False
  with assms(1) obtain l1 l2 where l: "lib_next_id L (anchor_followers + 2) l1 = Some l2"
    "(if up then lib_priority L 1 (anchor_followers, w) l2 else Some l2) = Some l'"
    by (auto simp: priority_step_def split: bind_splits)
  have "next l2 = 13" using library_okD(6) [OF assms(2) l(1)] by (simp add: anchor_followers_def anchors_def)
  with False l(2) library_okD(4) [OF assms(2)] show ?thesis by (auto split: if_splits)
qed

lemma connection_made_ids:
  assumes "connection_made L cf tls x = Some x'" "library_ok L next"
  shows "length (reqvec x') = length (reqvec x) \<and>
    next (http_session x') = first_id cf x + 2 * int (length (reqvec x) - (if upgraded cf x then 1 else 0)) \<and>
    (upgraded cf x \<longrightarrow> reqvec x \<noteq> [] \<and> rq_stream_id (reqvec x' ! 0) = 1) \<and>
    (\<forall>k. k + (if upgraded cf x then 1 else 0) < length (reqvec x) \<longrightarrow>
      rq_stream_id (reqvec x' ! (k + (if upgraded cf x then 1 else 0))) = first_id cf x + 2 * int k) \<and>
    dang_uri x' = dang_uri x \<and> dang_data x' = dang_data x \<and> http_cur_id x' = http_cur_id x"
proof -
  from assms(1) obtain l0 rs l1 l2 l3 where l0: "client_new L = Some l0" and rs: "upgrade_step L cf x l0 = Some (rs, l1)"
    and l2: "priority_step L cf (need_upgrade cf x \<and> \<not> rq_data (hd rs)) (snd (rq_pri (hd rs))) l1 = Some l2"
    and l3: "window_step L cf l2 = Some l3"
    and sub: "submit_step L cf (if need_upgrade cf x \<and> \<not> rq_data (hd rs) then 1 else 0) rs x l3 = Some x'"
    by (auto simp: connection_made_def Let_def Option.bind_eq_Some_conv)
  have "next l0 = 1" by (rule library_okD(1) [OF assms(2) l0])
  note u = upgrade_step_ids [OF rs assms(2) this]
  have "next l2 = first_id cf x" using priority_step_next [OF l2 assms(2)] u by (simp add: first_id_def)
  then have l3: "next l3 = first_id cf x"
    using l3 library_okD(5) [OF assms(2)] by (auto simp: window_step_def split: if_splits)
  define n where "n = (if upgraded cf x then 1 else 0 :: nat)"
  have "(need_upgrade cf x \<and> \<not> rq_data (hd rs)) = upgraded cf x" using u by blast
  then have "submit_step L cf n rs x l3 = Some x'" using sub by (simp add: n_def)
  then obtain submitted l4 where s: "submit_all L cf (hostport x) (drop n rs) l3 = Some (submitted, l4)"
    and x': "reqvec x' = take n rs @ submitted" "http_session x' = l4" "dang_uri x' = dang_uri x"
    "dang_data x' = dang_data x" "http_cur_id x' = http_cur_id x"
    by (auto simp: submit_step_def Option.bind_eq_Some_conv)
  note ids = submit_all_ids [OF assms(2) s, unfolded l3]
  have up: "upgraded cf x \<Longrightarrow> reqvec x \<noteq> []" using u by (simp add: upgraded_def)
  then have n: "n \<le> length rs" "length rs = length (reqvec x)" using u by (auto simp: Suc_le_eq n_def)
  have "rq_stream_id (reqvec x' ! (k + n)) = first_id cf x + 2 * int k" if "k + n < length (reqvec x)" for k
    using that ids n by (auto simp: x'(1) nth_append)
  moreover have "rq_stream_id (reqvec x' ! 0) = 1" if "upgraded cf x"
    using u that up [OF that] by (auto simp: x'(1) nth_append hd_conv_nth n_def)
  ultimately show ?thesis unfolding n_def [symmetric] using ids n up x' by auto
qed

section \<open>The header lines of a request\<close>

text \<open>A user header changes the value of the initial header of its name, or is appended.\<close>

definition replace_value :: "Header \<Rightarrow> Header list \<Rightarrow> Header list" where
  "replace_value kv = map (\<lambda>h. if fst h = fst kv then (fst h, fst (snd kv), snd (snd h)) else h)"

lemma override_split:
  "distinct (map fst ini) \<Longrightarrow> override (length ini) kv (ini @ rest) =
     (if fst kv \<in> fst ` set ini then replace_value kv ini @ rest else ini @ rest @ [kv])"
proof (induction ini)
  case Nil
  then show ?case by (cases rest) simp_all
next
  case (Cons h ini)
  show ?case
  proof (cases "fst kv = fst h")
    case True
    then have "fst kv \<notin> fst ` set ini" using Cons.prems by simp
    then have "replace_value kv ini = ini" unfolding replace_value_def by (intro map_idI) (metis image_eqI)
    with True show ?thesis by (simp add: replace_value_def)
  next
    case False
    then have "override (length (h # ini)) kv ((h # ini) @ rest) = h # override (length ini) kv (ini @ rest)" by simp
    also have "\<dots> = h # (if fst kv \<in> fst ` set ini then replace_value kv ini @ rest else ini @ rest @ [kv])"
      using Cons by simp
    finally show ?thesis using False by (simp add: replace_value_def)
  qed
qed

lemma replace_value_names: "map fst (replace_value kv ini) = map fst ini"
  by (simp add: replace_value_def comp_def if_distrib cong: if_cong)

text \<open>
  So the initial names come first, each once and in the same order, and no other line has one of them;
  the value of such a line is the last one the user gave it, if any.
\<close>

lemma user_headers:
  assumes "distinct (map fst ini)"
  shows "\<exists>ini' rest'. fold (override (length ini)) headers (ini @ rest) = ini' @ rest' \<and> map fst ini' = map fst ini \<and>
    fst ` set rest' \<subseteq> fst ` set rest \<union> (fst ` set headers - fst ` set ini)"
  using assms
proof (induction headers arbitrary: ini rest)
  case Nil
  then show ?case by auto
next
  case (Cons kv headers)
  define ini1 where "ini1 = (if fst kv \<in> fst ` set ini then replace_value kv ini else ini)"
  define rest1 where "rest1 = (if fst kv \<in> fst ` set ini then rest else rest @ [kv])"
  have n: "map fst ini1 = map fst ini" using replace_value_names by (simp add: ini1_def)
  then have l: "length ini1 = length ini" "fst ` set ini1 = fst ` set ini" by (metis length_map, metis set_map)
  have "override (length ini) kv (ini @ rest) = ini1 @ rest1"
    using override_split [OF Cons.prems] by (simp add: ini1_def rest1_def)
  moreover obtain ini' rest' where f: "fold (override (length ini1)) headers (ini1 @ rest1) = ini' @ rest'"
    and i: "map fst ini' = map fst ini1" and r: "fst ` set rest' \<subseteq> fst ` set rest1 \<union> (fst ` set headers - fst ` set ini1)"
    using Cons.IH [of ini1 rest1] Cons.prems n by auto
  ultimately have "fold (override (length ini)) (kv # headers) (ini @ rest) = ini' @ rest'" using l by simp
  moreover have names: "R \<subseteq> A \<union> (H - I) \<Longrightarrow> A \<subseteq> B \<union> (K - I) \<Longrightarrow> H \<subseteq> K \<Longrightarrow> R \<subseteq> B \<union> (K - I)" for R A B H K I :: "string set"
    by blast
  have "fst ` set rest1 \<subseteq> fst ` set rest \<union> (fst ` set (kv # headers) - fst ` set ini)"
    by (auto simp: rest1_def)
  then have "fst ` set rest' \<subseteq> fst ` set rest \<union> (fst ` set (kv # headers) - fst ` set ini)"
    by (rule names [OF r [unfolded l(2)]]) auto
  ultimately show ?case using i n by auto
qed

lemma override_other: "fst kv \<noteq> name \<Longrightarrow> get_header (override n kv hs) name = get_header hs name"
proof (induction n kv hs rule: override.induct)
  case (3 n kv h hs)
  then show ?case
    using get_header_append [of "[h]" hs name] get_header_append [of "[h]" "override n kv hs" name]
      get_header_append [of "[(fst h, fst (snd kv), snd (snd h))]" hs name]
    by (auto simp: get_header_def split: option.splits)
qed (simp_all add: get_header_append get_header_def)

lemma build_headers_path:
  assumes "'':path'' \<notin> fst ` set headers"
  shows "get_header (build_headers cf host headers req) '':path'' = Some ('':path'', make_reqpath (rq_uri req) (rq_u req), False)"
proof -
  have "get_header (fold (override n) headers hs) '':path'' = get_header hs '':path''" for n hs
    using assms by (induction headers arbitrary: hs) (auto simp: override_other)
  moreover have "get_header (initial_headers cf host req @ body_headers cf req) '':path''
      = Some ('':path'', make_reqpath (rq_uri req) (rq_u req), False)"
  proof -
    have "get_header (body_headers cf req) '':path'' = None" by (rule get_header_None) (auto simp: body_headers_def)
    moreover have "get_header (if cf_continuation cf
        then map (\<lambda>i. (''continuation-test-'' @ print_int (i + 1), replicate 4096 (CHR ''-''), False)) [0..5] else [])
        '':path'' = None"
      by (rule get_header_None) auto
    ultimately show ?thesis unfolding initial_headers_def get_header_append by (simp add: get_header_def)
  qed
  ultimately show ?thesis by (simp add: build_headers_def Let_def)
qed

section \<open>The requests of the adaptation\<close>

lemma send_http_unparsed:
  "parse (dang_uri x @ request_path fid br) = None \<Longrightarrow>
     send_get_request_http L parse cf fid br dep w x = (x\<lparr>http_cur_id := http_cur_id x + 2\<rparr>, http_cur_id x + 2)"
  by (simp add: send_get_request_http_def add_request_def Let_def)

lemma send_http_parsed:
  assumes "parse (dang_uri x @ request_path fid br) = Some u"
    and "submit_request L cf (hostport x) (dang_headers x)
      (new_request (dang_uri x @ request_path fid br) u (dang_data x) (dang_data_length x) (dep, w) 0) (http_session x) = (r, l, ok)"
  shows "\<exists>x'. send_get_request_http L parse cf fid br dep w x = (x', http_cur_id x + 2) \<and>
    reqvec x' = reqvec x @ [r] \<and> http_session x' = l \<and> http_cur_id x' = http_cur_id x + 2 \<and>
    dang_uri x' = dang_uri x \<and> dang_data x' = dang_data x \<and> dang_headers x' = dang_headers x \<and> hostport x' = hostport x"
  using assms by (simp add: send_get_request_http_def add_request_def Let_def)

lemma submit_request_kept:
  "submit_request L cf host headers req l = (req', l', ok) \<Longrightarrow> rq_uri req' = rq_uri req \<and> rq_pri req' = rq_pri req \<and>
     (if ok then 0 \<le> rq_stream_id req' \<and> rq_req_nva req' = build_headers cf host headers req
      else rq_stream_id req' = rq_stream_id req)"
  by (auto simp: submit_request_def Let_def split: prod.splits if_splits)

text \<open>
  The engine of theory \<open>Download_Client\<close> keeps a log of what it sent; here these are the requests
  after the first \<open>n\<close>, with the URI and the priority that belong to them.
\<close>

definition asks :: "string \<Rightarrow> int \<times> int \<times> int \<times> int \<Rightarrow> Request \<Rightarrow> bool" where
  "asks base = (\<lambda>(fid, br, dep, w) r. rq_uri r = base @ request_path fid br \<and> rq_pri r = (dep, w))"

definition http_rel :: "nat \<Rightarrow> 'l Http \<Rightarrow> Client \<Rightarrow> bool" where
  "http_rel n x c \<longleftrightarrow> http_cur_id x = cur_req_stream_id c \<and> n \<le> length (reqvec x) \<and>
     list_all2 (asks (dang_uri x)) (sent c) (drop n (reqvec x))"

text \<open>
  C25: Sending a request over the HTTP client is what the adaptation engines take it for: the request
  is listed with its URI and priority if the URI parses and is missing otherwise, and the number
  returned for its stream is the same in both.
\<close>

theorem send_get_request_refines:
  assumes "http_rel n x c" "uri_ok c \<longleftrightarrow> parse (dang_uri x @ request_path fid br) \<noteq> None"
    and "send_get_request_http L parse cf fid br dep w x = (x', i)" "send_get_request fid br dep w c = (c', j)"
  shows "http_rel n x' c' \<and> i = j"
proof (cases "parse (dang_uri x @ request_path fid br)")
  case None
  then show ?thesis
    using assms send_http_unparsed [of parse x fid br L cf dep w]
    by (auto simp: http_rel_def send_get_request_def Let_def)
next
  case (Some u)
  obtain r l ok where r: "submit_request L cf (hostport x) (dang_headers x)
      (new_request (dang_uri x @ request_path fid br) u (dang_data x) (dang_data_length x) (dep, w) 0) (http_session x) = (r, l, ok)"
    by (metis prod_cases3)
  from send_http_parsed [of parse x fid br, OF Some r] assms(3) have x': "reqvec x' = reqvec x @ [r]" "http_cur_id x' = http_cur_id x + 2"
    "dang_uri x' = dang_uri x" "i = http_cur_id x + 2" by auto
  have "asks (dang_uri x) (fid, br, dep, w) r"
    using submit_request_kept [OF r] by (simp add: asks_def new_request_def)
  with x' Some assms(1,2,4) show ?thesis
    by (auto simp: http_rel_def send_get_request_def Let_def list_all2_appendI)
qed

text \<open>What the parser finds in a URI of the adaptation: the path is what follows the host.\<close>

definition path_after :: "string \<Rightarrow> string \<Rightarrow> Url \<Rightarrow> bool" where
  "path_after base path u \<longleftrightarrow> field_data u UF_PATH = Some (length base, length path) \<and> field_data u UF_QUERY = None"

text \<open>
  C23: The header lines a request of the adaptation is submitted with carry the path from which the
  server's handlers read face and bitrate: the server answers it with the file of that face and
  bitrate, and with 404 if there is no such face.
\<close>

theorem request_answered:
  assumes "parse (dang_uri x @ request_path fid br) = Some u" "path_after (dang_uri x) (request_path fid br) u"
    and "'':path'' \<notin> fst ` set (dang_headers x)"
    and "send_get_request_http L parse cf fid br dep w x = (x', i)" "0 \<le> rq_stream_id (last (reqvec x'))"
    and "splits split" "- (2 ^ 31) \<le> br" "br < 2 ^ 31" "host \<noteq> []" "hd host \<noteq> CHR ''/''"
  shows "\<exists>p. get_header (rq_req_nva (last (reqvec x'))) '':path'' = Some ('':path'', p, False) \<and>
    serve split host p = Some (if 0 \<le> fid \<and> fid < 25 then File (file_path fid br) else Not_found)"
proof -
  let ?uri = "dang_uri x @ request_path fid br"
  let ?req = "new_request ?uri u (dang_data x) (dang_data_length x) (dep, w) 0"
  obtain r l ok where r: "submit_request L cf (hostport x) (dang_headers x) ?req (http_session x) = (r, l, ok)"
    by (metis prod_cases3)
  from send_http_parsed [of parse x fid br, OF assms(1) r] assms(4) have x': "reqvec x' = reqvec x @ [r]" by auto
  have "rq_stream_id ?req = -1" by (simp add: new_request_def)
  then have "rq_req_nva r = build_headers cf (hostport x) (dang_headers x) ?req"
    using submit_request_kept [OF r] assms(5) x' by (auto split: if_splits)
  moreover have "make_reqpath ?uri u = request_path fid br"
    using assms(2) by (simp add: make_reqpath_def path_after_def has_uri_field_def get_uri_field_def)
  ultimately have "get_header (rq_req_nva r) '':path'' = Some ('':path'', request_path fid br, False)"
    using build_headers_path [OF assms(3)] by (simp add: new_request_def)
  then show ?thesis using request_served [OF assms(6-10)] x' by simp
qed

section \<open>Predicted and assigned stream numbers\<close>

fun send_all ::
  "'l Library \<Rightarrow> (string \<Rightarrow> Url option) \<Rightarrow> Http_Config \<Rightarrow> (int \<times> int \<times> int \<times> int) list \<Rightarrow> 'l Http \<Rightarrow> 'l Http \<times> int list" where
  "send_all L parse cf [] x = (x, [])"
| "send_all L parse cf ((fid, br, dep, w) # qs) x =
     (let (x, i) = send_get_request_http L parse cf fid br dep w x; (x, is) = send_all L parse cf qs x in (x, i # is))"

lemma send_all_ids:
  assumes "library_ok L next"
  shows "send_all L parse cf qs x = (x', is) \<Longrightarrow> \<forall>(fid, br, dep, w) \<in> set qs. parse (dang_uri x @ request_path fid br) \<noteq> None \<Longrightarrow>
    \<exists>rs. reqvec x' = reqvec x @ rs \<and> length rs = length qs \<and>
      is = map (\<lambda>k. http_cur_id x + 2 * int (k + 1)) [0..<length qs] \<and>
      ((\<forall>r \<in> set rs. 0 \<le> rq_stream_id r) \<longrightarrow>
        map rq_stream_id rs = map (\<lambda>k. next (http_session x) + 2 * int k) [0..<length qs])"
proof (induction qs arbitrary: x x' "is")
  case (Cons q qs)
  obtain fid br dep w where q: "q = (fid, br, dep, w)" by (cases q)
  with Cons.prems(2) obtain u where u: "parse (dang_uri x @ request_path fid br) = Some u" by auto
  obtain r l ok where r: "submit_request L cf (hostport x) (dang_headers x)
      (new_request (dang_uri x @ request_path fid br) u (dang_data x) (dang_data_length x) (dep, w) 0) (http_session x) = (r, l, ok)"
    by (metis prod_cases3)
  from send_http_parsed [of parse x fid br, OF u r] obtain x1 where
    x1: "send_get_request_http L parse cf fid br dep w x = (x1, http_cur_id x + 2)" "reqvec x1 = reqvec x @ [r]"
      "http_session x1 = l" "http_cur_id x1 = http_cur_id x + 2" "dang_uri x1 = dang_uri x" by blast
  with Cons.prems(1) q obtain is1 where is1: "send_all L parse cf qs x1 = (x', is1)" "is = (http_cur_id x + 2) # is1"
    by (auto split: prod.splits)
  from Cons.IH [OF is1(1)] Cons.prems(2) x1(5) obtain rs where rs: "reqvec x' = reqvec x1 @ rs" "length rs = length qs"
    "is1 = map (\<lambda>k. http_cur_id x1 + 2 * int (k + 1)) [0..<length qs]"
    "(\<forall>r \<in> set rs. 0 \<le> rq_stream_id r) \<Longrightarrow> map rq_stream_id rs = map (\<lambda>k. next l + 2 * int k) [0..<length qs]"
    using x1(3) by auto
  have up: "map f [0..<length (q # qs)] = f 0 # map (\<lambda>k. f (k + 1)) [0..<length qs]" for f :: "nat \<Rightarrow> int"
    by (simp add: upt_conv_Cons map_Suc_upt [symmetric] comp_def del: upt_Suc)
  have "map rq_stream_id (r # rs) = map (\<lambda>k. next (http_session x) + 2 * int k) [0..<length (q # qs)]"
    if ok: "\<forall>r \<in> set (r # rs). 0 \<le> rq_stream_id r"
  proof -
    have "ok" using ok submit_request_kept [OF r] by (auto simp: new_request_def split: if_splits)
    then have "submit_request L cf (hostport x) (dang_headers x)
        (new_request (dang_uri x @ request_path fid br) u (dang_data x) (dang_data_length x) (dep, w) 0) (http_session x) = (r, l, True)"
      using r by simp
    from submit_request_id [OF this assms] have "rq_stream_id r = next (http_session x)" "next l = next (http_session x) + 2"
      by simp_all
    with rs(4) ok show ?thesis unfolding up by simp
  qed
  moreover have "is = map (\<lambda>k. http_cur_id x + 2 * int (k + 1)) [0..<length (q # qs)]"
    unfolding up is1(2) rs(3) x1(4) by simp
  ultimately show ?case using x1(2) rs(1,2) by (intro exI [of _ "r # rs"]) simp
qed simp

text \<open>
  C13: The adaptation starts when stream 13 closes and counts the streams of its requests from there by
  twos. That the first request of the connection is stream 13 and that the numbers counted are those the
  library assigns holds exactly if the priority streams are in use, the connection was not made by an
  upgrade that took the first request along, and there is one initial request. The numbers alone are
  right exactly if one initial request, not counting one taken along by an upgrade, stands before the
  requests of the adaptation, or, without the priority streams, seven, or six after an upgrade: otherwise
  every number is off by the same amount.
\<close>

theorem counted_streams_iff:
  assumes "library_ok L next" "connection_made L cf tls x = Some x1" "reqvec x \<noteq> []" "qs \<noteq> []"
    and "send_all L parse cf qs (x1\<lparr>http_cur_id := 13\<rparr>) = (x2, is)"
    and "\<forall>(fid, br, dep, w) \<in> set qs. parse (dang_uri x @ request_path fid br) \<noteq> None"
    and "\<forall>r \<in> set (drop (length (reqvec x)) (reqvec x2)). 0 \<le> rq_stream_id r"
  shows "(rq_stream_id (hd (reqvec x1)) = 13 \<and> map rq_stream_id (drop (length (reqvec x)) (reqvec x2)) = is \<longleftrightarrow>
      \<not> cf_no_dep cf \<and> \<not> upgraded cf x \<and> length (reqvec x) = 1) \<and>
    (map rq_stream_id (drop (length (reqvec x)) (reqvec x2)) = is \<longleftrightarrow>
      length (reqvec x) - (if upgraded cf x then 1 else 0) =
        (if \<not> cf_no_dep cf then 1 else if need_upgrade cf x then 6 else 7))"
proof -
  let ?n = "length (reqvec x)" and ?up = "if upgraded cf x then 1 else 0 :: nat"
  note made = connection_made_ids [OF assms(2,1)]
  have x1: "reqvec x1 \<noteq> []" using made assms(3) by (metis length_0_conv)
  obtain rs where rs: "reqvec x2 = reqvec x1 @ rs" "length rs = length qs"
    "is = map (\<lambda>k. 13 + 2 * int (k + 1)) [0..<length qs]"
    "(\<forall>r \<in> set rs. 0 \<le> rq_stream_id r) \<longrightarrow> map rq_stream_id rs = map (\<lambda>k. next (http_session x1) + 2 * int k) [0..<length qs]"
    using send_all_ids [OF assms(1,5)] assms(6) made by auto
  have d: "drop ?n (reqvec x2) = rs" using made rs(1) by simp
  then have ids: "map rq_stream_id rs = map (\<lambda>k. next (http_session x1) + 2 * int k) [0..<length qs]"
    using rs(4) assms(7) by simp
  have "map rq_stream_id rs = is \<longleftrightarrow> next (http_session x1) = 15"
  proof
    assume "map rq_stream_id rs = is"
    then have "next (http_session x1) + 2 * int 0 = 13 + 2 * int (0 + 1)"
      using assms(4) unfolding ids rs(3) by (auto simp: map_eq_conv)
    then show "next (http_session x1) = 15" by simp
  qed (simp add: ids rs(3))
  moreover have "next (http_session x1) = first_id cf x + 2 * int (?n - ?up)" using made by blast
  moreover have "rq_stream_id (hd (reqvec x1)) = (if upgraded cf x then 1 else first_id cf x)"
    using made assms(3) x1 by (auto simp: hd_conv_nth dest: spec [of _ 0])
  moreover have "0 < ?n" using assms(3) by simp
  ultimately show ?thesis using d by (auto simp: first_id_def split: if_splits)
qed

section \<open>Demonstration\<close>

text \<open>
  A library that only counts streams, as \<^verbatim>\<open>nghttp2_submit.c\<close> and \<^verbatim>\<open>nghttp2_session.c\<close> do, and a parser
  that splits a URI after a fixed host.
\<close>

definition demo_library :: "int Library" where
  "demo_library = \<lparr>client_new = Some 1, lib_upgrade = \<lambda>_ l. Some (l + 2), lib_settings = \<lambda>_ l. Some l,
     lib_priority = \<lambda>_ _ l. Some l, lib_next_id = \<lambda>i l. if i < l then None else Some i, lib_window = \<lambda>_ l. Some l,
     lib_request = \<lambda>_ _ _ l. (l, l + 2), lib_headers = \<lambda>_ _ l. (l, l + 2)\<rparr>"

definition demo_http_config :: Http_Config where
  "demo_http_config = \<lparr>cf_headers = [], cf_trailer = [], cf_header_table_size = -1, cf_min_header_table_size = 4294967295,
     cf_max_concurrent_streams = 100, cf_multiply = 1, cf_window_bits = -1, cf_connection_window_bits = -1,
     cf_upgrade = False, cf_continuation = False, cf_no_content_length = False, cf_no_dep = False, cf_no_push = False,
     cf_expect_continue = False, cf_version = ''1.17.0''\<rparr>"

definition demo_base :: string where "demo_base = ''http://10.0.0.1:3002''"

definition demo_parse :: "string \<Rightarrow> Url option" where
  "demo_parse uri = (if take (length demo_base) uri = demo_base
     then Some \<lparr>field_data = (\<lambda>_. None)(UF_SCHEMA := Some (0, 4), UF_HOST := Some (7, 8), UF_PORT := Some (16, 4),
       UF_PATH := Some (length demo_base, length uri - length demo_base)), u_port = 3002\<rparr>
     else None)"

definition demo_http :: "int Http" where
  "demo_http = update_hostport (fst (add_request demo_parse demo_http_config (demo_base @ ''/reset_session'') False 0 (11, 16) 0
     \<lparr>reqvec = [], path_set = {}, http_scheme = [], hostport = [], http_session = 1, dang_uri = demo_base,
      dang_data = False, dang_data_length = 0, dang_headers = [], http_cur_id = 0\<rparr>))"

lemma demo_library_ok: "library_ok demo_library (\<lambda>l. l)"
  by (auto simp: library_ok_def demo_library_def split: if_splits)

lemma demo_parses: "demo_parse (demo_base @ path) \<noteq> None"
  by (simp add: demo_parse_def)

text \<open>The connection of the demonstration, when its first stream has closed.\<close>

definition demo_connected :: "int Http" where
  "demo_connected = (the (connection_made demo_library demo_http_config None demo_http))\<lparr>http_cur_id := 13\<rparr>"

lemma demo_submit:
  assumes "0 \<le> l"
  shows "\<exists>r'. submit_request demo_library demo_http_config host hs r l = (r', l + 2, True) \<and> rq_stream_id r' = l"
  using assms by (simp add: submit_request_def demo_library_def Let_def)

lemma demo_http_values: "\<exists>r. reqvec demo_http = [r] \<and> \<not> rq_data r" "dang_uri demo_http = demo_base" "dang_headers demo_http = []"
  using demo_parses [of "''/reset_session''"]
  by (auto simp: demo_http_def add_request_def update_hostport_def Let_def new_request_def split: option.splits)

lemma demo_connected_values:
  "connection_made demo_library demo_http_config None demo_http = Some (the (connection_made demo_library demo_http_config None demo_http))"
  "length (reqvec demo_http) = 1" "length (reqvec demo_connected) = 1" "http_session demo_connected = 15"
  "dang_uri demo_http = demo_base" "dang_uri demo_connected = demo_base" "dang_headers demo_connected = []"
  "http_cur_id demo_connected = 13"
proof -
  obtain r where r: "reqvec demo_http = [r]" "\<not> rq_data r" using demo_http_values(1) by blast
  obtain r' where r': "submit_request demo_library demo_http_config (hostport demo_http) [] r 13 = (r', 15, True)" "rq_stream_id r' = 13"
    using demo_submit [of 13 "hostport demo_http" "[]" r] by auto
  have n: "\<not> need_upgrade demo_http_config demo_http" by (simp add: need_upgrade_def demo_http_config_def)
  have "upgrade_step demo_library demo_http_config demo_http 1 = Some ([r], 1)"
    using n r by (simp add: upgrade_step_def demo_library_def)
  moreover have "priority_step demo_library demo_http_config False w 1 = Some 13" for w
    by (simp add: priority_step_def demo_http_config_def demo_library_def anchors_def anchor_followers_def)
  moreover have "window_step demo_library demo_http_config 13 = Some 13" by (simp add: window_step_def demo_http_config_def)
  moreover have "submit_step demo_library demo_http_config 0 [r] demo_http 13
      = Some (demo_http\<lparr>reqvec := [r'], http_session := 15, dang_headers := []\<rparr>)"
    using r' by (simp add: submit_step_def) (simp add: demo_http_config_def)
  moreover have "check_protocol None = Some ()" "client_new demo_library = Some 1"
    by (simp_all add: check_protocol_def demo_library_def)
  ultimately have c: "connection_made demo_library demo_http_config None demo_http
      = Some (demo_http\<lparr>reqvec := [r'], http_session := 15, dang_headers := []\<rparr>)"
    using n by (simp add: connection_made_def Let_def)
  then show "connection_made demo_library demo_http_config None demo_http = Some (the (connection_made demo_library demo_http_config None demo_http))"
    "length (reqvec demo_connected) = 1" "http_session demo_connected = 15" "dang_uri demo_connected = demo_base"
    "dang_headers demo_connected = []" "http_cur_id demo_connected = 13"
    using demo_http_values(2) by (simp_all add: demo_connected_def)
  show "length (reqvec demo_http) = 1" "dang_uri demo_http = demo_base" using r demo_http_values(2) by simp_all
qed

text \<open>A request is submitted as the next stream.\<close>

lemma demo_send:
  assumes "dang_uri x = demo_base" "0 \<le> http_session x"
  shows "\<exists>x' r. send_get_request_http demo_library demo_parse demo_http_config fid br dep w x = (x', http_cur_id x + 2) \<and>
    reqvec x' = reqvec x @ [r] \<and> rq_stream_id r = http_session x \<and> http_session x' = http_session x + 2 \<and>
    http_cur_id x' = http_cur_id x + 2 \<and> dang_uri x' = demo_base"
proof -
  obtain u where u: "demo_parse (dang_uri x @ request_path fid br) = Some u" using demo_parses assms(1) by fastforce
  obtain r where "submit_request demo_library demo_http_config (hostport x) (dang_headers x)
      (new_request (dang_uri x @ request_path fid br) u (dang_data x) (dang_data_length x) (dep, w) 0) (http_session x)
      = (r, http_session x + 2, True)" "rq_stream_id r = http_session x"
    using demo_submit [OF assms(2)] by blast
  with send_http_parsed [of demo_parse x fid br, OF u this(1)] assms(1) show ?thesis by auto
qed

theorem send_get_request_refines_witness:
  "\<exists>x' c'. send_get_request_http demo_library demo_parse demo_http_config 24 483 15 20 demo_connected = (x', 15) \<and>
     send_get_request 24 483 15 20 demo_client = (c', 15) \<and> http_rel 1 x' c' \<and> sent c' = [(24, 483, 15, 20)]"
proof -
  have rel: "http_rel 1 demo_connected demo_client"
    using demo_connected_values(3,8) by (simp add: http_rel_def demo_client_def)
  obtain x' i where x': "send_get_request_http demo_library demo_parse demo_http_config 24 483 15 20 demo_connected = (x', i)"
    by fastforce
  obtain c' where c': "send_get_request 24 483 15 20 demo_client = (c', 15)" "sent c' = [(24, 483, 15, 20)]"
    by (simp add: send_get_request_def demo_client_def)
  have "uri_ok demo_client \<longleftrightarrow> demo_parse (dang_uri demo_connected @ request_path 24 483) \<noteq> None"
    unfolding demo_connected_values(6) using demo_parses by (simp add: demo_client_def)
  from send_get_request_refines [OF rel this x' c'(1)] x' c' show ?thesis by blast
qed

theorem request_answered_witness:
  "\<exists>x' p. fst (send_get_request_http demo_library demo_parse demo_http_config 24 483 15 20 demo_connected) = x' \<and>
     get_header (rq_req_nva (last (reqvec x'))) '':path'' = Some ('':path'', p, False) \<and>
     serve split_on ''10.0.0.1:3002'' p = Some (File (file_path 24 483))"
proof -
  let ?uri = "dang_uri demo_connected @ request_path 24 483"
  obtain u where u: "demo_parse ?uri = Some u" "path_after (dang_uri demo_connected) (request_path 24 483) u"
    unfolding demo_connected_values(6) by (simp add: demo_parse_def path_after_def)
  obtain x' i where x': "send_get_request_http demo_library demo_parse demo_http_config 24 483 15 20 demo_connected = (x', i)"
    and "0 \<le> rq_stream_id (last (reqvec x'))"
    using demo_send [OF demo_connected_values(6), of 24 483 15 20] demo_connected_values(4) by auto
  from request_answered [OF u _ x' this(2) splits_split_on, of "''10.0.0.1:3002''"] demo_connected_values(7) x' show ?thesis by simp
qed

theorem counted_streams_iff_witness:
  "\<exists>x2. send_all demo_library demo_parse demo_http_config [(0, 1000, 0, 20), (3, 100, 0, 20)] demo_connected = (x2, [15, 17]) \<and>
     map rq_stream_id (drop 1 (reqvec x2)) = [15, 17]"
proof -
  let ?qs = "[(0, 1000, 0, 20), (3, 100, 0, 20)] :: (int \<times> int \<times> int \<times> int) list"
  obtain x r where x: "send_get_request_http demo_library demo_parse demo_http_config 0 1000 0 20 demo_connected = (x, 15)"
    "reqvec x = reqvec demo_connected @ [r]" "rq_stream_id r = 15" "http_session x = 17" "http_cur_id x = 15" "dang_uri x = demo_base"
    using demo_send [OF demo_connected_values(6), of 0 1000 0 20] demo_connected_values(4,8) by auto
  obtain x2 r2 where y: "send_get_request_http demo_library demo_parse demo_http_config 3 100 0 20 x = (x2, 17)"
    "reqvec x2 = reqvec x @ [r2]" "rq_stream_id r2 = 17"
    using demo_send [OF x(6), of 3 100 0 20] x(4,5) by auto
  let ?is = "[15, 17] :: int list"
  have x2: "send_all demo_library demo_parse demo_http_config ?qs demo_connected = (x2, ?is)" using x(1) y(1) by simp
  have v: "\<forall>r \<in> set (drop (length (reqvec demo_http)) (reqvec x2)). 0 \<le> rq_stream_id r"
    using x(2,3) y(2,3) demo_connected_values(2,3) by simp
  have p: "\<forall>(fid, br, dep, w) \<in> set ?qs. demo_parse (dang_uri demo_http @ request_path fid br) \<noteq> None"
    unfolding demo_connected_values(5) using demo_parses by simp
  have "reqvec demo_http \<noteq> []" using demo_connected_values(2) by auto
  from counted_streams_iff [OF demo_library_ok demo_connected_values(1) this _ x2 [unfolded demo_connected_def] p v]
  have "map rq_stream_id (drop (length (reqvec demo_http)) (reqvec x2)) = ?is"
    using demo_connected_values(2) by (simp add: demo_http_config_def upgraded_def need_upgrade_def)
  with x2 demo_connected_values(2) show ?thesis by simp
qed

end
