(* ===== verification/Client_Run.thy ===== *)
theory Client_Run
  imports Request_Exchange
begin

text \<open>
  From the command line to the requests: \<^verbatim>\<open>run\<close> of \<^verbatim>\<open>nghttp.cc\<close> groups the URIs by host and
  opens one connection after the other with \<^verbatim>\<open>communicate\<close>, whose requests \<open>connection_made\<close> submits;
  \<^verbatim>\<open>update_html_parser\<close> adds the assets an HTML page links to, and \<^verbatim>\<open>file_read_callback\<close> sends the
  file of an upload. What the URL parser, the HTML parser and the file system deliver are arguments.
\<close>

section \<open>Grouping the URIs by host\<close>

text \<open>Scheme, host and port; and a request: URI, whether there are data to upload, their length, weight.\<close>

type_synonym Endpoint = "string \<times> string \<times> int"

type_synonym Job = "string \<times> bool \<times> int \<times> int"

text \<open>A call of \<^verbatim>\<open>communicate\<close>, with the value of the global \<^verbatim>\<open>dang_uri\<close> at that time.\<close>

record Call =
  call_scheme :: string
  call_host :: string
  call_port :: int
  call_jobs :: "Job list"
  call_dang_uri :: string

record Run =
  prev_scheme :: string
  prev_host :: string
  prev_port :: int
  run_requests :: "Job list"
  next_weight_idx :: nat
  run_dang_uri :: string
  run_calls :: "Call list"

definition run_init :: Run where
  "run_init = \<lparr>prev_scheme = [], prev_host = [], prev_port = 0, run_requests = [], next_weight_idx = 0,
     run_dang_uri = [], run_calls = []\<rparr>"

text \<open>Every URI gets a weight: those of the options, then the last of them.\<close>

definition fill_weights :: "int list \<Rightarrow> nat \<Rightarrow> int list" where
  "fill_weights ws n = ws @ replicate n (if ws = [] then DEFAULT_WEIGHT else last ws)"

definition flush :: "Run \<Rightarrow> Run" where
  "flush s = (if run_requests s \<noteq> []
     then s\<lparr>run_calls := run_calls s @ [\<lparr>call_scheme = prev_scheme s, call_host = prev_host s, call_port = prev_port s,
              call_jobs = run_requests s, call_dang_uri = run_dang_uri s\<rparr>],
            run_requests := []\<rparr>
     else s)"

definition run_uri ::
  "(string \<Rightarrow> Url option) \<Rightarrow> (string \<Rightarrow> bool) \<Rightarrow> int list \<Rightarrow> bool \<Rightarrow> int \<Rightarrow> string \<Rightarrow> Run \<Rightarrow> Run option" where
  "run_uri parse ipv6 ws data len raw s =
     (let uri = strip_fragment raw in
      case parse uri of
        None \<Rightarrow> Some (s\<lparr>next_weight_idx := next_weight_idx s + 1\<rparr>)
      | Some u \<Rightarrow>
          if \<not> has_uri_field u UF_SCHEMA then Some (s\<lparr>next_weight_idx := next_weight_idx s + 1\<rparr>)
          else
            let port = port_of uri u;
                host = decode_host ipv6 (get_uri_field uri u UF_HOST);
                s = s\<lparr>run_dang_uri := get_uri_field uri u UF_SCHEMA @ ''://'' @ host @ '':'' @ print_int port\<rparr>;
                s = (if \<not> fieldeq_string uri u UF_SCHEMA (prev_scheme s) \<or> host \<noteq> prev_host s \<or> port \<noteq> prev_port s
                     then (flush s)\<lparr>prev_scheme := get_uri_field uri u UF_SCHEMA, prev_host := host, prev_port := port\<rparr>
                     else s)
            in do {
              w \<leftarrow> aget ws (int (next_weight_idx s));
              Some (s\<lparr>run_requests := run_requests s @ [(uri, data, len, w)],
                      next_weight_idx := next_weight_idx s + 1\<rparr>)
            })"

text \<open>The calls, and the number of those that fail.\<close>

definition run ::
  "(string \<Rightarrow> Url option) \<Rightarrow> (string \<Rightarrow> bool) \<Rightarrow> (Call \<Rightarrow> bool) \<Rightarrow> int list \<Rightarrow> bool \<Rightarrow> int \<Rightarrow> string list
     \<Rightarrow> (Call list \<times> nat) option" where
  "run parse ipv6 failed ws data len uris = do {
     s \<leftarrow> for_each (run_uri parse ipv6 ws data len) uris run_init;
     let calls = run_calls (flush s);
     Some (calls, length (filter failed calls))
   }"

section \<open>What the calls are\<close>

definition endpoint :: "(string \<Rightarrow> Url option) \<Rightarrow> (string \<Rightarrow> bool) \<Rightarrow> string \<Rightarrow> Endpoint option" where
  "endpoint parse ipv6 uri = (case parse uri of
     None \<Rightarrow> None
   | Some u \<Rightarrow> (if has_uri_field u UF_SCHEMA
       then Some (get_uri_field uri u UF_SCHEMA, decode_host ipv6 (get_uri_field uri u UF_HOST), port_of uri u)
       else None))"

definition base_uri :: "Endpoint \<Rightarrow> string" where
  "base_uri = (\<lambda>(sc, host, port). sc @ ''://'' @ host @ '':'' @ print_int port)"

definition call_end :: "Call \<Rightarrow> Endpoint" where
  "call_end c = (call_scheme c, call_host c, call_port c)"

definition run_end :: "Run \<Rightarrow> Endpoint" where
  "run_end s = (prev_scheme s, prev_host s, prev_port s)"

text \<open>
  The jobs that the URIs stand for, once each: those that parse and have a scheme, each with the weight
  at its place.
\<close>

definition jobs_of ::
  "(string \<Rightarrow> Url option) \<Rightarrow> (string \<Rightarrow> bool) \<Rightarrow> int list \<Rightarrow> bool \<Rightarrow> int \<Rightarrow> string list \<Rightarrow> Job list" where
  "jobs_of parse ipv6 ws data len uris =
     [(strip_fragment raw, data, len, w). (raw, w) \<leftarrow> zip uris ws, endpoint parse ipv6 (strip_fragment raw) \<noteq> None]"

lemma jobs_of_snoc:
  assumes "length us < length ws"
  shows "jobs_of parse ipv6 ws data len (us @ [raw]) = jobs_of parse ipv6 ws data len us @
    (if endpoint parse ipv6 (strip_fragment raw) = None then []
     else [(strip_fragment raw, data, len, ws ! length us)])"
proof -
  have "drop (length us) ws = ws ! length us # drop (Suc (length us)) ws"
    using assms by (simp add: Cons_nth_drop_Suc)
  moreover have "zip us (take (length us) ws) = zip us ws" using take_zip [of "length us" us ws] by simp
  ultimately show ?thesis by (simp add: jobs_of_def zip_append1)
qed

definition all_at :: "(string \<Rightarrow> Url option) \<Rightarrow> (string \<Rightarrow> bool) \<Rightarrow> Job list \<Rightarrow> Endpoint \<Rightarrow> bool" where
  "all_at parse ipv6 jobs e \<longleftrightarrow> (\<forall>j \<in> set jobs. endpoint parse ipv6 (fst j) = Some e)"

text \<open>
  Calls in a row before one for \<open>e\<close>: each is for another endpoint than the next, and is made when
  \<^verbatim>\<open>dang_uri\<close> names the next already.
\<close>

definition chained :: "Call list \<Rightarrow> Endpoint \<Rightarrow> bool" where
  "chained cs e \<longleftrightarrow> (\<forall>i < length cs. let e' = (map call_end cs @ [e]) ! Suc i
     in call_end (cs ! i) \<noteq> e' \<and> call_dang_uri (cs ! i) = base_uri e')"

lemma chained_Nil [simp]: "chained [] e"
  by (simp add: chained_def)

lemma chained_snoc [simp]:
  "chained (cs @ [c]) e \<longleftrightarrow> chained cs (call_end c) \<and> call_end c \<noteq> e \<and> call_dang_uri c = base_uri e"
proof -
  have "(map call_end (cs @ [c]) @ [e]) ! Suc i = (map call_end cs @ [call_end c]) ! Suc i" if "i < length cs" for i
    using that by (simp add: nth_append)
  then show ?thesis by (auto simp: chained_def less_Suc_eq all_conj_distrib nth_append)
qed

text \<open>The URL parser sets a field only if it has a character.\<close>

definition schemes_ok :: "(string \<Rightarrow> Url option) \<Rightarrow> bool" where
  "schemes_ok parse \<longleftrightarrow>
     (\<forall>uri u. parse uri = Some u \<and> has_uri_field u UF_SCHEMA \<longrightarrow> get_uri_field uri u UF_SCHEMA \<noteq> [])"

text \<open>The invariant of the loop, after the URIs \<open>us\<close>.\<close>

definition run_inv ::
  "(string \<Rightarrow> Url option) \<Rightarrow> (string \<Rightarrow> bool) \<Rightarrow> int list \<Rightarrow> bool \<Rightarrow> int \<Rightarrow> string list \<Rightarrow> Run \<Rightarrow> bool" where
  "run_inv parse ipv6 ws data len us s \<longleftrightarrow> next_weight_idx s = length us \<and>
     concat (map call_jobs (run_calls s)) @ run_requests s = jobs_of parse ipv6 ws data len us \<and>
     (\<forall>c \<in> set (run_calls s). call_jobs c \<noteq> [] \<and> all_at parse ipv6 (call_jobs c) (call_end c)) \<and>
     all_at parse ipv6 (run_requests s) (run_end s) \<and>
     (if run_requests s = [] then run_calls s = []
      else run_dang_uri s = base_uri (run_end s) \<and> (schemes_ok parse \<longrightarrow> chained (run_calls s) (run_end s)))"

text \<open>A URI with an endpoint joins the requests that wait, or they are flushed before it.\<close>

definition join_run :: "Endpoint \<Rightarrow> Run \<Rightarrow> Run" where
  "join_run e s = (let s = s\<lparr>run_dang_uri := base_uri e\<rparr>
     in if run_end s = e then s
        else (flush s)\<lparr>prev_scheme := fst e, prev_host := fst (snd e), prev_port := snd (snd e)\<rparr>)"

lemma run_uri_endpoint:
  assumes "endpoint parse ipv6 (strip_fragment raw) = Some e" "next_weight_idx s < length ws" "schemes_ok parse"
  shows "run_uri parse ipv6 ws data len raw s = Some ((join_run e s)\<lparr>run_requests := run_requests (join_run e s) @
        [(strip_fragment raw, data, len, ws ! next_weight_idx s)], next_weight_idx := next_weight_idx s + 1\<rparr>)"
proof -
  let ?uri = "strip_fragment raw"
  from assms(1) obtain u where u: "parse ?uri = Some u" "has_uri_field u UF_SCHEMA"
    "e = (get_uri_field ?uri u UF_SCHEMA, decode_host ipv6 (get_uri_field ?uri u UF_HOST), port_of ?uri u)"
    by (auto simp: endpoint_def split: option.splits if_splits)
  have sc: "get_uri_field ?uri u UF_SCHEMA \<noteq> []" using assms(3) u(1,2) by (simp add: schemes_ok_def)
  show ?thesis
    using assms(2) u(2) sc
    by (auto simp: run_uri_def u(1,3) Let_def fieldeq_string_iff join_run_def run_end_def base_uri_def flush_def aget_def)
qed

lemma run_uri_none:
  "endpoint parse ipv6 (strip_fragment raw) = None \<Longrightarrow>
     run_uri parse ipv6 ws data len raw s = Some (s\<lparr>next_weight_idx := next_weight_idx s + 1\<rparr>)"
  by (auto simp: run_uri_def endpoint_def split: option.splits if_splits)

lemma run_inv_step:
  assumes "run_inv parse ipv6 ws data len us s" "length us < length ws" "schemes_ok parse"
  shows "\<exists>s'. run_uri parse ipv6 ws data len raw s = Some s' \<and> run_inv parse ipv6 ws data len (us @ [raw]) s'"
proof (cases "endpoint parse ipv6 (strip_fragment raw)")
  case None
  have "run_end (s\<lparr>next_weight_idx := next_weight_idx s + 1\<rparr>) = run_end s" by (simp add: run_end_def)
  with run_uri_none [OF None] assms(1,2) None show ?thesis by (simp add: run_inv_def jobs_of_snoc)
next
  case (Some e)
  define s1 where "s1 = join_run e s"
  note inv = assms(1) [unfolded run_inv_def]
  have s1: "run_end s1 = e" "run_dang_uri s1 = base_uri e" "all_at parse ipv6 (run_requests s1) e"
    "concat (map call_jobs (run_calls s1)) @ run_requests s1 = concat (map call_jobs (run_calls s)) @ run_requests s"
    "\<forall>c \<in> set (run_calls s1). call_jobs c \<noteq> [] \<and> all_at parse ipv6 (call_jobs c) (call_end c)" "chained (run_calls s1) e"
    using inv assms(3)
    by (auto simp: s1_def join_run_def Let_def flush_def run_end_def call_end_def all_at_def split: if_splits)
  define s2 where "s2 = s1\<lparr>run_requests := run_requests s1 @ [(strip_fragment raw, data, len, ws ! length us)],
      next_weight_idx := length us + 1\<rparr>"
  have "run_uri parse ipv6 ws data len raw s = Some s2"
    using run_uri_endpoint [OF Some _ assms(3)] inv assms(2) by (simp add: s1_def s2_def)
  moreover have "run_inv parse ipv6 ws data len (us @ [raw]) s2"
  proof -
    have "run_end s2 = e" using s1(1) by (simp add: s2_def run_end_def)
    with s1 inv assms(2) Some show ?thesis
      by (simp add: run_inv_def jobs_of_snoc s2_def) (simp add: all_at_def)
  qed
  ultimately show ?thesis by blast
qed

lemma length_fill_weights: "length (fill_weights ws n) = length ws + n"
  by (simp add: fill_weights_def)

lemma run_inv_end:
  assumes "schemes_ok parse"
  shows "\<exists>s. run parse ipv6 failed (fill_weights ws (length uris)) data len uris =
      Some (run_calls (flush s), length (filter failed (run_calls (flush s)))) \<and>
    run_inv parse ipv6 (fill_weights ws (length uris)) data len uris s"
proof -
  let ?ws = "fill_weights ws (length uris)"
  have "\<exists>s. for_each (run_uri parse ipv6 ?ws data len) uris run_init = Some s \<and> run_inv parse ipv6 ?ws data len uris s"
  proof (rule for_each_rule [where I = "run_inv parse ipv6 ?ws data len"])
    show "run_inv parse ipv6 ?ws data len [] run_init" by (simp add: run_inv_def run_init_def jobs_of_def all_at_def)
    show "\<exists>s'. run_uri parse ipv6 ?ws data len raw s = Some s' \<and> run_inv parse ipv6 ?ws data len (us @ [raw]) s'"
      if "uris = us @ raw # rest" "run_inv parse ipv6 ?ws data len us s" for us raw rest s
      using run_inv_step [OF that(2) _ assms] that(1) by (simp add: length_fill_weights)
  qed
  then show ?thesis by (auto simp: run_def Let_def)
qed

text \<open>
  C26: The client opens its connections so that every URI of the command line that parses and has a
  scheme is handed to \<^verbatim>\<open>communicate\<close> once, with its weight and in order, in a call for the scheme, host and
  port it names; a URI that does not parse or has no scheme is skipped, and its weight with it. (How
  often \<^verbatim>\<open>communicate\<close> requests each is \<^verbatim>\<open>config.multiply\<close>, see \<open>call_streams\<close>.)
\<close>

theorem run_accounted:
  assumes "schemes_ok parse" "run parse ipv6 failed (fill_weights ws (length uris)) data len uris = r"
  shows "\<exists>calls n. r = Some (calls, n) \<and> n \<le> length calls \<and>
    concat (map call_jobs calls) = jobs_of parse ipv6 (fill_weights ws (length uris)) data len uris \<and>
    (\<forall>c \<in> set calls. call_jobs c \<noteq> [] \<and> all_at parse ipv6 (call_jobs c) (call_end c))"
proof -
  obtain s where s: "r = Some (run_calls (flush s), length (filter failed (run_calls (flush s))))"
    and inv: "run_inv parse ipv6 (fill_weights ws (length uris)) data len uris s"
    using run_inv_end [OF assms(1)] assms(2) by metis
  from inv have "concat (map call_jobs (run_calls (flush s))) = jobs_of parse ipv6 (fill_weights ws (length uris)) data len uris"
    "\<forall>c \<in> set (run_calls (flush s)). call_jobs c \<noteq> [] \<and> all_at parse ipv6 (call_jobs c) (call_end c)"
    by (auto simp: run_inv_def flush_def call_end_def run_end_def)
  with s show ?thesis by simp
qed

text \<open>
  The base URI of the adaptation is assigned before the requests of the previous host are served:
  every connection but the last is served with the base of the next one, another endpoint.
\<close>

theorem base_of_next_host:
  assumes "schemes_ok parse" "run parse ipv6 failed (fill_weights ws (length uris)) data len uris = Some (calls, n)"
    and "i < length calls"
  shows "call_dang_uri (calls ! i) = base_uri (call_end (calls ! (if Suc i < length calls then Suc i else i))) \<and>
    (Suc i < length calls \<longrightarrow> call_end (calls ! i) \<noteq> call_end (calls ! Suc i))"
proof -
  obtain s where s: "calls = run_calls (flush s)" and inv: "run_inv parse ipv6 (fill_weights ws (length uris)) data len uris s"
    using run_inv_end [OF assms(1), of ipv6 failed ws uris data len] assms(2) by auto
  show ?thesis
  proof (cases "run_requests s = []")
    case True
    then show ?thesis using inv s assms(3) by (simp add: run_inv_def flush_def)
  next
    case False
    define c where "c = \<lparr>call_scheme = prev_scheme s, call_host = prev_host s, call_port = prev_port s,
      call_jobs = run_requests s, call_dang_uri = run_dang_uri s\<rparr>"
    have c: "calls = run_calls s @ [c]" "call_end c = run_end s" "call_dang_uri c = base_uri (run_end s)"
      using False inv by (simp_all add: s flush_def c_def run_inv_def call_end_def run_end_def)
    have ch: "chained (run_calls s) (call_end c)" using False inv assms(1) c(2) by (simp add: run_inv_def)
    show ?thesis
    proof (cases "i < length (run_calls s)")
      case True
      then have "(map call_end (run_calls s) @ [call_end c]) ! Suc i = call_end (calls ! Suc i)"
        by (simp add: c(1) nth_append)
      with ch True show ?thesis by (auto simp: chained_def Let_def c(1) nth_append)
    next
      case last: False
      then have "i = length (run_calls s)" using assms(3) by (simp add: c(1))
      then show ?thesis using c by simp
    qed
  qed
qed

section \<open>The requests of a connection\<close>

text \<open>The state of a new client; \<open>h\<close> holds the globals.\<close>

definition new_client :: "'l Http \<Rightarrow> 'l Http" where
  "new_client h = h\<lparr>reqvec := [], path_set := {}, http_scheme := [], hostport := []\<rparr>"

definition add_job :: "(string \<Rightarrow> Url option) \<Rightarrow> Http_Config \<Rightarrow> Job \<Rightarrow> 'l Http \<Rightarrow> 'l Http" where
  "add_job parse cf = (\<lambda>(uri, data, len, w) x.
     fst (add_request parse cf uri data len (if \<not> cf_no_dep cf then anchor_followers else 0, w) 0
       (x\<lparr>dang_data := data, dang_data_length := len\<rparr>)))"

text \<open>The requests that \<^verbatim>\<open>communicate\<close> adds before it connects, each \<^verbatim>\<open>config.multiply\<close> times.\<close>

definition communicate_requests :: "(string \<Rightarrow> Url option) \<Rightarrow> Http_Config \<Rightarrow> Job list \<Rightarrow> 'l Http \<Rightarrow> 'l Http" where
  "communicate_requests parse cf jobs h =
     update_hostport (fold (\<lambda>j. add_job parse cf j ^^ nat (cf_multiply cf)) jobs (new_client h))"

lemma add_job_times:
  assumes "parse (fst j) \<noteq> None"
  shows "map rq_uri (reqvec ((add_job parse cf j ^^ n) x)) = map rq_uri (reqvec x) @ replicate n (fst j)"
proof (induction n)
  case (Suc n)
  obtain uri data len w where j: "j = (uri, data, len, w)" by (cases j)
  with assms have "map rq_uri (reqvec (add_job parse cf j y)) = map rq_uri (reqvec y) @ [uri]" for y :: "'a Http"
    by (auto simp: add_job_def add_request_def new_request_def)
  then show ?case using Suc by (simp add: j replicate_append_same)
qed simp

lemma add_jobs_uris:
  assumes "\<forall>j \<in> set jobs. parse (fst j) \<noteq> None"
  shows "map rq_uri (reqvec (fold (\<lambda>j. add_job parse cf j ^^ n) jobs x)) =
    map rq_uri (reqvec x) @ concat (map (\<lambda>j. replicate n (fst j)) jobs)"
  using assms by (induction jobs arbitrary: x) (simp_all add: add_job_times)

lemma update_hostport_reqvec [simp]: "reqvec (update_hostport x) = reqvec x"
  by (simp add: update_hostport_def Let_def split: list.splits)

lemma communicate_uris:
  assumes "\<forall>j \<in> set jobs. parse (fst j) \<noteq> None"
  shows "map rq_uri (reqvec (communicate_requests parse cf jobs h)) =
    concat (map (\<lambda>j. replicate (nat (cf_multiply cf)) (fst j)) jobs)"
  by (simp add: communicate_requests_def add_jobs_uris [OF assms] new_client_def)

lemma submit_all_uris: "submit_all L cf host rs l = Some (rs', l') \<Longrightarrow> map rq_uri rs' = map rq_uri rs"
proof (induction rs arbitrary: l rs' l')
  case (Cons r rs)
  then obtain r1 l1 rs1 where r1: "submit_request L cf host (cf_headers cf) r l = (r1, l1, True)"
    and rs1: "submit_all L cf host rs l1 = Some (rs1, l')" and rs': "rs' = r1 # rs1"
    by (auto split: prod.splits bool.splits bind_splits)
  with submit_request_kept [OF r1] Cons.IH [OF rs1] show ?case by simp
qed simp

lemma connection_made_uris:
  assumes "connection_made L cf tls x = Some x'" "library_ok L next"
  shows "map rq_uri (reqvec x') = map rq_uri (reqvec x)"
proof -
  from assms(1) obtain l0 rs l1 l3 n where l0: "client_new L = Some l0" and rs: "upgrade_step L cf x l0 = Some (rs, l1)"
    and sub: "submit_step L cf n rs x l3 = Some x'"
    by (auto simp: connection_made_def Let_def Option.bind_eq_Some_conv)
  have "next l0 = 1" by (rule library_okD(1) [OF assms(2) l0])
  from upgrade_step_ids [OF rs assms(2) this] have "map rq_uri rs = map rq_uri (reqvec x)"
    by (cases "reqvec x") (auto simp: upgraded_def split: if_splits)
  moreover from sub obtain submitted l4 where "submit_all L cf (hostport x) (drop n rs) l3 = Some (submitted, l4)"
    "reqvec x' = take n rs @ submitted"
    by (auto simp: submit_step_def Option.bind_eq_Some_conv)
  then have "map rq_uri (reqvec x') = take n (map rq_uri rs) @ drop n (map rq_uri rs)"
    using submit_all_uris by (fastforce simp: take_map drop_map)
  ultimately show ?thesis by simp
qed

lemma map_take_nth:
  "\<forall>k < length xs. f (xs ! k) = ys ! k \<Longrightarrow> length xs \<le> length ys \<Longrightarrow> map f xs = take (length xs) ys"
  by (intro nth_equalityI) simp_all

text \<open>
  C27: From the command line to the streams: a connection made for a call of \<^verbatim>\<open>communicate\<close> requests
  every URI of the call as often as configured, in order, on streams numbered by twos: from 13 when the
  priority streams are in use, without them (\<^verbatim>\<open>--no-dep\<close>) from 3 after an upgrade and from 1 otherwise; only
  a first request that an upgrade took along is stream 1, and the others count from there.
\<close>

theorem call_streams:
  assumes "schemes_ok parse" "run parse ipv6 failed (fill_weights ws (length uris)) data len uris = Some (calls, n)"
    and "c \<in> set calls" "library_ok L next"
    and "x0 = communicate_requests parse cf (call_jobs c) h" "connection_made L cf tls x0 = Some x"
    and "start = (if \<not> cf_no_dep cf then 13 else if need_upgrade cf x0 then 3 else 1)"
  shows "map (\<lambda>r. (rq_uri r, rq_stream_id r)) (reqvec x) =
    (let us = concat (map (\<lambda>j. replicate (nat (cf_multiply cf)) (fst j)) (call_jobs c))
     in zip us ((if need_upgrade cf x0 \<and> \<not> rq_data (hd (reqvec x0)) then [1] else []) @
          map (\<lambda>k. start + 2 * int k) [0..<length us]))"
proof -
  let ?us = "concat (map (\<lambda>j. replicate (nat (cf_multiply cf)) (fst j)) (call_jobs c))"
  let ?up = "if upgraded cf x0 then 1 else 0 :: nat"
  let ?ids = "(if upgraded cf x0 then [1] else []) @ map (\<lambda>k. first_id cf x0 + 2 * int k) [0..<length ?us]"
  have "all_at parse ipv6 (call_jobs c) (call_end c)"
    using run_inv_end [OF assms(1), of ipv6 failed ws uris data len] assms(2,3)
    by (auto simp: run_inv_def flush_def call_end_def run_end_def split: if_splits)
  then have "\<forall>j \<in> set (call_jobs c). parse (fst j) \<noteq> None"
    by (fastforce simp: all_at_def endpoint_def split: option.splits)
  then have us: "map rq_uri (reqvec x0) = ?us" unfolding assms(5) by (rule communicate_uris)
  then have len: "length (reqvec x0) = length ?us" by (metis length_map)
  note ids = connection_made_ids [OF assms(6,4)]
  have lx: "length (reqvec x) = length ?us" using ids len by simp
  have uris: "map rq_uri (reqvec x) = ?us" using connection_made_uris [OF assms(6,4)] us by simp
  have "rq_stream_id (reqvec x ! k) = ?ids ! k" if "k < length (reqvec x)" for k
  proof (cases "k < ?up")
    case True
    then show ?thesis using ids by (auto split: if_splits)
  next
    case False
    then obtain j where j: "k = j + ?up" by (metis le_add_diff_inverse2 not_less)
    then have "j + ?up < length (reqvec x0)" using that ids by simp
    with ids have "rq_stream_id (reqvec x ! (j + ?up)) = first_id cf x0 + 2 * int j" by blast
    then show ?thesis using j that lx by (simp add: nth_append)
  qed
  then have "\<forall>k < length (reqvec x). rq_stream_id (reqvec x ! k) = ?ids ! k" by blast
  moreover have "length ?us \<le> length ?ids" by simp
  ultimately have "map rq_stream_id (reqvec x) = take (length ?us) ?ids"
    unfolding lx [symmetric] by (rule map_take_nth)
  moreover have "map (\<lambda>r. (rq_uri r, rq_stream_id r)) (reqvec x) = zip (map rq_uri (reqvec x)) (map rq_stream_id (reqvec x))"
    by (simp add: zip_map_fst_snd [symmetric] zip_map1 zip_map2 zip_same_conv_map)
  moreover have "zip ?us (take (length ?us) ?ids) = zip ?us ?ids" using take_zip [of "length ?us" ?us ?ids] by simp
  ultimately show ?thesis using uris by (simp only: Let_def assms(7) first_id_def upgraded_def)
qed

section \<open>The assets of a page\<close>

datatype Resource = REQ_CSS | REQ_JS | REQ_UNBLOCK_JS | REQ_IMG | REQ_OTHERS

definition resolve_dep :: "Http_Config \<Rightarrow> Resource \<Rightarrow> Pri" where
  "resolve_dep cf res_type =
     (if cf_no_dep cf then (0, DEFAULT_WEIGHT)
      else (case res_type of
          REQ_CSS \<Rightarrow> (fst (anchors ! 0), 32)
        | REQ_JS \<Rightarrow> (fst (anchors ! 0), 32)
        | REQ_UNBLOCK_JS \<Rightarrow> (fst (anchors ! 1), 32)
        | REQ_IMG \<Rightarrow> (anchor_followers, 12)
        | REQ_OTHERS \<Rightarrow> (anchor_followers, 32)))"

definition same_origin :: "string \<Rightarrow> Url \<Rightarrow> Request \<Rightarrow> bool" where
  "same_origin uri u req \<longleftrightarrow> fieldeq uri u (rq_uri req) (rq_u req) UF_SCHEMA \<and>
     fieldeq uri u (rq_uri req) (rq_u req) UF_HOST \<and> porteq uri u (rq_uri req) (rq_u req)"

definition add_asset ::
  "'l Library \<Rightarrow> (string \<Rightarrow> Url option) \<Rightarrow> Http_Config \<Rightarrow> Request \<Rightarrow> string \<times> Resource \<Rightarrow> 'l Http \<Rightarrow> 'l Http" where
  "add_asset L parse cf req = (\<lambda>(link, res_type) x.
     (let uri = strip_fragment link in
      case parse uri of
        None \<Rightarrow> x
      | Some u \<Rightarrow>
          if same_origin uri u req
          then let (x, added) = add_request parse cf uri False 0 (resolve_dep cf res_type) (rq_level req + 1) x
               in if added
                  then let (r, l, _) = submit_request L cf (hostport x) (cf_headers cf) (last (reqvec x)) (http_session x)
                       in x\<lparr>reqvec := butlast (reqvec x) @ [r], http_session := l\<rparr>
                  else x
          else x))"

text \<open>\<open>links\<close> are those the HTML parser has found; there is a parser for requests of level 0 only.\<close>

definition update_html_parser ::
  "'l Library \<Rightarrow> (string \<Rightarrow> Url option) \<Rightarrow> Http_Config \<Rightarrow> bool \<Rightarrow> (string \<times> Resource) list \<Rightarrow> Request \<Rightarrow> 'l Http \<Rightarrow> 'l Http" where
  "update_html_parser L parse cf parser links req x = (if \<not> parser then x else fold (add_asset L parse cf req) links x)"

lemma submit_request_level: "submit_request L cf host headers req l = (req', l', ok) \<Longrightarrow>
    rq_level req' = rq_level req \<and> rq_u req' = rq_u req \<and> rq_data req' = rq_data req"
  by (auto simp: submit_request_def Let_def split: prod.splits if_splits)

definition asset_of :: "Request \<Rightarrow> Request \<Rightarrow> bool" where
  "asset_of req r \<longleftrightarrow> rq_level r = rq_level req + 1 \<and> \<not> rq_data r \<and> same_origin (rq_uri r) (rq_u r) req"

lemma add_asset_adds:
  "\<exists>rs. reqvec (add_asset L parse cf req a x) = reqvec x @ rs \<and> (\<forall>r \<in> set rs. asset_of req r) \<and> length rs \<le> 1 \<and>
     http_cur_id (add_asset L parse cf req a x) = http_cur_id x"
proof -
  obtain link t where a: "a = (link, t)" by (cases a)
  let ?uri = "strip_fragment link"
  show ?thesis
  proof (cases "\<exists>u. parse ?uri = Some u \<and> same_origin ?uri u req")
    case True
    then obtain u where u: "parse ?uri = Some u" "same_origin ?uri u req" by blast
    define x1 where "x1 = fst (add_request parse cf ?uri False 0 (resolve_dep cf t) (rq_level req + 1) x)"
    let ?new = "new_request ?uri u False 0 (resolve_dep cf t) (rq_level req + 1)"
    have x1: "add_request parse cf ?uri False 0 (resolve_dep cf t) (rq_level req + 1) x = (x1, True)"
      "reqvec x1 = reqvec x @ [?new]" "http_cur_id x1 = http_cur_id x"
      using u(1) by (simp_all add: x1_def add_request_def)
    obtain r l ok where r: "submit_request L cf (hostport x1) (cf_headers cf) ?new (http_session x1) = (r, l, ok)"
      by (metis prod_cases3)
    have "asset_of req r"
      using submit_request_kept [OF r] submit_request_level [OF r] u(2)
      by (simp add: asset_of_def new_request_def)
    then show ?thesis by (simp add: a add_asset_def u x1 r)
  next
    case False
    then show ?thesis by (intro exI [of _ "[]"]) (auto simp: a add_asset_def Let_def split: option.splits)
  qed
qed

text \<open>
  A page can make the client request only what lies on its own scheme, host and port, at most
  once for each link, and these requests are not counted by the adaptation.
\<close>

theorem assets_same_origin:
  "\<exists>rs. reqvec (update_html_parser L parse cf parser links req x) = reqvec x @ rs \<and> length rs \<le> length links \<and>
     list_all (\<lambda>r. rq_level r = rq_level req + 1 \<and> same_origin (rq_uri r) (rq_u r) req) rs \<and>
     http_cur_id (update_html_parser L parse cf parser links req x) = http_cur_id x"
proof (cases parser)
  case True
  have "\<exists>rs. reqvec (fold (add_asset L parse cf req) links x) = reqvec x @ rs \<and> length rs \<le> length links \<and>
      list_all (asset_of req) rs \<and> http_cur_id (fold (add_asset L parse cf req) links x) = http_cur_id x"
  proof (induction links arbitrary: x)
    case (Cons a links)
    obtain rs1 where "reqvec (add_asset L parse cf req a x) = reqvec x @ rs1" "list_all (asset_of req) rs1" "length rs1 \<le> 1"
      "http_cur_id (add_asset L parse cf req a x) = http_cur_id x"
      using add_asset_adds [of L parse cf req a x] by (auto simp: list_all_iff)
    moreover obtain rs2 where "reqvec (fold (add_asset L parse cf req) links (add_asset L parse cf req a x))
        = reqvec (add_asset L parse cf req a x) @ rs2" "length rs2 \<le> length links" "list_all (asset_of req) rs2"
      "http_cur_id (fold (add_asset L parse cf req) links (add_asset L parse cf req a x)) = http_cur_id (add_asset L parse cf req a x)"
      using Cons.IH by blast
    ultimately show ?case by (intro exI [of _ "rs1 @ rs2"]) simp
  qed simp
  then obtain rs where rs: "reqvec (fold (add_asset L parse cf req) links x) = reqvec x @ rs" "length rs \<le> length links"
    "list_all (asset_of req) rs" "http_cur_id (fold (add_asset L parse cf req) links x) = http_cur_id x" by blast
  then have "list_all (\<lambda>r. rq_level r = rq_level req + 1 \<and> same_origin (rq_uri r) (rq_u r) req) rs"
    by (auto simp: list_all_iff asset_of_def)
  with rs True show ?thesis by (simp add: update_html_parser_def)
next
  case False
  then show ?thesis by (simp add: update_html_parser_def)
qed

section \<open>The body of an upload\<close>

datatype Read_Result = Temporal_Failure | Callback_Failure | Chunk int bool bool

text \<open>
  One call of the read callback. \<open>nread\<close> is what \<^verbatim>\<open>pread\<close> returns at the offset, \<open>rv\<close> what the library says to
  the trailer; the flags of a chunk are \<^verbatim>\<open>EOF\<close> and \<^verbatim>\<open>NO_END_STREAM\<close>.
\<close>

definition file_read :: "(int \<Rightarrow> bool) \<Rightarrow> bool \<Rightarrow> int \<Rightarrow> int \<Rightarrow> int \<Rightarrow> int \<Rightarrow> int \<times> Read_Result" where
  "file_read fatal trailer rv len nread off =
     (if nread = -1 then (off, Temporal_Failure)
      else let off = off + nread in
        if off = len
        then (off, if trailer then (if rv \<noteq> 0 then (if fatal rv then Callback_Failure else Chunk nread True False)
                                    else Chunk nread True True)
                   else Chunk nread True False)
        else if off > len \<or> nread = 0 then (off, Temporal_Failure)
        else (off, Chunk nread False False))"

text \<open>The library calls it with buffers of the lengths \<open>bufs\<close> until a chunk is the last one.\<close>

fun upload :: "(int \<Rightarrow> bool) \<Rightarrow> bool \<Rightarrow> int \<Rightarrow> string \<Rightarrow> int \<Rightarrow> nat list \<Rightarrow> int \<Rightarrow> string \<times> Read_Result list" where
  "upload fatal trailer rv file len [] off = ([], [])"
| "upload fatal trailer rv file len (b # bufs) off =
     (let chunk = take b (drop (nat off) file);
          (off, res) = file_read fatal trailer rv len (int (length chunk)) off
      in case res of
           Chunk _ False _ \<Rightarrow> (let (text, rs) = upload fatal trailer rv file len bufs off in (chunk @ text, res # rs))
         | Chunk _ True _ \<Rightarrow> (chunk, [res])
         | _ \<Rightarrow> ([], [res]))"

lemma upload_from:
  assumes "off \<le> length file" "bufs \<noteq> []" "list_all ((<) 0) bufs" "length file \<le> off + sum_list bufs"
  shows "\<exists>rs n. upload fatal trailer 0 file (int (length file)) bufs (int off) = (drop off file, rs @ [Chunk n True trailer])"
  using assms
proof (induction bufs arbitrary: off)
  case (Cons b bufs)
  define k where "k = min b (length file - off)"
  have k: "length (take b (drop off file)) = k" by (simp add: k_def)
  show ?case
  proof (cases "off + k = length file")
    case True
    then have "int off + int k = int (length file)" by simp
    then have "file_read fatal trailer 0 (int (length file)) (int (length (take b (drop off file)))) (int off) =
        (int (length file), Chunk (int k) True trailer)"
      unfolding k by (simp add: file_read_def)
    moreover have "take b (drop off file) = drop off file" using True by (simp add: k_def)
    ultimately show ?thesis by (simp add: Let_def del: length_take)
  next
    case False
    then have less: "off + k < length file" "k = b" "0 < b" using Cons.prems by (auto simp: k_def)
    then have r: "file_read fatal trailer 0 (int (length file)) (int (length (take b (drop off file)))) (int off) =
        (int (off + k), Chunk (int k) False False)"
      unfolding k by (simp add: file_read_def)
    have "bufs \<noteq> []" using less Cons.prems(4) by auto
    with Cons.IH [of "off + k"] less Cons.prems obtain rs n where
      ih: "upload fatal trailer 0 file (int (length file)) bufs (int (off + k)) = (drop (off + k) file, rs @ [Chunk n True trailer])"
      by auto
    have "take b (drop off file) @ drop (off + k) file = drop off file"
      by (simp add: less(2) add.commute flip: drop_drop)
    with r ih show ?thesis by (simp add: Let_def del: length_take)
  qed
qed simp

text \<open>
  The body of an upload is the whole file: whatever the sizes of the buffers, the chunks add up to
  the file, and the last one is marked as such, once; the trailer, if there is one, ends the stream.
\<close>

theorem upload_whole_file:
  assumes "bufs \<noteq> []" "list_all ((<) 0) bufs" "length file \<le> sum_list bufs"
  shows "\<exists>rs n. upload fatal trailer 0 file (int (length file)) bufs 0 = (file, rs @ [Chunk n True trailer])"
  using upload_from [of 0] assms by simp

theorem upload_whole_file_witness:
  "upload (\<lambda>_. False) True 0 ''abcde'' 5 [2, 2, 2] 0 =
     (''abcde'', [Chunk 2 False False, Chunk 2 False False, Chunk 1 True True])"
  using upload_whole_file [of "[2, 2, 2]" "''abcde''" "\<lambda>_. False" True] by (simp add: file_read_def Let_def)

section \<open>Demonstration\<close>

text \<open>A parser for \<^verbatim>\<open>http\<close> URIs whose host has eight and whose port four characters.\<close>

definition run_parse :: "string \<Rightarrow> Url option" where
  "run_parse uri = (if take 7 uri = ''http://'' \<and> 20 \<le> length uri
     then Some \<lparr>field_data = (\<lambda>_. None)(UF_SCHEMA := Some (0, 4), UF_HOST := Some (7, 8), UF_PORT := Some (16, 4),
       UF_PATH := Some (20, length uri - 20)), u_port = 3002\<rparr>
     else None)"

definition demo_uris :: "string list" where
  "demo_uris = [''http://10.0.0.1:3002/a#top'', ''ftp:'', ''http://10.0.0.1:3002/b'', ''http://10.0.0.2:3002/c'']"

definition demo_calls :: "Call list" where
  "demo_calls =
     [\<lparr>call_scheme = ''http'', call_host = ''10.0.0.1'', call_port = 3002,
       call_jobs = [(''http://10.0.0.1:3002/a'', False, 0, 8), (''http://10.0.0.1:3002/b'', False, 0, 32)],
       call_dang_uri = ''http://10.0.0.2:3002''\<rparr>,
      \<lparr>call_scheme = ''http'', call_host = ''10.0.0.2'', call_port = 3002,
       call_jobs = [(''http://10.0.0.2:3002/c'', False, 0, 32)],
       call_dang_uri = ''http://10.0.0.2:3002''\<rparr>]"

lemma run_parse_schemes: "schemes_ok run_parse"
  by (auto simp: schemes_ok_def run_parse_def get_uri_field_def has_uri_field_def split: if_splits)

lemma demo_port: "print_int 3002 = ''3002''"
  by code_simp

lemma demo_run: "run run_parse (\<lambda>_. False) (\<lambda>_. False) (fill_weights [8, 16, 32] (length demo_uris)) False 0 demo_uris
    = Some (demo_calls, 0)"
  by (simp add: run_def demo_uris_def demo_calls_def fill_weights_def run_uri_def run_init_def run_parse_def flush_def
      fieldeq_string_iff has_uri_field_def get_uri_field_def port_of_def decode_host_def aget_def demo_port)

theorem run_accounted_witness:
  "concat (map call_jobs demo_calls) =
     [(''http://10.0.0.1:3002/a'', False, 0, 8), (''http://10.0.0.1:3002/b'', False, 0, 32), (''http://10.0.0.2:3002/c'', False, 0, 32)]
   \<and> jobs_of run_parse (\<lambda>_. False) (fill_weights [8, 16, 32] (length demo_uris)) False 0 demo_uris =
     concat (map call_jobs demo_calls)"
  using run_accounted [OF run_parse_schemes demo_run] by (simp add: demo_calls_def)

theorem base_of_next_host_witness:
  "length demo_calls = 2 \<and> call_end (demo_calls ! 0) = (''http'', ''10.0.0.1'', 3002) \<and>
     call_dang_uri (demo_calls ! 0) = base_uri (''http'', ''10.0.0.2'', 3002)"
proof -
  have "length demo_calls = 2" "call_end (demo_calls ! 0) = (''http'', ''10.0.0.1'', 3002)"
    "call_end (demo_calls ! 1) = (''http'', ''10.0.0.2'', 3002)"
    by (simp_all add: demo_calls_def call_end_def)
  with base_of_next_host [OF run_parse_schemes demo_run, of 0] show ?thesis by simp
qed

lemma demo_submits: "0 \<le> l \<Longrightarrow> \<exists>y. submit_all demo_library demo_http_config host rs l = Some y"
proof (induction rs arbitrary: l)
  case (Cons r rs)
  obtain r' where "submit_request demo_library demo_http_config host (cf_headers demo_http_config) r l = (r', l + 2, True)"
    using demo_submit [OF Cons.prems] by blast
  moreover obtain y where "submit_all demo_library demo_http_config host rs (l + 2) = Some y" using Cons by fastforce
  ultimately show ?case by (simp split: prod.splits)
qed simp

lemma demo_connects: "\<exists>x'. connection_made demo_library demo_http_config None x = Some x'"
proof -
  have n: "\<not> need_upgrade demo_http_config x" by (simp add: need_upgrade_def demo_http_config_def)
  have "check_protocol None = Some ()" "client_new demo_library = Some 1"
    by (simp_all add: check_protocol_def demo_library_def)
  moreover have "upgrade_step demo_library demo_http_config x 1 = Some (reqvec x, 1)"
    using n by (simp add: upgrade_step_def demo_library_def)
  moreover have "priority_step demo_library demo_http_config False w 1 = Some 13" for w
    by (simp add: priority_step_def demo_http_config_def demo_library_def anchors_def anchor_followers_def)
  moreover have "window_step demo_library demo_http_config 13 = Some 13" by (simp add: window_step_def demo_http_config_def)
  moreover obtain x' where "submit_step demo_library demo_http_config 0 (reqvec x) x 13 = Some x'"
    using demo_submits [of 13 "hostport x" "reqvec x"] by (auto simp: submit_step_def)
  moreover have "(need_upgrade demo_http_config x \<and> b) = False" for b using n by simp
  ultimately show ?thesis by (simp only: connection_made_def Let_def bind.bind_lunit prod.case if_False) simp
qed

theorem call_streams_witness:
  "\<exists>x. connection_made demo_library demo_http_config None
       (communicate_requests run_parse demo_http_config (call_jobs (demo_calls ! 0)) demo_http) = Some x \<and>
     map (\<lambda>r. (rq_uri r, rq_stream_id r)) (reqvec x) = [(''http://10.0.0.1:3002/a'', 13), (''http://10.0.0.1:3002/b'', 15)]"
proof -
  obtain x where x: "connection_made demo_library demo_http_config None
       (communicate_requests run_parse demo_http_config (call_jobs (demo_calls ! 0)) demo_http) = Some x"
    using demo_connects by blast
  have c: "demo_calls ! 0 \<in> set demo_calls" by (simp add: demo_calls_def)
  have us: "concat (map (\<lambda>j. replicate (nat (cf_multiply demo_http_config)) (fst j)) (call_jobs (demo_calls ! 0))) =
      [''http://10.0.0.1:3002/a'', ''http://10.0.0.1:3002/b'']"
    by (simp add: demo_http_config_def demo_calls_def)
  from call_streams [OF run_parse_schemes demo_run c demo_library_ok HOL.refl x HOL.refl]
  have "map (\<lambda>r. (rq_uri r, rq_stream_id r)) (reqvec x) = [(''http://10.0.0.1:3002/a'', 13), (''http://10.0.0.1:3002/b'', 15)]"
    unfolding us Let_def by (simp add: demo_http_config_def need_upgrade_def)
  with x show ?thesis by (intro exI conjI)
qed

end
