(* ===== verification/Client_Options.thy ===== *)
theory Client_Options
  imports Client_Run
begin

text \<open>
  The options of the client: the numbers with units of \<^verbatim>\<open>util.cc\<close>, and what \<^verbatim>\<open>main\<close> of \<^verbatim>\<open>nghttp.cc\<close>
  makes of each option. Splitting the arguments into options is \<^verbatim>\<open>getopt_long\<close>, a library function.
\<close>

section \<open>Numbers with units\<close>

definition INT64_MAX :: int where "INT64_MAX = 2 ^ 63 - 1"

text \<open>The loop over the digits: the number and how many there are; \<open>None\<close> is a number that is too large.\<close>

fun digits_loop :: "string \<Rightarrow> int \<Rightarrow> nat \<Rightarrow> (int \<times> nat) option" where
  "digits_loop [] n i = Some (n, i)"
| "digits_loop (c # cs) n i =
     (if is_digit c
      then if n > INT64_MAX div 10 then None
           else if n * 10 > INT64_MAX - digit_of c then None
           else digits_loop cs (n * 10 + digit_of c) (i + 1)
      else Some (n, i))"

definition parse_uint_digits :: "string \<Rightarrow> int \<times> nat" where
  "parse_uint_digits s =
     (if s = [] then (-1, 0)
      else (case digits_loop s 0 0 of
          None \<Rightarrow> (-1, 0)
        | Some (n, i) \<Rightarrow> (if i = 0 then (-1, 0) else (n, i))))"

definition unit_mul :: "char \<Rightarrow> int option" where
  "unit_mul c =
     (if c = CHR ''K'' \<or> c = CHR ''k'' then Some (2 ^ 10)
      else if c = CHR ''M'' \<or> c = CHR ''m'' then Some (2 ^ 20)
      else if c = CHR ''G'' \<or> c = CHR ''g'' then Some (2 ^ 30)
      else None)"

definition parse_uint_with_unit :: "string \<Rightarrow> int" where
  "parse_uint_with_unit s =
     (let (n, i) = parse_uint_digits s in
      if n = -1 then -1
      else if i = length s then n
      else if i + 1 \<noteq> length s then -1
      else (case unit_mul (s ! i) of
          None \<Rightarrow> -1
        | Some mul \<Rightarrow> (if n > INT64_MAX div mul then -1 else n * mul)))"

text \<open>A duration in seconds; \<open>None\<close> is infinity, the value for a failure.\<close>

definition parse_duration_with_unit :: "string \<Rightarrow> rat option" where
  "parse_duration_with_unit s =
     (let (n, i) = parse_uint_digits s in
      if n = -1 then None
      else if i = length s then Some (of_int n)
      else if s ! i \<in> {CHR ''S'', CHR ''s''} then (if i + 1 \<noteq> length s then None else Some (of_int n))
      else if s ! i \<in> {CHR ''M'', CHR ''m''}
      then if i + 1 = length s
           then (if n > INT64_MAX div 60 then None else Some (of_int n * 60))
           else (if i + 2 \<noteq> length s \<or> s ! (i + 1) \<noteq> CHR ''s'' \<and> s ! (i + 1) \<noteq> CHR ''S'' then None
                 else Some (of_int n / 1000))
      else if s ! i \<in> {CHR ''H'', CHR ''h''}
      then if i + 1 \<noteq> length s then None
           else if n > INT64_MAX div 3600 then None else Some (of_int n * 3600)
      else None)"

section \<open>What the numbers mean\<close>

lemma digit_of_range: "is_digit c \<Longrightarrow> 0 \<le> digit_of c \<and> digit_of c \<le> 9"
  by (rule digit_bounds)

lemma number_from_grows:
  "0 \<le> n \<Longrightarrow> \<forall>c \<in> set ds. is_digit c \<Longrightarrow> n \<le> foldl (\<lambda>v d. 10 * v + digit_of d) n ds"
proof (induction ds arbitrary: n)
  case (Cons c ds)
  then have "n \<le> 10 * n + digit_of c" "0 \<le> 10 * n + digit_of c" using digit_of_range [of c] by auto
  with Cons show ?case by fastforce
qed simp

lemma digits_loop_value:
  assumes "0 \<le> n" "n \<le> INT64_MAX"
  shows "digits_loop s n i =
    (let ds = takeWhile is_digit s; v = foldl (\<lambda>v d. 10 * v + digit_of d) n ds
     in if v \<le> INT64_MAX then Some (v, i + length ds) else None)"
  using assms
proof (induction s arbitrary: n i)
  case (Cons c s)
  show ?case
  proof (cases "is_digit c")
    case True
    note d = digit_of_range [OF True]
    show ?thesis
    proof (cases "10 * n + digit_of c \<le> INT64_MAX")
      case le: True
      then have "\<not> n > INT64_MAX div 10" "\<not> n * 10 > INT64_MAX - digit_of c" using d by linarith+
      with True d Cons.prems(1) le show ?thesis
        by (simp add: Cons.IH [of "n * 10 + digit_of c"] mult.commute Let_def)
    next
      case gt: False
      then have "digits_loop (c # s) n i = None" using True by simp
      moreover have "10 * n + digit_of c \<le> foldl (\<lambda>v d. 10 * v + digit_of d) (10 * n + digit_of c) (takeWhile is_digit s)"
      proof (rule number_from_grows)
        show "0 \<le> 10 * n + digit_of c" using d Cons.prems(1) by simp
        show "\<forall>c \<in> set (takeWhile is_digit s). is_digit c" by (auto dest: set_takeWhileD)
      qed
      ultimately show ?thesis using True gt by (simp add: Let_def)
    qed
  next
    case False
    then show ?thesis using Cons.prems by simp
  qed
qed simp

lemma number_of_nonneg: "\<forall>c \<in> set ds. is_digit c \<Longrightarrow> 0 \<le> number_of ds"
  unfolding number_of_def by (rule number_from_grows) simp_all

lemma parse_uint_digits_value:
  "parse_uint_digits s = (let ds = takeWhile is_digit s
     in if ds = [] \<or> number_of ds > INT64_MAX then (-1, 0) else (number_of ds, length ds))"
  using digits_loop_value [of 0 s 0]
  by (auto simp: parse_uint_digits_def number_of_def Let_def INT64_MAX_def split: if_splits)

lemma unit_mul_range: "unit_mul c = Some m \<Longrightarrow> 0 < m \<and> \<not> is_digit c"
  by (auto simp: unit_mul_def is_digit_def split: if_splits)

lemma le_div_iff: "0 < (m :: int) \<Longrightarrow> n \<le> k div m \<longleftrightarrow> n * m \<le> k"
proof
  assume m: "0 < m" "n \<le> k div m"
  then have "n * m \<le> k div m * m" by simp
  also have "\<dots> \<le> k" using div_mult_mod_eq [of k m] pos_mod_sign [OF m(1), of k] by linarith
  finally show "n * m \<le> k" .
next
  assume m: "0 < m" "n * m \<le> k"
  then show "n \<le> k div m" using zdiv_mono1 [OF m(2,1)] by simp
qed

text \<open>The value by the unit that follows the digits.\<close>

lemma parse_uint_by_unit:
  "parse_uint_with_unit s = (let ds = takeWhile is_digit s; v = number_of ds in
     if ds = [] \<or> v > INT64_MAX then -1
     else (case dropWhile is_digit s of
         [] \<Rightarrow> v
       | [c] \<Rightarrow> (case unit_mul c of None \<Rightarrow> -1 | Some m \<Rightarrow> if v * m > INT64_MAX then -1 else v * m)
       | _ \<Rightarrow> -1))"
proof -
  let ?ds = "takeWhile is_digit s" and ?u = "dropWhile is_digit s"
  have len: "length s = length ?ds + length ?u" by (metis length_append takeWhile_dropWhile_id)
  have nth: "s ! length ?ds = hd ?u" if "?u \<noteq> []"
  proof -
    have "(?ds @ ?u) ! length ?ds = hd ?u"
      using that by (simp add: nth_append hd_conv_nth del: takeWhile_dropWhile_id)
    then show ?thesis by simp
  qed
  have pos: "0 \<le> number_of ?ds" by (rule number_of_nonneg) (auto dest: set_takeWhileD)
  have m: "unit_mul c = Some m \<Longrightarrow> number_of ?ds > INT64_MAX div m \<longleftrightarrow> number_of ?ds * m > INT64_MAX" for c m
    using le_div_iff [of m "number_of ?ds" INT64_MAX] unit_mul_range by auto
  show ?thesis
  proof (cases "?ds = [] \<or> number_of ?ds > INT64_MAX")
    case True
    then show ?thesis by (auto simp: parse_uint_with_unit_def parse_uint_digits_value Let_def)
  next
    case False
    then have p: "parse_uint_digits s = (number_of ?ds, length ?ds)" by (simp add: parse_uint_digits_value Let_def)
    show ?thesis
    proof (cases ?u)
      case Nil
      then have "length ?ds = length s" using len by simp
      with False pos show ?thesis unfolding parse_uint_with_unit_def p Nil by (simp add: Let_def)
    next
      case (Cons c cs)
      then have "s ! length ?ds = c" "length s = Suc (length ?ds + length cs)" using nth len by simp_all
      with False pos m show ?thesis
        unfolding parse_uint_with_unit_def p Cons by (cases cs) (auto simp: Let_def split: option.splits)
    qed
  qed
qed

text \<open>
  A size is accepted exactly if it is a decimal number, possibly followed by one of the units K, M
  and G, whose product is a 64-bit integer, and this product is its value; nothing overflows.
\<close>

theorem parse_uint_with_unit_iff:
  "parse_uint_with_unit s = v \<and> v \<noteq> -1 \<longleftrightarrow>
     (\<exists>ds u m. s = ds @ u \<and> ds \<noteq> [] \<and> list_all is_digit ds \<and>
        (u = [] \<and> m = 1 \<or> (\<exists>c. u = [c] \<and> unit_mul c = Some m)) \<and> v = number_of ds * m \<and> v \<le> INT64_MAX)"
  (is "?L \<longleftrightarrow> ?R")
proof
  let ?ds = "takeWhile is_digit s" and ?u = "dropWhile is_digit s"
  have all: "list_all is_digit ?ds" by (auto simp: list_all_iff dest: set_takeWhileD)
  have s: "s = ?ds @ ?u" by simp
  assume ?L
  then consider "?u = []" "v = number_of ?ds" "?ds \<noteq> []" "v \<le> INT64_MAX"
    | c m where "?u = [c]" "unit_mul c = Some m" "v = number_of ?ds * m" "?ds \<noteq> []" "v \<le> INT64_MAX"
    by (auto simp: parse_uint_by_unit Let_def split: if_splits list.splits option.splits)
  then show ?R
  proof cases
    case 1
    show ?thesis by (rule exI [of _ ?ds], rule exI [of _ ?u], rule exI [of _ 1]) (use 1 all s in simp)
  next
    case (2 c m)
    show ?thesis by (rule exI [of _ ?ds], rule exI [of _ ?u], rule exI [of _ m]) (use 2 all s in simp)
  qed
next
  assume ?R
  then obtain ds u m where r: "s = ds @ u" "ds \<noteq> []" "list_all is_digit ds"
    "u = [] \<and> m = 1 \<or> (\<exists>c. u = [c] \<and> unit_mul c = Some m)" "v = number_of ds * m" "v \<le> INT64_MAX" by blast
  have u: "takeWhile is_digit u = []" "dropWhile is_digit u = u" "0 < m" using r(4) unit_mul_range by auto
  have t: "takeWhile is_digit s = ds" "dropWhile is_digit s = u"
    using r(3) u by (auto simp: r(1) list_all_iff takeWhile_append dropWhile_append)
  have pos: "0 \<le> number_of ds" using r(3) by (intro number_of_nonneg) (simp add: list_all_iff)
  have "number_of ds * 1 \<le> number_of ds * m" using pos u(3) by (intro mult_left_mono) simp_all
  then have "number_of ds \<le> INT64_MAX" using r(5,6) by simp
  moreover have "0 \<le> v" using r(5) pos u(3) by simp
  ultimately show ?L using r t by (auto simp: parse_uint_by_unit Let_def)
qed

section \<open>The options\<close>

text \<open>\<^verbatim>\<open>strtoul\<close> of base 10: the value, the rest of the text, and whether the number is in range.\<close>

definition ULONG_MAX :: int where "ULONG_MAX = 2 ^ 64 - 1"

definition strtoul :: "string \<Rightarrow> int \<times> string \<times> bool" where
  "strtoul str =
     (let (sg, s) = read_sign (dropWhile is_space str); ds = takeWhile is_digit s; rest = dropWhile is_digit s
      in if ds = [] then (0, str, True)
         else if number_of ds > ULONG_MAX then (ULONG_MAX, rest, False)
         else (sg * number_of ds mod 2 ^ 64, rest, True))"

definition to_int32 :: "int \<Rightarrow> int" where
  "to_int32 v = (v + 2 ^ 31) mod 2 ^ 32 - 2 ^ 31"

record Options =
  opt_cf :: Http_Config
  opt_weight :: "int list"
  opt_timeout :: rat
  opt_encoder_header_table_size :: int
  opt_peer_max_concurrent_streams :: int
  opt_get_assets :: bool
  opt_datafile :: string

definition options_init :: "string \<Rightarrow> Options" where
  "options_init version = \<lparr>
     opt_cf = \<lparr>cf_headers = [], cf_trailer = [], cf_header_table_size = -1, cf_min_header_table_size = 2 ^ 32 - 1,
       cf_max_concurrent_streams = 100, cf_multiply = 1, cf_window_bits = -1, cf_connection_window_bits = -1,
       cf_upgrade = False, cf_continuation = False, cf_no_content_length = False, cf_no_dep = False, cf_no_push = False,
       cf_expect_continue = False, cf_version = version\<rparr>,
     opt_weight = [], opt_timeout = 0, opt_encoder_header_table_size = -1, opt_peer_max_concurrent_streams = 100,
     opt_get_assets = False, opt_datafile = []\<rparr>"

text \<open>
  The options, with their arguments. \<open>Opt_other\<close> stands for those that set what the model does not use
  (verbosity, colours, padding, certificates, statistics).
\<close>

datatype Client_Option = Opt_M string | Opt_h | Opt_p string | Opt_t string | Opt_u | Opt_w string | Opt_W string
  | Opt_H string | Opt_a | Opt_d string | Opt_m string | Opt_c string | Opt_unknown | Opt_continuation | Opt_version
  | Opt_no_content_length | Opt_no_dep | Opt_trailer string | Opt_no_push | Opt_max_concurrent_streams string
  | Opt_expect_continue | Opt_encoder_header_table_size string | Opt_other

text \<open>The client exits with a status, goes on, or does something undefined.\<close>

datatype Outcome = Undefined | Exit bool | Go Options

definition map_cf :: "(Http_Config \<Rightarrow> Http_Config) \<Rightarrow> Options \<Rightarrow> Options" where
  "map_cf f opts = opts\<lparr>opt_cf := f (opt_cf opts)\<rparr>"

text \<open>The text after the colon at a position, without leading blanks; a header line if something is left.\<close>

definition header_at :: "string \<Rightarrow> int \<Rightarrow> Header option" where
  "header_at arg pos =
     (let v = dropWhile is_space (drop (nat pos + 1) arg)
      in if v = [] then None else Some (map lowcase (take (nat pos) arg), v, False))"

definition set_header :: "string \<Rightarrow> Options \<Rightarrow> Outcome" where
  "set_header arg opts =
     (if arg = [] then Undefined
      else (case find_char (CHR '':'') (drop 1 arg) of
          None \<Rightarrow> Exit False
        | Some k \<Rightarrow>
            if hd arg = CHR '':'' \<and> k + 1 = 1 then Exit False
            else (case header_at arg (k + 1) of
                None \<Rightarrow> Exit False
              | Some h \<Rightarrow> Go (map_cf (\<lambda>cf. cf\<lparr>cf_headers := cf_headers cf @ [h]\<rparr>) opts))))"

definition set_trailer :: "string \<Rightarrow> Options \<Rightarrow> Outcome" where
  "set_trailer arg opts = (case find_char (CHR '':'') arg of
     None \<Rightarrow> Exit False
   | Some k \<Rightarrow> (case header_at arg k of
         None \<Rightarrow> Exit False
       | Some h \<Rightarrow> Go (map_cf (\<lambda>cf. cf\<lparr>cf_trailer := cf_trailer cf @ [h]\<rparr>) opts)))"

definition set_weight :: "string \<Rightarrow> Options \<Rightarrow> Outcome" where
  "set_weight arg opts =
     (let (n, _, in_range) = strtoul arg
      in if in_range \<and> 1 \<le> n \<and> n \<le> 256 then Go (opts\<lparr>opt_weight := opt_weight opts @ [n]\<rparr>) else Exit False)"

definition set_window_bits :: "bool \<Rightarrow> string \<Rightarrow> Options \<Rightarrow> Outcome" where
  "set_window_bits stream arg opts =
     (let (n, rest, in_range) = strtoul arg
      in if in_range \<and> rest = [] \<and> n < 31
         then Go (map_cf (\<lambda>cf. if stream then cf\<lparr>cf_window_bits := n\<rparr> else cf\<lparr>cf_connection_window_bits := n\<rparr>) opts)
         else Exit False)"

definition set_header_table_size :: "string \<Rightarrow> Options \<Rightarrow> Outcome" where
  "set_header_table_size arg opts =
     (let n = parse_uint_with_unit arg
      in if n = -1 then Exit False
         else if n > 2 ^ 32 - 1 then Exit False
         else Go (map_cf (\<lambda>cf. cf\<lparr>cf_header_table_size := n,
                                  cf_min_header_table_size := min (cf_min_header_table_size cf) n\<rparr>) opts))"

definition set_encoder_table_size :: "string \<Rightarrow> Options \<Rightarrow> Outcome" where
  "set_encoder_table_size arg opts =
     (let n = parse_uint_with_unit arg
      in if n = -1 then Exit False
         else if n > 2 ^ 32 - 1 then Exit False
         else Go (opts\<lparr>opt_encoder_header_table_size := n\<rparr>))"

definition set_timeout :: "string \<Rightarrow> Options \<Rightarrow> Outcome" where
  "set_timeout arg opts = (case parse_duration_with_unit arg of
     None \<Rightarrow> Exit False
   | Some t \<Rightarrow> Go (opts\<lparr>opt_timeout := t\<rparr>))"

fun set_option :: "Client_Option \<Rightarrow> Options \<Rightarrow> Outcome" where
  "set_option (Opt_M arg) opts = Go (opts\<lparr>opt_peer_max_concurrent_streams := fst (strtoul arg)\<rparr>)"
| "set_option Opt_h opts = Exit True"
| "set_option (Opt_p arg) opts = set_weight arg opts"
| "set_option (Opt_t arg) opts = set_timeout arg opts"
| "set_option Opt_u opts = Go (map_cf (\<lambda>cf. cf\<lparr>cf_upgrade := True\<rparr>) opts)"
| "set_option (Opt_w arg) opts = set_window_bits True arg opts"
| "set_option (Opt_W arg) opts = set_window_bits False arg opts"
| "set_option (Opt_H arg) opts = set_header arg opts"
| "set_option Opt_a opts = Go (opts\<lparr>opt_get_assets := True\<rparr>)"
| "set_option (Opt_d arg) opts = Go (opts\<lparr>opt_datafile := arg\<rparr>)"
| "set_option (Opt_m arg) opts = Go (map_cf (\<lambda>cf. cf\<lparr>cf_multiply := to_int32 (fst (strtoul arg))\<rparr>) opts)"
| "set_option (Opt_c arg) opts = set_header_table_size arg opts"
| "set_option Opt_unknown opts = Exit False"
| "set_option Opt_continuation opts = Go (map_cf (\<lambda>cf. cf\<lparr>cf_continuation := True\<rparr>) opts)"
| "set_option Opt_version opts = Exit True"
| "set_option Opt_no_content_length opts = Go (map_cf (\<lambda>cf. cf\<lparr>cf_no_content_length := True\<rparr>) opts)"
| "set_option Opt_no_dep opts = Go (map_cf (\<lambda>cf. cf\<lparr>cf_no_dep := True\<rparr>) opts)"
| "set_option (Opt_trailer arg) opts = set_trailer arg opts"
| "set_option Opt_no_push opts = Go (map_cf (\<lambda>cf. cf\<lparr>cf_no_push := True\<rparr>) opts)"
| "set_option (Opt_max_concurrent_streams arg) opts =
     Go (map_cf (\<lambda>cf. cf\<lparr>cf_max_concurrent_streams := fst (strtoul arg)\<rparr>) opts)"
| "set_option Opt_expect_continue opts = Go (map_cf (\<lambda>cf. cf\<lparr>cf_expect_continue := True\<rparr>) opts)"
| "set_option (Opt_encoder_header_table_size arg) opts = set_encoder_table_size arg opts"
| "set_option Opt_other opts = Go opts"

text \<open>The loop over the options.\<close>

fun parse_options :: "Client_Option list \<Rightarrow> Options \<Rightarrow> Outcome" where
  "parse_options [] opts = Go opts"
| "parse_options (x # xs) opts = (case set_option x opts of Go opts \<Rightarrow> parse_options xs opts | r \<Rightarrow> r)"

section \<open>What the options guarantee\<close>

text \<open>What every option keeps, the options keep together.\<close>

lemma parse_options_invariant:
  assumes "\<And>x opts opts'. I opts \<Longrightarrow> set_option x opts = Go opts' \<Longrightarrow> I opts'"
  shows "I opts \<Longrightarrow> parse_options xs opts = Go opts' \<Longrightarrow> I opts'"
proof (induction xs arbitrary: opts)
  case (Cons x xs)
  then show ?case using assms by (auto split: Outcome.splits)
qed simp

definition options_ok :: "Options \<Rightarrow> bool" where
  "options_ok opts \<longleftrightarrow> -1 \<le> cf_window_bits (opt_cf opts) \<and> cf_window_bits (opt_cf opts) \<le> 30 \<and>
     -1 \<le> cf_connection_window_bits (opt_cf opts) \<and> cf_connection_window_bits (opt_cf opts) \<le> 30 \<and>
     -1 \<le> cf_header_table_size (opt_cf opts) \<and> cf_header_table_size (opt_cf opts) < 2 ^ 32 \<and>
     0 \<le> cf_min_header_table_size (opt_cf opts) \<and> cf_min_header_table_size (opt_cf opts) < 2 ^ 32 \<and>
     (\<forall>w \<in> set (opt_weight opts). 1 \<le> w \<and> w \<le> 256)"

lemma map_cf_simps [simp]:
  "opt_cf (map_cf f opts) = f (opt_cf opts)" "opt_weight (map_cf f opts) = opt_weight opts"
  by (simp_all add: map_cf_def)

lemma strtoul_nonneg: "strtoul arg = (n, rest, b) \<Longrightarrow> 0 \<le> n"
  by (auto simp: strtoul_def ULONG_MAX_def Let_def split: prod.splits if_splits)

lemma parse_uint_nonneg: "parse_uint_with_unit s = v \<Longrightarrow> v \<noteq> -1 \<Longrightarrow> 0 \<le> v"
proof -
  have "0 \<le> number_of (takeWhile is_digit s)" by (rule number_of_nonneg) (auto dest: set_takeWhileD)
  moreover assume "parse_uint_with_unit s = v" "v \<noteq> -1"
  ultimately show "0 \<le> v"
    by (auto simp: parse_uint_by_unit Let_def dest: unit_mul_range split: if_splits list.splits option.splits)
qed

lemma set_option_ok:
  assumes "options_ok opts" "set_option x opts = Go opts'"
  shows "options_ok opts'"
proof (cases x)
  case (Opt_p arg)
  then show ?thesis using assms by (auto simp: set_weight_def options_ok_def split: prod.splits if_splits)
next
  case (Opt_t arg)
  then show ?thesis using assms by (auto simp: set_timeout_def options_ok_def split: option.splits)
next
  case (Opt_w arg)
  then show ?thesis using assms strtoul_nonneg [of arg]
    by (auto simp: set_window_bits_def options_ok_def split: prod.splits if_splits)
next
  case (Opt_W arg)
  then show ?thesis using assms strtoul_nonneg [of arg]
    by (auto simp: set_window_bits_def options_ok_def split: prod.splits if_splits)
next
  case (Opt_H arg)
  then show ?thesis using assms by (auto simp: set_header_def options_ok_def split: option.splits if_splits)
next
  case (Opt_c arg)
  then show ?thesis using assms parse_uint_nonneg [of arg]
    by (auto simp: set_header_table_size_def options_ok_def Let_def split: if_splits)
next
  case (Opt_trailer arg)
  then show ?thesis using assms by (auto simp: set_trailer_def options_ok_def split: option.splits if_splits)
next
  case (Opt_encoder_header_table_size arg)
  then show ?thesis using assms by (auto simp: set_encoder_table_size_def options_ok_def Let_def split: if_splits)
qed (use assms in \<open>auto simp: options_ok_def\<close>)

lemma options_init_ok: "options_ok (options_init version)"
  by (simp add: options_ok_def options_init_def)

lemma window_range:
  assumes "-1 \<le> (b :: int)" "b \<le> 30" "b \<noteq> -1"
  shows "0 \<le> (2 :: int) ^ nat b - 1 \<and> (2 :: int) ^ nat b - 1 \<le> 2 ^ 31 - 1"
proof -
  have "(2 :: int) ^ nat b \<le> 2 ^ 31" using assms by (intro power_increasing) simp_all
  then show ?thesis by simp
qed

text \<open>
  C28: Whatever options the client accepts, every value of its SETTINGS frame has 32 bits and the windows
  are at most \<open>2 ^ 31 - 1\<close>, as the protocol demands, and every URI gets a weight between 1 and 256.
\<close>

theorem settings_in_range:
  assumes "parse_options xs (options_init version) = Go opts"
  shows "list_all (\<lambda>(name, v). 0 \<le> v \<and> v < 2 ^ 32 \<and> (name = ''INITIAL_WINDOW_SIZE'' \<longrightarrow> v \<le> 2 ^ 31 - 1))
      (populate_settings (opt_cf opts)) \<and>
    (cf_connection_window_bits (opt_cf opts) \<noteq> -1 \<longrightarrow> 2 ^ nat (cf_connection_window_bits (opt_cf opts)) - 1 \<le> (2 :: int) ^ 31 - 1) \<and>
    list_all (\<lambda>w. 1 \<le> w \<and> w \<le> 256) (fill_weights (opt_weight opts) n)"
proof -
  have ok: "options_ok opts"
    by (rule parse_options_invariant [of options_ok, OF _ options_init_ok assms]) (rule set_option_ok)
  let ?cf = "opt_cf opts"
  have "list_all (\<lambda>w. 1 \<le> w \<and> w \<le> 256) (fill_weights (opt_weight opts) n)"
    using ok last_in_set [of "opt_weight opts"]
    by (auto simp: options_ok_def fill_weights_def list_all_iff DEFAULT_WEIGHT_def)
  moreover have "list_all (\<lambda>(name, v). 0 \<le> v \<and> v < 2 ^ 32 \<and> (name = ''INITIAL_WINDOW_SIZE'' \<longrightarrow> v \<le> 2 ^ 31 - 1))
      (populate_settings ?cf)"
    using ok window_range [of "cf_window_bits ?cf"]
    by (auto simp: options_ok_def populate_settings_def)
  ultimately show ?thesis using ok window_range [of "cf_connection_window_bits ?cf"] by (simp add: options_ok_def)
qed

section \<open>Header table sizes\<close>

definition sizes_of :: "Client_Option list \<Rightarrow> int list" where
  "sizes_of xs = [parse_uint_with_unit arg. Opt_c arg \<leftarrow> xs]"

lemma sizes_of_simps [simp]:
  "sizes_of [] = []" "sizes_of (Opt_c arg # xs) = parse_uint_with_unit arg # sizes_of xs"
  by (simp_all add: sizes_of_def)

lemma sizes_of_other: "(\<forall>arg. x \<noteq> Opt_c arg) \<Longrightarrow> sizes_of (x # xs) = sizes_of xs"
  by (cases x) (simp_all add: sizes_of_def)

lemma set_option_sizes:
  assumes "set_option x opts = Go opts'"
  shows "cf_header_table_size (opt_cf opts') = last (cf_header_table_size (opt_cf opts) # sizes_of [x]) \<and>
    cf_min_header_table_size (opt_cf opts') = fold min (sizes_of [x]) (cf_min_header_table_size (opt_cf opts)) \<and>
    (\<forall>v \<in> set (sizes_of [x]). 0 \<le> v \<and> v < 2 ^ 32)"
proof (cases "\<exists>arg. x = Opt_c arg")
  case True
  then obtain arg where x: "x = Opt_c arg" by blast
  then show ?thesis using assms parse_uint_nonneg [of arg]
    by (auto simp: set_header_table_size_def Let_def min.commute split: if_splits)
next
  case False
  then have "sizes_of [x] = []" by (simp add: sizes_of_other)
  with False assms show ?thesis
    by (cases x) (auto simp: set_weight_def set_timeout_def set_window_bits_def set_header_def set_trailer_def
      set_encoder_table_size_def Let_def split: prod.splits if_splits option.splits)
qed

lemma parse_options_sizes:
  "parse_options xs opts = Go opts' \<Longrightarrow>
     cf_header_table_size (opt_cf opts') = last (cf_header_table_size (opt_cf opts) # sizes_of xs) \<and>
     cf_min_header_table_size (opt_cf opts') = fold min (sizes_of xs) (cf_min_header_table_size (opt_cf opts)) \<and>
     (\<forall>v \<in> set (sizes_of xs). 0 \<le> v \<and> v < 2 ^ 32)"
proof (induction xs arbitrary: opts)
  case (Cons x xs)
  then obtain opts1 where o1: "set_option x opts = Go opts1" "parse_options xs opts1 = Go opts'"
    by (auto split: Outcome.splits)
  have split: "sizes_of (x # xs) = sizes_of [x] @ sizes_of xs" by (simp add: sizes_of_def)
  from set_option_sizes [OF o1(1)] Cons.IH [OF o1(2)] show ?case
    unfolding split by (cases "sizes_of xs") (auto simp del: sizes_of_simps)
qed simp

text \<open>
  With several header table sizes the client sends the last one, after the least of the others if
  that is less: what its help text says about \<^verbatim>\<open>--header-table-size\<close>.
\<close>

theorem header_table_settings:
  assumes "parse_options xs (options_init version) = Go opts" "sizes_of xs = ns @ [n]"
  shows "[v. (name, v) \<leftarrow> populate_settings (opt_cf opts), name = ''HEADER_TABLE_SIZE''] =
    (if ns \<noteq> [] \<and> Min (set ns) < n then [Min (set ns), n] else [n])"
proof -
  let ?cf = "opt_cf opts"
  note s = parse_options_sizes [OF assms(1), unfolded assms(2)]
  have n: "0 \<le> n" "n < 2 ^ 32" "cf_header_table_size ?cf = n" using s by simp_all
  have "cf_min_header_table_size ?cf = min n (fold min ns (2 ^ 32 - 1))"
    using s by (simp add: options_init_def)
  moreover have m: "fold min ns (2 ^ 32 - 1) = (if ns = [] then 2 ^ 32 - 1 else Min (set ns))"
  proof (cases ns)
    case (Cons a as)
    have "fold min ns (2 ^ 32 - 1) = Min (set ((2 ^ 32 - 1) # ns))" by (rule Min.set_eq_fold [symmetric])
    also have "\<dots> = Min (set ns)"
      using s by (auto simp: Cons intro!: min_absorb2 Min_le_iff [THEN iffD2])
    finally show ?thesis by (simp add: Cons)
  qed simp
  moreover define M where "M = Min (set ns)"
  moreover have "ns \<noteq> [] \<Longrightarrow> 0 \<le> M \<and> M < 2 ^ 32" using s by (auto simp: M_def Min_less_iff)
  ultimately have "cf_min_header_table_size ?cf = (if ns \<noteq> [] \<and> M < n then M else n)"
    "ns \<noteq> [] \<Longrightarrow> 0 \<le> M \<and> M < 2 ^ 32"
    using n by auto
  then show ?thesis unfolding M_def [symmetric] using n by (auto simp: populate_settings_def)
qed

section \<open>The whole command line\<close>

text \<open>
  The calls and the exit status. \<open>file_length\<close> opens the file of an upload; without one the length is
  never assigned, and is \<open>unset\<close>.
\<close>

definition client_main ::
  "(string \<Rightarrow> Url option) \<Rightarrow> (string \<Rightarrow> bool) \<Rightarrow> (Call \<Rightarrow> bool) \<Rightarrow> (string \<Rightarrow> int option) \<Rightarrow> int \<Rightarrow> string
     \<Rightarrow> Client_Option list \<Rightarrow> string list \<Rightarrow> (Call list \<times> nat) option" where
  "client_main parse ipv6 failed file_length unset version xs uris =
     (case parse_options xs (options_init version) of
        Undefined \<Rightarrow> None
      | Exit ok \<Rightarrow> Some ([], if ok then 0 else 1)
      | Go opts \<Rightarrow>
          let ws = fill_weights (opt_weight opts) (length uris) in
          if opt_datafile opts \<noteq> []
          then (case file_length (opt_datafile opts) of
              None \<Rightarrow> Some ([], 1)
            | Some len \<Rightarrow> run parse ipv6 failed ws True len uris)
          else run parse ipv6 failed ws False unset uris)"

lemma set_option_undefined: "set_option x opts = Undefined \<longleftrightarrow> x = Opt_H []"
  by (cases x) (auto simp: set_weight_def set_timeout_def set_window_bits_def set_header_def set_trailer_def
      set_header_table_size_def set_encoder_table_size_def Let_def split: prod.splits option.splits)

lemma parse_options_undefined:
  "parse_options xs opts = Undefined \<longleftrightarrow>
     (\<exists>ys zs opts'. xs = ys @ Opt_H [] # zs \<and> parse_options ys opts = Go opts')"
proof (induction xs arbitrary: opts)
  case (Cons x xs)
  show ?case
  proof (cases "set_option x opts")
    case Undefined
    then have "x = Opt_H []" by (simp add: set_option_undefined)
    then have "x # xs = [] @ Opt_H [] # xs \<and> parse_options [] opts = Go opts" by simp
    moreover have "parse_options (x # xs) opts = Undefined" using Undefined by simp
    ultimately show ?thesis by blast
  next
    case (Exit b)
    then have "x \<noteq> Opt_H []" using set_option_undefined [of x opts] by auto
    with Exit show ?thesis by (auto simp: Cons_eq_append_conv)
  next
    case (Go opts1)
    then have "x \<noteq> Opt_H []" using set_option_undefined [of x opts] by auto
    have "(\<exists>ys zs opts'. x # xs = ys @ Opt_H [] # zs \<and> parse_options ys opts = Go opts') \<longleftrightarrow>
        (\<exists>ys zs opts'. xs = ys @ Opt_H [] # zs \<and> parse_options ys opts1 = Go opts')" (is "?A \<longleftrightarrow> ?B")
    proof
      assume ?A
      then obtain ys zs opts' where a: "x # xs = ys @ Opt_H [] # zs" "parse_options ys opts = Go opts'" by blast
      then obtain ys' where "ys = x # ys'" using \<open>x \<noteq> Opt_H []\<close> by (cases ys) auto
      with a Go show ?B by auto
    next
      assume ?B
      then obtain ys zs opts' where "xs = ys @ Opt_H [] # zs" "parse_options ys opts1 = Go opts'" by blast
      with Go have "x # xs = (x # ys) @ Opt_H [] # zs" "parse_options (x # ys) opts = Go opts'" by simp_all
      then show ?A by blast
    qed
    with Go Cons.IH [of opts1] show ?thesis by simp
  qed
qed simp

text \<open>
  The client does nothing undefined with a command line, up to the connections it opens, unless an
  empty header is given after options that are accepted: \<^verbatim>\<open>-H ""\<close> is searched beyond its end.
\<close>

theorem command_line_undefined_iff:
  assumes "schemes_ok parse"
  shows "client_main parse ipv6 failed file_length unset version xs uris = None \<longleftrightarrow>
    (\<exists>ys zs opts. xs = ys @ Opt_H [] # zs \<and> parse_options ys (options_init version) = Go opts)"
proof -
  have "run parse ipv6 failed (fill_weights ws (length uris)) data len uris \<noteq> None" for ws data len
    using run_inv_end [OF assms, of ipv6 failed ws uris data len] by auto
  then have "client_main parse ipv6 failed file_length unset version xs uris = None \<longleftrightarrow>
      parse_options xs (options_init version) = Undefined"
    by (auto simp: client_main_def Let_def split: Outcome.splits option.splits)
  then show ?thesis by (simp only: parse_options_undefined)
qed

section \<open>Examples\<close>

definition demo_options :: "Client_Option list" where
  "demo_options = [Opt_p ''8'', Opt_w ''16'', Opt_c ''4K'', Opt_c ''1K'', Opt_c ''1M'', Opt_p ''32 '', Opt_no_push]"

definition demo_opts :: Options where
  "demo_opts = (options_init ''1.17.0'')\<lparr>opt_weight := [8, 32], opt_cf := (opt_cf (options_init ''1.17.0''))
     \<lparr>cf_window_bits := 16, cf_header_table_size := 2 ^ 20, cf_min_header_table_size := 2 ^ 10, cf_no_push := True\<rparr>\<rparr>"

lemma demo_sizes: "parse_uint_with_unit ''4K'' = 4096" "parse_uint_with_unit ''1K'' = 1024" "parse_uint_with_unit ''1M'' = 2 ^ 20"
  by code_simp+

lemma demo_numbers: "strtoul ''8'' = (8, [], True)" "strtoul ''16'' = (16, [], True)" "strtoul ''32 '' = (32, '' '', True)"
  by code_simp+

lemma demo_parsed: "parse_options demo_options (options_init ''1.17.0'') = Go demo_opts"
  by (simp add: demo_options_def demo_opts_def set_weight_def set_window_bits_def set_header_table_size_def demo_sizes
      demo_numbers map_cf_def options_init_def)

theorem settings_in_range_witness:
  "parse_options demo_options (options_init ''1.17.0'') = Go demo_opts \<and>
     list_all (\<lambda>(name, v). 0 \<le> v \<and> v < 2 ^ 32 \<and> (name = ''INITIAL_WINDOW_SIZE'' \<longrightarrow> v \<le> 2 ^ 31 - 1))
       (populate_settings (opt_cf demo_opts))"
  using settings_in_range [OF demo_parsed] demo_parsed by blast

theorem header_table_settings_witness:
  "[v. (name, v) \<leftarrow> populate_settings (opt_cf demo_opts), name = ''HEADER_TABLE_SIZE''] = [1024, 2 ^ 20]"
proof -
  have "sizes_of demo_options = [4096, 1024] @ [2 ^ 20]" by (simp add: sizes_of_def demo_options_def demo_sizes)
  from header_table_settings [OF demo_parsed this] show ?thesis by simp
qed

theorem command_line_undefined_iff_witness:
  "client_main run_parse (\<lambda>_. False) (\<lambda>_. False) (\<lambda>_. None) 0 ''1.17.0'' [Opt_no_push, Opt_H []] [] = None \<and>
     client_main run_parse (\<lambda>_. False) (\<lambda>_. False) (\<lambda>_. None) 0 ''1.17.0'' [Opt_H ''a:b''] [] \<noteq> None"
proof -
  have "\<exists>opts. parse_options [Opt_no_push] (options_init ''1.17.0'') = Go opts" by simp
  then have "\<exists>ys zs opts. [Opt_no_push, Opt_H []] = ys @ Opt_H [] # zs \<and> parse_options ys (options_init ''1.17.0'') = Go opts"
    by (intro exI [of _ "[Opt_no_push]"] exI [of _ "[]"]) simp
  moreover have "\<nexists>ys zs opts. [Opt_H ''a:b''] = ys @ Opt_H [] # zs \<and> parse_options ys (options_init ''1.17.0'') = Go opts"
    by (simp add: Cons_eq_append_conv)
  ultimately show ?thesis by (simp only: command_line_undefined_iff [OF run_parse_schemes] simp_thms)
qed

end
