(* ===== verification/Response_Headers.thy ===== *)
theory Response_Headers
  imports Http_Fields VR_Prelude
begin

text \<open>
  What the client keeps of a response: the callbacks of \<^verbatim>\<open>nghttp.cc\<close> for header lines, for complete
  header blocks and for promises, on the request they belong to. The library calls them for each
  stream in the order the theory's steps allow. \<open>None\<close> is a failed assertion or a read outside the
  list of header lines.
\<close>

section \<open>The callbacks\<close>

datatype Category = HCAT_REQUEST | HCAT_RESPONSE | HCAT_PUSH_RESPONSE | HCAT_HEADERS

datatype Request_State = INITIAL | ON_REQUEST | ON_RESPONSE | ON_COMPLETE

text \<open>
  The part of \<^verbatim>\<open>struct Request\<close> that responses change. The timer is absent, stopped or active;
  \<open>resets\<close> and \<open>continued\<close> are what the library and the event loop are told.
\<close>

record Response =
  level :: int
  res_nva :: "Header list"
  req_nva :: "Header list"
  res_hdidx :: Header_Index
  req_hdidx :: Header_Index
  header_buffer_size :: nat
  status :: int
  expect_final_response :: bool
  inflater :: bool
  html_parser :: bool
  continue_timer :: "bool option"
  progress :: Request_State
  resets :: "string list"
  continued :: nat

definition response_init :: "int \<Rightarrow> bool option \<Rightarrow> Response" where
  "response_init lev timer = \<lparr>level = lev, res_nva = [], req_nva = [], res_hdidx = init_hdidx, req_hdidx = init_hdidx,
     header_buffer_size = 0, status = 0, expect_final_response = False, inflater = False, html_parser = False,
     continue_timer = timer, progress = INITIAL, resets = [], continued = 0\<rparr>"

definition reset_with :: "string \<Rightarrow> Response \<Rightarrow> Response" where
  "reset_with e x = x\<lparr>resets := resets x @ [e]\<rparr>"

definition MAX_HEADERS :: nat where "MAX_HEADERS = 64 * 1024"

definition on_begin_headers :: "Category \<Rightarrow> Response \<Rightarrow> Response" where
  "on_begin_headers cat x =
     (if cat = HCAT_RESPONSE \<or> cat = HCAT_PUSH_RESPONSE then x\<lparr>progress := ON_RESPONSE\<rparr> else x)"

text \<open>A header line of a response, and one of a promise.\<close>

definition on_header_response :: "Category \<Rightarrow> string \<Rightarrow> string \<Rightarrow> bool \<Rightarrow> Response \<Rightarrow> Response" where
  "on_header_response cat name v no_index x =
     (if cat = HCAT_HEADERS \<and> \<not> expect_final_response x then x
      else if header_buffer_size x + length name + length v > MAX_HEADERS then reset_with ''INTERNAL_ERROR'' x
      else x\<lparr>header_buffer_size := header_buffer_size x + length name + length v,
             res_hdidx := index_header (res_hdidx x) (lookup_token name) (length (res_nva x)),
             res_nva := add_header (res_nva x) name v no_index\<rparr>)"

definition on_header_promise :: "string \<Rightarrow> string \<Rightarrow> bool \<Rightarrow> Response \<Rightarrow> Response" where
  "on_header_promise name v no_index x =
     (if header_buffer_size x + length name + length v > MAX_HEADERS then reset_with ''INTERNAL_ERROR'' x
      else x\<lparr>header_buffer_size := header_buffer_size x + length name + length v,
             req_hdidx := index_header (req_hdidx x) (lookup_token name) (length (req_nva x)),
             req_nva := add_header (req_nva x) name v no_index\<rparr>)"

definition get_res_header :: "Response \<Rightarrow> Token \<Rightarrow> Header option option" where
  "get_res_header x = get_indexed (res_hdidx x) (res_nva x)"

definition get_req_header :: "Response \<Rightarrow> Token \<Rightarrow> Header option option" where
  "get_req_header x = get_indexed (req_hdidx x) (req_nva x)"

text \<open>The last line that names an encoding decides whether the data are inflated.\<close>

definition is_gzip :: "Header list \<Rightarrow> bool" where
  "is_gzip nva = fold (\<lambda>nv gzip. if fst nv = ''content-encoding''
     then strieq ''gzip'' (fst (snd nv)) \<or> strieq ''deflate'' (fst (snd nv)) else gzip) nva False"

definition interim_response :: "int \<Rightarrow> Response \<Rightarrow> Response" where
  "interim_response st x =
     (let x = (if continue_timer x = Some True \<and> st = 100 then x\<lparr>continued := continued x + 1\<rparr> else x)
      in x\<lparr>expect_final_response := True, status := 0, res_nva := [], res_hdidx := init_hdidx\<rparr>)"

definition final_response :: "bool \<Rightarrow> Response \<Rightarrow> Response" where
  "final_response get_assets x =
     (let gzip = is_gzip (res_nva x);
          x = (if continue_timer x \<noteq> None then x\<lparr>continue_timer := Some False\<rparr> else x);
          x = (if gzip then x\<lparr>inflater := True\<rparr> else x)
      in if get_assets \<and> level x = 0 then x\<lparr>html_parser := True\<rparr> else x)"

definition check_response_header :: "bool \<Rightarrow> Response \<Rightarrow> Response option" where
  "check_response_header get_assets x = do {
     let x = x\<lparr>expect_final_response := False\<rparr>;
     status_hd \<leftarrow> get_res_header x HD__STATUS;
     Some (case status_hd of
       None \<Rightarrow> reset_with ''PROTOCOL_ERROR'' x
     | Some nv \<Rightarrow>
         (let st = parse_http_status_code (fst (snd nv)) in
          if st = -1 then reset_with ''PROTOCOL_ERROR'' x
          else if st div 100 = 1 then interim_response st (x\<lparr>status := st\<rparr>)
          else final_response get_assets (x\<lparr>status := st\<rparr>)))
   }"

text \<open>A complete block of header lines; the second result says that the stream succeeded.\<close>

definition recv_headers :: "bool \<Rightarrow> Category \<Rightarrow> bool \<Rightarrow> Response \<Rightarrow> (Response \<times> bool) option" where
  "recv_headers get_assets cat end_stream x =
     (let finish = (\<lambda>x. if end_stream then (x\<lparr>progress := ON_COMPLETE\<rparr>, True) else (x, False)) in
      if cat = HCAT_RESPONSE \<or> cat = HCAT_PUSH_RESPONSE then map_option finish (check_response_header get_assets x)
      else if cat = HCAT_HEADERS
      then (if expect_final_response x then map_option finish (check_response_header get_assets x)
            else if \<not> end_stream then Some (reset_with ''PROTOCOL_ERROR'' x, False)
            else Some (finish x))
      else None)"

text \<open>
  A complete promise: the client reads scheme, authority (or host) and path; \<open>None\<close> also stands for
  one that is missing, a null pointer that is read.
\<close>

definition promised_fields :: "Response \<Rightarrow> (string \<times> string \<times> string) option" where
  "promised_fields x = do {
     scheme \<leftarrow> get_req_header x HD__SCHEME;
     authority \<leftarrow> get_req_header x HD__AUTHORITY;
     path \<leftarrow> get_req_header x HD__PATH;
     authority \<leftarrow> (if authority = None then get_req_header x HD_HOST else Some authority);
     s \<leftarrow> scheme; a \<leftarrow> authority; p \<leftarrow> path;
     Some (fst (snd s), fst (snd a), fst (snd p))
   }"

definition recv_promise_headers :: "Response \<Rightarrow> Response" where
  "recv_promise_headers x = x\<lparr>header_buffer_size := 0\<rparr>"

section \<open>The life of a stream\<close>

text \<open>
  The states of a request, before (\<open>True\<close>) and after the promise it was announced with is complete; a
  request of the client has no promise.
\<close>

inductive stream_reach :: "bool \<Rightarrow> bool \<Rightarrow> Response \<Rightarrow> bool" for get_assets where
  request: "stream_reach get_assets False (response_init lev timer)"
| push: "stream_reach get_assets True (response_init 0 None)"
| promise_line: "stream_reach get_assets True x \<Longrightarrow> stream_reach get_assets True (on_header_promise name v no_index x)"
| promised: "stream_reach get_assets True x \<Longrightarrow> stream_reach get_assets False (recv_promise_headers x)"
| begins: "stream_reach get_assets False x \<Longrightarrow> stream_reach get_assets False (on_begin_headers cat x)"
| line: "stream_reach get_assets False x \<Longrightarrow>
    stream_reach get_assets False (on_header_response cat name v no_index x)"
| block: "stream_reach get_assets False x \<Longrightarrow> recv_headers get_assets cat end_stream x = Some (y, ok) \<Longrightarrow>
    stream_reach get_assets False y"

section \<open>What holds in every state\<close>

definition bytes :: "Header list \<Rightarrow> nat" where
  "bytes nva = (\<Sum>h \<leftarrow> nva. length (fst h) + length (fst (snd h)))"

lemma bytes_Nil [simp]: "bytes [] = 0"
  by (simp add: bytes_def)

lemma bytes_add_header: "bytes (add_header nva name v b) \<le> bytes nva + length name + length v"
proof -
  obtain w where "length w \<le> length v" "add_header nva name v b = nva @ [(name, w, b)]"
    using add_header_trims [of v nva name b] by auto
  then show ?thesis by (simp add: bytes_def)
qed

lemma indexed_add_header:
  assumes "indexed nva hdidx"
  shows "indexed (add_header nva name v b) (index_header hdidx (lookup_token name) (length nva))"
proof -
  obtain w where "add_header nva name v b = nva @ [(name, w, b)]" using add_header_trims [of v nva name b] by auto
  with indexed_snoc [OF assms, of "(name, w, b)"] show ?thesis by simp
qed

definition headers_inv :: "bool \<Rightarrow> Response \<Rightarrow> bool" where
  "headers_inv promise x \<longleftrightarrow> header_buffer_size x \<le> MAX_HEADERS \<and>
     bytes (req_nva x) \<le> (if promise then header_buffer_size x else MAX_HEADERS) \<and>
     bytes (res_nva x) \<le> header_buffer_size x \<and> (promise \<longrightarrow> res_nva x = []) \<and>
     indexed (res_nva x) (res_hdidx x) \<and> indexed (req_nva x) (req_hdidx x) \<and>
     (status x = 0 \<or> (200 \<le> status x \<and> status x \<le> 999))"

lemmas headers_inv_intros = bytes_add_header [THEN order_trans] indexed_add_header indexed_Nil

lemma check_response_inv:
  assumes "check_response_header get_assets x = Some y" "headers_inv False x"
  shows "headers_inv False y"
proof -
  let ?x = "x\<lparr>expect_final_response := False\<rparr>"
  have x: "headers_inv False ?x" using assms(2) by (simp add: headers_inv_def)
  from assms(1) consider "y = reset_with ''PROTOCOL_ERROR'' ?x"
    | st where "100 \<le> st" "st \<le> 999" "y = (if st div 100 = 1 then interim_response st (?x\<lparr>status := st\<rparr>)
        else final_response get_assets (?x\<lparr>status := st\<rparr>))"
    using parse_http_status_code_range
    by (fastforce simp: check_response_header_def Let_def split: bind_splits option.splits if_splits)
  then show ?thesis
  proof cases
    case 1
    then show ?thesis using x by (simp add: headers_inv_def reset_with_def)
  next
    case (2 st)
    show ?thesis
    proof (cases "st div 100 = 1")
      case True
      then show ?thesis using 2 x by (simp add: headers_inv_def interim_response_def indexed_Nil)
    next
      case False
      then have "200 \<le> st" using 2(1) by presburger
      then show ?thesis using 2 x False by (simp add: headers_inv_def final_response_def Let_def)
    qed
  qed
qed

lemma recv_headers_inv:
  assumes "recv_headers get_assets cat end_stream x = Some (y, ok)" "headers_inv False x"
  shows "headers_inv False y"
proof -
  have fin: "headers_inv False (z\<lparr>progress := ON_COMPLETE\<rparr>)" if "headers_inv False z" for z
    using that by (simp add: headers_inv_def)
  from assms(1) consider z where "headers_inv False z" "y = z \<or> y = z\<lparr>progress := ON_COMPLETE\<rparr>"
    | "y = reset_with ''PROTOCOL_ERROR'' x"
    using assms(2) check_response_inv [OF _ assms(2)]
    by (auto simp: recv_headers_def Let_def split: if_splits)
  then show ?thesis using fin assms(2) by cases (auto simp: headers_inv_def reset_with_def)
qed

lemma stream_reach_inv: "stream_reach get_assets promise x \<Longrightarrow> headers_inv promise x"
proof (induction rule: stream_reach.induct)
  case (promise_line x name v no_index)
  then show ?case
    by (auto simp: headers_inv_def on_header_promise_def reset_with_def intro: headers_inv_intros)
next
  case (line x cat name v no_index)
  then show ?case
    by (auto simp: headers_inv_def on_header_response_def reset_with_def intro: headers_inv_intros)
next
  case (block x cat end_stream y ok)
  show ?case by (rule recv_headers_inv [OF block(2,3)])
qed (auto simp: headers_inv_def response_init_def recv_promise_headers_def on_begin_headers_def indexed_Nil)

text \<open>
  C24: Whatever a server sends on a stream, the client keeps at most 64 kB of header lines of the
  response and as much of the promise, and as long as there are at most 32768 lines the indexed lookup
  stays inside the list and finds what a search for the last line of the name finds.
\<close>

theorem stream_headers:
  assumes "stream_reach get_assets promise x"
  shows "bytes (res_nva x) \<le> 65536 \<and> bytes (req_nva x) \<le> 65536 \<and>
    (length (res_nva x) \<le> 32768 \<longrightarrow> get_res_header x t = Some (get_header (res_nva x) (token_name t))) \<and>
    (length (req_nva x) \<le> 32768 \<longrightarrow> get_req_header x t = Some (get_header (req_nva x) (token_name t)))"
  using stream_reach_inv [OF assms] get_indexed_header
  by (auto simp: headers_inv_def MAX_HEADERS_def get_res_header_def get_req_header_def split: if_splits)

theorem stream_headers_witness:
  "\<exists>x. stream_reach True False x \<and> length (res_nva x) = 2 \<and>
     get_res_header x HD__STATUS = Some (Some ('':status'', ''200'', False))"
proof -
  let ?x = "on_header_response HCAT_RESPONSE ''server'' ''nghttpx'' False
    (on_header_response HCAT_RESPONSE '':status'' ''200'' False (response_init 0 None))"
  have r: "stream_reach True False ?x" by (intro stream_reach.line stream_reach.request)
  have v: "res_nva ?x = [('':status'', ''200'', False), (''server'', ''nghttpx'', False)]"
    by (simp add: on_header_response_def response_init_def MAX_HEADERS_def add_header_def blank_def Let_def)
  from stream_headers [OF r, of HD__STATUS] v have "get_res_header ?x HD__STATUS = Some (Some ('':status'', ''200'', False))"
    by (simp add: get_header_def)
  with r v show ?thesis by (intro exI [of _ ?x]) simp
qed

section \<open>Too many lines\<close>

text \<open>A promise without \<^verbatim>\<open>:authority\<close>, with \<open>n\<close> short lines before the host.\<close>

definition short_lines :: "nat \<Rightarrow> Response \<Rightarrow> Response" where
  "short_lines n = on_header_promise ''a'' [] False ^^ n"

definition flood :: "nat \<Rightarrow> Response" where
  "flood n = on_header_promise ''host'' ''h'' False (short_lines n
     (on_header_promise '':path'' ''/'' False (on_header_promise '':method'' ''GET'' False
       (on_header_promise '':scheme'' ''http'' False (response_init 0 None)))))"

lemma lookup_short [simp]: "lookup_token ''a'' = None"
  by (simp add: lookup_token_def token_rows_def)

lemma short_lines_values:
  assumes "header_buffer_size x + n \<le> MAX_HEADERS"
  shows "header_buffer_size (short_lines n x) = header_buffer_size x + n \<and> req_hdidx (short_lines n x) = req_hdidx x \<and>
    req_nva (short_lines n x) = req_nva x @ replicate n (''a'', [], False) \<and> resets (short_lines n x) = resets x"
  using assms
proof (induction n)
  case (Suc n)
  then show ?case
    by (simp add: short_lines_def on_header_promise_def index_header_def add_header_def replicate_append_same)
qed (simp add: short_lines_def)

lemma short_lines_reach: "stream_reach g True x \<Longrightarrow> stream_reach g True (short_lines n x)"
  by (induction n) (simp_all add: short_lines_def stream_reach.promise_line)

text \<open>
  C29: The index of header lines has 16 bits. A promise without \<^verbatim>\<open>:authority\<close> whose host comes after 32768
  lines or more (its scheme, method and path and at least 32765 others), all within the 64 kB the client accepts,
  makes the client read outside its list when it looks the host up, though
  a search of the list finds it, so that what it does with the promise is undefined.
\<close>

theorem host_out_of_range:
  assumes "32765 \<le> n" "n \<le> 65504"
  shows "stream_reach g True (flood n) \<and> resets (flood n) = [] \<and>
    get_header (req_nva (flood n)) ''host'' = Some (''host'', ''h'', False) \<and>
    get_req_header (flood n) HD_HOST = None \<and> promised_fields (flood n) = None"
proof -
  let ?x = "on_header_promise '':path'' ''/'' False (on_header_promise '':method'' ''GET'' False
       (on_header_promise '':scheme'' ''http'' False (response_init 0 None)))"
  have "stream_reach g True ?x" by (intro stream_reach.promise_line stream_reach.push)
  then have r: "stream_reach g True (flood n)"
    unfolding flood_def by (rule stream_reach.promise_line [OF short_lines_reach])
  have x: "header_buffer_size ?x = 27" "length (req_nva ?x) = 3" "resets ?x = []"
    by (simp_all add: on_header_promise_def response_init_def MAX_HEADERS_def add_header_def Let_def)
  have size: "header_buffer_size ?x + n \<le> MAX_HEADERS" using assms x(1) by (simp add: MAX_HEADERS_def)
  note v = short_lines_values [OF size]
  have host: "lookup_token ''host'' = Some HD_HOST" by (simp add: lookup_token_iff)
  have h: "add_header nva ''host'' ''h'' False = nva @ [(''host'', ''h'', False)]" for nva
    by (simp add: add_header_def blank_def Let_def)
  have fits: "\<not> header_buffer_size (short_lines n ?x) + length ''host'' + length ''h'' > MAX_HEADERS"
    using v x(1) assms(2) by (simp add: MAX_HEADERS_def)
  have f: "req_nva (flood n) = req_nva (short_lines n ?x) @ [(''host'', ''h'', False)]" "resets (flood n) = resets (short_lines n ?x)"
    "req_hdidx (flood n) HD_HOST = of_nat (length (req_nva (short_lines n ?x)))"
    using fits unfolding flood_def on_header_promise_def [of "''host''"] by (simp_all add: h host index_header_def)
  have "length (req_nva (short_lines n ?x)) = n + 3" using v x(2) by simp
  with f(3) get_indexed_overflow [of "req_hdidx (flood n)" HD_HOST "n + 3"] assms have "get_req_header (flood n) HD_HOST = None"
    by (simp add: get_req_header_def)
  moreover have "get_header (req_nva (flood n)) ''host'' = Some (''host'', ''h'', False)"
    unfolding f(1) by (subst get_header_snoc) simp
  moreover have "resets (flood n) = []" using f(2) v x(3) by simp
  moreover have "get_req_header (flood n) HD__AUTHORITY = Some None"
  proof -
    have "req_hdidx ?x HD__AUTHORITY = - 1"
      by (simp add: on_header_promise_def response_init_def index_header_def init_hdidx_def lookup_token_def
          token_rows_def MAX_HEADERS_def)
    with v h fits have "req_hdidx (flood n) HD__AUTHORITY = - 1"
      by (simp add: flood_def on_header_promise_def [of "''host''"] index_header_def host)
    then show ?thesis by (simp add: get_req_header_def get_indexed_def)
  qed
  ultimately show ?thesis using r by (auto simp: promised_fields_def split: bind_splits)
qed

theorem host_out_of_range_witness:
  "\<exists>x. stream_reach False True x \<and> resets x = [] \<and> get_req_header x HD_HOST = None \<and>
     promised_fields x = None"
  using host_out_of_range [of 40000 False] by auto

end
