(* ===== verification/Spec2Isabelle.thy ===== *)
theory Spec2Isabelle
  imports Vmask_Ext Rect_Extension Layer_Bounds Version_Round Session_Metrics Redecision Round_Delivery
     Viewport_Sense Manifest_File Single_Push Client_Utilities Client_Options Response_Headers
begin

text \<open>
  A verification development for the viewport-adaptive streaming of 360-degree video over HTTP/2 in
  this repository. The video is cut into segments, the picture into tiles, each tile is encoded in a
  base layer and enhancement layers. The client (a fork of \<^verbatim>\<open>nghttp\<close>) requests layers tile by tile,
  guided by a trace of the viewer's head, and plays what has arrived; the server answers one request
  per tile and layer, or pushes several segments per request.

  \<^bold>\<open>The program and the theories.\<close> Paths are below \<^verbatim>\<open>src/client/src/src\<close> unless they start with \<^verbatim>\<open>src/\<close>.

  \<^item> Which tiles are neighbours (\<^verbatim>\<open>Projection.cpp\<close>): \<open>Projection_Grid\<close> holds the equirectangular grids,
    \<open>Cube_Map\<close> the table of the cube map. \<open>Ring_Extension\<close> grows a mask by rings over any neighbour
    function (locales \<open>tile_adjacency\<close> and \<open>symmetric_adjacency\<close>), \<open>Vmask_Ext\<close> instantiates it with
    \<^verbatim>\<open>getAdjacentTile\<close>; \<open>Rect_Extension\<close> is the older \<^verbatim>\<open>extVmask2\<close> on one rectangular face.
  \<^item> What the viewer sees (\<^verbatim>\<open>duc_metric.h\<close>): \<open>Visible_Tiles\<close> holds the mask and the head trace with
    their loaders, \<open>Viewport_Sense\<close> what a decision reads from them.
  \<^item> What has arrived and what plays (\<^verbatim>\<open>duc_metric.h\<close>): \<open>Segment_Buffer\<close> is class \<^verbatim>\<open>Buffer\<close> (locale
    \<open>layer_store\<close>), \<open>Playback\<close>
    the thread of class \<^verbatim>\<open>Player\<close> as a state machine, \<open>Segment_Quality\<close> the quality it reports.
  \<^item> What is requested (\<^verbatim>\<open>nghttp.cc\<close>): \<open>Tile_Priority\<close>, \<open>Layer_Fill\<close> and \<open>Exhaustive_Alloc\<close> are the loops
    that choose layers (the request primitive is the locale \<open>request_sink\<close>), \<open>Download_Client\<close> the
    engine's state and that primitive, \<open>Adaptation\<close> the engines \<^verbatim>\<open>MMSP\<close> and \<^verbatim>\<open>UTD2017_adaptation_vr\<close>
    with all their algorithms. \<open>Engine_Steps\<close> says once what any decision preserves (locales
    \<open>engine_invariant\<close> and \<open>decision_invariant\<close>); \<open>Engine_Bookkeeping\<close>, \<open>Round_Requests\<close>,
    \<open>Version_Round\<close> and \<open>Layer_Bounds\<close> use it and say what each algorithm requests.
  \<^item> What the network reports (\<^verbatim>\<open>nghttp.cc\<close>): \<open>Stream_Close\<close> is \<^verbatim>\<open>on_stream_close_callback\<close>,
    \<open>Data_Frames\<close> is \<^verbatim>\<open>on_frame_recv_callback2\<close> with \<^verbatim>\<open>trung_adaptation\<close>, the second decision of a
    round; \<open>Redecision\<close> says what frames do to a round (locale \<open>frame_invariant\<close>).
  \<^item> The whole client: \<open>Round_Delivery\<close> follows a round from its requests to the versions the player
    reads, \<open>Client_Session\<close> interleaves the playback thread with the callbacks of the network thread,
    \<open>Session_Rounds\<close> counts the rounds of a session and concludes that its steps are defined,
    \<open>Session_Player\<close> that the player of a session is a run of the playback machine. The machine logs
    its calls of \<^verbatim>\<open>calc_metric\<close>; \<open>Metric_Calls\<close> follows them through that run and runs them with the body of
    \<open>Segment_Quality\<close> (\<open>metric_pass\<close>, \<open>final_metrics\<close>, \<open>metric_reach\<close>), and \<open>Session_Metrics\<close> goes from base
    layers that arrive in time, over the versions in the buffer when a segment starts (\<open>started_with\<close>), to the
    qualities the session reports.
  \<^item> Requests and responses over HTTP (\<^verbatim>\<open>nghttp.cc\<close>, \<^verbatim>\<open>util.cc\<close>, \<^verbatim>\<open>util.h\<close>, \<^verbatim>\<open>http2.cc\<close>): \<open>Http_Fields\<close> holds the
    fields of URIs and header lines, \<open>Client_Options\<close> what \<^verbatim>\<open>main\<close> makes of options, \<open>Client_Run\<close> goes from the command line to the connections (\<^verbatim>\<open>run\<close>,
    \<^verbatim>\<open>communicate\<close>), \<open>Request_Exchange\<close> from a connection to its streams (\<^verbatim>\<open>connection_made\<close>,
    \<^verbatim>\<open>submit_request\<close>) and shows that the request primitive of \<open>Download_Client\<close> is what
    \<^verbatim>\<open>send_get_request\<close> does and that the server understands it; \<open>Response_Headers\<close> are the callbacks for
    header lines. The HTTP/2 library is the record \<open>Library\<close> of the functions the client calls, with
    \<open>library_ok\<close> for what it documents about the numbers of streams.
  \<^item> Text (\<^verbatim>\<open>duc_metric.h\<close>, \<^verbatim>\<open>nghttp.cc\<close>): \<open>Decimal_Text\<close> holds the string operations, \<open>Manifest_File\<close>
    the configuration file.
  \<^item> Helpers (\<^verbatim>\<open>Tile.h\<close>, a copy of \<^verbatim>\<open>common.cc\<close>): \<open>Client_Utilities\<close>.
  \<^item> The servers: \<open>Tile_Server\<close> is \<^verbatim>\<open>src/server/src/server_6f_2x2_v2.cpp\<close> with the multiplexer of
    \<^verbatim>\<open>asio_server_serve_mux.cc\<close> and the path the client writes; \<open>Push_Server\<close> is
    \<^verbatim>\<open>src/server/src/server.cpp\<close> with the parsers by which the client reads the paths of pushes,
    \<open>Single_Push\<close> the variant \<^verbatim>\<open>server_6f_2x2.cpp\<close> that pushes one segment per request.

  \<^bold>\<open>Conventions.\<close> A result \<open>None\<close> is undefined behaviour or an exception of the code: an index outside
  its array, a read of a variable that was never assigned, a division by zero, a failed \<^verbatim>\<open>stoi\<close>. So a
  theorem that shows \<open>Some\<close> also shows that the code is defined there, with two exceptions that hold
  throughout.

  \<^item> Console output is outside the model: \<open>Some\<close> says nothing of a read that only a print makes. Two
    such reads can leave their arrays, the loop over 25 pixel counts in the engines (\<open>print_pixels\<close>) and the
    bitrate printed before a request of the second decision (\<open>print_layer_br\<close>). They are defined beside
    the operations, and the theorems on the decisions (\<open>session_ALG5_goes_on\<close>, \<open>redecision_requests\<close>) say when
    they stay inside. They are no steps of the engines, because the first would leave no decision for the 24
    tiles of the configurations that come with the program.
  \<^item> A cell of an array that is allocated, but not assigned yet when the code compares it or adds to it,
    holds an arbitrary value, which the event or the state supplies, and the theorems hold for all of them: the
    playback deadlines before the start (\<open>late_if_unassigned\<close>, \<open>fr_past_if_unassigned\<close>: the outcome of the
    comparison, so that a NaN is covered), \<open>face_dow_data\<close>, \<open>iter_re_decide\<close>, \<open>q_vp_err_tile\<close>, and the
    smoothed bitrate that iteration 0 reads from before its array. Every session
    compares deadlines before playback starts, so with \<open>None\<close> there would be no session. Whatever else is
    read unassigned is \<open>None\<close>.

  Arrays are lists whose length is
  their capacity, three-dimensional arrays are partial maps checked against their dimensions. The
  integers of the code stay far below the bounds of their types and are \<open>int\<close>; doubles are rationals,
  and real numbers where a square root is taken. The callbacks of the two threads are atomic. What the
  HTTP/2 library, the clock and the operating system deliver are events: the records \<open>Sense\<close>,
  \<open>Close\<close>, \<open>Frame\<close>, \<open>Promise\<close>. Loops that the code bounds are recursions on their list; no fuel is
  needed.

  \<^bold>\<open>What the lemmas show.\<close> The geometry is specified by coordinates and distances and holds for every
  size; where a fixed array is too small, the exact bound is a theorem. The buffer refines the set of
  deliveries; the player conserves time; the engines keep the bookkeeping of streams that the close
  callback relies on; a round delivers what it requested. The theorems of kind error are behaviours
  that deserve attention: they hold for the code as it is.

  \<^bold>\<open>Not modelled.\<close> The HTTP/2 library and everything that came with it (\<^verbatim>\<open>lib\<close>, \<^verbatim>\<open>shrpx\<close>, \<^verbatim>\<open>h2load\<close>,
  \<^verbatim>\<open>nghttpd\<close>, the \<^verbatim>\<open>asio\<close> wrapper but for its multiplexer, \<^verbatim>\<open>http-parser\<close>, the Python bindings): it is
  third-party code that the program calls, but for the functions of \<^verbatim>\<open>util\<close> and \<^verbatim>\<open>http2\<close> that requests and
  responses pass through. Sockets, TLS, timers of the event loop and HAR output
  that \<^verbatim>\<open>nghttp.cc\<close> inherits, console output, log files, and the allocation of arrays are input and output only. The
  directory \<^verbatim>\<open>backup\<close> holds older copies that are not built.
\<close>

end
